(* ===== verification/Prelude.thy ===== *)
theory Prelude
  imports Main "HOL-Library.Word" "HOL-Library.Monad_Syntax"
begin

text \<open>
  Shared vocabulary of the development: names for the C integer types, reads and writes
  of C objects that fail (\<open>None\<close>) outside the object, unsigned 64-bit arithmetic written
  out over \<open>nat\<close>, the errno values the sources use, and the generic lemmas the component
  theories share.
\<close>

unbundle bit_operations_syntax

named_theorems width_simps \<open>facts that move machine words to numbers\<close>
named_theorems wrap_simps \<open>facts that evaluate 64-bit wrap-around where no carry is lost\<close>

type_synonym u8 = "8 word"
type_synonym u16 = "16 word"
type_synonym u32 = "32 word"
type_synonym u64 = "64 word"
type_synonym size_t = "64 word"

subsection \<open>C objects as lists\<close>

text \<open>
  A pointer into an object is the list of the elements from the pointer to the end of the
  object. Reading or writing past the end is undefined behaviour in C and \<open>None\<close> here.
\<close>

definition rd :: "'a list \<Rightarrow> nat \<Rightarrow> 'a option" where
  "rd xs i = (if i < length xs then Some (xs ! i) else None)"

definition wr :: "'a list \<Rightarrow> nat \<Rightarrow> 'a \<Rightarrow> 'a list option" where
  "wr xs i v = (if i < length xs then Some (xs[i := v]) else None)"

lemma rd_Some [simp]: "i < length xs \<Longrightarrow> rd xs i = Some (xs ! i)"
  by (simp add: rd_def)

lemma rd_None [simp]: "length xs \<le> i \<Longrightarrow> rd xs i = None"
  by (simp add: rd_def)

lemma rd_Cons_0 [simp]: "rd (x # xs) 0 = Some x"
  by (simp add: rd_def)

lemma rd_Cons_Suc [simp]: "rd (x # xs) (Suc i) = rd xs i"
  by (simp add: rd_def)

lemma rd_Nil [simp]: "rd [] i = None"
  by (simp add: rd_def)

lemma rd_eq_Some: "rd xs i = Some v \<longleftrightarrow> i < length xs \<and> xs ! i = v"
  by (auto simp: rd_def)

lemma wr_Some [simp]: "i < length xs \<Longrightarrow> wr xs i v = Some (xs[i := v])"
  by (simp add: wr_def)

lemma wr_None [simp]: "length xs \<le> i \<Longrightarrow> wr xs i v = None"
  by (simp add: wr_def)

lemma wr_eq_Some: "wr xs i v = Some ys \<longleftrightarrow> i < length xs \<and> ys = xs[i := v]"
  by (auto simp: wr_def)

lemma length_wr: "wr xs i v = Some ys \<Longrightarrow> length ys = length xs"
  by (auto simp: wr_eq_Some)

subsection \<open>The object interface\<close>

text \<open>
  What the wide-character routines rely on when they read and write an object: a write is
  seen by the next read of the same element and by no other, and it does not resize the
  object.
\<close>

locale c_object =
  fixes get :: "'o \<Rightarrow> nat \<Rightarrow> 'a option"
    and put :: "'o \<Rightarrow> nat \<Rightarrow> 'a \<Rightarrow> 'o option"
    and size_of :: "'o \<Rightarrow> nat"
  assumes get_defined: "(\<exists>v. get ob i = Some v) \<longleftrightarrow> i < size_of ob"
    and put_defined: "(\<exists>ob'. put ob i v = Some ob') \<longleftrightarrow> i < size_of ob"
    and get_put: "put ob i v = Some ob' \<Longrightarrow> get ob' j = (if j = i then Some v else get ob j)"
    and size_put: "put ob i v = Some ob' \<Longrightarrow> size_of ob' = size_of ob"
begin

lemma get_None: "get ob i = None \<longleftrightarrow> size_of ob \<le> i"
  using get_defined [of ob i] by (cases "get ob i") auto

lemma put_None: "put ob i v = None \<longleftrightarrow> size_of ob \<le> i"
  using put_defined [of ob i v] by (cases "put ob i v") auto

lemma put_get_same: "put ob i v = Some ob' \<Longrightarrow> get ob' i = Some v"
  by (simp add: get_put)

lemma put_get_other: "put ob i v = Some ob' \<Longrightarrow> j \<noteq> i \<Longrightarrow> get ob' j = get ob j"
  by (simp add: get_put)

end

interpretation list_object: c_object rd wr length
  by unfold_locales (auto simp: rd_def wr_def nth_list_update split: if_splits)

subsection \<open>Unsigned 64-bit arithmetic over nat\<close>

definition w64 :: "nat \<Rightarrow> nat" where
  "w64 n = n mod 2 ^ 64"

definition add64 :: "nat \<Rightarrow> nat \<Rightarrow> nat" where
  "add64 a b = w64 (a + b)"

definition sub64 :: "nat \<Rightarrow> nat \<Rightarrow> nat" where
  "sub64 a b = w64 (a + 2 ^ 64 - b)"

text \<open>\<open>(n + (to - 1)) & ~(to - 1)\<close> for a power of two \<open>to\<close>, on \<open>size_t\<close>.\<close>

definition round_up64 :: "nat \<Rightarrow> nat \<Rightarrow> nat" where
  "round_up64 n to = add64 n (to - 1) div to * to"

definition round_down64 :: "nat \<Rightarrow> nat \<Rightarrow> nat" where
  "round_down64 n to = n div to * to"

lemma w64_small [wrap_simps]: "n < 2 ^ 64 \<Longrightarrow> w64 n = n"
  by (simp add: w64_def)

lemma w64_bound [simp]: "w64 n < 2 ^ 64"
  by (simp add: w64_def)

lemma add64_small [wrap_simps]: "a + b < 2 ^ 64 \<Longrightarrow> add64 a b = a + b"
  by (simp add: add64_def w64_def)

lemma sub64_small [wrap_simps]: "b \<le> a \<Longrightarrow> a < 2 ^ 64 \<Longrightarrow> sub64 a b = a - b"
  by (simp add: sub64_def w64_def mod_add_self2 flip: add_diff_assoc2)

lemma round_up64_small [wrap_simps]:
  "n + (to - 1) < 2 ^ 64 \<Longrightarrow> round_up64 n to = (n + (to - 1)) div to * to"
  by (simp add: round_up64_def add64_small)

lemma round_up_ge: "0 < to \<Longrightarrow> n \<le> (n + (to - 1)) div to * (to::nat)"
proof -
  assume "0 < to"
  have "(n + (to - 1)) div to * to + (n + (to - 1)) mod to = n + (to - 1)"
    by (rule div_mult_mod_eq)
  moreover have "(n + (to - 1)) mod to < to" using \<open>0 < to\<close> by simp
  ultimately show ?thesis by linarith
qed

lemma round_up_le: "(n + (to - 1)) div to * to \<le> n + (to - 1::nat)"
  by simp

lemma round_up64_dvd: "to dvd round_up64 n to"
  by (simp add: round_up64_def)

lemma round_down64_le: "round_down64 n to \<le> n"
  by (simp add: round_down64_def)

subsection \<open>Little-endian bytes and byte memory\<close>

fun le_bytes :: "nat \<Rightarrow> nat \<Rightarrow> nat list" where
  "le_bytes 0 n = []"
| "le_bytes (Suc k) n = n mod 256 # le_bytes k (n div 256)"

fun le_value :: "nat list \<Rightarrow> nat" where
  "le_value [] = 0"
| "le_value (b # bs) = b + 256 * le_value bs"

lemma length_le_bytes [simp]: "length (le_bytes k n) = k"
  by (induction k arbitrary: n) auto

lemma le_value_bytes: "le_value (le_bytes k n) = n mod 256 ^ k"
proof (induction k arbitrary: n)
  case (Suc k)
  have "n mod (256 * 256 ^ k) = 256 * (n div 256 mod 256 ^ k) + n mod 256"
    by (rule mod_mult2_eq)
  with Suc show ?case by simp
qed simp

type_synonym memory = "nat \<Rightarrow> nat"

text \<open>Byte-addressed memory; writes and reads of consecutive bytes.\<close>

definition mem_write :: "nat \<Rightarrow> nat list \<Rightarrow> memory \<Rightarrow> memory" where
  "mem_write a bs m = (\<lambda>x. if a \<le> x \<and> x < a + length bs then bs ! (x - a) else m x)"

definition mem_read :: "nat \<Rightarrow> nat \<Rightarrow> memory \<Rightarrow> nat list" where
  "mem_read a n m = map m [a..<a + n]"

lemma mem_read_write_same: "length bs = n \<Longrightarrow> mem_read a n (mem_write a bs m) = bs"
  by (auto simp: mem_read_def mem_write_def intro!: nth_equalityI)

lemma mem_read_write_other:
  "a + n \<le> b \<or> b + length bs \<le> a \<Longrightarrow> mem_read a n (mem_write b bs m) = mem_read a n m"
  by (auto simp: mem_read_def mem_write_def)

subsection \<open>errno\<close>

text \<open>The FreeBSD numbers this SDK's \<open>bits/errno.h\<close> carries.\<close>

definition EPERM :: int where "EPERM = 1"
definition EIO :: int where "EIO = 5"
definition EFAULT :: int where "EFAULT = 14"
definition EEXIST :: int where "EEXIST = 17"
definition EINVAL :: int where "EINVAL = 22"
definition EAGAIN :: int where "EAGAIN = 35"
definition ENOTSUP :: int where "ENOTSUP = 45"
definition ETIMEDOUT :: int where "ETIMEDOUT = 60"
definition ENOSYS :: int where "ENOSYS = 78"
definition EOVERFLOW :: int where "EOVERFLOW = 84"
definition EILSEQ :: int where "EILSEQ = 86"

lemmas errno_defs = EPERM_def EIO_def EFAULT_def EEXIST_def EINVAL_def EAGAIN_def ENOTSUP_def
  ETIMEDOUT_def ENOSYS_def EOVERFLOW_def EILSEQ_def

end
