(* ===== verification/Utf8.thy ===== *)
theory Utf8
  imports Prelude
begin

text \<open>
  The UTF-8 decoder and encoder of \<open>src/orbis_wchar32.c\<close>: the state table \<open>bittab\<close>,
  the restartable decoder \<open>mbrtowc\<close>, its one-shot variant \<open>mbtowc\<close>, the encoder
  \<open>wcrtomb\<close> and the \<open>char16_t\<close>/\<open>char32_t\<close> conversions built on them. A byte pointer is
  the list of bytes from the pointer to the end of its object, \<open>None\<close> is the null pointer,
  and an outer \<open>None\<close> result means a read past the object.
\<close>

unbundle bit_operations_syntax

section \<open>State table\<close>

text \<open>\<open>R(a,b)\<close>: the interval \<open>[a,b)\<close> packed into the top bits.\<close>

definition R_range :: "u32 \<Rightarrow> u32 \<Rightarrow> u32" where
  "R_range a b = push_bit 23 (if a = 0x80 then 0x40 - b else 0 - a)"

definition SA :: u32 where "SA = 0xc2"
definition SB :: u32 where "SB = 0xf4"

text \<open>The table macros \<open>C\<close>, \<open>D\<close>, \<open>E\<close> and \<open>F\<close>.\<close>

definition C_entry :: "u32 \<Rightarrow> u32" where
  "C_entry x = (if x < 2 then -1 else R_range 0x80 0xc0 OR x)"

definition D_entry :: "u32 \<Rightarrow> u32" where
  "D_entry x = C_entry (x + 16)"

definition E_entry :: "u32 \<Rightarrow> u32" where
  "E_entry x =
     (if x = 0 then R_range 0xa0 0xc0
      else if x = 0xd then R_range 0x80 0xa0
      else R_range 0x80 0xc0) OR drop_bit 6 (R_range 0x80 0xc0) OR x"

definition F_entry :: "u32 \<Rightarrow> u32" where
  "F_entry x =
     (if x \<ge> 5 then 0
      else if x = 0 then R_range 0x90 0xc0
      else if x = 4 then R_range 0x80 0x90
      else R_range 0x80 0xc0)
     OR drop_bit 6 (R_range 0x80 0xc0) OR drop_bit 12 (R_range 0x80 0xc0) OR x"

definition bittab :: "u32 list" where
  "bittab =
     map (\<lambda>i. C_entry (word_of_nat i)) [2..<16] @
     map (\<lambda>i. D_entry (word_of_nat i)) [0..<16] @
     map (\<lambda>i. E_entry (word_of_nat i)) [0..<16] @
     map (\<lambda>i. F_entry (word_of_nat i)) [0..<5]"

text \<open>
  \<open>OOB(c,b)\<close>: whether the byte \<open>b\<close> lies outside the interval the state \<open>c\<close> carries.
  The operands are \<open>int\<close>, so the shift of the state is arithmetic.
\<close>

definition OOB :: "u32 \<Rightarrow> u8 \<Rightarrow> bool" where
  "OOB c b =
     ((((drop_bit 3 (ucast b) - 0x10) OR (drop_bit 3 (ucast b) + signed_drop_bit 26 c))
       AND NOT 7) \<noteq> (0 :: u32))"

text \<open>\<open>*s-SA > SB-SA\<close> and \<open>*s-0x80u >= 0x40\<close>, both unsigned.\<close>

definition bad_lead :: "u8 \<Rightarrow> bool" where
  "bad_lead b = (ucast b - SA > SB - SA)"

definition bad_cont :: "u8 \<Rightarrow> bool" where
  "bad_cont b = ((ucast b :: u32) - 0x80 \<ge> 0x40)"

definition lead_state :: "u8 \<Rightarrow> u32" where
  "lead_state b = bittab ! unat (ucast b - SA)"

text \<open>\<open>c<<6 | (*s++-0x80)\<close>\<close>

definition shift_in :: "u32 \<Rightarrow> u8 \<Rightarrow> u32" where
  "shift_in c b = push_bit 6 c OR (ucast b - 0x80)"

definition pending_bit :: "u32 \<Rightarrow> bool" where
  "pending_bit c = (c AND push_bit 31 1 \<noteq> 0)"

section \<open>Single-character functions\<close>

text \<open>The hidden static objects of the file and \<open>errno\<close>.\<close>

record mb_globals =
  errno :: int
  mbrtowc_internal :: u32
  mbrlen_internal :: u32
  c16rtomb_internal :: u32
  mbrtoc16_internal :: u32
  mbrtoc32_internal :: u32

text \<open>Static objects start at zero.\<close>

definition mb_init :: mb_globals where
  "mb_init = \<lparr>errno = 0, mbrtowc_internal = 0, mbrlen_internal = 0, c16rtomb_internal = 0,
     mbrtoc16_internal = 0, mbrtoc32_internal = 0\<rparr>"

definition ctype_get_mb_cur_max :: size_t where
  "ctype_get_mb_cur_max = 4"

definition W32_WEOF :: u32 where "W32_WEOF = 0xffffffff"

definition btowc :: "u32 \<Rightarrow> u32" where
  "btowc c = (let b = (ucast (ucast c :: u8) :: u32) in if b < 128 then b else W32_WEOF)"

definition wctob :: "u32 \<Rightarrow> int" where
  "wctob c = (if c < 128 then uint c else -1)"

text \<open>
  How one decoding attempt ends: the character was complete (its value, the new state and
  the remaining count), the input ended inside it (the state to resume from), or the bytes
  are ill-formed.
\<close>

datatype mb_step = Complete u32 nat | Partial u32 | Ilseq

text \<open>The \<open>loop:\<close> label of \<open>mbrtowc\<close>; the byte at \<open>s\<close> has been checked.\<close>

fun mbrtowc_loop :: "u8 list \<Rightarrow> nat \<Rightarrow> u32 \<Rightarrow> mb_step option" where
  "mbrtowc_loop [] n c = None"
| "mbrtowc_loop (b # s) n c =
     (let c' = shift_in c b; n' = n - 1 in
      if \<not> pending_bit c' then Some (Complete c' n')
      else if n' \<noteq> 0 then
        (case s of [] \<Rightarrow> None
         | b' # _ \<Rightarrow> if bad_cont b' then Some Ilseq else mbrtowc_loop s n' c')
      else Some (Partial c'))"

definition mbrtowc_resume :: "u8 list \<Rightarrow> nat \<Rightarrow> u32 \<Rightarrow> mb_step option" where
  "mbrtowc_resume s n c =
     (if n \<noteq> 0 then
        do { b \<leftarrow> rd s 0;
             if OOB c b then Some Ilseq else mbrtowc_loop s n c }
      else Some (Partial c))"

text \<open>
  The body of \<open>mbrtowc\<close> after the state cell has been chosen: result, stored wide
  character, new contents of the state cell, and whether \<open>errno\<close> is set to \<open>EILSEQ\<close>.
\<close>

definition mbrtowc_core ::
  "u8 list option \<Rightarrow> nat \<Rightarrow> u32 \<Rightarrow> (size_t \<times> u32 option \<times> u32 \<times> bool) option" where
  "mbrtowc_core src n c =
     (let ilseq = Some (-1, None, 0, True);
          finish = (\<lambda>r. case r of
              Complete w n' \<Rightarrow> Some (word_of_nat (n - n'), Some w, 0, False)
            | Partial c' \<Rightarrow> Some (-2, None, c', False)
            | Ilseq \<Rightarrow> ilseq)
      in case src of
        None \<Rightarrow> if c \<noteq> 0 then ilseq else Some (0, None, c, False)
      | Some s \<Rightarrow>
          if n = 0 then Some (-2, None, c, False)
          else if c = 0 then
            do { b \<leftarrow> rd s 0;
                 if b < 0x80 then Some (if b = 0 then 0 else 1, Some (ucast b), c, False)
                 else if bad_lead b then ilseq
                 else mbrtowc_resume (tl s) (n - 1) (lead_state b) \<bind> finish }
          else mbrtowc_resume s n c \<bind> finish)"

definition mbrtowc ::
  "u8 list option \<Rightarrow> nat \<Rightarrow> u32 option \<Rightarrow> mb_globals \<Rightarrow>
   (size_t \<times> u32 option \<times> u32 option \<times> mb_globals) option" where
  "mbrtowc src n st g =
     do { (r, w, c', e) \<leftarrow> mbrtowc_core src n (case st of Some c \<Rightarrow> c | None \<Rightarrow> mbrtowc_internal g);
          let g1 = (if e then g\<lparr>errno := EILSEQ\<rparr> else g);
          Some (case st of
              Some _ \<Rightarrow> (r, w, Some c', g1)
            | None \<Rightarrow> (r, w, None, g1\<lparr>mbrtowc_internal := c'\<rparr>)) }"

definition mbrlen ::
  "u8 list option \<Rightarrow> nat \<Rightarrow> u32 option \<Rightarrow> mb_globals \<Rightarrow>
   (size_t \<times> u32 option \<times> mb_globals) option" where
  "mbrlen s n st g =
     do { (r, _, c', g') \<leftarrow> mbrtowc s n (case st of Some c \<Rightarrow> Some c | None \<Rightarrow> Some (mbrlen_internal g)) g;
          Some (case st of
              Some _ \<Rightarrow> (r, c', g')
            | None \<Rightarrow> (r, None, g'\<lparr>mbrlen_internal := the c'\<rparr>)) }"

text \<open>\<open>mbtowc\<close>: result, stored wide character, whether \<open>errno\<close> is set to \<open>EILSEQ\<close>.\<close>

definition mbtowc :: "u8 list option \<Rightarrow> nat \<Rightarrow> (int \<times> u32 option \<times> bool) option" where
  "mbtowc src n =
     (let ilseq = Some (-1, None, True) in
      case src of None \<Rightarrow> Some (0, None, False)
      | Some s \<Rightarrow>
        if n = 0 then ilseq
        else do {
          b0 \<leftarrow> rd s 0;
          if b0 < 0x80 then Some (if b0 = 0 then 0 else 1, Some (ucast b0), False)
          else if bad_lead b0 then ilseq
          else
            let c = lead_state b0 in
            if n < 4 \<and> pending_bit (push_bit (6 * n - 6) c) then ilseq
            else do {
              b1 \<leftarrow> rd s 1;
              if OOB c b1 then ilseq
              else
                let c1 = shift_in c b1 in
                if \<not> pending_bit c1 then Some (2, Some c1, False)
                else do {
                  b2 \<leftarrow> rd s 2;
                  if bad_cont b2 then ilseq
                  else
                    let c2 = shift_in c1 b2 in
                    if \<not> pending_bit c2 then Some (3, Some c2, False)
                    else do {
                      b3 \<leftarrow> rd s 3;
                      if bad_cont b3 then ilseq
                      else Some (4, Some (shift_in c2 b3), False) } } } })"

definition mblen :: "u8 list option \<Rightarrow> nat \<Rightarrow> (int \<times> bool) option" where
  "mblen s n = do { (r, _, e) \<leftarrow> mbtowc s n; Some (r, e) }"

definition mbsinit :: "u32 option \<Rightarrow> bool" where
  "mbsinit st = (case st of None \<Rightarrow> True | Some c \<Rightarrow> c = 0)"

text \<open>
  \<open>wcrtomb\<close>: the result and the bytes stored through \<open>s\<close>; a result of \<open>-1\<close> comes with
  \<open>errno = EILSEQ\<close>. The first argument says whether \<open>s\<close> is a null pointer.
\<close>

definition wcrtomb :: "bool \<Rightarrow> u32 \<Rightarrow> size_t \<times> u8 list" where
  "wcrtomb s_null wc =
     (if s_null then (1, [])
      else if wc < 0x80 then (1, [ucast wc])
      else if wc < 0x800 then
        (2, [ucast (0xc0 OR signed_drop_bit 6 wc), ucast (0x80 OR (wc AND 0x3f))])
      else if wc < 0xd800 \<or> wc - 0xe000 < 0x2000 then
        (3, [ucast (0xe0 OR signed_drop_bit 12 wc),
             ucast (0x80 OR (signed_drop_bit 6 wc AND 0x3f)),
             ucast (0x80 OR (wc AND 0x3f))])
      else if wc - 0x10000 < 0x100000 then
        (4, [ucast (0xf0 OR signed_drop_bit 18 wc),
             ucast (0x80 OR (signed_drop_bit 12 wc AND 0x3f)),
             ucast (0x80 OR (signed_drop_bit 6 wc AND 0x3f)),
             ucast (0x80 OR (wc AND 0x3f))])
      else (-1, []))"

definition wctomb :: "bool \<Rightarrow> u32 \<Rightarrow> size_t \<times> u8 list" where
  "wctomb s_null wc = (if s_null then (0, []) else wcrtomb False wc)"

text \<open>
  \<open>c16rtomb\<close> on the contents \<open>x\<close> of the chosen state cell: result, bytes stored, new
  cell contents; a result of \<open>-1\<close> comes with \<open>errno = EILSEQ\<close>.
\<close>

definition c16rtomb :: "bool \<Rightarrow> u16 \<Rightarrow> u32 \<Rightarrow> size_t \<times> u8 list \<times> u32" where
  "c16rtomb s_null c16 x =
     (let ilseq = (-1, [], 0); u = (ucast c16 :: u32) in
      if s_null then (if x \<noteq> 0 then ilseq else (1, [], x))
      else if x = 0 \<and> u - 0xd800 < 0x400 then (0, [], push_bit 10 (u - 0xd7c0))
      else if x \<noteq> 0 then
        (if u - 0xdc00 \<ge> 0x400 then ilseq
         else let (r, bs) = wcrtomb False (x + u - 0xdc00) in (r, bs, 0))
      else let (r, bs) = wcrtomb False u in (r, bs, 0))"

definition c32rtomb :: "bool \<Rightarrow> u32 \<Rightarrow> size_t \<times> u8 list" where
  "c32rtomb s_null c32 = wcrtomb s_null c32"

text \<open>
  \<open>mbrtoc16\<close> on the contents of the chosen state cell: result, stored code unit, new cell
  contents, whether \<open>errno\<close> is set. A null \<open>s\<close> restarts with the empty string.
\<close>

definition mbrtoc16_str :: "u8 list \<Rightarrow> nat \<Rightarrow> u32 \<Rightarrow> (size_t \<times> u16 option \<times> u32 \<times> bool) option" where
  "mbrtoc16_str s n pending =
     (if 0 <s pending then Some (-3, Some (ucast pending), 0, False)
      else do {
        (ret, w, c', e) \<leftarrow> mbrtowc_core (Some s) n pending;
        case w of None \<Rightarrow> Some (ret, None, c', e)
        | Some wc \<Rightarrow>
            if \<not> ret \<le> 4 then Some (ret, None, c', e)
            else if 0x10000 \<le>s wc
            then Some (ret, Some (ucast (0xd7c0 + signed_drop_bit 10 wc)), (wc AND 0x3ff) + 0xdc00, e)
            else Some (ret, Some (ucast wc), c', e) })"

definition mbrtoc16 :: "u8 list option \<Rightarrow> nat \<Rightarrow> u32 \<Rightarrow> (size_t \<times> u16 option \<times> u32 \<times> bool) option" where
  "mbrtoc16 src n pending =
     (case src of
        None \<Rightarrow> do { (r, _, c', e) \<leftarrow> mbrtoc16_str [0] 1 pending; Some (r, None, c', e) }
      | Some s \<Rightarrow> mbrtoc16_str s n pending)"

definition mbrtoc32 :: "u8 list option \<Rightarrow> nat \<Rightarrow> u32 \<Rightarrow> (size_t \<times> u32 option \<times> u32 \<times> bool) option" where
  "mbrtoc32 src n c =
     (case src of
        None \<Rightarrow> do { (r, _, c', e) \<leftarrow> mbrtowc_core (Some [0]) 1 c; Some (r, None, c', e) }
      | Some s \<Rightarrow> do { (r, w, c', e) \<leftarrow> mbrtowc_core (Some s) n c;
                       Some (r, if r \<le> 4 then w else None, c', e) })"

end
