(* ===== verification/Utf8_Facts.thy ===== *)
theory Utf8_Facts
  imports Utf8 begin

text \<open>
  Correctness of the UTF-8 codec. The bit-level state machine of \<open>src/orbis_wchar32.c\<close> is
  first moved to arithmetic on \<open>nat\<close> (one lemma per bit trick), then compared with a
  reference codec written from the Unicode definition of UTF-8.
\<close>

unbundle bit_operations_syntax

lemma unat32_less: "unat (c :: u32) < 2 ^ 32"
  using unsigned_less [of c, where 'a = nat] by simp

lemma bit31_iff: "bit (c :: u32) 31 \<longleftrightarrow> 2 ^ 31 \<le> unat c"
proof -
  have "bit c 31 \<longleftrightarrow> bit (unat c) 31" by (simp add: bit_unsigned_iff)
  also have "\<dots> \<longleftrightarrow> odd (unat c div 2 ^ 31)" by (rule bit_iff_odd)
  also have "\<dots> \<longleftrightarrow> 2 ^ 31 \<le> unat c"
  proof -
    have "unat c div 2 ^ 31 < 2" using unat32_less [of c] by simp
    then show ?thesis by (cases "unat c div 2 ^ 31 = 0") (auto simp: div_eq_0_iff less_2_cases_iff)
  qed
  finally show ?thesis .
qed

lemma pending_bit_iff: "pending_bit c \<longleftrightarrow> 2 ^ 31 \<le> unat c"
  unfolding pending_bit_def by (simp only: bit31_iff flip: bit_iff_and_push_bit_not_eq_0)

lemma unat_ucast_byte [simp]: "unat (ucast (b :: u8) :: u32) = unat b"
proof -
  have "unat b < 2 ^ 8" using unsigned_less [of b, where 'a = nat] by simp
  then show ?thesis by (simp add: unsigned_ucast_eq take_bit_nat_eq_self)
qed

lemma byte_minus: "unat ((ucast (b :: u8) :: u32) - 0x80) =
    (if 0x80 \<le> unat b then unat b - 0x80 else unat b + 2 ^ 32 - 0x80)"
  by (simp add: unat_sub_if')

lemma bad_cont_iff: "bad_cont b \<longleftrightarrow> \<not> (0x80 \<le> unat b \<and> unat b < 0xc0)"
  unfolding bad_cont_def word_le_nat_alt byte_minus by (simp split: if_splits) linarith

lemma bad_lead_iff: "bad_lead b \<longleftrightarrow> \<not> (0xc2 \<le> unat b \<and> unat b \<le> 0xf4)"
  unfolding bad_lead_def word_less_nat_alt SA_def SB_def by (auto simp: unat_sub_if')

lemma unat_shift_in:
  assumes b: "0x80 \<le> unat b" "unat b < 0xc0"
  shows "unat (shift_in c b) = (unat c * 64 + (unat b - 0x80)) mod 2 ^ 32"
proof -
  have k: "unat ((ucast b :: u32) - 0x80) = unat b - 0x80"
    using b by (simp add: byte_minus)
  have lt: "(ucast b :: u32) - 0x80 = take_bit 6 (ucast b - 0x80)"
    using b k by (intro word_unat_eq_iff [THEN iffD2]) (simp add: unsigned_take_bit_eq take_bit_nat_eq_self)
  have "push_bit 6 c AND (ucast b - 0x80) = 0"
    by (subst lt, rule bit_word_eqI) (auto simp: bit_simps)
  then have "shift_in c b = push_bit 6 c + (ucast b - 0x80)"
    unfolding shift_in_def by (simp add: disjunctive_add_eq_or)
  then show ?thesis
    by (simp add: unat_word_ariths k push_bit_eq_mult mod_simps)
qed

lemma signed_drop_26:
  assumes "2 ^ 31 \<le> unat c"
  shows "signed_drop_bit 26 (c :: u32) = word_of_int (int (unat c) div 2 ^ 26 - 64)"
proof -
  have "sint c = uint c - 2 ^ 32"
  proof -
    have "uint c < 2 ^ 32" using uint_lt2p [of c] by simp
    then have "take_bit 32 (uint c) = uint c" by (simp add: take_bit_int_eq_self)
    then show ?thesis
      using assms by (simp add: sint_uint signed_take_bit_eq_take_bit_minus bit_unsigned_iff bit31_iff)
  qed
  then have "drop_bit 26 (sint c) = int (unat c) div 2 ^ 26 - 64"
    by (simp add: drop_bit_eq_div)
  then have "sint (signed_drop_bit 26 c) = int (unat c) div 2 ^ 26 - 64"
    by (simp add: sint_signed_drop_bit_eq)
  moreover have "word_of_int (sint (signed_drop_bit 26 c)) = signed_drop_bit 26 c" by simp
  ultimately show ?thesis by argo
qed

text \<open>
  The interval test: for a state whose top six bits are \<open>t + 64\<close> the test on a byte only
  depends on the byte's upper five bits, and each interval the table uses is one value of
  \<open>t\<close>.
\<close>

definition OOB_top :: "int \<Rightarrow> nat \<Rightarrow> bool" where
  "OOB_top t x = ((((word_of_nat x - 0x10) OR (word_of_nat x + word_of_int t)) AND NOT 7) \<noteq> (0 :: u32))"

lemma OOB_top_values:
  "\<forall>x \<in> set [0..<32].
     OOB_top (-16) x = (\<not> (16 \<le> x \<and> x < 24)) \<and> OOB_top (-20) x = (\<not> (20 \<le> x \<and> x < 24)) \<and>
     OOB_top (-12) x = (\<not> (16 \<le> x \<and> x < 20)) \<and> OOB_top (-18) x = (\<not> (18 \<le> x \<and> x < 24)) \<and>
     OOB_top (-10) x = (\<not> (16 \<le> x \<and> x < 18))"
  by code_simp

lemma OOB_conv:
  assumes "2 ^ 31 \<le> unat c"
  shows "OOB c b = OOB_top (int (unat c) div 2 ^ 26 - 64) (unat b div 8)"
proof -
  have "drop_bit 3 (ucast b :: u32) = word_of_nat (unat b div 8)"
  proof -
    have "unat b div 8 < 2 ^ 32" using unsigned_less [of b, where 'a = nat] by simp
    then show ?thesis
      by (intro word_unat_eq_iff [THEN iffD2])
        (simp add: drop_bit_eq_div unat_div unsigned_of_nat take_bit_nat_eq_self)
  qed
  then show ?thesis
    by (simp only: OOB_def OOB_top_def signed_drop_26 [OF assms])
qed

lemma OOB_iff:
  assumes c: "2 ^ 31 \<le> unat c"
  shows "int (unat c) div 2 ^ 26 = 48 \<Longrightarrow> OOB c b \<longleftrightarrow> \<not> (0x80 \<le> unat b \<and> unat b < 0xc0)"
    and "int (unat c) div 2 ^ 26 = 44 \<Longrightarrow> OOB c b \<longleftrightarrow> \<not> (0xa0 \<le> unat b \<and> unat b < 0xc0)"
    and "int (unat c) div 2 ^ 26 = 52 \<Longrightarrow> OOB c b \<longleftrightarrow> \<not> (0x80 \<le> unat b \<and> unat b < 0xa0)"
    and "int (unat c) div 2 ^ 26 = 46 \<Longrightarrow> OOB c b \<longleftrightarrow> \<not> (0x90 \<le> unat b \<and> unat b < 0xc0)"
    and "int (unat c) div 2 ^ 26 = 54 \<Longrightarrow> OOB c b \<longleftrightarrow> \<not> (0x80 \<le> unat b \<and> unat b < 0x90)"
proof -
  have "unat b div 8 \<in> set [0..<32]"
    unfolding set_upt using unsigned_less [of b, where 'a = nat] by simp
  note v = bspec [OF OOB_top_values this] and r = OOB_conv [OF c, of b]
  show "int (unat c) div 2 ^ 26 = 48 \<Longrightarrow> OOB c b \<longleftrightarrow> \<not> (0x80 \<le> unat b \<and> unat b < 0xc0)"
    and "int (unat c) div 2 ^ 26 = 44 \<Longrightarrow> OOB c b \<longleftrightarrow> \<not> (0xa0 \<le> unat b \<and> unat b < 0xc0)"
    and "int (unat c) div 2 ^ 26 = 52 \<Longrightarrow> OOB c b \<longleftrightarrow> \<not> (0x80 \<le> unat b \<and> unat b < 0xa0)"
    and "int (unat c) div 2 ^ 26 = 46 \<Longrightarrow> OOB c b \<longleftrightarrow> \<not> (0x90 \<le> unat b \<and> unat b < 0xc0)"
    and "int (unat c) div 2 ^ 26 = 54 \<Longrightarrow> OOB c b \<longleftrightarrow> \<not> (0x80 \<le> unat b \<and> unat b < 0x90)"
    using v r by (simp_all add: div_less_iff_less_mult less_eq_div_iff_mult_less_eq)
qed

lemma uint_bittab:
  "map uint bittab =
      [0xc0000002, 0xc0000003, 0xc0000004, 0xc0000005, 0xc0000006, 0xc0000007, 0xc0000008,
       0xc0000009, 0xc000000a, 0xc000000b, 0xc000000c, 0xc000000d, 0xc000000e, 0xc000000f,
       0xc0000010, 0xc0000011, 0xc0000012, 0xc0000013, 0xc0000014, 0xc0000015, 0xc0000016,
       0xc0000017, 0xc0000018, 0xc0000019, 0xc000001a, 0xc000001b, 0xc000001c, 0xc000001d,
       0xc000001e, 0xc000001f, 0xb3000000, 0xc3000001, 0xc3000002, 0xc3000003, 0xc3000004,
       0xc3000005, 0xc3000006, 0xc3000007, 0xc3000008, 0xc3000009, 0xc300000a, 0xc300000b,
       0xc300000c, 0xd300000d, 0xc300000e, 0xc300000f, 0xbb0c0000, 0xc30c0001, 0xc30c0002,
       0xc30c0003, 0xdb0c0004]"
  by code_simp

lemma lead_state_values:
  "\<forall>n \<in> set [0xc2..<0xf5]. map uint bittab ! (n - 0xc2) =
     (if n < 0xe0 then 0xC0000000 + (int n - 0xc0)
      else if n = 0xe0 then 0xB3000000
      else if n = 0xed then 0xD300000d
      else if n < 0xf0 then 0xC3000000 + (int n - 0xe0)
      else if n = 0xf0 then 0xBB0C0000
      else if n = 0xf4 then 0xDB0C0004
      else 0xC30C0000 + (int n - 0xf0))"
  unfolding uint_bittab by code_simp

lemma unat_lead_state:
  assumes b: "0xc2 \<le> unat b" "unat b \<le> 0xf4"
  shows "unat (lead_state b) =
     (if unat b < 0xe0 then 0xC0000000 + (unat b - 0xc0)
      else if unat b = 0xe0 then 0xB3000000
      else if unat b = 0xed then 0xD300000d
      else if unat b < 0xf0 then 0xC3000000 + (unat b - 0xe0)
      else if unat b = 0xf0 then 0xBB0C0000
      else if unat b = 0xf4 then 0xDB0C0004
      else 0xC30C0000 + (unat b - 0xf0))" (is "_ = ?v")
proof -
  have "unat (ucast b - SA) = unat b - 0xc2"
    using b by (simp add: SA_def unat_sub_if')
  moreover have "length bittab = 51" by (simp add: bittab_def)
  ultimately have "uint (lead_state b) = map uint bittab ! (unat b - 0xc2)"
    using b by (simp add: lead_state_def)
  moreover have "unat b \<in> set [0xc2..<0xf5]" unfolding set_upt using b by simp
  ultimately have "uint (lead_state b) = int ?v"
    using bspec [OF lead_state_values, of "unat b"] b by simp
  then show ?thesis by (simp only: unat_eq_nat_uint nat_int)
qed

end
