(* ===== verification/Utf8_Spec.thy ===== *)
theory Utf8_Spec
  imports Utf8_Facts
begin

text \<open>
  Reference codec: UTF-8 as Unicode defines it (scalar values, the encoding, the decoding of
  one well-formed sequence, the proper prefixes of one), and the facts that carry the byte
  states of \<open>mbrtowc\<close> to it. The reference definitions are not code of the repository; the
  decoder and encoder are proved against them.
\<close>

unbundle bit_operations_syntax

section \<open>Reference codec\<close>

definition is_scalar :: "nat \<Rightarrow> bool" where
  "is_scalar w \<longleftrightarrow> w < 0xd800 \<or> (0xe000 \<le> w \<and> w < 0x110000)"

definition utf8_enc :: "nat \<Rightarrow> nat list" where
  "utf8_enc w =
     (if w < 0x80 then [w]
      else if w < 0x800 then [0xc0 + w div 64, 0x80 + w mod 64]
      else if w < 0x10000 then [0xe0 + w div 4096, 0x80 + w div 64 mod 64, 0x80 + w mod 64]
      else [0xf0 + w div 262144, 0x80 + w div 4096 mod 64, 0x80 + w div 64 mod 64, 0x80 + w mod 64])"

text \<open>The admissible second bytes after each lead byte (Unicode, table 3-7).\<close>

definition second_ok :: "nat \<Rightarrow> nat \<Rightarrow> bool" where
  "second_ok b0 b1 \<longleftrightarrow>
     (if b0 = 0xe0 then 0xa0 else if b0 = 0xf0 then 0x90 else 0x80) \<le> b1 \<and>
     b1 < (if b0 = 0xed then 0xa0 else if b0 = 0xf4 then 0x90 else 0xc0)"

definition is_cont :: "nat \<Rightarrow> bool" where
  "is_cont b \<longleftrightarrow> 0x80 \<le> b \<and> b < 0xc0"

fun utf8_value :: "nat list \<Rightarrow> nat option" where
  "utf8_value [b0] = (if b0 < 0x80 then Some b0 else None)"
| "utf8_value [b0, b1] =
     (if 0xc2 \<le> b0 \<and> b0 < 0xe0 \<and> second_ok b0 b1 then Some ((b0 - 0xc0) * 64 + (b1 - 0x80)) else None)"
| "utf8_value [b0, b1, b2] =
     (if 0xe0 \<le> b0 \<and> b0 < 0xf0 \<and> second_ok b0 b1 \<and> is_cont b2
      then Some ((b0 - 0xe0) * 4096 + (b1 - 0x80) * 64 + (b2 - 0x80)) else None)"
| "utf8_value [b0, b1, b2, b3] =
     (if 0xf0 \<le> b0 \<and> b0 < 0xf5 \<and> second_ok b0 b1 \<and> is_cont b2 \<and> is_cont b3
      then Some ((b0 - 0xf0) * 262144 + (b1 - 0x80) * 4096 + (b2 - 0x80) * 64 + (b3 - 0x80)) else None)"
| "utf8_value _ = None"

fun utf8_partial :: "nat list \<Rightarrow> bool" where
  "utf8_partial [b0] = (0xc2 \<le> b0 \<and> b0 < 0xf5)"
| "utf8_partial [b0, b1] = (0xe0 \<le> b0 \<and> b0 < 0xf5 \<and> second_ok b0 b1)"
| "utf8_partial [b0, b1, b2] = (0xf0 \<le> b0 \<and> b0 < 0xf5 \<and> second_ok b0 b1 \<and> is_cont b2)"
| "utf8_partial _ = False"


lemma scale_digit: "a * 64 + b = (c::nat) \<Longrightarrow> a * (64 * m) + b * m = c * m"
  by (auto simp: algebra_simps)

lemma base64_digits:
  fixes w :: nat
  shows "w div 64 * 64 + w mod 64 = w"
    and "w div 4096 * 4096 + w div 64 mod 64 * 64 + w mod 64 = w"
    and "w div 262144 * 262144 + w div 4096 mod 64 * 4096 + w div 64 mod 64 * 64 + w mod 64 = w"
proof -
  define x y where "x = w div 64" and "y = x div 64"
  have q: "w div 4096 = y" "w div 262144 = y div 64"
    unfolding x_def y_def by (simp_all add: div_mult2_eq [symmetric])
  have 1: "x * 64 + w mod 64 = w" unfolding x_def by (rule div_mult_mod_eq)
  have 2: "y * 4096 + x mod 64 * 64 = x * 64"
    using scale_digit [OF div_mult_mod_eq [of x 64], of 64] by (simp add: y_def)
  have 3: "y div 64 * 262144 + y mod 64 * 4096 = y * 4096"
    using scale_digit [OF div_mult_mod_eq [of y 64], of 4096] by simp
  show "w div 64 * 64 + w mod 64 = w"
    and "w div 4096 * 4096 + w div 64 mod 64 * 64 + w mod 64 = w"
    and "w div 262144 * 262144 + w div 4096 mod 64 * 4096 + w div 64 mod 64 * 64 + w mod 64 = w"
    unfolding q using 1 2 3 by (simp_all flip: x_def)
qed

lemma mod_64_less: "(w::nat) mod 64 < 64" by simp

lemma utf8_value_enc:
  assumes "is_scalar w" shows "utf8_value (utf8_enc w) = Some w"
proof -
  note d = base64_digits [of w] mod_64_less [of w] mod_64_less [of "w div 64"] mod_64_less [of "w div 4096"]
  consider "w < 0x80" | "0x80 \<le> w" "w < 0x800" | "0x800 \<le> w" "w < 0x10000" | "0x10000 \<le> w"
    by linarith
  then show ?thesis
  proof cases
    case 1 then show ?thesis by (simp add: utf8_enc_def)
  next
    case 2
    then have "2 \<le> w div 64" "w div 64 < 32" using d(1,4) by linarith+
    moreover have "utf8_enc w = [0xc0 + w div 64, 0x80 + w mod 64]" using 2 by (simp add: utf8_enc_def)
    ultimately show ?thesis using d(1,4) by (simp add: second_ok_def)
  next
    case 3
    let ?a = "w div 4096" and ?b = "w div 64 mod 64"
    have "?a < 16" "?a = 0 \<longrightarrow> 32 \<le> ?b" "?a = 13 \<longrightarrow> ?b < 32"
      using 3 d assms by (auto simp: is_scalar_def)
    moreover have "utf8_enc w = [0xe0 + ?a, 0x80 + ?b, 0x80 + w mod 64]" using 3 by (simp add: utf8_enc_def)
    ultimately show ?thesis using d(2,4,5) by (auto simp: second_ok_def is_cont_def)
  next
    case 4
    let ?a = "w div 262144" and ?b = "w div 4096 mod 64"
    have "?a < 5" "?a = 0 \<longrightarrow> 16 \<le> ?b" "?a = 4 \<longrightarrow> ?b < 16"
      using 4 d assms by (auto simp: is_scalar_def)
    moreover have "utf8_enc w = [0xf0 + ?a, 0x80 + ?b, 0x80 + w div 64 mod 64, 0x80 + w mod 64]"
      using 4 by (simp add: utf8_enc_def)
    ultimately show ?thesis using d(3-6) by (auto simp: second_ok_def is_cont_def)
  qed
qed


lemma join_digit:
  "a < 64 \<Longrightarrow> (b * 64 + a) div 64 = (b::nat)" "a < 64 \<Longrightarrow> (b * 64 + a) mod 64 = (a::nat)"
  by simp_all

lemma join_digits:
  fixes a b c d :: nat
  assumes "b < 64" "c < 64" "d < 64"
  shows "(a * 4096 + b * 64 + c) div 4096 = a" "(a * 4096 + b * 64 + c) div 64 mod 64 = b"
    "(a * 4096 + b * 64 + c) mod 64 = c"
    "(a * 262144 + b * 4096 + c * 64 + d) div 262144 = a"
    "(a * 262144 + b * 4096 + c * 64 + d) div 4096 mod 64 = b"
    "(a * 262144 + b * 4096 + c * 64 + d) div 64 mod 64 = c"
    "(a * 262144 + b * 4096 + c * 64 + d) mod 64 = d"
proof -
  have 3: "a * 4096 + b * 64 + c = (a * 64 + b) * 64 + c" by simp
  have 4: "a * 262144 + b * 4096 + c * 64 + d = ((a * 64 + b) * 64 + c) * 64 + d" by simp
  have q: "\<And>x. x div 4096 = x div 64 div (64::nat)" "\<And>x. x div 262144 = x div 64 div 64 div (64::nat)"
    by (simp_all add: div_mult2_eq [symmetric])
  show "(a * 4096 + b * 64 + c) div 4096 = a" "(a * 4096 + b * 64 + c) div 64 mod 64 = b"
    "(a * 4096 + b * 64 + c) mod 64 = c"
    "(a * 262144 + b * 4096 + c * 64 + d) div 262144 = a"
    "(a * 262144 + b * 4096 + c * 64 + d) div 4096 mod 64 = b"
    "(a * 262144 + b * 4096 + c * 64 + d) div 64 mod 64 = c"
    "(a * 262144 + b * 4096 + c * 64 + d) mod 64 = d"
    unfolding q 3 4 by (simp_all only: join_digit assms)
qed

lemma utf8_value_Some:
  assumes "utf8_value bs = Some w" shows "is_scalar w \<and> bs = utf8_enc w"
  using assms
proof (cases bs rule: utf8_value.cases)
  case (1 b0) with assms show ?thesis by (auto simp: is_scalar_def utf8_enc_def split: if_splits)
next
  case (2 b0 b1)
  define a k where "a = b0 - 0xc0" and "k = b1 - 0x80"
  with 2 assms have "b0 = 0xc0 + a" "b1 = 0x80 + k" "2 \<le> a" "a < 32" "k < 64" "w = a * 64 + k"
    by (auto simp: second_ok_def split: if_splits)
  with 2 show ?thesis by (simp add: is_scalar_def utf8_enc_def join_digit)
next
  case (3 b0 b1 b2)
  define a j k where "a = b0 - 0xe0" and "j = b1 - 0x80" and "k = b2 - 0x80"
  with 3 assms have "b0 = 0xe0 + a" "b1 = 0x80 + j" "b2 = 0x80 + k" and r: "a < 16" "j < 64" "k < 64"
      "a = 0 \<longrightarrow> 32 \<le> j" "a = 13 \<longrightarrow> j < 32" and w: "w = a * 4096 + j * 64 + k"
    by (auto simp: second_ok_def is_cont_def split: if_splits)
  moreover have "0x800 \<le> w" "w < 0x10000" "is_scalar w"
    unfolding is_scalar_def using r w by (cases "a = 0"; cases "a = 13"; linarith?)+
  ultimately show ?thesis using 3 by (simp add: utf8_enc_def join_digits)
next
  case (4 b0 b1 b2 b3)
  define a i j k where "a = b0 - 0xf0" and "i = b1 - 0x80" and "j = b2 - 0x80" and "k = b3 - 0x80"
  with 4 assms have "b0 = 0xf0 + a" "b1 = 0x80 + i" "b2 = 0x80 + j" "b3 = 0x80 + k"
      and r: "a < 5" "i < 64" "j < 64" "k < 64" "a = 0 \<longrightarrow> 16 \<le> i" "a = 4 \<longrightarrow> i < 16"
      and w: "w = a * 262144 + i * 4096 + j * 64 + k"
    by (auto simp: second_ok_def is_cont_def split: if_splits)
  moreover have "0x10000 \<le> w" "is_scalar w"
    unfolding is_scalar_def using r w by (cases "a = 0"; cases "a = 4"; linarith?)+
  ultimately show ?thesis using 4 by (simp add: utf8_enc_def join_digits)
qed (use assms in auto)

section \<open>The decoding loop\<close>


lemma shift_in_arith:
  assumes c: "unat c * 64 = q * 2 ^ 32 + u" "u + 64 \<le> 2 ^ 32" and b: "is_cont (unat b)"
  shows "unat (shift_in c b) = u + (unat b - 0x80)"
proof -
  have "unat (shift_in c b) = (u + (unat b - 0x80) + q * 2 ^ 32) mod 2 ^ 32"
    using b by (subst unat_shift_in) (auto simp: is_cont_def c(1) ac_simps)
  also have "\<dots> = u + (unat b - 0x80)"
  proof -
    have "u + (unat b - 0x80) < 2 ^ 32" using b c(2) by (auto simp: is_cont_def)
    then show ?thesis by (simp only: mod_mult_self1 mod_less)
  qed
  finally show ?thesis .
qed

text \<open>
  The states between bytes: \<open>mid_state m c v\<close> says that \<open>c\<close> has \<open>m\<close> more bytes to
  read after the next one and has collected the value \<open>v\<close>.
\<close>

fun mid_state :: "nat \<Rightarrow> u32 \<Rightarrow> nat \<Rightarrow> bool" where
  "mid_state 0 c v = (\<exists>q. unat c * 64 = q * 2 ^ 32 + v * 64 \<and> v < 2 ^ 16 \<and> 2 ^ 31 \<le> unat c)"
| "mid_state (Suc 0) c v =
     (\<exists>q. unat c * 64 = q * 2 ^ 32 + 0xC0000000 + v * 64 \<and> v < 2 ^ 10 \<and> 2 ^ 31 \<le> unat c)"
| "mid_state (Suc (Suc 0)) c v =
     (\<exists>q. unat c * 64 = q * 2 ^ 32 + 0xC3000000 + v * 64 \<and> v < 2 ^ 3 \<and> 2 ^ 31 \<le> unat c)"
| "mid_state _ c v = False"

lemma mid_state_step:
  assumes "mid_state (Suc m) c v" "is_cont (unat b)"
  shows "mid_state m (shift_in c b) (v * 64 + (unat b - 0x80))"
    and "int (unat (shift_in c b)) div 2 ^ 26 = 48"
    and "2 ^ 31 \<le> unat (shift_in c b)"
proof -
  define k where "k = unat b - 0x80"
  have k: "k < 64" using assms(2) by (auto simp: k_def is_cont_def)
  have "mid_state m (shift_in c b) (v * 64 + k) \<and> int (unat (shift_in c b)) div 2 ^ 26 = 48 \<and> 2 ^ 31 \<le> unat (shift_in c b)"
  proof (cases m)
    case 0
    with assms(1) obtain q where q: "unat c * 64 = q * 2 ^ 32 + (0xC0000000 + v * 64)" and v: "v < 2 ^ 10"
      by auto
    have "unat (shift_in c b) = 0xC0000000 + v * 64 + k"
      unfolding k_def using v by (intro shift_in_arith [OF q _ assms(2)]) simp
    with v k 0 show ?thesis by (auto intro!: exI [of _ 48])
  next
    case (Suc m')
    then have m: "m = Suc 0" using assms(1) by (cases m') auto
    with assms(1) obtain q where q: "unat c * 64 = q * 2 ^ 32 + (0xC3000000 + v * 64)" and v: "v < 2 ^ 3"
      by auto
    have "unat (shift_in c b) = 0xC3000000 + v * 64 + k"
      unfolding k_def using v by (intro shift_in_arith [OF q _ assms(2)]) simp
    with v k m show ?thesis by (auto intro!: exI [of _ 48])
  qed
  then show "mid_state m (shift_in c b) (v * 64 + (unat b - 0x80))"
    and "int (unat (shift_in c b)) div 2 ^ 26 = 48" and "2 ^ 31 \<le> unat (shift_in c b)"
    by (simp_all add: k_def)
qed

lemma mbrtowc_loop_0:
  assumes "mid_state 0 c v" "is_cont (unat b)"
  shows "mbrtowc_loop (b # s) n c = Some (Complete (word_of_nat (v * 64 + (unat b - 0x80))) (n - 1))"
proof -
  from assms(1) obtain q where q: "unat c * 64 = q * 2 ^ 32 + v * 64" and v: "v < 2 ^ 16" by auto
  have eq: "unat (shift_in c b) = v * 64 + (unat b - 0x80)"
    using v by (intro shift_in_arith [OF q _ assms(2)]) simp
  then have "\<not> pending_bit (shift_in c b)"
    using v assms(2) by (auto simp: pending_bit_iff is_cont_def)
  moreover have "shift_in c b = word_of_nat (v * 64 + (unat b - 0x80))"
    unfolding eq [symmetric] by simp
  ultimately show ?thesis by (simp add: Let_def del: of_nat_add of_nat_mult)
qed

lemma mbrtowc_loop_Suc:
  assumes "mid_state (Suc m) c v" "is_cont (unat b)"
  shows "mbrtowc_loop (b # s) n c =
    (if n - 1 = 0 then Some (Partial (shift_in c b))
     else case s of [] \<Rightarrow> None
       | b' # _ \<Rightarrow> if \<not> is_cont (unat b') then Some Ilseq else mbrtowc_loop s (n - 1) (shift_in c b))"
  using mid_state_step(3) [OF assms]
  by (auto simp: Let_def pending_bit_iff bad_cont_iff is_cont_def split: list.split)

declare mbrtowc_loop.simps [simp del] mid_state.simps [simp del]

end
