(* ===== verification/Utf8_Decode.thy ===== *)
theory Utf8_Decode
  imports Utf8_Spec
begin

text \<open>
  The decoder against the reference codec. Every state the table gives for a lead byte is a
  \<open>mid_state\<close> whose interval test is exactly the admissible second bytes; from there the
  loop is followed byte by byte: a well-formed sequence completes, a proper prefix is
  reported as incomplete with a state from which decoding resumes, everything else is
  ill-formed. \<open>utf8_scan\<close> collects the three answers.
\<close>

unbundle bit_operations_syntax

definition lead_payload :: "nat \<Rightarrow> nat" where
  "lead_payload b = (if b < 0xe0 then b - 0xc0 else if b < 0xf0 then b - 0xe0 else b - 0xf0)"

lemma lead_mid:
  assumes b: "0xc2 \<le> unat b" "unat b < 0xf5"
  shows "mid_state (if unat b < 0xe0 then 0 else if unat b < 0xf0 then Suc 0 else Suc (Suc 0)) (lead_state b) (lead_payload (unat b))"
  using unat_lead_state [of b] b
  by (auto simp: lead_payload_def mid_state.simps intro: exI [of _ 48] exI [of _ 44] exI [of _ 52] exI [of _ 46] exI [of _ 54])

lemma lead_pending: "0xc2 \<le> unat b \<Longrightarrow> unat b < 0xf5 \<Longrightarrow> 2 ^ 31 \<le> unat (lead_state b)"
  using unat_lead_state [of b] by (auto split: if_splits)

lemma div_eqI: "t * 67108864 \<le> x \<Longrightarrow> x < (t + 1) * 67108864 \<Longrightarrow> x div 2 ^ 26 = (t :: int)"
  by (simp add: div_pos_pos_trivial)

lemma lead_top:
  assumes b: "0xc2 \<le> unat b" "unat b < 0xf5"
  shows "int (unat (lead_state b)) div 2 ^ 26 =
    (if unat b = 0xe0 then 44 else if unat b = 0xed then 52
     else if unat b = 0xf0 then 46 else if unat b = 0xf4 then 54 else 48)"
proof -
  obtain u x where u: "unat b = u" and x: "unat (lead_state b) = x" by blast
  show ?thesis
    using unat_lead_state [of b] b unfolding u x by (intro div_eqI) (auto split: if_splits)
qed

lemma lead_OOB:
  assumes b: "0xc2 \<le> unat b" "unat b < 0xf5"
  shows "OOB (lead_state b) b1 \<longleftrightarrow> \<not> second_ok (unat b) (unat b1)"
proof -
  note t = lead_top [OF b] and o = OOB_iff [OF lead_pending [OF b], of b1]
  consider "unat b = 0xe0" | "unat b = 0xed" | "unat b = 0xf0" | "unat b = 0xf4"
    | "unat b \<noteq> 0xe0" "unat b \<noteq> 0xed" "unat b \<noteq> 0xf0" "unat b \<noteq> 0xf4" by blast
  then show ?thesis
    by cases (insert t, simp_all add: o second_ok_def del: power_numeral)
qed
lemma loop_count: "mbrtowc_loop s n c = Some (Complete w n') \<Longrightarrow> n' \<le> n"
proof (induction s arbitrary: n c)
  case Nil then show ?case by (simp add: mbrtowc_loop.simps)
next
  case (Cons b s)
  have "n' = n - 1 \<or> (\<exists>c'. mbrtowc_loop s (n - 1) c' = Some (Complete w n'))"
    using Cons.prems unfolding mbrtowc_loop.simps(2) by (auto simp: Let_def split: if_splits list.splits)
  then show ?case using Cons.IH [of "n - 1"] diff_le_self [of n 1] by (metis le_trans)
qed

lemma resume_lead:
  assumes b: "0xc2 \<le> unat b" "unat b < 0xf5"
  shows "mbrtowc_resume s n (lead_state b) =
    (if n = 0 then Some (Partial (lead_state b))
     else case s of [] \<Rightarrow> None
     | b1 # _ \<Rightarrow> if second_ok (unat b) (unat b1) then mbrtowc_loop s n (lead_state b) else Some Ilseq)"
  by (auto simp: mbrtowc_resume_def lead_OOB [OF b] split: list.split)

lemma second_ok_cont: "second_ok b0 b1 \<Longrightarrow> is_cont b1"
  by (auto simp: second_ok_def is_cont_def split: if_splits)

lemma core_lead:
  assumes b: "0xc2 \<le> unat b" "unat b < 0xf5" and n: "0 < n"
  shows "mbrtowc_core (Some (b # s)) n 0 =
    (mbrtowc_resume s (n - 1) (lead_state b) \<bind> (\<lambda>r. Some (case r of
        Complete w n' \<Rightarrow> (word_of_nat (n - n'), Some w, 0, False)
      | Partial c' \<Rightarrow> (-2, None, c', False)
      | Ilseq \<Rightarrow> (-1, None, 0, True))))"
  using b n by (simp add: mbrtowc_core_def bad_lead_iff word_less_nat_alt Let_def)
   (auto intro!: Option.bind_cong split: mb_step.split)

lemma loop2:
  assumes "mid_state (Suc 0) c v" "is_cont (unat b1)" "is_cont (unat b2)" "2 \<le> n"
  shows "mbrtowc_loop (b1 # b2 # s) n c =
    Some (Complete (word_of_nat ((v * 64 + (unat b1 - 0x80)) * 64 + (unat b2 - 0x80))) (n - 2))"
  using assms
  by (simp only: mbrtowc_loop_Suc [OF assms(1,2)] list.case mbrtowc_loop_0 [OF mid_state_step(1)])
    (simp add: numeral_2_eq_2)

lemma loop3:
  assumes "mid_state (Suc (Suc 0)) c v" "is_cont (unat b1)" "is_cont (unat b2)" "is_cont (unat b3)" "3 \<le> n"
  shows "mbrtowc_loop (b1 # b2 # b3 # s) n c =
    Some (Complete (word_of_nat (((v * 64 + (unat b1 - 0x80)) * 64 + (unat b2 - 0x80)) * 64 + (unat b3 - 0x80))) (n - 3))"
  using assms
  by (simp only: mbrtowc_loop_Suc [OF assms(1,2)] list.case loop2 [OF mid_state_step(1)])
    (simp add: numeral_3_eq_3)

lemma core_ascii:
  assumes "unat b < 0x80" "0 < n"
  shows "mbrtowc_core (Some (b # s)) n 0 = Some (if unat b = 0 then 0 else 1, Some (word_of_nat (unat b)), 0, False)"
proof -
  have "ucast b = (word_of_nat (unat b) :: u32)" by simp
  then show ?thesis
    using assms by (simp add: mbrtowc_core_def word_less_nat_alt unat_eq_0)
qed

lemma core_bad_lead:
  assumes "0x80 \<le> unat b" "\<not> (0xc2 \<le> unat b \<and> unat b < 0xf5)" "0 < n"
  shows "mbrtowc_core (Some (b # s)) n 0 = Some (-1, None, 0, True)"
  using assms by (simp add: mbrtowc_core_def word_less_nat_alt bad_lead_iff Let_def) linarith

lemma mbrtowc_complete:
  assumes "utf8_value (map unat p) = Some w" "length p \<le> n"
  shows "mbrtowc_core (Some (p @ s)) n 0 =
    Some (if w = 0 then 0 else word_of_nat (length p), Some (word_of_nat w), 0, False)"
proof (cases "map unat p" rule: utf8_value.cases)
  case (1 b)
  then obtain x where "p = [x]" by auto
  with assms core_ascii [of x n s] show ?thesis by (auto simp: unat_eq_0 unat_gt_0 split: if_splits)
next
  case (2 b0 b1)
  then obtain x y where p: "p = [x, y]" by auto
  with assms have r: "0xc2 \<le> unat x" "unat x < 0xe0" "second_ok (unat x) (unat y)"
    and w: "w = (unat x - 0xc0) * 64 + (unat y - 0x80)"
    by (auto split: if_splits)
  then have m: "mid_state 0 (lead_state x) (unat x - 0xc0)"
    using lead_mid [of x] by (simp add: lead_payload_def)
  show ?thesis
    using assms(2) r w core_lead [of x n] resume_lead [of x] mbrtowc_loop_0 [OF m second_ok_cont [OF r(3)]]
    by (simp add: p numeral_2_eq_2)
next
  case (3 b0 b1 b2)
  then obtain x y z where p: "p = [x, y, z]" by auto
  with assms have r: "0xe0 \<le> unat x" "unat x < 0xf0" "second_ok (unat x) (unat y)" "is_cont (unat z)"
    and w: "w = ((unat x - 0xe0) * 64 + (unat y - 0x80)) * 64 + (unat z - 0x80)"
    by (auto split: if_splits)
  then have m: "mid_state (Suc 0) (lead_state x) (unat x - 0xe0)"
    using lead_mid [of x] by (simp add: lead_payload_def)
  have "w \<noteq> 0" using r w by (auto simp: second_ok_def split: if_splits)
  then show ?thesis
    using assms(2) r core_lead [of x n] resume_lead [of x] loop2 [OF m second_ok_cont [OF r(3)] r(4)]
    by (simp add: p w numeral_3_eq_3 del: of_nat_add of_nat_mult)
next
  case (4 b0 b1 b2 b3)
  then obtain x y z u where p: "p = [x, y, z, u]" by auto
  with assms have r: "0xf0 \<le> unat x" "unat x < 0xf5" "second_ok (unat x) (unat y)" "is_cont (unat z)" "is_cont (unat u)"
    and w: "w = (((unat x - 0xf0) * 64 + (unat y - 0x80)) * 64 + (unat z - 0x80)) * 64 + (unat u - 0x80)"
    by (auto split: if_splits)
  then have m: "mid_state (Suc (Suc 0)) (lead_state x) (unat x - 0xf0)"
    using lead_mid [of x] by (simp add: lead_payload_def)
  have "w \<noteq> 0" using r w by (auto simp: second_ok_def split: if_splits)
  then show ?thesis
    using assms(2) r core_lead [of x n] resume_lead [of x] loop3 [OF m second_ok_cont [OF r(3)] r(4,5)]
    by (simp add: p w del: of_nat_add of_nat_mult)
qed (use assms in auto)

text \<open>The contents of the state cell after the bytes of an incomplete character.\<close>

definition resume_state :: "u8 list \<Rightarrow> u32" where
  "resume_state p = foldl shift_in (lead_state (hd p)) (tl p)"

lemma loop_resume:
  assumes "mid_state (Suc m) c v" "is_cont (unat b)"
  shows "mbrtowc_loop (b # s) (Suc n) c = mbrtowc_resume s n (shift_in c b)"
proof -
  note st = mid_state_step [OF assms]
  have "OOB (shift_in c b) b' \<longleftrightarrow> \<not> is_cont (unat b')" for b'
    using OOB_iff(1) [OF st(3,2)] by (simp add: is_cont_def)
  then show ?thesis
    unfolding mbrtowc_loop_Suc [OF assms] mbrtowc_resume_def by (simp split: list.split)
qed

lemma resume_prefix:
  assumes "utf8_partial (map unat (b # q))"
  shows "mbrtowc_resume (q @ s) (length q + n) (lead_state b) = mbrtowc_resume s n (resume_state (b # q))"
    and "2 ^ 31 \<le> unat (resume_state (b # q))"
proof -
  have "mbrtowc_resume (q @ s) (length q + n) (lead_state b) = mbrtowc_resume s n (resume_state (b # q)) \<and>
    2 ^ 31 \<le> unat (resume_state (b # q))"
  proof (cases "map unat (b # q)" rule: utf8_partial.cases)
    case (1 b0)
    with assms lead_pending [of b] show ?thesis by (simp add: resume_state_def)
  next
    case (2 b0 b1)
    then obtain x where q: "q = [x]" by auto
    with assms have r: "0xe0 \<le> unat b" "unat b < 0xf5" "second_ok (unat b) (unat x)" by auto
    obtain m v where m: "mid_state (Suc m) (lead_state b) v"
      using lead_mid [of b] r by (cases "unat b < 0xf0") auto
    note c = second_ok_cont [OF r(3)]
    show ?thesis
      using r resume_lead [of b "x # s" "Suc n"] loop_resume [OF m c] mid_state_step(3) [OF m c]
      by (simp add: q resume_state_def)
  next
    case (3 b0 b1 b2)
    then obtain x y where q: "q = [x, y]" by auto
    with assms have r: "0xf0 \<le> unat b" "unat b < 0xf5" "second_ok (unat b) (unat x)" "is_cont (unat y)" by auto
    have m: "mid_state (Suc (Suc 0)) (lead_state b) (lead_payload (unat b))"
      using lead_mid [of b] r by simp
    note c = second_ok_cont [OF r(3)]
    note m' = mid_state_step(1) [OF m c]
    have "mbrtowc_loop (x # y # s) (Suc (Suc n)) (lead_state b) = mbrtowc_loop (y # s) (Suc n) (shift_in (lead_state b) x)"
      unfolding mbrtowc_loop_Suc [OF m c] using r(4) by simp
    then show ?thesis
      using r resume_lead [of b "x # y # s" "Suc (Suc n)"] loop_resume [OF m' r(4)] mid_state_step(3) [OF m' r(4)]
      by (simp add: q resume_state_def)
  qed (use assms in auto)
  then show "mbrtowc_resume (q @ s) (length q + n) (lead_state b) = mbrtowc_resume s n (resume_state (b # q))"
    and "2 ^ 31 \<le> unat (resume_state (b # q))" by blast+
qed

lemma partial_lead: "utf8_partial (b # q) \<Longrightarrow> 0xc2 \<le> b \<and> b < 0xf5"
  by (cases "b # q" rule: utf8_partial.cases) auto

lemma mbrtowc_partial:
  assumes "utf8_partial (map unat p)"
  shows "mbrtowc_core (Some (p @ s)) (length p) 0 = Some (-2, None, resume_state p, False)"
proof (cases p)
  case Nil with assms show ?thesis by simp
next
  case (Cons b q)
  with assms have l: "0xc2 \<le> unat b" "unat b < 0xf5" using partial_lead [of "unat b"] by auto
  show ?thesis
    using resume_prefix(1) [of b q s 0] assms core_lead [OF l, of "length p" "q @ s"]
    by (simp add: Cons mbrtowc_resume_def)
qed

lemma resume_count: "mbrtowc_resume s n c = Some (Complete w n') \<Longrightarrow> n' \<le> n"
  by (auto simp: mbrtowc_resume_def bind_eq_Some_conv split: if_splits dest: loop_count)

lemma mbrtowc_restart_lemma:
  assumes p: "utf8_partial (map unat p)" and n: "0 < n"
  shows "mbrtowc_core (Some s) n (resume_state p) =
    map_option (\<lambda>(r, w, c, e). (if w = None then r else r - word_of_nat (length p), w, c, e))
      (mbrtowc_core (Some (p @ s)) (length p + n) 0)"
proof (cases p)
  case Nil with assms show ?thesis by simp
next
  case (Cons b q)
  with p have l: "0xc2 \<le> unat b" "unat b < 0xf5" using partial_lead [of "unat b"] by auto
  have "resume_state p \<noteq> 0" using resume_prefix(2) [of b q] p Cons by auto
  then have "mbrtowc_core (Some s) n (resume_state p) =
    (mbrtowc_resume s n (resume_state p) \<bind> (\<lambda>r. Some (case r of
        Complete w n' \<Rightarrow> (word_of_nat (n - n'), Some w, 0, False)
      | Partial c' \<Rightarrow> (-2, None, c', False)
      | Ilseq \<Rightarrow> (-1, None, 0, True))))"
    using n by (auto simp: mbrtowc_core_def Let_def intro!: Option.bind_cong split: mb_step.split)
  note eq = this core_lead [OF l, of "length p + n" "q @ s"] resume_prefix(1) [of b q s n]
  show ?thesis
  proof (cases "mbrtowc_resume s n (resume_state p)")
    case None with eq p Cons show ?thesis by simp
  next
    case (Some r)
    then show ?thesis
      by (cases r) (use eq p Cons in \<open>auto simp: of_nat_diff dest: resume_count\<close>)
  qed
qed

definition utf8_scan :: "u8 list \<Rightarrow> size_t \<times> u32 option \<times> u32 \<times> bool" where
  "utf8_scan s =
     (case find (\<lambda>k. utf8_value (map unat (take k s)) \<noteq> None) [1, 2, 3, 4] of
        Some k \<Rightarrow>
          let w = the (utf8_value (map unat (take k s)))
          in (if w = 0 then 0 else word_of_nat k, Some (word_of_nat w), 0, False)
      | None \<Rightarrow>
          if utf8_partial (map unat s) then (-2, None, resume_state s, False)
          else (-1, None, 0, True))"

lemma mbrtowc_ilseq:
  assumes none: "\<And>k. k \<in> {1, 2, 3, 4} \<Longrightarrow> utf8_value (map unat (take k (take n s))) = None"
    and np: "\<not> utf8_partial (map unat (take n s))" and n: "0 < n" "n \<le> length s"
  shows "mbrtowc_core (Some s) n 0 = Some (-1, None, 0, True)"
proof -
  obtain b s' where s: "s = b # s'" using n by (cases s) auto
  obtain n' where n': "n = Suc n'" using n(1) gr0_conv_Suc by blast
  show ?thesis
  proof (cases "0xc2 \<le> unat b \<and> unat b < 0xf5")
    case False
    moreover have "0x80 \<le> unat b" using none [of 1] by (auto simp: s n' split: if_splits)
    ultimately show ?thesis using core_bad_lead [of b n s'] n by (simp add: s)
  next
    case True
    then have l: "0xc2 \<le> unat b" "unat b < 0xf5" by auto
    have n0: "n' \<noteq> 0" using np l by (cases n') (auto simp: s n')
    then obtain b1 s1 n1 where s1: "s' = b1 # s1" "n' = Suc n1"
      using n s n' by (cases s'; cases n') auto
    show ?thesis
    proof (cases "second_ok (unat b) (unat b1)")
      case False
      then show ?thesis using core_lead [OF l, of n s'] resume_lead [OF l, of s' n'] by (simp add: s n' s1)
    next
      case ok: True
      note c = second_ok_cont [OF ok]
      have ge: "0xe0 \<le> unat b" using none [of 2] l ok by (auto simp: s n' s1 split: if_splits)
      have n1: "n1 \<noteq> 0" using np ok l ge by (cases n1) (auto simp: s n' s1)
      then obtain b2 s2 n2 where s2: "s1 = b2 # s2" "n1 = Suc n2"
        using n s n' s1 by (cases s1; cases n1) auto
      have "mbrtowc_resume s' n' (lead_state b) = Some Ilseq"
      proof (cases "is_cont (unat b2)")
        case False
        moreover obtain m v where m: "mid_state (Suc m) (lead_state b) v"
          using lead_mid [OF l] ge by (cases "unat b < 0xf0") auto
        ultimately show ?thesis
          using resume_lead [OF l, of s' n'] mbrtowc_loop_Suc [OF m c] ok by (simp add: s1 s2)
      next
        case c2: True
        have gf: "0xf0 \<le> unat b" using none [of 3] l ok ge c2
          by (auto simp: s n' s1 s2 split: if_splits)
        have "n2 \<noteq> 0" using np ok l gf c2 by (cases n2) (auto simp: s n' s1 s2)
        then obtain b3 s3 n3 where s3: "s2 = b3 # s3" "n2 = Suc n3"
          using n s n' s1 s2 by (cases s2; cases n2) auto
        have nc: "\<not> is_cont (unat b3)" using none [of 4] l ok gf c2
          by (auto simp: s n' s1 s2 s3 split: if_splits)
        have m: "mid_state (Suc (Suc 0)) (lead_state b) (lead_payload (unat b))"
          using lead_mid [OF l] gf by simp
        show ?thesis
          using resume_lead [OF l, of s' n'] mbrtowc_loop_Suc [OF m c]
            mbrtowc_loop_Suc [OF mid_state_step(1) [OF m c] c2] ok c2 nc by (simp add: s1 s2 s3)
      qed
      then show ?thesis using core_lead [OF l, of n s'] by (simp add: s n')
    qed
  qed
qed

lemma find_Some_mem: "find P xs = Some x \<Longrightarrow> x \<in> set xs \<and> P x"
  by (metis find_Some_iff nth_mem)

lemma utf8_value_length: "utf8_value bs = Some w \<Longrightarrow> length bs \<in> {1, 2, 3, 4}"
  by (cases bs rule: utf8_value.cases) auto

lemma utf8_scan_complete:
  assumes "utf8_value (map unat (take k s)) = Some w" "k \<in> {1, 2, 3, 4}"
    "\<And>j. j < k \<Longrightarrow> j \<in> {1, 2, 3, 4} \<Longrightarrow> utf8_value (map unat (take j s)) = None"
  shows "k \<le> length s"
proof (rule ccontr)
  assume "\<not> k \<le> length s"
  then have "length s < k" "take (length s) s = take k s" by auto
  moreover have "length s \<in> {1, 2, 3, 4}"
    using utf8_value_length [OF assms(1)] \<open>\<not> k \<le> length s\<close> by auto
  ultimately show False using assms(1,3) by fastforce
qed

lemma mbrtowc_scan_lemma:
  assumes n: "0 < n" "n \<le> length s"
  shows "mbrtowc_core (Some s) n 0 = Some (utf8_scan (take n s))"
proof (cases "find (\<lambda>k. utf8_value (map unat (take k (take n s))) \<noteq> None) [1, 2, 3, 4]")
  case None
  then have none: "\<And>k. k \<in> {1, 2, 3, 4} \<Longrightarrow> utf8_value (map unat (take k (take n s))) = None"
    by (simp only: find_None_iff) auto
  show ?thesis
  proof (cases "utf8_partial (map unat (take n s))")
    case True
    with mbrtowc_partial [of "take n s" "drop n s"] n None show ?thesis by (simp add: utf8_scan_def)
  next
    case False
    with mbrtowc_ilseq [OF none False n] None show ?thesis by (simp add: utf8_scan_def)
  qed
next
  case (Some k)
  then obtain w where w: "utf8_value (map unat (take k (take n s))) = Some w" and k: "k \<in> {1, 2, 3, 4}"
    using find_Some_mem [OF Some] by auto
  have "utf8_value (map unat (take j (take n s))) = None" if "j < k" "j \<in> {1, 2, 3, 4}" for j
    using Some that by (auto split: if_splits)
  from utf8_scan_complete [OF w k this] have "k \<le> n" using n by simp
  then have "mbrtowc_core (Some s) n 0 = Some (if w = 0 then 0 else word_of_nat k, Some (word_of_nat w), 0, False)"
    using mbrtowc_complete [of "take k s" w n "drop k s"] w n by (simp add: min_absorb1 min_absorb2)
  with Some w show ?thesis by (simp add: utf8_scan_def)
qed

end
