(* ===== verification/Utf8_Mbtowc.thy ===== *)
theory Utf8_Mbtowc
  imports Utf8_Decode
begin

text \<open>
  The one-shot decoder \<open>mbtowc\<close> against the restartable one. The length test
  \<open>c<<(6*n-6)\<close> it makes before reading is exactly "fewer than the bytes this lead byte
  asks for", so that it gives up where \<open>mbrtowc\<close> would report an incomplete character.
\<close>

unbundle bit_operations_syntax

lemma unat_push_32: "unat (push_bit k (c :: u32)) = unat c * 2 ^ k mod 2 ^ 32"
  unfolding unsigned_push_bit_eq by (simp add: push_bit_eq_mult take_bit_eq_mod)

lemma mod_eqI: "x = q * m + r \<Longrightarrow> r < m \<Longrightarrow> x mod m = (r :: nat)"
  by simp

lemma pending_push:
  assumes "mid_state m c v"
  shows "pending_bit (push_bit 0 c)"
    and "pending_bit (push_bit 6 c) \<longleftrightarrow> 1 \<le> m"
    and "pending_bit (push_bit 12 c) \<longleftrightarrow> 2 \<le> m"
proof -
  have m: "m = 0 \<or> m = Suc 0 \<or> m = Suc (Suc 0)"
    using assms by (cases "(m, c, v)" rule: mid_state.cases) (auto simp: mid_state.simps)
  then show "pending_bit (push_bit 0 c)" using assms by (auto simp: pending_bit_iff mid_state.simps)
  have "pending_bit (push_bit 6 c) \<longleftrightarrow> 2 ^ 31 \<le> unat c * 64 mod 2 ^ 32"
    unfolding pending_bit_iff unat_push_32 by simp
  also have "\<dots> \<longleftrightarrow> 1 \<le> m"
  proof -
    obtain q where q: "unat c * 64 = q * 2 ^ 32 + (if m = 0 then v * 64 else if m = 1 then 0xC0000000 + v * 64 else 0xC3000000 + v * 64)"
      and v: "v < (if m = 0 then 2 ^ 16 else if m = 1 then 2 ^ 10 else 2 ^ 3)"
      using m assms by (auto simp: mid_state.simps)
    have "unat c * 64 mod 2 ^ 32 = (if m = 0 then v * 64 else if m = 1 then 0xC0000000 + v * 64 else 0xC3000000 + v * 64)"
      by (rule mod_eqI [OF q]) (use v in \<open>auto split: if_splits\<close>)
    then show ?thesis using v by (auto split: if_splits)
  qed
  finally show "pending_bit (push_bit 6 c) \<longleftrightarrow> 1 \<le> m" .
  have "pending_bit (push_bit 12 c) \<longleftrightarrow> 2 ^ 31 \<le> unat c * 4096 mod 2 ^ 32"
    unfolding pending_bit_iff unat_push_32 by simp
  also have "\<dots> \<longleftrightarrow> 2 \<le> m"
  proof -
    obtain q where q: "unat c * 4096 = q * 2 ^ 32 + (if m \<le> 1 then v * 4096 else 0xC0000000 + v * 4096)"
      and v: "v < (if m = 0 then 2 ^ 16 else if m = 1 then 2 ^ 10 else 2 ^ 3)"
    proof -
      obtain q where q: "unat c * 64 = q * 2 ^ 32 + (if m = 0 then v * 64 else if m = 1 then 0xC0000000 + v * 64 else 0xC3000000 + v * 64)"
        and v: "v < (if m = 0 then 2 ^ 16 else if m = 1 then 2 ^ 10 else 2 ^ 3)"
        using m assms by (auto simp: mid_state.simps)
      have "unat c * 4096 = (if m = 0 then q * 64 else q * 64 + 48) * 2 ^ 32 + (if m \<le> 1 then v * 4096 else 0xC0000000 + v * 4096)"
        using q by (auto split: if_splits)
      with v that show thesis by blast
    qed
    have "unat c * 4096 mod 2 ^ 32 = (if m \<le> 1 then v * 4096 else 0xC0000000 + v * 4096)"
      by (rule mod_eqI [OF q]) (use v in \<open>auto split: if_splits\<close>)
    then show ?thesis using v by (auto split: if_splits)
  qed
  finally show "pending_bit (push_bit 12 c) \<longleftrightarrow> 2 \<le> m" .
qed
lemma pending_shift:
  assumes "mid_state m c v" "is_cont (unat b)"
  shows "pending_bit (shift_in c b) \<longleftrightarrow> 1 \<le> m"
proof (cases m)
  case 0
  with assms obtain q where q: "unat c * 64 = q * 2 ^ 32 + v * 64" and v: "v < 2 ^ 16"
    by (auto simp: mid_state.simps)
  have eq: "unat (shift_in c b) = v * 64 + (unat b - 0x80)"
    using v by (intro shift_in_arith [OF q _ assms(2)]) simp
  then show ?thesis using v 0 assms(2) by (auto simp: pending_bit_iff is_cont_def)
next
  case (Suc k)
  then show ?thesis using mid_state_step(3) assms by (simp add: pending_bit_iff)
qed

lemma mbtowc_short_check:
  assumes "mid_state m c v" "0 < n"
  shows "(n < 4 \<and> pending_bit (push_bit (6 * n - 6) c)) \<longleftrightarrow> n < m + 2"
proof -
  have m: "m \<le> 2" using assms by (cases "(m, c, v)" rule: mid_state.cases) (auto simp: mid_state.simps)
  have "n = 1 \<or> n = 2 \<or> n = 3 \<or> 4 \<le> n" using assms(2) by auto
  then show ?thesis using pending_push [OF assms(1)] m by auto
qed

definition one_shot :: "size_t \<times> u32 option \<times> u32 \<times> bool \<Rightarrow> int \<times> u32 option \<times> bool" where
  "one_shot = (\<lambda>(r, w, c, e). if w = None then (-1, None, True) else (uint r, w, False))"

lemma loop_unfold: "mbrtowc_loop (b # s) n c =
   (if \<not> pending_bit (shift_in c b) then Some (Complete (shift_in c b) (n - 1))
    else if n - 1 = 0 then Some (Partial (shift_in c b))
    else case s of [] \<Rightarrow> None
       | b' # _ \<Rightarrow> if bad_cont b' then Some Ilseq else mbrtowc_loop s (n - 1) (shift_in c b))"
  by (simp add: mbrtowc_loop.simps Let_def split: list.split)

lemma bad_cont_not: "bad_cont b \<longleftrightarrow> \<not> is_cont (unat b)"
  by (simp add: bad_cont_iff is_cont_def)

lemma utf8_value_lead_length:
  "utf8_value (x # xs) = Some w \<Longrightarrow> 0x80 \<le> x \<Longrightarrow>
   length xs = (if x < 0xe0 then 1 else if x < 0xf0 then 2 else 3)"
  by (cases "x # xs" rule: utf8_value.cases) (auto split: if_splits)

lemma utf8_scan_short:
  assumes "0xc2 \<le> unat b" "length s < (if unat b < 0xe0 then 1 else if unat b < 0xf0 then 2 else 3)"
  shows "fst (snd (utf8_scan (b # s))) = None"
proof -
  have "utf8_value (map unat (take k (b # s))) = None" for k
  proof (rule ccontr)
    assume "utf8_value (map unat (take k (b # s))) \<noteq> None"
    then obtain w j where "k = Suc j" "utf8_value (unat b # map unat (take j s)) = Some w"
      by (cases k) auto
    from utf8_value_lead_length [OF this(2)] assms show False by (auto split: if_splits)
  qed
  then have "find (\<lambda>k. utf8_value (map unat (take k (b # s))) \<noteq> None) [1, 2, 3, 4] = None"
    by (simp only: find_None_iff) blast
  then show ?thesis by (simp add: utf8_scan_def)
qed

lemma mbtowc_lead:
  assumes l: "0xc2 \<le> unat b" "unat b < 0xf5" and n: "0 < n" "n \<le> Suc (length s)"
  shows "mbtowc (Some (b # s)) n = map_option one_shot (mbrtowc_core (Some (b # s)) n 0)"
proof -
  define c where "c = lead_state b"
  define m :: nat where "m = (if unat b < 0xe0 then 0 else if unat b < 0xf0 then 1 else 2)"
  have ms: "mid_state m c (lead_payload (unat b))"
    using lead_mid [OF l] by (auto simp: m_def c_def numeral_2_eq_2)
  note check = mbtowc_short_check [OF ms n(1)]
  have nl: "\<not> b < 0x80" "\<not> bad_lead b" using l by (auto simp: word_less_nat_alt bad_lead_iff)
  show ?thesis
  proof (cases "n < m + 2")
    case True
    have "fst (snd (utf8_scan (take n (b # s)))) = None"
      using True l n utf8_scan_short [of b "take (n - 1) s"] by (cases n) (auto simp: m_def split: if_splits)
    then have "map_option one_shot (mbrtowc_core (Some (b # s)) n 0) = Some (-1, None, True)"
      using mbrtowc_scan_lemma [of n "b # s"] n by (auto simp: one_shot_def split: prod.split)
    moreover have "mbtowc (Some (b # s)) n = Some (-1, None, True)"
      using True check n nl by (simp add: mbtowc_def c_def)
    ultimately show ?thesis by (simp only:)
  next
    case False
    with n obtain b1 s1 where s: "s = b1 # s1" by (cases s) auto
    have n1: "n - 1 \<noteq> 0" using False by auto
    have mb: "mbtowc (Some (b # s)) n = (if OOB c b1 then Some (-1, None, True)
       else if \<not> pending_bit (shift_in c b1) then Some (2, Some (shift_in c b1), False)
       else rd s 1 \<bind> (\<lambda>b2. if bad_cont b2 then Some (-1, None, True)
         else if \<not> pending_bit (shift_in (shift_in c b1) b2) then Some (3, Some (shift_in (shift_in c b1) b2), False)
         else rd s 2 \<bind> (\<lambda>b3. if bad_cont b3 then Some (-1, None, True)
           else Some (4, Some (shift_in (shift_in (shift_in c b1) b2) b3), False))))"
      using False check n nl unfolding mbtowc_def Let_def
      by (simp add: c_def s numeral_2_eq_2 numeral_3_eq_3 cong: if_cong) blast
    show ?thesis
    proof (cases "second_ok (unat b) (unat b1)")
      case F: False
      then show ?thesis
        using mb n1 core_lead [OF l n(1), of s] resume_lead [OF l, of s "n - 1"] lead_OOB [OF l, of b1]
        by (simp add: s c_def one_shot_def)
    next
      case T: True
      note c1 = second_ok_cont [OF T] and p1 = pending_shift [OF ms second_ok_cont [OF T]]
      have core: "mbrtowc_core (Some (b # s)) n 0 = mbrtowc_loop s (n - 1) c \<bind> (\<lambda>r. Some (case r of
          Complete w n' \<Rightarrow> (word_of_nat (n - n'), Some w, 0, False)
        | Partial c' \<Rightarrow> (-2, None, c', False) | Ilseq \<Rightarrow> (-1, None, 0, True)))"
        using T n1 core_lead [OF l n(1), of s] resume_lead [OF l, of s "n - 1"] by (simp add: s c_def)
      have p2: "is_cont (unat b2) \<Longrightarrow> pending_bit (shift_in (shift_in c b1) b2) \<longleftrightarrow> 2 \<le> m" if "m \<noteq> 0" for b2
        using pending_shift [OF mid_state_step(1) [OF _ c1]] ms that by (cases m) auto
      have p3: "is_cont (unat b2) \<Longrightarrow> is_cont (unat b3) \<Longrightarrow> \<not> pending_bit (shift_in (shift_in (shift_in c b1) b2) b3)"
        if "m = 2" for b2 b3
        using pending_shift [OF mid_state_step(1) [OF mid_state_step(1) [OF _ c1]]] ms that
        by (auto simp: numeral_2_eq_2)
      have in_range: "\<not> OOB c b1" using T lead_OOB [OF l, of b1] by (simp add: c_def)
      consider "m = 0" | b2 s2 where "m = 1" "s1 = b2 # s2" | b2 b3 s3 where "m = 2" "s1 = b2 # b3 # s3"
        using False n s by (cases s1; cases "tl s1") (auto simp: m_def split: if_splits)
      then show ?thesis
        by cases (use False T p1 p2 p3 n1 in_range in \<open>unfold mb core, auto simp: s loop_unfold bad_cont_not
          one_shot_def\<close>)
    qed
  qed
qed

lemma mbtowc_core:
  assumes "n \<le> length s"
  shows "mbtowc (Some s) n = map_option one_shot (mbrtowc_core (Some s) n 0)"
proof (cases "n = 0")
  case True then show ?thesis by (simp add: mbtowc_def mbrtowc_core_def one_shot_def)
next
  case False
  with assms obtain b s' where s: "s = b # s'" by (cases s) auto
  consider "unat b < 0x80" | "0xc2 \<le> unat b" "unat b < 0xf5"
    | "0x80 \<le> unat b" "\<not> (0xc2 \<le> unat b \<and> unat b < 0xf5)" by linarith
  then show ?thesis
  proof cases
    case 1
    then show ?thesis using False core_ascii [of b n s']
      by (auto simp: s mbtowc_def one_shot_def word_less_nat_alt unat_eq_0)
  next
    case 2
    then show ?thesis using mbtowc_lead [of b n s'] False assms by (simp add: s)
  next
    case 3
    then show ?thesis using False core_bad_lead [of b n s']
      by (auto simp: s mbtowc_def one_shot_def word_less_nat_alt bad_lead_iff)
  qed
qed

end
