(* ===== verification/Utf8_Encode.thy ===== *)
theory Utf8_Encode
  imports Utf8_Spec
begin

text \<open>
  The encoder \<open>wcrtomb\<close> against the reference encoding: its shifts, masks and
  \<open>OR\<close>s are division, remainder and addition on the ranges its branches select.
\<close>

unbundle bit_operations_syntax

lemma sint_small: "unat (w :: u32) < 2 ^ 31 \<Longrightarrow> sint w = int (unat w)"
proof -
  assume a: "unat w < 2 ^ 31"
  have "int (unat w) < int (2 ^ 31)" using a by (simp only: of_nat_less_iff)
  then have "uint w < 2 ^ 31" by simp
  then have "take_bit 31 (uint w) = uint w" by (simp add: take_bit_int_eq_self)
  moreover have "\<not> bit w 31" using a by (simp add: bit31_iff)
  ultimately show ?thesis
    by (simp add: sint_uint signed_take_bit_def concat_bit_eq bit_unsigned_iff)
qed

lemma unat_signed_drop:
  assumes "unat (w :: u32) < 2 ^ 31"
  shows "unat (signed_drop_bit k w) = unat w div 2 ^ k"
proof -
  have "sint (signed_drop_bit k w) = int (unat w div 2 ^ k)"
    by (simp only: sint_signed_drop_bit_eq sint_small [OF assms] drop_bit_eq_div zdiv_int of_nat_power of_nat_numeral)
  moreover have "signed_drop_bit k w = word_of_int (sint (signed_drop_bit k w))" by simp
  ultimately have "signed_drop_bit k w = word_of_nat (unat w div 2 ^ k)"
    by (metis of_int_of_nat_eq)
  moreover have "unat w div 2 ^ k < 2 ^ 32"
    using unat32_less [of w] by (meson div_le_dividend le_less_trans)
  ultimately show ?thesis by (simp add: unsigned_of_nat take_bit_nat_eq_self)
qed

lemma byte_or_add:
  assumes x: "unat (x :: u32) < 2 ^ j" and a: "2 ^ j dvd a" "a + 2 ^ j \<le> 2 ^ 8"
  shows "unat (ucast (word_of_nat a OR x) :: u8) = a + unat x"
proof -
  obtain m where m: "a = 2 ^ j * m" using a(1) by blast
  have j: "j \<le> 8" using a(2) by (metis add_leD2 one_less_numeral_iff power_le_imp_le_exp semiring_norm(76))
  have lt: "x = take_bit j x"
    using x by (intro word_unat_eq_iff [THEN iffD2]) (simp add: unsigned_take_bit_eq take_bit_nat_eq_self)
  have "word_of_nat a AND x = 0"
    by (subst lt, rule bit_word_eqI) (auto simp: bit_simps m push_bit_eq_mult [symmetric] bit_push_bit_iff mult.commute)
  then have "(word_of_nat a OR x :: u32) = word_of_nat a + x" by (simp add: disjunctive_add_eq_or)
  moreover have "a + unat x < 2 ^ 8" using a(2) x by linarith
  ultimately show ?thesis
    by (simp add: unsigned_ucast_eq unat_word_ariths unsigned_of_nat take_bit_nat_eq_self take_bit_eq_mod mod_simps)
qed
lemma unat_and_63: "unat ((w :: u32) AND 0x3f) = unat w mod 64"
proof -
  have "w AND 0x3f = take_bit 6 w"
    by (simp add: take_bit_eq_mask mask_eq_exp_minus_1)
  then have "unat (w AND 0x3f) = take_bit 6 (unat w)" by (simp only: unsigned_take_bit_eq)
  then show ?thesis by (simp add: take_bit_eq_mod)
qed

lemma cont_byte: "unat (ucast (0x80 OR (w AND 0x3f) :: u32) :: u8) = 0x80 + unat w mod 64"
  using byte_or_add [where x = "w AND 0x3f" and j = 6 and a = "0x80"] by (simp add: unat_and_63)

lemma lead_byte:
  assumes "unat (w :: u32) < 2 ^ 31"
  shows "unat w div 64 < 32 \<Longrightarrow> unat (ucast (0xc0 OR signed_drop_bit 6 w :: u32) :: u8) = 0xc0 + unat w div 64"
    and "unat w div 4096 < 16 \<Longrightarrow> unat (ucast (0xe0 OR signed_drop_bit 12 w :: u32) :: u8) = 0xe0 + unat w div 4096"
    and "unat w div 262144 < 8 \<Longrightarrow> unat (ucast (0xf0 OR signed_drop_bit 18 w :: u32) :: u8) = 0xf0 + unat w div 262144"
  using byte_or_add [where x = "signed_drop_bit 6 w" and j = 5 and a = "0xc0"] byte_or_add [where x = "signed_drop_bit 12 w" and j = 4 and a = "0xe0"]
    byte_or_add [where x = "signed_drop_bit 18 w" and j = 3 and a = "0xf0"] unat_signed_drop [OF assms]
  by simp_all

lemma wcrtomb_branches:
  "unat (wc - 0xe000 :: u32) < 0x2000 \<longleftrightarrow> 0xe000 \<le> unat wc \<and> unat wc < 0x10000"
  "unat (wc - 0x10000 :: u32) < 0x100000 \<longleftrightarrow> 0x10000 \<le> unat wc \<and> unat wc < 0x110000"
  using unat32_less [of wc] by (auto simp: unat_sub_if' split: if_splits)

lemma wcrtomb_scalar_lemma:
  assumes "is_scalar (unat wc)"
  shows "map unat (snd (wcrtomb False wc)) = utf8_enc (unat wc)"
    and "fst (wcrtomb False wc) = word_of_nat (length (utf8_enc (unat wc)))"
proof -
  have s: "unat wc < 2 ^ 31" using assms by (auto simp: is_scalar_def)
  note b = lead_byte [OF s] unat_signed_drop [OF s] cont_byte wcrtomb_branches word_less_nat_alt
  consider "unat wc < 0x80" | "0x80 \<le> unat wc" "unat wc < 0x800"
    | "0x800 \<le> unat wc" "unat wc < 0x10000" "unat wc < 0xd800 \<or> 0xe000 \<le> unat wc"
    | "0x10000 \<le> unat wc" "unat wc < 0x110000"
    using assms unfolding is_scalar_def by linarith
  then have "map unat (snd (wcrtomb False wc)) = utf8_enc (unat wc) \<and>
    fst (wcrtomb False wc) = word_of_nat (length (utf8_enc (unat wc)))"
  proof cases
    case 1
    then have "unat (ucast wc :: u8) = unat wc"
      by (simp add: unsigned_ucast_eq take_bit_nat_eq_self)
    with 1 show ?thesis by (simp add: wcrtomb_def utf8_enc_def word_less_nat_alt)
  next
    case 2
    then have "unat wc div 64 < 32" by (simp add: div_less_iff_less_mult)
    with 2 show ?thesis by (simp add: wcrtomb_def utf8_enc_def b)
  next
    case 3
    then have "unat wc div 4096 < 16" by (simp add: div_less_iff_less_mult)
    with 3 show ?thesis by (simp add: wcrtomb_def utf8_enc_def b)
  next
    case 4
    then have "unat wc div 262144 < 8" by (simp add: div_less_iff_less_mult)
    with 4 show ?thesis by (simp add: wcrtomb_def utf8_enc_def b)
  qed
  then show "map unat (snd (wcrtomb False wc)) = utf8_enc (unat wc)"
    and "fst (wcrtomb False wc) = word_of_nat (length (utf8_enc (unat wc)))" by blast+
qed

lemma wcrtomb_nonscalar:
  "\<not> is_scalar (unat wc) \<Longrightarrow> wcrtomb False wc = (-1, [])"
  by (auto simp: wcrtomb_def is_scalar_def wcrtomb_branches word_less_nat_alt)

end
