(* ===== verification/Utf8_Props.thy ===== *)
theory Utf8_Props
  imports Utf8_Mbtowc Utf8_Encode
begin

text \<open>
  What the UTF-8 codec guarantees, stated over the functions of \<open>src/orbis_wchar32.c\<close>.
\<close>

unbundle bit_operations_syntax

lemma wcrtomb_value:
  "is_scalar (unat wc) \<Longrightarrow> utf8_value (map unat (snd (wcrtomb False wc))) = Some (unat wc)"
  by (simp add: wcrtomb_scalar_lemma utf8_value_enc)

lemma length_wcrtomb: "is_scalar (unat wc) \<Longrightarrow> fst (wcrtomb False wc) = word_of_nat (length (snd (wcrtomb False wc)))"
  by (metis length_map wcrtomb_scalar_lemma)

lemma length_enc: "is_scalar (unat wc) \<Longrightarrow> length (snd (wcrtomb False wc)) = length (utf8_enc (unat wc))"
  by (metis length_map wcrtomb_scalar_lemma(1))

lemma unat_bytes_inj: "map unat (xs :: u8 list) = map unat ys \<Longrightarrow> xs = ys"
  by (metis (no_types) list.inj_map_strong word_unat_eq_iff)

lemma scan_Some:
  assumes "utf8_scan s = (r, Some wc, c, e)"
  shows "is_scalar (unat wc) \<and> snd (wcrtomb False wc) = take (if wc = 0 then 1 else unat r) s \<and>
    unat r \<le> length s \<and> c = 0 \<and> \<not> e \<and>
    (\<exists>k \<in> {1, 2, 3, 4}. utf8_value (map unat (take k s)) \<noteq> None \<and> k = (if wc = 0 then 1 else unat r))"
proof -
  from assms obtain k where k: "find (\<lambda>k. utf8_value (map unat (take k s)) \<noteq> None) [1, 2, 3, 4] = Some k"
    by (auto simp: utf8_scan_def split: option.splits if_splits)
  then obtain w where w: "utf8_value (map unat (take k s)) = Some w" and k4: "k \<in> {1, 2, 3, 4}"
    using find_Some_mem [OF k] by auto
  have "utf8_value (map unat (take j s)) = None" if "j < k" "j \<in> {1, 2, 3, 4}" for j
    using k that by (auto split: if_splits)
  from utf8_scan_complete [OF w k4 this] have kl: "k \<le> length s" .
  from assms k w have r: "r = (if w = 0 then 0 else word_of_nat k)" and wc: "wc = word_of_nat w" and ce: "c = 0" "\<not> e"
    by (auto simp: utf8_scan_def Let_def)
  from utf8_value_Some [OF w] have sc: "is_scalar w" and enc: "map unat (take k s) = utf8_enc w" by auto
  have uw: "unat wc = w" using sc by (auto simp: wc is_scalar_def unsigned_of_nat take_bit_nat_eq_self)
  have "snd (wcrtomb False wc) = take k s"
    using unat_bytes_inj [of "snd (wcrtomb False wc)"] wcrtomb_scalar_lemma(1) [of wc] sc enc by (simp add: uw)
  moreover have "w = 0 \<Longrightarrow> k = 1" using arg_cong [OF enc, of length] kl by (simp add: utf8_enc_def)
  moreover have "w \<noteq> 0 \<Longrightarrow> unat r = k" using k4 by (auto simp: r)
  moreover have "wc = 0 \<longleftrightarrow> w = 0" using uw by (auto simp: unat_eq_0)
  ultimately show ?thesis using sc uw kl ce r w k4 by auto
qed

text \<open>
  C1. \<open>mbrtowc\<close> from the initial state classifies the next \<open>n\<close> bytes exactly as UTF-8
  does: a well-formed sequence yields its scalar value and length (0 for the null
  character), a proper prefix of one yields -2 with the state to resume from, and anything
  else yields -1 with \<open>EILSEQ\<close> and a reset state. No byte beyond the \<open>n\<close>-th is read.
\<close>

theorem mbrtowc_decodes_utf8:
  assumes "0 < n" "n \<le> length s"
  shows "mbrtowc (Some s) n (Some 0) g =
    Some (case utf8_scan (take n s) of (r, w, c, e) \<Rightarrow>
            (r, w, Some c, if e then g\<lparr>errno := EILSEQ\<rparr> else g))"
  using mbrtowc_scan_lemma [OF assms] by (simp add: mbrtowc_def split: prod.split)

theorem mbrtowc_decodes_utf8_witness:
  "mbrtowc (Some [0xe2, 0x82, 0xac, 0x41]) 3 (Some 0) mb_init = Some (3, Some 0x20ac, Some 0, mb_init)"
  using mbrtowc_decodes_utf8 [of 3 "[0xe2, 0x82, 0xac, 0x41]" mb_init]
  by (simp add: utf8_scan_def second_ok_def is_cont_def)

text \<open>
  C2. Round trip: the bytes \<open>wcrtomb\<close> stores for a Unicode scalar value are decoded by
  \<open>mbrtowc\<close> to that value, whatever follows them, with the byte count \<open>wcrtomb\<close> returned
  (0 for the null character), the initial state and an untouched \<open>errno\<close>.
\<close>

theorem wcrtomb_mbrtowc_roundtrip:
  assumes "is_scalar (unat wc)" "length (snd (wcrtomb False wc)) \<le> n"
  shows "mbrtowc (Some (snd (wcrtomb False wc) @ rest)) n (Some 0) g =
    Some (if wc = 0 then 0 else fst (wcrtomb False wc), Some wc, Some 0, g)"
  using mbrtowc_complete [OF wcrtomb_value [OF assms(1)] assms(2), of rest]
  by (simp add: mbrtowc_def length_wcrtomb [OF assms(1)] unat_eq_0)

theorem wcrtomb_mbrtowc_roundtrip_witness:
  "mbrtowc (Some (snd (wcrtomb False 0x20ac) @ [0x41])) 4 (Some 0) mb_init =
    Some (3, Some 0x20ac, Some 0, mb_init)"
  using wcrtomb_mbrtowc_roundtrip [where wc = "0x20ac" and n = 4 and rest = "[0x41]" and g = mb_init]
  by (simp add: wcrtomb_def is_scalar_def)

text \<open>A partial character is no character yet: a decoded one reaches beyond it.\<close>

lemma partial_unfinished:
  assumes p: "utf8_partial (map unat (p :: u8 list))" and k: "k \<in> {1, 2, 3, 4}" "utf8_value (map unat (take k (p @ s))) = Some w"
  shows "length p < k"
proof (rule ccontr)
  assume "\<not> length p < k"
  then have v: "utf8_value (map unat (take k p)) = Some w" using k(2) by simp
  have "mbrtowc_core (Some p) (length p) 0 = Some (-2, None, resume_state p, False)"
    using mbrtowc_partial [OF p(1), of "[]"] by simp
  then have "utf8_scan p = (-2, None, resume_state p, False)"
    using mbrtowc_scan_lemma [of "length p" p] p by (cases p) auto
  then have "find (\<lambda>k. utf8_value (map unat (take k p)) \<noteq> None) [1, 2, 3, 4] = None"
    unfolding utf8_scan_def by (cases "find (\<lambda>k. utf8_value (map unat (take k p)) \<noteq> None) [1, 2, 3, 4]") (simp_all only: option.case Let_def prod.inject option.distinct simp_thms)
  then have "\<not> (\<exists>j. j \<in> set [1, 2, 3, 4] \<and> utf8_value (map unat (take j p)) \<noteq> None)"
    unfolding find_None_iff .
  moreover have "k \<in> set [1, 2, 3, 4]" using k(1) by simp
  ultimately show False using v by blast
qed

text \<open>
  C3. Soundness of decoding, from the initial state (\<open>p\<close> empty) and from the state an earlier call
  has left behind the bytes \<open>p\<close> of an unfinished character: whenever \<open>mbrtowc\<close> stores a character,
  it is a Unicode scalar value, the bytes seen - those of \<open>p\<close> and those consumed now - are exactly
  the bytes \<open>wcrtomb\<close> would store for it (so no overlong form, surrogate or out-of-range sequence
  is ever accepted), at most \<open>n\<close> bytes were consumed, and the state is initial again.
\<close>

theorem mbrtowc_sound:
  assumes "p = [] \<and> c = 0 \<or> utf8_partial (map unat p) \<and> c = resume_state p" "n \<le> length s"
    and "mbrtowc (Some s) n (Some c) g = Some (r, Some wc, st, g')"
  shows "is_scalar (unat wc) \<and> snd (wcrtomb False wc) = p @ take (if wc = 0 then 1 else unat r) s \<and>
    unat r \<le> n \<and> st = Some 0 \<and> g' = g"
proof (cases "n = 0")
  case True with assms(3) show ?thesis by (simp add: mbrtowc_def mbrtowc_core_def)
next
  case n: False
  obtain e where core: "mbrtowc_core (Some s) n c = Some (r, Some wc, the st, e)"
    and st: "st = Some (the st)" "g' = (if e then g\<lparr>errno := EILSEQ\<rparr> else g)"
    using assms(3) by (auto simp: mbrtowc_def bind_eq_Some_conv split: prod.splits)
  define m where "m = length p"
  have "\<exists>r0. mbrtowc_core (Some (p @ s)) (m + n) 0 = Some (r0, Some wc, the st, e) \<and> r = r0 - word_of_nat m"
  proof (cases "p = []")
    case False
    then have "mbrtowc_core (Some s) n c = map_option (\<lambda>(r, w, c, e). (if w = None then r else r - word_of_nat m, w, c, e))
        (mbrtowc_core (Some (p @ s)) (m + n) 0)"
      using assms(1) mbrtowc_restart_lemma [of p n s] n unfolding m_def by blast
    with core show ?thesis by (cases "mbrtowc_core (Some (p @ s)) (m + n) 0") (auto split: if_splits)
  qed (use assms(1) core in \<open>auto simp: m_def\<close>)
  then obtain r0 where r0: "mbrtowc_core (Some (p @ s)) (m + n) 0 = Some (r0, Some wc, the st, e)" "r = r0 - word_of_nat m"
    by blast
  then have sc: "utf8_scan (p @ take n s) = (r0, Some wc, the st, e)"
    using mbrtowc_scan_lemma [of "m + n" "p @ s"] n assms(2) by (simp add: m_def)
  from scan_Some [OF this] have w: "is_scalar (unat wc)"
      "snd (wcrtomb False wc) = take (if wc = 0 then 1 else unat r0) (p @ take n s)"
      "unat r0 \<le> m + n" "the st = 0" "\<not> e"
    using assms(2) by (auto simp: m_def)
  obtain k where k: "k \<in> {1, 2, 3, 4}" "utf8_value (map unat (take k (p @ take n s))) \<noteq> None"
      "k = (if wc = 0 then 1 else unat r0)" using scan_Some [OF sc] by blast
  have "p = [] \<or> length p < k" using assms(1) partial_unfinished [of p k "take n s"] k(1,2) by blast
  then have part: "p = [] \<or> m < k" by (simp add: m_def)
  show ?thesis
  proof (cases "p = []")
    case True
    then show ?thesis using w r0(2) st assms(2) n by (auto simp: m_def min_def Suc_le_eq split: if_splits)
  next
    case False
    then have less: "m < k" using part by simp
    then have nz: "wc \<noteq> 0" "k = unat r0" using False k(3) by (cases p; simp add: m_def split: if_splits)+
    have "unat (word_of_nat m :: size_t) = m" using less k(1) by (auto simp: unsigned_of_nat take_bit_nat_eq_self)
    then have "unat r = k - m" using less nz(2) by (simp add: r0(2) unat_sub word_le_nat_alt)
    moreover have "k - m \<le> n" using w(3) nz(2) by linarith
    then have "take k (p @ take n s) = p @ take (k - m) s" using less by (simp add: m_def min_absorb1)
    ultimately show ?thesis using w nz st less by auto
  qed
qed

theorem mbrtowc_sound_witness:
  "is_scalar (unat (0x20ac :: u32)) \<and> snd (wcrtomb False 0x20ac) = [0xe2, 0x82] @ take 1 [0xac :: u8, 0x80]"
proof -
  have "mbrtowc (Some [0xac, 0x80]) 2 (Some (resume_state [0xe2, 0x82])) mb_init = Some (1, Some 0x20ac, Some 0, mb_init)"
    by code_simp
  from mbrtowc_sound [OF _ _ this, of "[0xe2, 0x82]"] show ?thesis by (simp add: second_ok_def)
qed

text \<open>
  C4. Restartability: after the bytes \<open>p\<close> of an incomplete character the call has returned
  -2 and left \<open>resume_state p\<close>; continuing from that state on the following bytes gives
  the character, incompleteness or error that one call on the joined bytes gives, with the
  bytes already consumed subtracted from the count.
\<close>

theorem mbrtowc_restart:
  assumes "utf8_partial (map unat p)" "0 < n"
  shows "mbrtowc_core (Some (p @ s)) (length p) 0 = Some (-2, None, resume_state p, False) \<and>
    mbrtowc_core (Some s) n (resume_state p) =
      map_option (\<lambda>(r, w, c, e). (if w = None then r else r - word_of_nat (length p), w, c, e))
        (mbrtowc_core (Some (p @ s)) (length p + n) 0)"
  using mbrtowc_partial [OF assms(1)] mbrtowc_restart_lemma [OF assms] by blast

theorem mbrtowc_restart_witness:
  "mbrtowc_core (Some [0xac]) 1 (resume_state [0xe2, 0x82]) =
      map_option (\<lambda>(r, w, c, e). (if w = None then r else r - 2, w, c, e))
        (mbrtowc_core (Some [0xe2, 0x82, 0xac]) (2 + 1) 0)"
  using mbrtowc_restart [of "[0xe2, 0x82]" 1 "[0xac]"]
  by (simp add: second_ok_def numeral_2_eq_2 [symmetric] cong: if_cong)

text \<open>
  C5. \<open>wcrtomb\<close> stores the Unicode UTF-8 encoding of every scalar value and returns its
  length, and rejects every other value (surrogates and values above 0x10ffff) with -1 and
  nothing stored.
\<close>

theorem wcrtomb_encodes_utf8:
  "(\<not> is_scalar (unat wc) \<and> wcrtomb False wc = (-1, [])) \<or>
   (is_scalar (unat wc) \<and> map unat (snd (wcrtomb False wc)) = utf8_enc (unat wc) \<and>
      fst (wcrtomb False wc) = word_of_nat (length (utf8_enc (unat wc))))"
  using wcrtomb_scalar_lemma [of wc] wcrtomb_nonscalar [of wc] by blast

text \<open>
  \<open>mbtowc\<close> agrees with \<open>mbrtowc\<close> started in the initial state: the same character and
  count when a character is complete, and -1 with \<open>EILSEQ\<close> where \<open>mbrtowc\<close> reports an
  incomplete or ill-formed one; like it, it reads at most \<open>n\<close> bytes.
\<close>

theorem mbtowc_agrees_mbrtowc:
  assumes "n \<le> length s"
  shows "\<exists>r w c e. mbrtowc_core (Some s) n 0 = Some (r, w, c, e) \<and>
    mbtowc (Some s) n = Some (if w = None then (-1, None, True) else (uint r, w, False))"
proof -
  have "\<exists>x. mbrtowc_core (Some s) n 0 = Some x"
  proof (cases "n = 0")
    case True then show ?thesis by (auto simp: mbrtowc_core_def)
  next
    case False then show ?thesis using mbrtowc_scan_lemma [of n s] assms by blast
  qed
  then obtain r w c e where "mbrtowc_core (Some s) n 0 = Some (r, w, c, e)" by (metis prod_cases4)
  with mbtowc_core [OF assms] show ?thesis by (simp add: one_shot_def)
qed

theorem mbtowc_agrees_mbrtowc_witness:
  "\<exists>r w c e. mbrtowc_core (Some [0xc3, 0xa9]) 2 0 = Some (r, w, c, e) \<and>
    mbtowc (Some [0xc3, 0xa9]) 2 = Some (if w = None then (-1, None, True) else (uint r, w, False))"
  by (rule mbtowc_agrees_mbrtowc) simp


lemma unat_ucast_up16: "unat (ucast (h :: u16) :: u32) = unat h"
proof -
  have "unat h < 2 ^ 16" using unsigned_less [of h, where 'a = nat] by simp
  then show ?thesis by (simp add: unsigned_ucast_eq take_bit_nat_eq_self)
qed

lemma unat_ucast_down16: "unat (w :: u32) < 2 ^ 16 \<Longrightarrow> unat (ucast w :: u16) = unat w"
  by (simp add: unsigned_ucast_eq take_bit_nat_eq_self)

lemma unat_and_1023: "unat ((w :: u32) AND 0x3ff) = unat w mod 1024"
proof -
  have "w AND 0x3ff = take_bit 10 w"
    by (simp add: take_bit_eq_mask mask_eq_exp_minus_1)
  then have "unat (w AND 0x3ff) = take_bit 10 (unat w)" by (simp only: unsigned_take_bit_eq)
  then show ?thesis by (simp add: take_bit_eq_mod)
qed

text \<open>The surrogates \<open>mbrtoc16\<close> computes for a supplementary character.\<close>

lemma surrogate_arith:
  fixes wc :: u32
  assumes w: "0x10000 \<le> unat wc" "unat wc < 0x110000"
  defines "hi \<equiv> ucast (0xd7c0 + signed_drop_bit 10 wc) :: u16"
    and "st \<equiv> (wc AND 0x3ff) + 0xdc00"
  shows "unat hi = 0xd7c0 + unat wc div 1024" "unat st = unat wc mod 1024 + 0xdc00"
    and "unat (ucast st :: u16) = unat st"
    and "unat wc div 1024 < 1088" "64 \<le> unat wc div 1024"
proof -
  define q r where "q = unat wc div 1024" and "r = unat wc mod 1024"
  have "q * 1024 + r = unat wc" "r < 1024" unfolding q_def r_def by (rule div_mult_mod_eq) simp
  then have q: "64 \<le> q" "q < 1088" using w by linarith+
  then show "unat wc div 1024 < 1088" "64 \<le> unat wc div 1024" by (simp_all add: q_def)
  have "unat (signed_drop_bit 10 wc) = q" using unat_signed_drop [of wc 10] w by (simp add: q_def)
  then have "unat (0xd7c0 + signed_drop_bit 10 wc) = 0xd7c0 + q"
    using q by (simp add: unat_word_ariths)
  then show "unat hi = 0xd7c0 + unat wc div 1024"
    unfolding hi_def using q by (subst unat_ucast_down16) (simp_all flip: q_def)
  show st: "unat st = unat wc mod 1024 + 0xdc00"
    unfolding st_def using \<open>r < 1024\<close> by (simp add: unat_word_ariths unat_and_1023 flip: r_def)
  show "unat (ucast st :: u16) = unat st"
    using \<open>r < 1024\<close> by (intro unat_ucast_down16) (simp add: st flip: r_def)
qed

lemma surrogate_join:
  fixes wc :: u32
  assumes w: "0x10000 \<le> unat wc" "unat wc < 0x110000"
  defines "x \<equiv> push_bit 10 ((ucast (ucast (0xd7c0 + signed_drop_bit 10 wc) :: u16) :: u32) - 0xd7c0)"
    and "st \<equiv> (wc AND 0x3ff) + 0xdc00"
  shows "x \<noteq> 0" "x + ucast (ucast st :: u16) - 0xdc00 = wc"
proof -
  note ar = surrogate_arith [OF w, folded st_def]
  have ux: "unat x = unat wc div 1024 * 1024"
    unfolding x_def unat_push_32 using ar(1,4) by (simp add: unat_sub_if' unat_ucast_up16)
  then show "x \<noteq> 0" using ar(5) by (auto simp: unat_eq_0 [symmetric])
  have "ucast (ucast st :: u16) = st" using ar(3) by (simp add: word_unat_eq_iff unat_ucast_up16)
  then have "x + ucast (ucast st :: u16) - 0xdc00 = x + (wc AND 0x3ff)" by (simp add: st_def)
  also have "\<dots> = wc"
  proof (intro word_unat_eq_iff [THEN iffD2])
    have "unat x + unat (wc AND 0x3ff) = unat wc" by (simp only: ux unat_and_1023 div_mult_mod_eq)
    then show "unat (x + (wc AND 0x3ff)) = unat wc"
      using unat32_less [of wc] by (simp add: unat_word_ariths)
  qed
  finally show "x + ucast (ucast st :: u16) - 0xdc00 = wc" .
qed

lemma sless_pos: "unat (a :: u32) < 2 ^ 31 \<Longrightarrow> unat b < 2 ^ 31 \<Longrightarrow> (a <s b) = (unat a < unat b)"
  by (simp only: word_sless_alt sint_small of_nat_less_iff)

lemma sle_pos: "unat (a :: u32) < 2 ^ 31 \<Longrightarrow> unat b < 2 ^ 31 \<Longrightarrow> (a \<le>s b) = (unat a \<le> unat b)"
  by (simp only: word_sle_eq sint_small of_nat_le_iff)

text \<open>
  C6. UTF-16: for a supplementary character \<open>mbrtoc16\<close> returns its high surrogate with the
  four bytes consumed, the next call returns the low surrogate with -3 and clears the state
  without reading, and \<open>c16rtomb\<close> fed the two surrogates in order stores nothing for the
  first and the original four bytes for the second.
\<close>

theorem utf16_surrogate_roundtrip:
  assumes "0x10000 \<le> unat wc" "unat wc < 0x110000" "4 \<le> n"
  shows "\<exists>hi lo st x.
    mbrtoc16 (Some (snd (wcrtomb False wc) @ rest)) n 0 = Some (4, Some hi, st, False) \<and>
    mbrtoc16 (Some rest') n' st = Some (-3, Some lo, 0, False) \<and>
    c16rtomb False hi 0 = (0, [], x) \<and>
    c16rtomb False lo x = (4, snd (wcrtomb False wc), 0)"
proof -
  define hi where "hi = (ucast (0xd7c0 + signed_drop_bit 10 wc) :: u16)"
  define st where "st = (wc AND 0x3ff) + 0xdc00"
  define x where "x = push_bit 10 ((ucast hi :: u32) - 0xd7c0)"
  note ar = surrogate_arith [OF assms(1,2), folded hi_def st_def]
  have r: "unat wc mod 1024 < 1024" by simp
  have sc: "is_scalar (unat wc)" using assms by (simp add: is_scalar_def)
  have len: "length (snd (wcrtomb False wc)) = 4" "fst (wcrtomb False wc) = 4"
    using length_enc [OF sc] wcrtomb_scalar_lemma(2) [OF sc] assms by (simp_all add: utf8_enc_def)
  have "unat wc \<noteq> 0" using assms by simp
  then have core: "mbrtowc_core (Some (snd (wcrtomb False wc) @ rest)) n 0 = Some (4, Some wc, 0, False)"
    using mbrtowc_complete [OF wcrtomb_value [OF sc], of n rest] len assms by simp
  have "0x10000 \<le>s wc" using assms by (simp add: sle_pos)
  with core have 1: "mbrtoc16 (Some (snd (wcrtomb False wc) @ rest)) n 0 = Some (4, Some hi, st, False)"
    by (simp add: mbrtoc16_def mbrtoc16_str_def hi_def st_def)
  have "0 <s st" using ar(2) r by (simp add: sless_pos)
  then have 2: "mbrtoc16 (Some rest') n' st = Some (-3, Some (ucast st), 0, False)"
    by (simp add: mbrtoc16_def mbrtoc16_str_def)
  have "unat ((ucast hi :: u32) - 0xd800) < 0x400"
    using ar by (simp add: unat_sub_if' unat_ucast_up16)
  then have 3: "c16rtomb False hi 0 = (0, [], x)"
    by (simp add: c16rtomb_def x_def word_less_nat_alt Let_def)
  have "unat ((ucast (ucast st :: u16) :: u32) - 0xdc00) < 0x400"
    using ar r by (simp add: unat_sub_if' unat_ucast_up16)
  then have 4: "c16rtomb False (ucast st) x = (4, snd (wcrtomb False wc), 0)"
    using len surrogate_join [OF assms(1,2)]
    by (simp add: c16rtomb_def word_le_nat_alt word_less_nat_alt Let_def hi_def st_def x_def case_prod_beta)
  show ?thesis using 1 2 3 4 by blast
qed

theorem utf16_surrogate_roundtrip_witness:
  "\<exists>hi lo st x.
    mbrtoc16 (Some (snd (wcrtomb False 0x1f600) @ [])) 4 0 = Some (4, Some hi, st, False) \<and>
    mbrtoc16 (Some []) 1 st = Some (-3, Some lo, 0, False) \<and>
    c16rtomb False hi 0 = (0, [], x) \<and>
    c16rtomb False lo x = (4, snd (wcrtomb False 0x1f600), 0)"
  by (rule utf16_surrogate_roundtrip) simp_all

end
