(* ===== verification/WConv.thy ===== *)
theory WConv
  imports Utf8_Props
begin

text \<open>
  The string conversions of \<open>src/orbis_wchar32.c\<close>: \<open>mbsrtowcs\<close>, \<open>mbsnrtowcs\<close>, \<open>mbstowcs\<close>,
  \<open>wcsrtombs\<close>, \<open>wcsnrtombs\<close> and \<open>wcstombs\<close>. A string argument is its object from the given
  pointer on, a pointer the code moves is an offset into it (an \<open>int\<close>, since the error path
  steps back over the lead byte and a resumed call can leave it one byte before the start), and
  counts are \<open>size_t\<close>. An outer \<open>None\<close> is an access outside an object or through a null pointer.
\<close>

unbundle bit_operations_syntax

primrec put_all :: "'a list \<Rightarrow> nat \<Rightarrow> 'a list \<Rightarrow> 'a list option" where
  "put_all ob k [] = Some ob"
| "put_all ob k (x # xs) = do { ob' \<leftarrow> wr ob k x; put_all ob' (Suc k) xs }"

section \<open>Multibyte to wide\<close>

text \<open>\<open>*s-1u < 0x7f\<close>\<close>

definition ascii_run :: "u8 \<Rightarrow> bool" where
  "ascii_run b = ((ucast b :: u32) - 1 < 0x7f)"

text \<open>
  The bytes after the lead byte when only counting (label \<open>resume0\<close>): where \<open>s\<close> is left with
  the state still set, or the offset after the character.
\<close>

definition mbs_skip :: "u8 list \<Rightarrow> nat \<Rightarrow> u32 \<Rightarrow> (int + nat) option" where
  "mbs_skip s i c =
     do { b \<leftarrow> rd s i;
          if OOB c b then Some (Inl (int i - 1))
          else if c AND push_bit 25 1 \<noteq> 0 then
            do { b1 \<leftarrow> rd s (i + 1);
                 if bad_cont b1 then Some (Inl (int (i + 1) - 2))
                 else if c AND push_bit 19 1 \<noteq> 0 then
                   do { b2 \<leftarrow> rd s (i + 2);
                        if bad_cont b2 then Some (Inl (int (i + 2) - 3))
                        else Some (Inr (i + 3)) }
                 else Some (Inr (i + 2)) }
          else Some (Inr (i + 1)) }"

text \<open>The same when storing (label \<open>resume\<close>): the offset after the character and its value.\<close>

definition mbs_decode :: "u8 list \<Rightarrow> nat \<Rightarrow> u32 \<Rightarrow> (int + nat \<times> u32) option" where
  "mbs_decode s i c =
     do { b \<leftarrow> rd s i;
          if OOB c b then Some (Inl (int i - 1))
          else
            let c1 = shift_in c b in
            if pending_bit c1 then
              do { b1 \<leftarrow> rd s (i + 1);
                   if bad_cont b1 then Some (Inl (int (i + 1) - 2))
                   else
                     let c2 = shift_in c1 b1 in
                     if pending_bit c2 then
                       do { b2 \<leftarrow> rd s (i + 2);
                            if bad_cont b2 then Some (Inl (int (i + 2) - 3))
                            else Some (Inr (i + 3, shift_in c2 b2)) }
                     else Some (Inr (i + 2, c2)) }
            else Some (Inr (i + 1, c1)) }"

lemma mbs_skip_after: "mbs_skip s i c = Some (Inr j) \<Longrightarrow> i < j \<and> j \<le> i + 3 \<and> j \<le> length s"
  by (auto simp: mbs_skip_def rd_eq_Some bind_eq_Some_conv split: if_splits)

lemma mbs_decode_after: "mbs_decode s i c = Some (Inr (j, w)) \<Longrightarrow> i < j \<and> j \<le> i + 3 \<and> j \<le> length s"
  by (auto simp: mbs_decode_def Let_def rd_eq_Some bind_eq_Some_conv split: if_splits)

text \<open>
  How a conversion loop ends: the destination is full with \<open>s\<close> at an offset, or the loop was
  left by \<open>break\<close> with \<open>s\<close> at an offset and the state \<open>c\<close> zero or not.
\<close>

datatype mbs_stop = Full nat | Break int bool

text \<open>The counting loop from its head; the remaining \<open>wn\<close> runs below zero and wraps.\<close>

function mbs_count :: "u8 list \<Rightarrow> nat \<Rightarrow> size_t \<Rightarrow> (size_t \<times> mbs_stop) option" where
  "mbs_count s i wn =
     (case rd s i of
        None \<Rightarrow> None
      | Some b \<Rightarrow>
          if ascii_run b then mbs_count s (i + 1) (wn - 1)
          else if bad_lead b then Some (wn, Break (int i) True)
          else (case mbs_skip s (i + 1) (lead_state b) of
              None \<Rightarrow> None
            | Some (Inl p) \<Rightarrow> Some (wn, Break p False)
            | Some (Inr j) \<Rightarrow> mbs_count s j (wn - 1)))"
  by pat_completeness auto
termination
  by (relation "measure (\<lambda>(s, i, wn). length s - i)") (auto simp: rd_eq_Some dest!: mbs_skip_after)

text \<open>The storing loop from its head, with the destination object and the index \<open>ws\<close> is at.\<close>

function mbs_store :: "u8 list \<Rightarrow> nat \<Rightarrow> u32 list \<Rightarrow> nat \<Rightarrow> size_t \<Rightarrow>
    (u32 list \<times> nat \<times> size_t \<times> mbs_stop) option" where
  "mbs_store s i ws k wn =
     (if wn = 0 then Some (ws, k, wn, Full i)
      else case rd s i of
        None \<Rightarrow> None
      | Some b \<Rightarrow>
          if ascii_run b then
            (case wr ws k (ucast b) of
               None \<Rightarrow> None
             | Some ws' \<Rightarrow> mbs_store s (i + 1) ws' (k + 1) (wn - 1))
          else if bad_lead b then Some (ws, k, wn, Break (int i) True)
          else (case mbs_decode s (i + 1) (lead_state b) of
              None \<Rightarrow> None
            | Some (Inl p) \<Rightarrow> Some (ws, k, wn, Break p False)
            | Some (Inr (j, c)) \<Rightarrow>
                (case wr ws k c of
                   None \<Rightarrow> None
                 | Some ws' \<Rightarrow> mbs_store s j ws' (k + 1) (wn - 1))))"
  by pat_completeness auto
termination
  by (relation "measure (\<lambda>(s, i, ws, k, wn). length s - i)") (auto simp: rd_eq_Some dest!: mbs_decode_after)

declare mbs_count.simps [simp del] mbs_store.simps [simp del]

text \<open>The tests after the loops; the byte at \<open>s\<close> is read only when the state is zero.\<close>

definition at_nul :: "u8 list \<Rightarrow> int \<Rightarrow> bool \<Rightarrow> bool option" where
  "at_nul s p c0 = (if c0 then do { b \<leftarrow> rd s (nat p); Some (b = 0) } else Some False)"

text \<open>
  \<open>mbsrtowcs\<close>: result, destination, new \<open>*src\<close> (\<open>None\<close> for the null pointer), state cell, and
  whether \<open>errno\<close> was set to \<open>EILSEQ\<close>.
\<close>

type_synonym mbs_result = "size_t \<times> u32 list option \<times> int option \<times> u32 option \<times> bool"

definition mbs_finish_count :: "u8 list \<Rightarrow> size_t \<Rightarrow> u32 option \<Rightarrow> size_t \<times> mbs_stop \<Rightarrow> mbs_result option" where
  "mbs_finish_count s wn0 st r =
     (case r of
        (wn, Full i) \<Rightarrow> None
      | (wn, Break p c0) \<Rightarrow>
          do { z \<leftarrow> at_nul s p c0;
               if z then Some (wn0 - wn, None, Some 0, st, False)
               else Some (-1, None, Some 0, st, True) })"

definition mbs_finish_store :: "u8 list \<Rightarrow> size_t \<Rightarrow> u32 option \<Rightarrow>
    u32 list \<times> nat \<times> size_t \<times> mbs_stop \<Rightarrow> mbs_result option" where
  "mbs_finish_store s wn0 st r =
     (case r of
        (ws, k, wn, Full i) \<Rightarrow> Some (wn0, Some ws, Some (int i), st, False)
      | (ws, k, wn, Break p c0) \<Rightarrow>
          do { z \<leftarrow> at_nul s p c0;
               if z then do { ws' \<leftarrow> wr ws k 0; Some (wn0 - wn, Some ws', None, st, False) }
               else Some (-1, Some ws, Some p, st, True) })"

definition mbsrtowcs :: "u32 list option \<Rightarrow> u8 list \<Rightarrow> size_t \<Rightarrow> u32 option \<Rightarrow> mbs_result option" where
  "mbsrtowcs dst s wn st =
     (let c = (case st of None \<Rightarrow> 0 | Some c \<Rightarrow> c) in
      case dst of
        None \<Rightarrow>
          if c \<noteq> 0 then
            do { r \<leftarrow> mbs_skip s 0 c;
                 case r of
                   Inl p \<Rightarrow> mbs_finish_count s wn st (wn, Break p False)
                 | Inr j \<Rightarrow> mbs_count s j (wn - 1) \<bind> mbs_finish_count s wn st }
          else mbs_count s 0 wn \<bind> mbs_finish_count s wn st
      | Some ws \<Rightarrow>
          if c \<noteq> 0 then
            do { r \<leftarrow> mbs_decode s 0 c;
                 case r of
                   Inl p \<Rightarrow> mbs_finish_store s wn (Some 0) (ws, 0, wn, Break p False)
                 | Inr (j, w) \<Rightarrow>
                     do { ws' \<leftarrow> wr ws 0 w;
                          mbs_store s j ws' 1 (wn - 1) \<bind> mbs_finish_store s wn (Some 0) } }
          else mbs_store s 0 ws 0 wn \<bind> mbs_finish_store s wn st)"

definition mbstowcs :: "u32 list option \<Rightarrow> u8 list \<Rightarrow> size_t \<Rightarrow> (size_t \<times> u32 list option \<times> bool) option" where
  "mbstowcs ws s wn = do { (r, ws', _, _, e) \<leftarrow> mbsrtowcs ws s wn None; Some (r, ws', e) }"


subsection \<open>A counted source\<close>

lemma size_pred: "wn \<noteq> 0 \<Longrightarrow> unat (wn :: size_t) = Suc (unat (wn - 1))"
  by (metis Suc_pred' unat_minus_one unat_gt_0)

lemma mbs_store_full:
  "mbs_store s i ws k wn = Some (ws', k', wn', Full i') \<Longrightarrow> i + unat wn \<le> i' \<and> i' \<le> i + 4 * unat wn"
proof (induction s i ws k wn rule: mbs_store.induct)
  case (1 s i ws k wn)
  show ?case
  proof (cases "wn = 0")
    case True with 1(3) show ?thesis by (simp add: mbs_store.simps [of s i ws k 0])
  next
    case False
    with 1(3) obtain b where b: "rd s i = Some b" by (cases "rd s i") (auto simp: mbs_store.simps [of s i ws k wn])
    show ?thesis
    proof (cases "ascii_run b")
      case True
      with 1(3) False b obtain w where w: "wr ws k (ucast b) = Some w"
        by (cases "wr ws k (ucast b)") (auto simp: mbs_store.simps [of s i ws k wn])
      from 1(1) [OF False b True w] 1(3) False b True w size_pred [OF False] show ?thesis
        by (simp add: mbs_store.simps [of s i ws k wn])
    next
      case asc: False
      with 1(3) False b have lead: "\<not> bad_lead b"
        by (auto simp: mbs_store.simps [of s i ws k wn])
      from 1(3) False b asc lead obtain r where r: "mbs_decode s (i + 1) (lead_state b) = Some r"
        by (cases "mbs_decode s (i + 1) (lead_state b)") (auto simp: mbs_store.simps [of s i ws k wn])
      from 1(3) False b asc lead r obtain j c where r': "r = Inr (j, c)"
        by (cases r) (auto simp: mbs_store.simps [of s i ws k wn])
      from 1(3) False b asc lead r r' obtain w where w: "wr ws k c = Some w"
        by (cases "wr ws k c") (auto simp: mbs_store.simps [of s i ws k wn])
      from r r' have "i < j" "j \<le> i + 4" using mbs_decode_after [of s "i + 1" "lead_state b" j c] by auto
      with 1(2) [OF False b asc lead r r' refl w] 1(3) False b asc lead r r' w size_pred [OF False]
      show ?thesis by (simp add: mbs_store.simps [of s i ws k wn])
    qed
  qed
qed

text \<open>A successful call that leaves the source unfinished has read between one and four bytes a character.\<close>

lemma mbs_finish_store_src:
  "mbs_finish_store s wn0 st (ws, k, wn, stop) = Some (l, d, Some q, st', e) \<Longrightarrow> l \<noteq> -1 \<Longrightarrow>
   \<exists>i. stop = Full i \<and> q = int i"
  by (cases stop) (auto simp: mbs_finish_store_def bind_eq_Some_conv split: if_splits)

lemma mbsrtowcs_src:
  assumes "mbsrtowcs (Some ws) s m st = Some (l, d, Some q, st', e)" "l \<noteq> -1" "m \<noteq> 0"
  shows "0 < q \<and> q \<le> int (4 * unat m)"
proof -
  obtain c where c: "c = (case st of None \<Rightarrow> 0 | Some c \<Rightarrow> c)" by simp
  note a = assms(1) [unfolded mbsrtowcs_def Let_def, folded c]
  show ?thesis
  proof (cases "c = 0")
    case True
    with a obtain ws' k wn stop where st: "mbs_store s 0 ws 0 m = Some (ws', k, wn, stop)"
      "mbs_finish_store s m st (ws', k, wn, stop) = Some (l, d, Some q, st', e)"
      by (cases "mbs_store s 0 ws 0 m") auto
    from mbs_finish_store_src [OF this(2) assms(2)] obtain i where i: "stop = Full i" "q = int i" by auto
    from mbs_store_full [OF st(1) [unfolded i(1)]] size_pred [OF assms(3)] show ?thesis
      unfolding i by linarith
  next
    case False
    from a False obtain r where r: "mbs_decode s 0 c = Some r" by (cases "mbs_decode s 0 c") auto
    from a assms(2) False r obtain j w where j: "r = Inr (j, w)"
      by (cases r) (auto simp: mbs_finish_store_def at_nul_def)
    from a False r j obtain w' where w': "wr ws 0 w = Some w'" by (cases "wr ws 0 w") auto
    from a False r j w' obtain ws' k wn stop where st: "mbs_store s j w' 1 (m - 1) = Some (ws', k, wn, stop)"
      "mbs_finish_store s m (Some 0) (ws', k, wn, stop) = Some (l, d, Some q, st', e)"
      by (cases "mbs_store s j w' 1 (m - 1)") auto
    from mbs_finish_store_src [OF this(2) assms(2)] obtain i where i: "stop = Full i" "q = int i" by auto
    from mbs_decode_after [of s 0 c j w] r j have "0 < j" "j \<le> 3" by simp_all
    with mbs_store_full [OF st(1) [unfolded i(1)]] size_pred [OF assms(3)]
    show ?thesis unfolding i by linarith
  qed
qed

lemma bulk_decreases:
  assumes "0 < q" "q \<le> int (4 * unat m)" "m \<le> n div (4 :: size_t)"
  shows "unat (n - of_int q) < unat n"
proof -
  from assms(3) have "unat m \<le> unat n div 4" by (simp add: word_le_nat_alt unat_div)
  then have q: "nat q \<le> unat n" using assms(1,2) by linarith
  have nq: "(of_int q :: size_t) = word_of_nat (nat q)" using assms(1) by (simp add: of_nat_nat)
  have u: "unat (word_of_nat (nat q) :: size_t) = nat q"
    using q unsigned_less [of n, where 'a = nat] by (simp add: unsigned_of_nat take_bit_nat_eq_self)
  from u q have "(word_of_nat (nat q) :: size_t) \<le> n" by (simp add: word_le_nat_alt)
  then have "unat (n - of_int q) = unat n - nat q" using u by (simp add: unat_sub nq)
  moreover have "0 < nat q" using assms(1) by simp
  ultimately show ?thesis using q by linarith
qed

text \<open>
  The state of \<open>mbsnrtowcs\<close> between its loops: the buffer, the index \<open>ws\<close> is at, the source
  offset, \<open>n\<close>, \<open>wn\<close>, \<open>cnt\<close>, the state cell, and whether \<open>errno\<close> was set.
\<close>

type_synonym mbsnr_state = "u32 list \<times> nat \<times> int option \<times> size_t \<times> size_t \<times> size_t \<times> u32 option \<times> bool"

text \<open>The first loop; \<open>adv\<close> is \<open>ws != wbuf\<close>.\<close>

function mbsnr_bulk :: "bool \<Rightarrow> u8 list \<Rightarrow> nat \<Rightarrow> u32 list \<Rightarrow> nat \<Rightarrow> size_t \<Rightarrow> size_t \<Rightarrow> size_t \<Rightarrow>
    u32 option \<Rightarrow> mbsnr_state option" where
  "mbsnr_bulk adv s p ws k n wn cnt st =
     (if wn \<noteq> 0 \<and> (n div 4 \<ge> wn \<or> n div 4 > 32) then
        (case mbsrtowcs (Some (drop k ws)) (drop p s) (min (n div 4) wn) st of
           None \<Rightarrow> None
         | Some (l, d, src, st', e) \<Rightarrow>
             let ws' = take k ws @ (case d of None \<Rightarrow> [] | Some d' \<Rightarrow> d') in
             if l = -1 then Some (ws', k, map_option (\<lambda>q. int p + q) src, n, 0, l, st', e)
             else
               let k' = (if adv then k + unat l else k); wn' = (if adv then wn - l else wn) in
               (case src of
                  None \<Rightarrow> Some (ws', k', None, 0, wn', cnt + l, st', e)
                | Some q \<Rightarrow> mbsnr_bulk adv s (p + nat q) ws' k' (n - of_int q) wn' (cnt + l) st'))
      else Some (ws, k, Some (int p), n, wn, cnt, st, False))"
  by pat_completeness auto
termination
proof (relation "measure (\<lambda>(adv, s, p, ws, k, n, wn, cnt, st). unat n)")
qed (use mbsrtowcs_src bulk_decreases in \<open>fastforce simp: min_def not_le split: if_splits\<close>)+

declare mbsnr_bulk.simps [simp del]

text \<open>The second loop, one \<open>mbrtowc\<close> call a character.\<close>

function mbsnr_chars :: "u8 list \<Rightarrow> nat \<Rightarrow> u32 list \<Rightarrow> nat \<Rightarrow> size_t \<Rightarrow> size_t \<Rightarrow> size_t \<Rightarrow> u32 option \<Rightarrow>
    mb_globals \<Rightarrow> (u32 list \<times> int option \<times> size_t \<times> u32 option \<times> mb_globals) option" where
  "mbsnr_chars s p ws k n wn cnt st g =
     (if wn \<noteq> 0 \<and> n \<noteq> 0 then
        (case mbrtowc (Some (drop p s)) (unat n) st g of
           None \<Rightarrow> None
         | Some (l, w, st', g') \<Rightarrow>
             (case (case w of None \<Rightarrow> Some ws | Some v \<Rightarrow> wr ws k v) of
                None \<Rightarrow> None
              | Some ws' \<Rightarrow>
                  if l + 2 \<le> 2 then
                    (if l = -1 then Some (ws', Some (int p), l, st', g')
                     else if l = 0 then Some (ws', None, cnt, st', g')
                     else (case st' of
                         None \<Rightarrow> None
                       | Some _ \<Rightarrow> Some (ws', Some (int p), cnt, Some 0, g')))
                  else mbsnr_chars s (p + unat l) ws' (k + 1) (n - l) (wn - 1) (cnt + 1) st' g'))
      else Some (ws, Some (int p), cnt, st, g))"
  by pat_completeness auto
termination
  by (relation "measure (\<lambda>(s, p, ws, k, n, wn, cnt, st, g). unat wn)") (auto simp: unat_gt_0 unat_minus_one)

declare mbsnr_chars.simps [simp del]

text \<open>
  \<open>mbsnrtowcs\<close>: \<open>cnt\<close>, the destination, the new \<open>*src\<close>, the state cell and the globals. With no
  destination the characters go to the 256-element \<open>wbuf\<close>, whose contents nobody reads.
\<close>

definition mbsnrtowcs :: "u32 list option \<Rightarrow> u8 list option \<Rightarrow> size_t \<Rightarrow> size_t \<Rightarrow> u32 option \<Rightarrow> mb_globals \<Rightarrow>
    (size_t \<times> u32 list option \<times> int option \<times> u32 option \<times> mb_globals) option" where
  "mbsnrtowcs wcs src n wn st g =
     (case src of
        None \<Rightarrow> Some (0, wcs, None, st, g)
      | Some s \<Rightarrow>
          let (ws, wn0) = (case wcs of None \<Rightarrow> (replicate 256 0, 256) | Some w \<Rightarrow> (w, wn)) in
          do { (ws1, k, s1, n1, wn1, cnt, st1, e) \<leftarrow> mbsnr_bulk (wcs \<noteq> None) s 0 ws 0 n wn0 0 st;
               let g1 = (if e then g\<lparr>errno := EILSEQ\<rparr> else g);
               (ws2, s2, cnt2, st2, g2) \<leftarrow>
                 (case s1 of
                    None \<Rightarrow> Some (ws1, None, cnt, st1, g1)
                  | Some p \<Rightarrow>
                      if wn1 = 0 \<or> n1 = 0 then Some (ws1, Some p, cnt, st1, g1)
                      else mbsnr_chars s (nat p) ws1 k n1 wn1 cnt st1 g1);
               Some (case wcs of
                   None \<Rightarrow> (cnt2, None, Some 0, st2, g2)
                 | Some _ \<Rightarrow> (cnt2, Some ws2, s2, st2, g2)) })"

section \<open>Wide to multibyte\<close>

definition W32_MB_LEN_MAX :: size_t where "W32_MB_LEN_MAX = 4"

text \<open>\<open>(unsigned)**ws-1u >= 0x7fu\<close>\<close>

definition not_ascii :: "u32 \<Rightarrow> bool" where
  "not_ascii w = (w - 1 \<ge> 0x7f)"

text \<open>The measuring loop of \<open>wcsrtombs\<close> with no destination.\<close>

fun wcsr_count :: "u32 list \<Rightarrow> size_t \<Rightarrow> size_t option" where
  "wcsr_count [] n = None"
| "wcsr_count (w # ws) n =
     (if w = 0 then Some n
      else if w \<ge> 0x80 then
        (let l = fst (wcrtomb False w) in
         if l = -1 then Some (-1) else wcsr_count ws (n + l))
      else wcsr_count ws (n + 1))"

text \<open>
  One of the two storing loops either returns (result, destination and new \<open>*ws\<close>) or goes on
  with the rest of the source, its offset, the destination, the index of \<open>s\<close> and \<open>n\<close>.
\<close>

datatype wcsr_stop =
    Return size_t "u8 list" "nat option"
  | Go_on "u32 list" nat "u8 list" nat size_t

text \<open>\<open>while (n>=4)\<close>: every character fits.\<close>

fun wcsr_fast :: "size_t \<Rightarrow> u32 list \<Rightarrow> nat \<Rightarrow> u8 list \<Rightarrow> nat \<Rightarrow> size_t \<Rightarrow> wcsr_stop option" where
  "wcsr_fast N [] i s k n = (if n \<ge> 4 then None else Some (Go_on [] i s k n))"
| "wcsr_fast N (w # ws) i s k n =
     (if n \<ge> 4 then
        (if not_ascii w then
           (if w = 0 then do { s' \<leftarrow> wr s k 0; Some (Return (N - n) s' None) }
            else
              let (l, bs) = wcrtomb False w in
              if l = -1 then Some (Return (-1) s (Some i))
              else do { s' \<leftarrow> put_all s k bs; wcsr_fast N ws (i + 1) s' (k + unat l) (n - l) })
         else do { s' \<leftarrow> wr s k (ucast w); wcsr_fast N ws (i + 1) s' (k + 1) (n - 1) })
      else Some (Go_on (w # ws) i s k n))"

text \<open>\<open>while (n)\<close>: the character goes through \<open>buf\<close> to see whether it fits.\<close>

fun wcsr_tail :: "size_t \<Rightarrow> u32 list \<Rightarrow> nat \<Rightarrow> u8 list \<Rightarrow> nat \<Rightarrow> size_t \<Rightarrow>
    (size_t \<times> u8 list \<times> nat option) option" where
  "wcsr_tail N [] i s k n = (if n \<noteq> 0 then None else Some (N, s, Some i))"
| "wcsr_tail N (w # ws) i s k n =
     (if n \<noteq> 0 then
        (if not_ascii w then
           (if w = 0 then do { s' \<leftarrow> wr s k 0; Some (N - n, s', None) }
            else
              let (l, bs) = wcrtomb False w in
              if l = -1 then Some (-1, s, Some i)
              else if l > n then Some (N - n, s, Some i)
              else do { s' \<leftarrow> put_all s k bs; wcsr_tail N ws (i + 1) s' (k + unat l) (n - l) })
         else do { s' \<leftarrow> wr s k (ucast w); wcsr_tail N ws (i + 1) s' (k + 1) (n - 1) })
      else Some (N, s, Some i))"

text \<open>
  \<open>wcsrtombs\<close>: result, destination and the new \<open>*ws\<close>; a result of \<open>-1\<close> comes with
  \<open>errno = EILSEQ\<close>, set by \<open>wcrtomb\<close>.
\<close>

definition wcsrtombs :: "u8 list option \<Rightarrow> u32 list \<Rightarrow> size_t \<Rightarrow> (size_t \<times> u8 list option \<times> nat option) option" where
  "wcsrtombs dst ws n =
     (case dst of
        None \<Rightarrow> do { r \<leftarrow> wcsr_count ws 0; Some (r, None, Some 0) }
      | Some s \<Rightarrow>
          do { r \<leftarrow> wcsr_fast n ws 0 s 0 n;
               (l, s', p) \<leftarrow>
                 (case r of
                    Return l s' p \<Rightarrow> Some (l, s', p)
                  | Go_on ws' i s' k n' \<Rightarrow> wcsr_tail n ws' i s' k n');
               Some (l, Some s', p) })"

definition wcstombs :: "u8 list option \<Rightarrow> u32 list \<Rightarrow> size_t \<Rightarrow> (size_t \<times> u8 list option) option" where
  "wcstombs s ws n = do { (r, s', _) \<leftarrow> wcsrtombs s ws n; Some (r, s') }"

text \<open>The loop of \<open>wcsnrtombs\<close>: \<open>cnt\<close>, the destination and \<open>ws\<close>.\<close>

fun wcsnr_loop :: "bool \<Rightarrow> u32 list \<Rightarrow> nat \<Rightarrow> u8 list \<Rightarrow> nat \<Rightarrow> size_t \<Rightarrow> size_t \<Rightarrow> size_t \<Rightarrow>
    (size_t \<times> u8 list \<times> nat option) option" where
  "wcsnr_loop has_dst [] i s k wn n cnt = (if wn \<noteq> 0 then None else Some (cnt, s, Some i))"
| "wcsnr_loop has_dst (w # ws) i s k wn n cnt =
     (if wn \<noteq> 0 then
        (let (l, bs) = wcrtomb False w in
         if l = -1 then Some (-1, s, Some i)
         else if has_dst \<and> n < W32_MB_LEN_MAX \<and> l > n then Some (cnt, s, Some i)
         else do {
           s' \<leftarrow> (if has_dst then put_all s k bs else Some s);
           (let k' = (if has_dst then k + unat l else k); n' = (if has_dst then n - l else n) in
            if w = 0 then Some (cnt, s', None)
            else wcsnr_loop has_dst ws (i + 1) s' k' (wn - 1) n' (cnt + l)) })
      else Some (cnt, s, Some i))"

definition wcsnrtombs :: "u8 list option \<Rightarrow> u32 list option \<Rightarrow> size_t \<Rightarrow> size_t \<Rightarrow>
    (size_t \<times> u8 list option \<times> nat option) option" where
  "wcsnrtombs dst wcs wn n =
     (case wcs of
        None \<Rightarrow> Some (0, dst, None)
      | Some ws \<Rightarrow>
          (case dst of
             None \<Rightarrow> do { (cnt, _, _) \<leftarrow> wcsnr_loop False ws 0 [] 0 wn 0 0; Some (cnt, None, Some 0) }
           | Some s \<Rightarrow> do { (cnt, s', p) \<leftarrow> wcsnr_loop True ws 0 s 0 wn n 0; Some (cnt, Some s', p) }))"

end
