(* ===== verification/WConv_Facts.thy ===== *)
theory WConv_Facts
  imports WConv
begin

text \<open>
  The loops of the string conversions against the single-character codec: one round of the
  decoding loop consumes exactly the encoding of the character it stores, and accepts the
  encoding of every character; the storing loops of \<open>wcsrtombs\<close> write the encodings of the
  longest prefix of the source that fits.
\<close>

unbundle bit_operations_syntax

section \<open>Decoding one character\<close>

lemma rd_drop: "rd s i = Some b \<Longrightarrow> drop i s = b # drop (Suc i) s"
  by (auto simp: rd_eq_Some Cons_nth_drop_Suc)

lemma mbs_decode_resume:
  assumes "mbs_decode s i c = Some (Inr (j, w))"
  shows "mbrtowc_resume (drop i s) (j - i) c = Some (Complete w 0) \<or>
    j - i = 3 \<and> mbrtowc_resume (drop i s) 3 c = Some (Partial w)"
proof -
  obtain b where b: "rd s i = Some b" and ok: "\<not> OOB c b"
    using assms by (cases "rd s i") (auto simp: mbs_decode_def split: if_splits)
  note d = rd_drop [OF b]
  let ?c1 = "shift_in c b"
  show ?thesis
  proof (cases "pending_bit ?c1")
    case False
    with assms b ok show ?thesis by (auto simp: mbs_decode_def Let_def mbrtowc_loop.simps(2) mbrtowc_resume_def d)
  next
    case p1: True
    with assms b ok obtain b1 where b1: "rd s (Suc i) = Some b1" and ok1: "\<not> bad_cont b1"
      by (cases "rd s (Suc i)") (auto simp: mbs_decode_def Let_def mbrtowc_loop.simps(2) split: if_splits)
    note d1 = rd_drop [OF b1]
    show ?thesis
    proof (cases "pending_bit (shift_in ?c1 b1)")
      case False
      with assms b ok b1 ok1 p1 show ?thesis
        by (auto simp: mbs_decode_def Let_def mbrtowc_loop.simps(2) mbrtowc_resume_def d d1)
    next
      case True
      with assms b ok b1 ok1 p1 obtain b2 where b2: "rd s (Suc (Suc i)) = Some b2" and ok2: "\<not> bad_cont b2"
        by (cases "rd s (Suc (Suc i))") (auto simp: mbs_decode_def Let_def mbrtowc_loop.simps(2) split: if_splits)
      with assms b ok b1 ok1 p1 True show ?thesis
        by (auto simp: mbs_decode_def Let_def mbrtowc_loop.simps(2) mbrtowc_resume_def d d1 rd_drop [OF b2])
    qed
  qed
qed

lemma mbs_decode_complete:
  assumes "mbrtowc_resume (drop i s) n c = Some (Complete w 0)" "n \<le> 3" "i + n \<le> length s"
  shows "mbs_decode s i c = Some (Inr (i + n, w))"
proof -
  from assms(1) have n0: "n \<noteq> 0" by (auto simp: mbrtowc_resume_def split: if_splits)
  then obtain b where b: "rd s i = Some b" using assms(3) by (simp add: rd_def)
  note d = rd_drop [OF b]
  have ok: "\<not> OOB c b" using assms(1) n0 by (auto simp: mbrtowc_resume_def d split: if_splits)
  have l: "mbrtowc_loop (b # drop (Suc i) s) n c = Some (Complete w 0)"
    using assms(1) n0 ok by (simp add: mbrtowc_resume_def d)
  from n0 assms(2) consider "n = 1" | "n = 2" | "n = 3" by linarith
  then show ?thesis
  proof cases
    case 1 with l b ok show ?thesis by (auto simp: mbs_decode_def Let_def mbrtowc_loop.simps(2) split: if_splits)
  next
    case 2
    then obtain b1 where b1: "rd s (Suc i) = Some b1" using assms(3) by (simp add: rd_def)
    from 2 l b b1 ok show ?thesis
      by (auto simp: mbs_decode_def Let_def mbrtowc_loop.simps(2) rd_drop [OF b1] split: if_splits)
  next
    case 3
    then obtain b1 b2 where b1: "rd s (Suc i) = Some b1" and b2: "rd s (Suc (Suc i)) = Some b2"
      using assms(3) by (simp add: rd_def)
    from 3 l b b1 b2 ok show ?thesis
      by (auto simp: mbs_decode_def Let_def mbrtowc_loop.simps(2) rd_drop [OF b1] rd_drop [OF b2] split: if_splits)
  qed
qed

text \<open>The first byte of a character, as the head of the storing loop classifies it.\<close>

lemma ascii_run_iff: "ascii_run b \<longleftrightarrow> b \<noteq> 0 \<and> b < 0x80"
proof -
  have "unat b < 256" using unsigned_less [of b, where 'a = nat] by simp
  moreover have "(ucast b :: u32) = word_of_nat (unat b)" by simp
  ultimately show ?thesis
  proof (cases "b = 0")
    case True then show ?thesis by (simp add: ascii_run_def)
  next
    case False
    then have "0 < unat b" by (simp add: unat_gt_0)
    then have "unat ((ucast b :: u32) - 1) = unat b - 1"
      by (subst unat_sub) (auto simp: word_le_nat_alt unat_gt_0 Suc_le_eq)
    then show ?thesis using False by (simp add: ascii_run_def word_less_nat_alt) linarith
  qed
qed


text \<open>One round of either loop at offset \<open>i\<close>: the break with the state zero or not, or the character.\<close>

definition mbs_char :: "u8 list \<Rightarrow> nat \<Rightarrow> (bool + nat \<times> u32) option" where
  "mbs_char s i =
     (case rd s i of
        None \<Rightarrow> None
      | Some b \<Rightarrow>
          if ascii_run b then Some (Inr (i + 1, ucast b))
          else if bad_lead b then Some (Inl True)
          else (case mbs_decode s (i + 1) (lead_state b) of
              None \<Rightarrow> None
            | Some (Inl p) \<Rightarrow> Some (Inl False)
            | Some (Inr jc) \<Rightarrow> Some (Inr jc)))"

lemma mbs_decode_break: "mbs_decode s (i + 1) c = Some (Inl p) \<Longrightarrow> p = int i"
  by (auto simp: mbs_decode_def Let_def bind_eq_Some_conv split: if_splits)

lemma shift_in_bit31:
  assumes "\<not> bad_cont b"
  shows "bit (shift_in c b) 31 = bit c 25" and "bit (shift_in c b) 25 = bit c 19"
proof -
  have "(ucast b :: u32) - 0x80 < 0x40" using assms by (simp add: bad_cont_def)
  then have "take_bit 6 ((ucast b :: u32) - 0x80) = ucast b - 0x80"
    by (simp add: word_unat_eq_iff unsigned_take_bit_eq take_bit_nat_eq_self word_less_nat_alt)
  then have "bit ((ucast b :: u32) - 0x80) n \<Longrightarrow> n < 6" for n
    by (metis bit_take_bit_iff)
  then show "bit (shift_in c b) 31 = bit c 25" "bit (shift_in c b) 25 = bit c 19"
    by (fastforce simp: shift_in_def bit_simps)+
qed

lemma top_values:
  "\<forall>x \<in> set [0..<32]. ((word_of_nat x - 0x10) AND NOT 7 = (0 :: u32)) = (16 \<le> x \<and> x < 24)"
  by code_simp

lemma OOB_cont:
  assumes "\<not> OOB c b"
  shows "\<not> bad_cont b"
proof -
  let ?x = "drop_bit 3 (ucast b :: u32)"
  have lt: "unat b div 8 \<in> set [0..<32]"
    unfolding set_upt using unsigned_less [of b, where 'a = nat] by simp
  have x: "?x = word_of_nat (unat b div 8)"
    using lt by (intro word_unat_eq_iff [THEN iffD2])
      (simp add: drop_bit_eq_div unat_div unsigned_of_nat take_bit_nat_eq_self)
  from assms have "((?x - 0x10) AND NOT 7) OR ((?x + signed_drop_bit 26 c) AND NOT 7) = 0"
    by (simp add: OOB_def bit.conj_disj_distrib2)
  then have "(?x - 0x10) AND NOT 7 = 0" by (metis or_eq_0_iff)
  with bspec [OF top_values lt] have "16 \<le> unat b div 8" "unat b div 8 < 24" by (simp_all add: x)
  then have "0x80 \<le> unat b" "unat b < 0xc0" by linarith+
  then show ?thesis by (simp add: bad_cont_iff)
qed

lemma mbs_skip_decode: "mbs_skip s i c = map_option (map_sum id fst) (mbs_decode s i c)"
proof -
  have and_bit: "(x AND push_bit n 1 \<noteq> 0) = bit x n" for x :: u32 and n by (simp only: bit_iff_and_push_bit_not_eq_0)
  note defs = mbs_skip_def mbs_decode_def Let_def pending_bit_def and_bit
  show ?thesis
  proof (cases "\<exists>b. rd s i = Some b \<and> \<not> OOB c b")
    case False then show ?thesis unfolding defs by (cases "rd s i") auto
  next
    case True
    then obtain b where b: "rd s i = Some b" "\<not> OOB c b" by auto
    note b0 = shift_in_bit31 [OF OOB_cont [OF b(2)], of c]
    show ?thesis
    proof (cases "\<exists>b1. rd s (Suc i) = Some b1 \<and> \<not> bad_cont b1")
      case False with b b0 show ?thesis unfolding defs by (cases "rd s (Suc i)") auto
    next
      case True
      then obtain b1 where b1: "rd s (Suc i) = Some b1" "\<not> bad_cont b1" by auto
      show ?thesis
        using b b0 b1 shift_in_bit31 [OF b1(2)] unfolding defs by (cases "rd s (Suc (Suc i))") auto
    qed
  qed
qed

lemma mbs_store_char:
  "mbs_store s i ws k wn =
     (if wn = 0 then Some (ws, k, wn, Full i)
      else case mbs_char s i of
        None \<Rightarrow> None
      | Some (Inl c0) \<Rightarrow> Some (ws, k, wn, Break (int i) c0)
      | Some (Inr (j, c)) \<Rightarrow>
          (case wr ws k c of None \<Rightarrow> None | Some ws' \<Rightarrow> mbs_store s j ws' (k + 1) (wn - 1)))"
proof (cases "rd s i")
  case None then show ?thesis by (simp add: mbs_store.simps [of s i ws k wn] mbs_char_def)
next
  case (Some b)
  note s = mbs_store.simps [of s i ws k wn] and b = this
  show ?thesis
  proof (cases "ascii_run b \<or> bad_lead b")
    case True with b show ?thesis by (auto simp: s mbs_char_def split: option.split)
  next
    case False
    show ?thesis
    proof (cases "mbs_decode s (i + 1) (lead_state b)")
      case None with b False show ?thesis by (simp add: s mbs_char_def)
    next
      case (Some r)
      with b False show ?thesis
        by (cases r) (auto simp: s mbs_char_def dest: mbs_decode_break [of s i, simplified])
    qed
  qed
qed

lemma mbs_count_char:
  "mbs_count s i wn =
     (case mbs_char s i of
        None \<Rightarrow> None
      | Some (Inl c0) \<Rightarrow> Some (wn, Break (int i) c0)
      | Some (Inr (j, c)) \<Rightarrow> mbs_count s j (wn - 1))"
proof (cases "rd s i")
  case None then show ?thesis by (simp add: mbs_count.simps [of s i wn] mbs_char_def)
next
  case (Some b)
  note s = mbs_count.simps [of s i wn] and b = this
  show ?thesis
  proof (cases "ascii_run b \<or> bad_lead b")
    case True with b show ?thesis by (auto simp: s mbs_char_def)
  next
    case False
    show ?thesis
    proof (cases "mbs_decode s (i + 1) (lead_state b)")
      case None with b False show ?thesis by (simp add: s mbs_char_def mbs_skip_decode)
    next
      case (Some r)
      with b False show ?thesis
        by (cases r) (auto simp: s mbs_char_def mbs_skip_decode dest: mbs_decode_break [of s i, simplified])
    qed
  qed
qed

section \<open>A character is its encoding\<close>

text \<open>The bytes of a wide string.\<close>

definition enc :: "u32 \<Rightarrow> u8 list" where
  "enc w = snd (wcrtomb False w)"

definition encs :: "u32 list \<Rightarrow> u8 list" where
  "encs ws = concat (map enc ws)"

definition text_char :: "u32 \<Rightarrow> bool" where
  "text_char w \<longleftrightarrow> is_scalar (unat w) \<and> w \<noteq> 0"

lemma encs_simps [simp]: "encs [] = []" "encs (w # ws) = enc w @ encs ws" "encs (us @ ws) = encs us @ encs ws"
  by (simp_all add: encs_def)

lemma length_enc_bounds: "is_scalar (unat w) \<Longrightarrow> 1 \<le> length (enc w) \<and> length (enc w) \<le> 4"
  by (simp add: enc_def Utf8_Props.length_enc utf8_enc_def)

lemma unat_small: "m \<le> 4 \<Longrightarrow> unat (word_of_nat m :: size_t) = m"
  by (simp add: unsigned_of_nat take_bit_nat_eq_self)

lemma mbs_char_sound:
  assumes "mbs_char s i = Some (Inr (j, w))"
  shows "i < j \<and> j \<le> length s \<and> text_char w \<and> drop i s = enc w @ drop j s"
proof -
  obtain b where b: "rd s i = Some b" using assms by (cases "rd s i") (auto simp: mbs_char_def)
  note d = rd_drop [OF b]
  have il: "i < length s" using b by (simp add: rd_eq_Some)
  show ?thesis
  proof (cases "ascii_run b")
    case True
    then have "unat b < 0x80" "b \<noteq> 0" by (auto simp: ascii_run_iff word_less_nat_alt)
    moreover have w: "j = Suc i" "w = ucast b" using assms b True by (auto simp: mbs_char_def)
    moreover have "(ucast b :: u32) \<noteq> 0"
      using \<open>b \<noteq> 0\<close> by (metis unat_ucast_byte unat_eq_0)
    moreover have "ucast (ucast b :: u32) = b"
      using unsigned_less [of b, where 'a = nat]
      by (simp add: word_unat_eq_iff unsigned_ucast_eq unsigned_take_bit_eq take_bit_nat_eq_self)
    then have "enc (ucast b) = [b]" using \<open>unat b < 0x80\<close>
      by (simp add: enc_def wcrtomb_def word_less_nat_alt)
    ultimately show ?thesis using d il by (simp add: text_char_def is_scalar_def)
  next
    case False
    with assms b have lead: "\<not> bad_lead b" and dec: "mbs_decode s (i + 1) (lead_state b) = Some (Inr (j, w))"
      by (auto simp: mbs_char_def split: if_splits option.splits sum.splits)
    from lead have l: "0xc2 \<le> unat b" "unat b < 0xf5" by (auto simp: bad_lead_iff)
    from mbs_decode_after [OF dec] have j: "i + 1 < j" "j \<le> i + 4" "j \<le> length s" by auto
    let ?n = "j - i"
    have core: "mbrtowc_core (Some (drop i s)) ?n 0 = Some (utf8_scan (take ?n (drop i s)))"
      using j by (intro mbrtowc_scan_lemma) auto
    note c = core_lead [OF l, of ?n "drop (Suc i) s", folded d]
    from mbs_decode_resume [OF dec] have scan: "utf8_scan (take ?n (drop i s)) = (word_of_nat ?n, Some w, 0, False)"
    proof
      assume "mbrtowc_resume (drop (i + 1) s) (j - (i + 1)) (lead_state b) = Some (Complete w 0)"
      with c core j show ?thesis by simp
    next
      assume a: "j - (i + 1) = 3 \<and> mbrtowc_resume (drop (i + 1) s) 3 (lead_state b) = Some (Partial w)"
      then have n4: "?n = 4" using j by linarith
      with a c core j have "utf8_scan (take 4 (drop i s)) = (-2, None, w, False)" by simp
      then have "utf8_partial (map unat (take 4 (drop i s)))"
        by (auto simp: utf8_scan_def Let_def split: option.splits if_splits)
      moreover have "length (map unat (take 4 (drop i s))) = 4" using j n4 by simp
      ultimately show ?thesis by (cases "map unat (take 4 (drop i s))" rule: utf8_partial.cases) auto
    qed
    have un: "unat (word_of_nat ?n :: size_t) = ?n"
      by (rule unat_small) (use j in linarith)
    from scan_Some [OF scan] have sc: "is_scalar (unat w)"
      and e: "enc w = take (if w = 0 then 1 else ?n) (take ?n (drop i s))"
      by (simp_all add: un enc_def)
    have "w \<noteq> 0"
    proof
      assume "w = 0"
      with e d j have "[0] = [b]" by (simp add: enc_def wcrtomb_def min_def)
      with l show False by simp
    qed
    with e sc j show ?thesis by (simp add: text_char_def) (metis append_take_drop_id drop_drop le_add_diff_inverse2 less_or_eq_imp_le less_SucI Suc_leD)
  qed
qed


lemma mbs_char_complete:
  assumes w: "text_char w" and d: "drop i s = enc w @ rest"
  shows "mbs_char s i = Some (Inr (i + length (enc w), w))"
proof -
  let ?n = "length (enc w)"
  from w have sc: "is_scalar (unat w)" and w0: "w \<noteq> 0" "unat w \<noteq> 0" by (auto simp: text_char_def unat_eq_0)
  note n = length_enc_bounds [OF sc]
  from n obtain b q where e: "enc w = b # q" by (cases "enc w") auto
  have len: "i + ?n \<le> length s" using arg_cong [OF d, of length] n by simp linarith
  have b: "rd s i = Some b" using len e d by (simp add: rd_def nth_via_drop)
  have core: "mbrtowc_core (Some (b # drop (Suc i) s)) ?n 0 = Some (word_of_nat ?n, Some w, 0, False)"
    using mbrtowc_complete [OF wcrtomb_value [OF sc], of ?n rest] w0 by (simp add: rd_drop [OF b, symmetric] d enc_def)
  have pos: "0 < ?n" using n by linarith
  have inj: "m \<le> 4 \<Longrightarrow> (word_of_nat m :: size_t) = word_of_nat ?n \<Longrightarrow> m = ?n" for m
    using n by (metis unat_small)
  show ?thesis
  proof (cases "unat b < 0x80")
    case True
    from core_ascii [OF True pos, of "drop (Suc i) s"] core
    have "w = ucast b" "word_of_nat ?n = (if unat b = 0 then 0 else 1 :: size_t)" by auto
    moreover from this w0 have "?n = 1" using inj [of 1] by (auto split: if_splits)
    ultimately have "w = ucast b" "?n = 1" by auto
    moreover have "ascii_run b" using True w0 \<open>w = ucast b\<close> by (auto simp: ascii_run_iff word_less_nat_alt)
    ultimately show ?thesis using b by (simp add: mbs_char_def)
  next
    case False
    have l: "0xc2 \<le> unat b" "unat b < 0xf5"
      using core_bad_lead [OF _ _ pos, of b "drop (Suc i) s"] core False by force+
    from core_lead [OF l pos, of "drop (Suc i) s"] core obtain x where
      x: "mbrtowc_resume (drop (Suc i) s) (?n - 1) (lead_state b) = Some x"
      by (cases "mbrtowc_resume (drop (Suc i) s) (?n - 1) (lead_state b)") auto
    with core_lead [OF l pos, of "drop (Suc i) s"] core obtain n' where
      x': "x = Complete w n'" "word_of_nat (?n - n') = (word_of_nat ?n :: size_t)"
      by (cases x) auto
    have "n' = 0" using inj [OF _ x'(2)] n resume_count x x'(1) by fastforce
    have eq: "Suc i + (?n - 1) = i + ?n" using pos by linarith
    with \<open>n' = 0\<close> x x' mbs_decode_complete [of "Suc i" s "?n - 1" "lead_state b" w, unfolded eq] n len
    have "mbs_decode s (Suc i) (lead_state b) = Some (Inr (i + ?n, w))" by simp
    with b l show ?thesis by (simp add: mbs_char_def ascii_run_iff bad_lead_iff word_less_nat_alt)
  qed
qed

lemma mbs_char_break:
  assumes "mbs_char s i = Some (Inl c0)"
  shows "\<not> (\<exists>w rest. text_char w \<and> drop i s = enc w @ rest)"
    and "i < length s"
    and "s ! i = 0 \<Longrightarrow> c0"
proof -
  show "\<not> (\<exists>w rest. text_char w \<and> drop i s = enc w @ rest)"
    using assms mbs_char_complete by fastforce
  show "i < length s" using assms by (auto simp: mbs_char_def rd_def split: if_splits)
  with assms show "s ! i = 0 \<Longrightarrow> c0"
    by (auto simp: mbs_char_def ascii_run_iff bad_lead_iff)
qed

lemma mbs_char_nul: "i < length s \<Longrightarrow> s ! i = 0 \<Longrightarrow> mbs_char s i = Some (Inl True)"
  by (simp add: mbs_char_def ascii_run_iff bad_lead_iff)

section \<open>The loops\<close>

lemma mbs_store_run:
  assumes "mbs_store s i ws k wn = Some (ws', k', wn', stop)" "k \<le> length ws"
  shows "\<exists>us j. list_all text_char us \<and> drop i s = encs us @ drop j s \<and> j = i + length (encs us) \<and>
    ws' = take k ws @ us @ drop (k + length us) ws \<and> k' = k + length us \<and> k' \<le> length ws \<and>
    unat wn = unat wn' + length us \<and>
    (stop = Full j \<and> wn' = 0 \<or> wn' \<noteq> 0 \<and> (\<exists>c0. stop = Break (int j) c0 \<and> mbs_char s j = Some (Inl c0)))"
  using assms
proof (induction "unat wn" arbitrary: i ws k wn)
  case 0
  then have "wn = 0" by (metis unat_eq_0)
  with 0 show ?case by (auto simp: mbs_store_char [of s i ws k 0] intro!: exI [of _ "[]"])
next
  case (Suc n)
  then have wn: "wn \<noteq> 0" by auto
  from Suc.prems(1) wn obtain r where r: "mbs_char s i = Some r"
    by (cases "mbs_char s i") (auto simp: mbs_store_char [of s i ws k wn])
  show ?case
  proof (cases r)
    case (Inl c0)
    with Suc.prems wn r show ?thesis
      by (auto simp: mbs_store_char [of s i ws k wn] intro!: exI [of _ "[]"])
  next
    case (Inr jc)
    obtain j c where jc: "jc = (j, c)" by (cases jc)
    from Suc.prems(1) wn r Inr jc obtain w where w: "wr ws k c = Some w"
      and rec: "mbs_store s j w (k + 1) (wn - 1) = Some (ws', k', wn', stop)"
      by (cases "wr ws k c") (auto simp: mbs_store_char [of s i ws k wn])
    from w have kl: "k < length ws" and we: "w = ws[k := c]" by (auto simp: wr_eq_Some)
    note cs = mbs_char_sound [OF r [unfolded Inr jc]]
    from size_pred [OF wn] Suc.hyps(2) have n: "n = unat (wn - 1)" by simp
    from Suc.hyps(1) [OF n rec] kl we obtain us j' where
      us: "list_all text_char us" "drop j s = encs us @ drop j' s" "j' = j + length (encs us)"
        "ws' = take (k + 1) w @ us @ drop (k + 1 + length us) w" "k' = k + 1 + length us" "k' \<le> length w"
        "unat (wn - 1) = unat wn' + length us"
      and st: "stop = Full j' \<and> wn' = 0 \<or> wn' \<noteq> 0 \<and> (\<exists>c0. stop = Break (int j') c0 \<and> mbs_char s j' = Some (Inl c0))"
      by auto
    have "length s - i = length (enc c) + (length s - j)"
      using arg_cong [OF conjunct2 [OF conjunct2 [OF conjunct2 [OF cs]]], of length]
      by (simp only: length_drop length_append)
    with cs have jc: "j = i + length (enc c)" by linarith
    have "drop i s = encs (c # us) @ drop j' s" using cs us(2) by simp
    moreover have "ws' = take k ws @ (c # us) @ drop (k + length (c # us)) ws"
      using us(4) we kl by (simp add: take_Suc_conv_app_nth)
    ultimately show ?thesis
      using us cs st size_pred [OF wn] we jc by (intro exI [of _ "c # us"] exI [of _ j']) auto
  qed
qed

lemma mbs_store_complete:
  assumes "list_all text_char us" "drop i s = encs us @ drop j s" "j = i + length (encs us)" "j \<le> length s"
    "k + length us \<le> length ws" "length us \<le> unat wn"
  shows "mbs_store s i ws k wn =
    mbs_store s j (take k ws @ us @ drop (k + length us) ws) (k + length us) (wn - word_of_nat (length us))"
  using assms
proof (induction us arbitrary: i ws k wn)
  case Nil then show ?case by simp
next
  case (Cons u us)
  then have wn: "wn \<noteq> 0" by auto
  have ch: "mbs_char s i = Some (Inr (i + length (enc u), u))"
    using Cons.prems by (intro mbs_char_complete [where rest = "encs us @ drop j s"]) auto
  have d: "drop (i + length (enc u)) s = encs us @ drop j s"
    using Cons.prems(2) by (metis append_assoc append_eq_conv_conj drop_drop add.commute encs_simps(2))
  have "mbs_store s i ws k wn = mbs_store s (i + length (enc u)) (ws[k := u]) (k + 1) (wn - 1)"
    using wn ch Cons.prems(5) by (simp add: mbs_store_char [of s i ws k wn])
  also have "\<dots> = mbs_store s j (take (k + 1) (ws[k := u]) @ us @ drop (k + 1 + length us) (ws[k := u]))
      (k + 1 + length us) (wn - 1 - word_of_nat (length us))"
    using Cons.prems size_pred [OF wn] d by (intro Cons.IH) auto
  finally show ?case using Cons.prems(5) by (simp add: take_Suc_conv_app_nth diff_diff_eq)
qed


section \<open>Encoding loops\<close>

text \<open>The longest prefix of a wide string whose encoding fits in \<open>n\<close> bytes.\<close>

fun fit :: "u32 list \<Rightarrow> nat \<Rightarrow> u32 list" where
  "fit [] n = []"
| "fit (w # ws) n = (if length (enc w) \<le> n then w # fit ws (n - length (enc w)) else [])"

lemma length_fit: "length (encs (fit ws n)) \<le> n"
  by (induction ws n rule: fit.induct) auto

lemma fit_all: "length (encs ws) \<le> n \<Longrightarrow> fit ws n = ws"
  by (induction ws n rule: fit.induct) auto

lemma put_all_fits:
  "k + length xs \<le> length ob \<Longrightarrow> put_all ob k xs = Some (take k ob @ xs @ drop (k + length xs) ob)"
  by (induction xs arbitrary: ob k) (simp_all add: take_Suc_conv_app_nth)

lemma wcrtomb_result: "fst (wcrtomb False w) \<in> {1, 2, 3, 4, -1}"
  by (simp add: wcrtomb_def)

text \<open>The fast loop is an unrolling of the careful one: with four bytes left every character fits.\<close>

lemma wcsr_fast_tail:
  "(wcsr_fast N ws i s k n \<bind> (\<lambda>r. case r of
      Return l s' p \<Rightarrow> Some (l, s', p)
    | Go_on ws' i s' k n' \<Rightarrow> wcsr_tail N ws' i s' k n')) = wcsr_tail N ws i s k n"
proof (induction N ws i s k n rule: wcsr_fast.induct)
  case (1 N i s k n)
  have "n \<ge> 4 \<Longrightarrow> n \<noteq> 0" by auto
  then show ?case by auto
next
  case (2 N w ws i s k n)
  show ?case
  proof (cases "n \<ge> 4")
    case False then show ?thesis by simp
  next
    case n4: True
    then have n0: "n \<noteq> 0" by auto
    obtain l bs where lb: "wcrtomb False w = (l, bs)" by (cases "wcrtomb False w")
    have l: "l = -1 \<or> \<not> n < l"
    proof -
      have "l = -1 \<or> l \<le> 4" using wcrtomb_result [of w] lb by auto
      then show ?thesis using n4 by auto
    qed
    show ?thesis
    proof (cases "not_ascii w")
      case True
      show ?thesis
      proof (cases "w = 0 \<or> l = -1")
        case True with n4 n0 \<open>not_ascii w\<close> lb show ?thesis by (cases "wr s k 0") auto
      next
        case False
        with l have "\<not> n < l" by auto
        with False n4 n0 \<open>not_ascii w\<close> lb 2(1) [OF n4 True _ lb [symmetric] refl] show ?thesis
          by (cases "put_all s k bs") auto
      qed
    next
      case False
      with n4 n0 2(2) [OF n4 False] show ?thesis by (cases "wr s k (ucast w)") auto
    qed
  qed
qed

lemma wcsrtombs_tail:
  "wcsrtombs (Some s) ws n = map_option (\<lambda>(l, s', p). (l, Some s', p)) (wcsr_tail n ws 0 s 0 n)"
  unfolding wcsr_fast_tail [symmetric, of n ws 0 s 0 n] wcsrtombs_def
  by (cases "wcsr_fast n ws 0 s 0 n") (auto split: wcsr_stop.split Option.bind_split)

lemma not_ascii_iff: "not_ascii w \<longleftrightarrow> w = 0 \<or> w \<ge> 0x80"
  unfolding not_ascii_def word_le_nat_alt by (auto simp: unat_sub_if' unat_eq_0 Suc_le_eq unat_gt_0 split: if_splits)

lemma word_of_nat_enc_neq:
  assumes "is_scalar (unat w)"
  shows "word_of_nat (length (enc w)) \<noteq> (-1 :: size_t)"
proof
  assume "word_of_nat (length (enc w)) = (-1 :: size_t)"
  then have "length (enc w) = unat (-1 :: size_t)"
    using unat_small [of "length (enc w)"] length_enc_bounds [OF assms] by simp
  with length_enc_bounds [OF assms] show False by (simp add: unsigned_minus_1_eq_mask mask_eq_exp_minus_1)
qed

lemma wcsr_tail_char:
  assumes "text_char w"
  shows "wcsr_tail N (w # ws) i s k n =
    (if n = 0 then Some (N, s, Some i)
     else if unat n < length (enc w) then Some (N - n, s, Some i)
     else put_all s k (enc w) \<bind>
       (\<lambda>s'. wcsr_tail N ws (i + 1) s' (k + length (enc w)) (n - word_of_nat (length (enc w)))))"
proof -
  from assms have sc: "is_scalar (unat w)" and w0: "w \<noteq> 0" by (auto simp: text_char_def)
  have f: "fst (wcrtomb False w) = word_of_nat (length (enc w))"
    using length_wcrtomb [OF sc] by (simp add: enc_def)
  note b = length_enc_bounds [OF sc]
  then have u: "unat (word_of_nat (length (enc w)) :: size_t) = length (enc w)" by (intro unat_small) simp
  show ?thesis
  proof (cases "not_ascii w")
    case True
    note word_of_nat_enc_neq [OF sc]
    with True f u w0 show ?thesis
      by (cases "wcrtomb False w") (simp add: enc_def word_less_nat_alt)
  next
    case False
    then have "w < 0x80" by (auto simp: not_ascii_iff)
    then have "enc w = [ucast w]" by (simp add: enc_def wcrtomb_def)
    with False show ?thesis by (auto simp: unat_eq_0 Suc_le_eq unat_gt_0)
  qed
qed

text \<open>The careful loop on a string of characters.\<close>

lemma wcsr_tail_run:
  assumes "list_all text_char us" "k + unat n \<le> length s"
  shows "wcsr_tail N (us @ 0 # r) i s k n =
    (let p = fit us (unat n); m = length (encs p)
     in if length (encs us) < unat n
        then Some (N - (n - word_of_nat m), take k s @ encs p @ 0 # drop (k + m + 1) s, None)
        else Some (N - (n - word_of_nat m), take k s @ encs p @ drop (k + m) s, Some (i + length p)))"
  using assms
proof (induction us arbitrary: i s k n)
  case Nil
  show ?case
  proof (cases "n = 0")
    case True then show ?thesis by simp
  next
    case False
    then have "0 < unat n" by (simp add: unat_gt_0)
    with Nil have "k < length s" by linarith
    with False \<open>0 < unat n\<close> show ?thesis
      by (simp add: not_ascii_iff upd_conv_take_nth_drop)
  qed
next
  case (Cons w us)
  then have w: "text_char w" and us: "list_all text_char us" by auto
  let ?l = "length (enc w)"
  have b: "1 \<le> ?l" "?l \<le> 4" using length_enc_bounds w by (auto simp: text_char_def)
  show ?case
  proof (cases "unat n < ?l")
    case True
    then show ?thesis using b by (auto simp: wcsr_tail_char [OF w] unat_gt_0 simp del: wcsr_tail.simps)
  next
    case False
    then have n0: "n \<noteq> 0" using b by auto
    have "unat (n - word_of_nat ?l) = unat n - ?l"
      using False unat_small [OF b(2)] by (subst unat_sub) (auto simp: word_le_nat_alt)
    then show ?thesis
      using False n0 Cons.prems Cons.IH [OF us, of "k + ?l" "n - word_of_nat ?l" "take k s @ enc w @ drop (k + ?l) s" "i + 1"]
      by (simp add: wcsr_tail_char [OF w] put_all_fits Let_def less_diff_conv ac_simps del: wcsr_tail.simps)
  qed
qed


text \<open>The measuring loops on a terminated string.\<close>

lemma mbs_count_run:
  assumes "list_all text_char us" "drop i s = encs us @ 0 # rest"
  shows "mbs_count s i wn = Some (wn - word_of_nat (length us), Break (int (i + length (encs us))) True)"
  using assms
proof (induction us arbitrary: i wn)
  case Nil
  then have "i < length s" "s ! i = 0" by (auto simp: nth_via_drop intro: ccontr)
  then show ?case by (simp add: mbs_count_char [of s i wn] mbs_char_nul)
next
  case (Cons u us)
  have ch: "mbs_char s i = Some (Inr (i + length (enc u), u))"
    using Cons.prems by (intro mbs_char_complete [where rest = "encs us @ 0 # rest"]) auto
  have "drop (i + length (enc u)) s = encs us @ 0 # rest"
    using Cons.prems(2) by (metis append_assoc append_eq_conv_conj drop_drop add.commute encs_simps(2))
  with Cons.IH [of "i + length (enc u)" "wn - 1"] Cons.prems ch show ?case
    by (simp add: mbs_count_char [of s i wn] ac_simps diff_diff_eq)
qed

lemma wcsr_count_run:
  "list_all text_char us \<Longrightarrow> wcsr_count (us @ 0 # r) n = Some (n + word_of_nat (length (encs us)))"
proof (induction us arbitrary: n)
  case Nil then show ?case by simp
next
  case (Cons w us)
  then have sc: "is_scalar (unat w)" and w0: "w \<noteq> 0" by (auto simp: text_char_def)
  have f: "fst (wcrtomb False w) = word_of_nat (length (enc w))"
    using length_wcrtomb [OF sc] by (simp add: enc_def)
  show ?case
  proof (cases "0x80 \<le> w")
    case True
    with f w0 Cons show ?thesis
      using word_of_nat_enc_neq [OF sc] by (simp add: ac_simps)
  next
    case False
    then have "w < 0x80" by simp
    then have "enc w = [ucast w]" by (simp add: enc_def wcrtomb_def)
    with False w0 Cons show ?thesis by (simp add: ac_simps)
  qed
qed

end
