(* ===== verification/WConv_Props.thy ===== *)
theory WConv_Props
  imports WConv_Facts
begin

text \<open>
  What the string conversions of \<open>src/orbis_wchar32.c\<close> guarantee. A \<open>text_char\<close> is a scalar
  value other than the terminator, \<open>encs\<close> the UTF-8 bytes of a wide string.
\<close>

text \<open>
  C20. Soundness of \<open>mbsrtowcs\<close> on every input, called without a state or from the initial one (a
  call in the middle of a character is the matter of \<open>mbsrtowcs_resumed\<close>): the characters stored
  are scalar values whose encodings are exactly the bytes consumed, the rest of the
  destination is untouched, and the call ends in one of three ways: the terminator was
  reached (\<open>*src\<close> becomes null, a terminator is stored, the count is the number of
  characters), the \<open>wn\<close> characters are full with \<open>*src\<close> just after the last one, or \<open>*src\<close>
  stands at a byte where no character's encoding starts, with \<open>-1\<close> and \<open>EILSEQ\<close>.
\<close>

theorem mbsrtowcs_sound:
  assumes "st = None \<or> st = Some 0" "mbsrtowcs (Some d) s wn st = Some (r, dd, src, st', e)"
  shows "\<exists>us. list_all text_char us \<and> (let n = length us; p = length (encs us) in
    take p s = encs us \<and> p \<le> length s \<and> n \<le> unat wn \<and> n \<le> length d \<and> st' = st \<and>
    (src = None \<and> r = word_of_nat n \<and> \<not> e \<and> s ! p = 0 \<and> n < unat wn \<and>
       dd = Some (us @ 0 # drop (n + 1) d) \<or>
     src = Some (int p) \<and> r = wn \<and> \<not> e \<and> n = unat wn \<and> dd = Some (us @ drop n d) \<or>
     src = Some (int p) \<and> r = -1 \<and> e \<and> s ! p \<noteq> 0 \<and> n < unat wn \<and> dd = Some (us @ drop n d) \<and>
       \<not> (\<exists>w rest. text_char w \<and> drop p s = enc w @ rest)))"
proof -
  have eq: "mbsrtowcs (Some d) s wn st = mbs_store s 0 d 0 wn \<bind> mbs_finish_store s wn st"
    using assms(1) by (auto simp: mbsrtowcs_def)
  with assms(2) obtain ws k wn' stop where
    run: "mbs_store s 0 d 0 wn = Some (ws, k, wn', stop)"
    and fin: "mbs_finish_store s wn st (ws, k, wn', stop) = Some (r, dd, src, st', e)"
    by (cases "mbs_store s 0 d 0 wn") auto
  from mbs_store_run [OF run] obtain us j where
    us: "list_all text_char us" "s = encs us @ drop j s" "j = length (encs us)"
      "ws = us @ drop (length us) d" "k = length us" "length us \<le> length d" "unat wn = unat wn' + length us"
    and st: "stop = Full j \<and> wn' = 0 \<or> wn' \<noteq> 0 \<and> (\<exists>c0. stop = Break (int j) c0 \<and> mbs_char s j = Some (Inl c0))"
    by auto
  have tk: "take j s = encs us" "j \<le> length s" using us(2,3) by (metis append_eq_conv_conj, metis le_add1 length_append)
  have n: "word_of_nat (length us) = wn - wn'"
    using arg_cong [OF us(7), of "word_of_nat :: nat \<Rightarrow> size_t"] by simp
  from st show ?thesis
  proof
    assume a: "stop = Full j \<and> wn' = 0"
    with fin us tk show ?thesis by (intro exI [of _ us]) (auto simp: mbs_finish_store_def Let_def)
  next
    assume a: "wn' \<noteq> 0 \<and> (\<exists>c0. stop = Break (int j) c0 \<and> mbs_char s j = Some (Inl c0))"
    then obtain c0 where c0: "stop = Break (int j) c0" "mbs_char s j = Some (Inl c0)" and "0 < unat wn'"
      by (auto simp: unat_gt_0)
    note br = mbs_char_break [OF c0(2)]
    show ?thesis
    proof (cases "s ! j = 0")
      case True
      with c0 br have "at_nul s (int j) c0 = Some True" by (simp add: at_nul_def)
      with fin c0 have "wr ws k 0 \<noteq> None" and f: "src = None" "r = wn - wn'" "st' = st" "\<not> e" "dd = wr ws k 0"
        by (auto simp: mbs_finish_store_def bind_eq_Some_conv)
      then have "length us < length d" "dd = Some (us @ 0 # drop (length us + 1) d)"
        using us(4-6) by (auto simp: wr_def list_update_append Cons_nth_drop_Suc [symmetric] split: if_splits)
      with f us tk n True \<open>0 < unat wn'\<close> show ?thesis by (intro exI [of _ us]) (auto simp: Let_def)
    next
      case False
      with c0 br have "at_nul s (int j) c0 = Some False" by (simp add: at_nul_def)
      with fin c0 us tk br False \<open>0 < unat wn'\<close> show ?thesis
        by (intro exI [of _ us]) (auto simp: mbs_finish_store_def Let_def)
    qed
  qed
qed

theorem mbsrtowcs_sound_witness:
  "mbsrtowcs (Some [7, 7, 7]) [0x41, 0xff, 0] 3 None = Some (-1, Some [0x41, 7, 7], Some 1, None, True) \<and>
   (\<exists>us. list_all text_char us \<and> take (length (encs us)) [0x41 :: u8, 0xff, 0] = encs us \<and> length us \<le> 3)"
proof -
  have r: "mbsrtowcs (Some [7, 7, 7]) [0x41, 0xff, 0] 3 None = Some (-1, Some [0x41, 7, 7], Some 1, None, True)"
    by (simp add: mbsrtowcs_def mbs_store.simps ascii_run_def bad_lead_def SA_def SB_def mbs_finish_store_def at_nul_def)
  from mbsrtowcs_sound [OF _ this] r show ?thesis by (auto simp: Let_def)
qed

text \<open>
  In the middle of a character, here behind the byte \<open>0xC3\<close>, a storing call does not look at \<open>wn\<close>
  before it stores: asked for no character it stores one, and then has no bound.
\<close>

lemma mbsrtowcs_resumed:
  "mbsrtowcs (Some [7, 7, 7]) [0xa9, 0x41, 0] 0 (Some (resume_state [0xc3])) =
   Some (2, Some [0xe9, 0x41, 0], None, Some 0, False)"
  by code_simp

text \<open>
  C21. \<open>wcsrtombs\<close> on a terminated string of scalar values, for every size \<open>n\<close>: it stores the
  encodings of the longest prefix that fits in \<open>n\<close> bytes and never part of a character,
  returns the number of bytes stored, adds the terminator and clears \<open>*ws\<close> when the whole
  string and the terminator fit, and otherwise leaves \<open>*ws\<close> at the first character not stored.
  The bytes after them are untouched.
\<close>

theorem wcsrtombs_whole_characters:
  assumes "list_all text_char us" "unat n \<le> length s"
  shows "wcsrtombs (Some s) (us @ 0 # rest) n =
    (let p = fit us (unat n); m = length (encs p)
     in if length (encs us) < unat n
        then Some (word_of_nat (length (encs us)), Some (encs us @ 0 # drop (length (encs us) + 1) s), None)
        else Some (word_of_nat m, Some (encs p @ drop m s), Some (length p)))"
  using wcsr_tail_run [of us 0 n s n rest 0] assms fit_all [of us "unat n"]
  by (simp add: wcsrtombs_tail Let_def)

theorem wcsrtombs_whole_characters_witness:
  "wcsrtombs (Some [1, 2, 3, 4]) [0x20ac, 0xe9, 0] 4 = Some (3, Some [0xe2, 0x82, 0xac, 4], Some 1)"
  using wcsrtombs_whole_characters [of "[0x20ac, 0xe9]" 4 "[1, 2, 3, 4]" "[]"]
  by (simp add: text_char_def is_scalar_def encs_def enc_def wcrtomb_def)

text \<open>
  C22. Round trip of whole strings, with the usual measuring calls: for a string of scalar
  values both \<open>wcstombs\<close> with no destination and the converting call return the encoded
  length, and \<open>mbstowcs\<close> on the bytes stored, measuring or converting, returns the number of
  characters and gives the string back.
\<close>

theorem wcstombs_mbstowcs_roundtrip:
  assumes "list_all text_char us" "length (encs us) < unat n" "unat n \<le> length s"
    "length us < unat wn" "unat wn \<le> length d"
  shows "\<exists>bytes. wcstombs (Some s) (us @ 0 # rest) n = Some (word_of_nat (length (encs us)), Some bytes) \<and>
    wcstombs None (us @ 0 # rest) n = Some (word_of_nat (length (encs us)), None) \<and>
    mbstowcs (Some d) bytes wn = Some (word_of_nat (length us), Some (us @ 0 # drop (length us + 1) d), False) \<and>
    mbstowcs None bytes wn = Some (word_of_nat (length us), None, False)"
proof -
  let ?b = "encs us @ 0 # drop (length (encs us) + 1) s"
  have enc: "wcsrtombs (Some s) (us @ 0 # rest) n = Some (word_of_nat (length (encs us)), Some ?b, None)"
    using wcsr_tail_run [of us 0 n s n rest 0] assms fit_all [of us "unat n"]
    by (simp add: wcsrtombs_tail Let_def)
  have st: "mbs_store ?b 0 d 0 wn = mbs_store ?b (length (encs us)) (us @ drop (length us) d) (length us) (wn - word_of_nat (length us))"
    using mbs_store_complete [of us 0 ?b "length (encs us)" 0 d wn] assms by simp
  have "wn - word_of_nat (length us) \<noteq> 0"
  proof
    assume "wn - word_of_nat (length us) = 0"
    then have "unat wn = take_bit 64 (length us)" by (simp add: unsigned_of_nat)
    with assms(4) take_bit_nat_less_eq_self [of 64 "length us"] show False by simp
  qed
  moreover have "mbs_char ?b (length (encs us)) = Some (Inl True)"
    by (rule mbs_char_nul) (simp_all add: nth_append)
  ultimately have "mbs_store ?b 0 d 0 wn =
      Some (us @ drop (length us) d, length us, wn - word_of_nat (length us), Break (int (length (encs us))) True)"
    unfolding st by (subst mbs_store_char) simp
  then have dec: "mbsrtowcs (Some d) ?b wn None = Some (word_of_nat (length us), Some (us @ 0 # drop (length us + 1) d), None, None, False)"
    using assms(4,5) by (simp add: mbsrtowcs_def mbs_finish_store_def at_nul_def wr_def list_update_append
        Cons_nth_drop_Suc [symmetric])
  have "mbs_count ?b 0 wn = Some (wn - word_of_nat (length us), Break (int (length (encs us))) True)"
    using mbs_count_run [of us 0 ?b] assms by simp
  then have "mbsrtowcs None ?b wn None = Some (word_of_nat (length us), None, Some 0, None, False)"
    by (simp add: mbsrtowcs_def mbs_finish_count_def at_nul_def)
  with enc dec show ?thesis
    using wcsr_count_run [OF assms(1), of rest 0]
    by (intro exI [of _ ?b]) (simp add: wcstombs_def mbstowcs_def wcsrtombs_def [of None])
qed

theorem wcstombs_mbstowcs_roundtrip_witness:
  "\<exists>bytes. wcstombs (Some [1, 2, 3, 4, 5, 6]) [0x20ac, 0xe9, 0] 6 = Some (5, Some bytes) \<and>
     mbstowcs (Some [9, 9, 9]) bytes 3 = Some (2, Some [0x20ac, 0xe9, 0], False)"
  using wcstombs_mbstowcs_roundtrip [of "[0x20ac, 0xe9]" 6 "[1, 2, 3, 4, 5, 6]" 3 "[9, 9, 9]" "[]"]
  by (auto simp: text_char_def is_scalar_def encs_def enc_def wcrtomb_def)

end
