(* ===== verification/WString.thy ===== *)
theory WString
  imports Prelude
begin

text \<open>
  The wide-string functions of \<open>src/orbis_wchar32.c\<close>. A pointer into an array of \<open>w32_t\<close> is
  the list of the elements from the pointer to the end of the array; a result pointer is its
  offset from the argument, \<open>None\<close> for a null pointer. The outer \<open>None\<close> of a result is an
  access outside the array, which is undefined behaviour in C. \<open>w32_t\<close> is \<open>int\<close>: values are
  compared as signed words.
\<close>

unbundle bit_operations_syntax

type_synonym w32 = u32

section \<open>Memory functions\<close>

fun wmemchr :: "w32 list \<Rightarrow> w32 \<Rightarrow> nat \<Rightarrow> nat option option" where
  "wmemchr s c 0 = Some None"
| "wmemchr [] c (Suc n) = None"
| "wmemchr (x # s) c (Suc n) =
     (if x = c then Some (Some 0) else map_option (map_option Suc) (wmemchr s c n))"

text \<open>\<open>*l < *r ? -1 : *l > *r\<close>\<close>

definition w32_order :: "w32 \<Rightarrow> w32 \<Rightarrow> int" where
  "w32_order l r = (if l <s r then -1 else if r <s l then 1 else 0)"

fun wmemcmp :: "w32 list \<Rightarrow> w32 list \<Rightarrow> nat \<Rightarrow> int option" where
  "wmemcmp l r 0 = Some 0"
| "wmemcmp (x # l) (y # r) (Suc n) = (if x = y then wmemcmp l r n else Some (w32_order x y))"
| "wmemcmp _ _ (Suc n) = None"

fun wmemcpy :: "w32 list \<Rightarrow> w32 list \<Rightarrow> nat \<Rightarrow> w32 list option" where
  "wmemcpy d s 0 = Some d"
| "wmemcpy (_ # d) (x # s) (Suc n) = map_option ((#) x) (wmemcpy d s n)"
| "wmemcpy _ _ (Suc n) = None"

text \<open>
  \<open>wmemmove\<close>: both pointers are offsets into one array, so that the writes of either loop are
  seen by its later reads. The test between the loops is on byte addresses.
\<close>

fun wmemmove_down :: "w32 list \<Rightarrow> nat \<Rightarrow> nat \<Rightarrow> nat \<Rightarrow> w32 list option" where
  "wmemmove_down m d s 0 = Some m"
| "wmemmove_down m d s (Suc n) =
     do { x \<leftarrow> rd m (s + n); m' \<leftarrow> wr m (d + n) x; wmemmove_down m' d s n }"

fun wmemmove_up :: "w32 list \<Rightarrow> nat \<Rightarrow> nat \<Rightarrow> nat \<Rightarrow> w32 list option" where
  "wmemmove_up m d s 0 = Some m"
| "wmemmove_up m d s (Suc n) =
     do { x \<leftarrow> rd m s; m' \<leftarrow> wr m d x; wmemmove_up m' (d + 1) (s + 1) n }"

definition wmemmove :: "w32 list \<Rightarrow> nat \<Rightarrow> nat \<Rightarrow> nat \<Rightarrow> w32 list option" where
  "wmemmove m d s n =
     (if d = s then Some m
      else if sub64 (d * 4) (s * 4) < n * 4 then wmemmove_down m d s n
      else wmemmove_up m d s n)"

fun wmemset :: "w32 list \<Rightarrow> w32 \<Rightarrow> nat \<Rightarrow> w32 list option" where
  "wmemset d c 0 = Some d"
| "wmemset [] c (Suc n) = None"
| "wmemset (_ # d) c (Suc n) = map_option ((#) c) (wmemset d c n)"

section \<open>String functions\<close>

fun wcslen :: "w32 list \<Rightarrow> nat option" where
  "wcslen [] = None"
| "wcslen (x # s) = (if x = 0 then Some 0 else map_option Suc (wcslen s))"

definition wcsnlen :: "w32 list \<Rightarrow> nat \<Rightarrow> nat option" where
  "wcsnlen s n = map_option (\<lambda>z. case z of Some k \<Rightarrow> k | None \<Rightarrow> n) (wmemchr s 0 n)"

fun wcscpy :: "w32 list \<Rightarrow> w32 list \<Rightarrow> w32 list option" where
  "wcscpy (_ # d) (x # s) = (if x = 0 then Some (x # d) else map_option ((#) x) (wcscpy d s))"
| "wcscpy _ _ = None"

fun wcsncpy :: "w32 list \<Rightarrow> w32 list \<Rightarrow> nat \<Rightarrow> w32 list option" where
  "wcsncpy d s 0 = Some d"
| "wcsncpy d [] (Suc n) = None"
| "wcsncpy d (x # s) (Suc n) =
     (if x = 0 then wmemset d 0 (Suc n)
      else case d of [] \<Rightarrow> None | _ # d' \<Rightarrow> map_option ((#) x) (wcsncpy d' s n))"

definition wcpcpy :: "w32 list \<Rightarrow> w32 list \<Rightarrow> (w32 list \<times> nat) option" where
  "wcpcpy d s = do { d' \<leftarrow> wcscpy d s; n \<leftarrow> wcslen s; Some (d', n) }"

definition wcpncpy :: "w32 list \<Rightarrow> w32 list \<Rightarrow> nat \<Rightarrow> (w32 list \<times> nat) option" where
  "wcpncpy d s n = do { d' \<leftarrow> wcsncpy d s n; k \<leftarrow> wcsnlen s n; Some (d', k) }"

definition wcscat :: "w32 list \<Rightarrow> w32 list \<Rightarrow> w32 list option" where
  "wcscat d s = do { n \<leftarrow> wcslen d; t \<leftarrow> wcscpy (drop n d) s; Some (take n d @ t) }"

fun wcsncat_loop :: "w32 list \<Rightarrow> w32 list \<Rightarrow> nat \<Rightarrow> w32 list option" where
  "wcsncat_loop d s n =
     (case (n, s) of
        (Suc n', []) \<Rightarrow> None
      | (Suc n', x # s') \<Rightarrow>
          if x = 0 then wr d 0 0
          else (case d of [] \<Rightarrow> None | _ # d' \<Rightarrow> map_option ((#) x) (wcsncat_loop d' s' n'))
      | (0, _) \<Rightarrow> wr d 0 0)"

definition wcsncat :: "w32 list \<Rightarrow> w32 list \<Rightarrow> nat \<Rightarrow> w32 list option" where
  "wcsncat d s n = do { k \<leftarrow> wcslen d; t \<leftarrow> wcsncat_loop (drop k d) s n; Some (take k d @ t) }"

fun wcscmp :: "w32 list \<Rightarrow> w32 list \<Rightarrow> int option" where
  "wcscmp (x # l) (y # r) =
     (if x = y \<and> x \<noteq> 0 \<and> y \<noteq> 0 then wcscmp l r else Some (w32_order x y))"
| "wcscmp _ _ = None"

fun wcsncmp :: "w32 list \<Rightarrow> w32 list \<Rightarrow> nat \<Rightarrow> int option" where
  "wcsncmp l r 0 = Some 0"
| "wcsncmp (x # l) (y # r) (Suc n) =
     (if x = y \<and> x \<noteq> 0 \<and> y \<noteq> 0 then wcsncmp l r n else Some (w32_order x y))"
| "wcsncmp _ _ (Suc n) = None"

text \<open>
  \<open>wcsncasecmp\<close> over the library's \<open>towlower\<close>, an argument; the difference is of unsigned
  values converted to \<open>int\<close>. \<open>n\<close> has been decremented.
\<close>

fun wcsncasecmp_loop :: "(u32 \<Rightarrow> u32) \<Rightarrow> w32 list \<Rightarrow> w32 list \<Rightarrow> nat \<Rightarrow> int option" where
  "wcsncasecmp_loop lower (x # l) (y # r) n =
     (if x \<noteq> 0 \<and> y \<noteq> 0 \<and> n \<noteq> 0 \<and> (x = y \<or> lower x = lower y)
      then wcsncasecmp_loop lower l r (n - 1)
      else Some (sint (lower x - lower y)))"
| "wcsncasecmp_loop lower _ _ n = None"

definition wcsncasecmp :: "(u32 \<Rightarrow> u32) \<Rightarrow> w32 list \<Rightarrow> w32 list \<Rightarrow> nat \<Rightarrow> int option" where
  "wcsncasecmp lower l r n = (if n = 0 then Some 0 else wcsncasecmp_loop lower l r (n - 1))"

definition wcscasecmp :: "(u32 \<Rightarrow> u32) \<Rightarrow> w32 list \<Rightarrow> w32 list \<Rightarrow> int option" where
  "wcscasecmp lower l r = wcsncasecmp lower l r (2 ^ 64 - 1)"

definition wcscasecmp_l :: "(u32 \<Rightarrow> u32) \<Rightarrow> w32 list \<Rightarrow> w32 list \<Rightarrow> 'loc \<Rightarrow> int option" where
  "wcscasecmp_l lower l r loc = wcscasecmp lower l r"

definition wcsncasecmp_l :: "(u32 \<Rightarrow> u32) \<Rightarrow> w32 list \<Rightarrow> w32 list \<Rightarrow> nat \<Rightarrow> 'loc \<Rightarrow> int option" where
  "wcsncasecmp_l lower l r n loc = wcsncasecmp lower l r n"

fun wcschr_loop :: "w32 list \<Rightarrow> w32 \<Rightarrow> nat option option" where
  "wcschr_loop [] c = None"
| "wcschr_loop (x # s) c =
     (if x = 0 then Some None
      else if x = c then Some (Some 0)
      else map_option (map_option Suc) (wcschr_loop s c))"

definition wcschr :: "w32 list \<Rightarrow> w32 \<Rightarrow> nat option option" where
  "wcschr s c = (if c = 0 then map_option Some (wcslen s) else wcschr_loop s c)"

fun wcsrchr_loop :: "w32 list \<Rightarrow> w32 \<Rightarrow> nat \<Rightarrow> nat option" where
  "wcsrchr_loop s c p =
     (if s ! p = c then Some p else case p of 0 \<Rightarrow> None | Suc q \<Rightarrow> wcsrchr_loop s c q)"

definition wcsrchr :: "w32 list \<Rightarrow> w32 \<Rightarrow> nat option option" where
  "wcsrchr s c = do { n \<leftarrow> wcslen s; Some (wcsrchr_loop s c n) }"

fun wcsspn :: "w32 list \<Rightarrow> w32 list \<Rightarrow> nat option" where
  "wcsspn [] c = None"
| "wcsspn (x # s) c =
     (if x = 0 then Some 0
      else do { m \<leftarrow> wcschr c x;
                case m of None \<Rightarrow> Some 0 | Some _ \<Rightarrow> map_option Suc (wcsspn s c) })"

fun wcscspn_loop :: "w32 list \<Rightarrow> w32 list \<Rightarrow> nat option" where
  "wcscspn_loop [] c = None"
| "wcscspn_loop (x # s) c =
     (if x = 0 then Some 0
      else do { m \<leftarrow> wcschr c x;
                case m of Some _ \<Rightarrow> Some 0 | None \<Rightarrow> map_option Suc (wcscspn_loop s c) })"

definition wcscspn :: "w32 list \<Rightarrow> w32 list \<Rightarrow> nat option" where
  "wcscspn s c =
     do { c0 \<leftarrow> rd c 0;
          if c0 = 0 then wcslen s
          else do {
            c1 \<leftarrow> rd c 1;
            if c1 = 0 then
              do { p \<leftarrow> wcschr s c0;
                   case p of Some k \<Rightarrow> Some k | None \<Rightarrow> wcslen s }
            else wcscspn_loop s c } }"

definition wcspbrk :: "w32 list \<Rightarrow> w32 list \<Rightarrow> nat option option" where
  "wcspbrk s b = do { k \<leftarrow> wcscspn s b; x \<leftarrow> rd s k; Some (if x \<noteq> 0 then Some k else None) }"

end
