(* ===== verification/WSearch.thy ===== *)
theory WSearch
  imports WString WWidth_Tables
begin

text \<open>
  Substring search (\<open>wcsstr\<close> with musl's two-way algorithm), tokenizing, duplication,
  collation by code point, \<open>iswspace\<close> and the column width functions of
  \<open>src/orbis_wchar32.c\<close>. Loops whose termination rests on the algorithm's invariant are
  \<open>partial_function\<close>s: \<open>None\<close> also stands for a loop that does not end.
\<close>

unbundle bit_operations_syntax

section \<open>Two-way search\<close>

text \<open>\<open>for (l=0; n[l] && h[l]; l++)\<close>\<close>

fun needle_len :: "w32 list \<Rightarrow> w32 list \<Rightarrow> nat option" where
  "needle_len (x # n) h =
     (if x = 0 then Some 0
      else case h of [] \<Rightarrow> None
           | y # h' \<Rightarrow> if y = 0 then Some 0 else map_option Suc (needle_len n h'))"
| "needle_len [] h = None"

text \<open>
  The maximal-suffix loop. \<open>ip\<close> starts at \<open>(size_t)-1\<close> in the code; \<open>ip1\<close> is \<open>ip + 1\<close>. The
  comparison is an argument, because the loop runs once in each direction.
\<close>

partial_function (option) maximal_suffix ::
  "(w32 \<Rightarrow> w32 \<Rightarrow> bool) \<Rightarrow> w32 list \<Rightarrow> nat \<Rightarrow> nat \<Rightarrow> nat \<Rightarrow> nat \<Rightarrow> nat \<Rightarrow> (nat \<times> nat) option" where
  "maximal_suffix gt n l ip1 jp k p =
     (if jp + k < l then
        Option.bind (rd n (ip1 + k - 1)) (\<lambda>a.
        Option.bind (rd n (jp + k)) (\<lambda>b.
          if a = b then
            (if k = p then maximal_suffix gt n l ip1 (jp + p) 1 p
             else maximal_suffix gt n l ip1 jp (k + 1) p)
          else if gt a b then maximal_suffix gt n l ip1 (jp + k) 1 (jp + k + 1 - ip1)
          else maximal_suffix gt n l (jp + 1) (jp + 1) 1 1))
      else Some (ip1, p))"

text \<open>\<open>for (k=MAX(ms+1,mem); n[k] && n[k] == h[k]; k++)\<close> from index \<open>k\<close>.\<close>

fun match_right :: "w32 list \<Rightarrow> w32 list \<Rightarrow> nat \<Rightarrow> nat option" where
  "match_right (x # n) h k =
     (if x = 0 then Some k
      else case h of [] \<Rightarrow> None
           | y # h' \<Rightarrow> if x = y then match_right n h' (k + 1) else Some k)"
| "match_right [] h k = None"

text \<open>\<open>for (k=ms+1; k>mem && n[k-1] == h[k-1]; k--)\<close>\<close>

fun match_left :: "w32 list \<Rightarrow> w32 list \<Rightarrow> nat \<Rightarrow> nat \<Rightarrow> nat option" where
  "match_left n h mem 0 = Some 0"
| "match_left n h mem (Suc k) =
     (if Suc k > mem then
        do { a \<leftarrow> rd n k; b \<leftarrow> rd h k; if a = b then match_left n h mem k else Some (Suc k) }
      else Some (Suc k))"

text \<open>
  The incremental end-of-haystack pointer: the new offset of \<open>z\<close>, or \<open>None\<close> when the haystack
  ends less than \<open>l\<close> characters after \<open>h\<close>.
\<close>

definition extend_end :: "w32 list \<Rightarrow> nat \<Rightarrow> nat \<Rightarrow> nat \<Rightarrow> nat option option" where
  "extend_end hs l h z =
     (if z - h < l then
        do { z2 \<leftarrow> wmemchr (drop z hs) 0 (l OR 63);
             case z2 of
               Some d \<Rightarrow> Some (if z + d - h < l then None else Some (z + d))
             | None \<Rightarrow> Some (Some (z + (l OR 63))) }
      else Some (Some z))"

partial_function (option) twoway_loop ::
  "w32 list \<Rightarrow> w32 list \<Rightarrow> nat \<Rightarrow> nat \<Rightarrow> nat \<Rightarrow> nat \<Rightarrow> nat \<Rightarrow> nat \<Rightarrow> nat \<Rightarrow> nat option option" where
  "twoway_loop hs n l ms1 p mem0 h z mem =
     Option.bind (extend_end hs l h z) (\<lambda>e.
       case e of None \<Rightarrow> Some None
       | Some z' \<Rightarrow>
           Option.bind (match_right (drop (max ms1 mem) n) (drop (h + max ms1 mem) hs) (max ms1 mem)) (\<lambda>k.
           Option.bind (rd n k) (\<lambda>x.
             if x \<noteq> 0 then twoway_loop hs n l ms1 p mem0 (h + (k + 1 - ms1)) z' 0
             else
               Option.bind (match_left n (drop h hs) mem ms1) (\<lambda>k2.
                 if k2 \<le> mem then Some (Some h)
                 else twoway_loop hs n l ms1 p mem0 (h + p) z' mem0))))"

text \<open>
  The factorization: \<open>ms + 1\<close>, the shift \<open>p\<close> and \<open>mem0\<close>. When the needle is not periodic
  \<open>ms + 1\<close> is not 0, because \<open>wmemcmp\<close> over no characters answers 0.
\<close>

definition twoway_factor :: "w32 list \<Rightarrow> nat \<Rightarrow> (nat \<times> nat \<times> nat) option" where
  "twoway_factor n l =
     do { (ms1, p0) \<leftarrow> maximal_suffix (\<lambda>a b. b <s a) n l 0 0 1 1;
          (ip1, p1) \<leftarrow> maximal_suffix (\<lambda>a b. a <s b) n l 0 0 1 1;
          let (ms1', p) = (if ip1 > ms1 then (ip1, p1) else (ms1, p0));
          c \<leftarrow> wmemcmp n (drop p n) ms1';
          Some (if c \<noteq> 0 then (ms1', max (ms1' - 1) (l - ms1') + 1, 0) else (ms1', p, l - p)) }"

definition twoway_wcsstr :: "w32 list \<Rightarrow> w32 list \<Rightarrow> nat option option" where
  "twoway_wcsstr h n =
     do { l \<leftarrow> needle_len n h;
          x \<leftarrow> rd n l;
          if x \<noteq> 0 then Some None
          else do { (ms1, p, mem0) \<leftarrow> twoway_factor n l; twoway_loop h n l ms1 p mem0 0 0 0 } }"

definition wcsstr :: "w32 list \<Rightarrow> w32 list \<Rightarrow> nat option option" where
  "wcsstr h n =
     do { n0 \<leftarrow> rd n 0;
          if n0 = 0 then Some (Some 0)
          else do {
            h0 \<leftarrow> rd h 0;
            if h0 = 0 then Some None
            else do {
              hh \<leftarrow> wcschr h n0;
              case hh of
                None \<Rightarrow> Some None
              | Some d \<Rightarrow> do {
                  n1 \<leftarrow> rd n 1;
                  if n1 = 0 then Some (Some d)
                  else do {
                    h1 \<leftarrow> rd h (d + 1);
                    if h1 = 0 then Some None
                    else map_option (map_option ((+) d)) (twoway_wcsstr (drop d h) n) } } } } }"

definition wcswcs :: "w32 list \<Rightarrow> w32 list \<Rightarrow> nat option option" where
  "wcswcs h n = wcsstr h n"

section \<open>Tokens and copies\<close>

text \<open>
  \<open>wcstok\<close> on the array \<open>m\<close>: \<open>s\<close> and the saved pointer \<open>*p\<close> are offsets into it. Result: the
  token's offset, the new saved pointer, and the array with the separator overwritten.
\<close>

definition wcstok ::
  "w32 list \<Rightarrow> nat option \<Rightarrow> w32 list \<Rightarrow> nat option \<Rightarrow> (nat option \<times> nat option \<times> w32 list) option" where
  "wcstok m s sep p =
     (case (case s of None \<Rightarrow> p | Some a \<Rightarrow> Some a) of
        None \<Rightarrow> Some (None, p, m)
      | Some a \<Rightarrow> do {
          k \<leftarrow> wcsspn (drop a m) sep;
          let a' = a + k;
          x \<leftarrow> rd m a';
          if x = 0 then Some (None, None, m)
          else do {
            j \<leftarrow> wcscspn (drop a' m) sep;
            let q = a' + j;
            y \<leftarrow> rd m q;
            if y \<noteq> 0 then do { m' \<leftarrow> wr m q 0; Some (Some a', Some (q + 1), m') }
            else Some (Some a', None, m) } })"

text \<open>\<open>fresh\<close> is the block \<open>malloc\<close> returns, or \<open>None\<close> when it fails.\<close>

definition wcsdup :: "(nat \<Rightarrow> w32 list option) \<Rightarrow> w32 list \<Rightarrow> w32 list option option" where
  "wcsdup fresh s =
     do { l \<leftarrow> wcslen s;
          case fresh (l + 1) of
            None \<Rightarrow> Some None
          | Some d \<Rightarrow> map_option Some (wmemcpy d s (l + 1)) }"

section \<open>Collation\<close>

definition wcscoll_l_internal :: "w32 list \<Rightarrow> w32 list \<Rightarrow> 'loc \<Rightarrow> int option" where
  "wcscoll_l_internal l r loc = wcscmp l r"

definition wcscoll_l :: "w32 list \<Rightarrow> w32 list \<Rightarrow> 'loc \<Rightarrow> int option" where
  "wcscoll_l l r loc = wcscoll_l_internal l r loc"

definition wcscoll :: "w32 list \<Rightarrow> w32 list \<Rightarrow> int option" where
  "wcscoll l r = wcscoll_l_internal l r ()"

definition wcsxfrm_l_internal :: "w32 list \<Rightarrow> w32 list \<Rightarrow> nat \<Rightarrow> 'loc \<Rightarrow> (nat \<times> w32 list) option" where
  "wcsxfrm_l_internal dest src n loc =
     do { l \<leftarrow> wcslen src;
          if l < n then do { d \<leftarrow> wmemcpy dest src (l + 1); Some (l, d) }
          else if n \<noteq> 0 then
            do { d \<leftarrow> wmemcpy dest src (n - 1); d' \<leftarrow> wr d (n - 1) 0; Some (l, d') }
          else Some (l, dest) }"

definition wcsxfrm_l :: "w32 list \<Rightarrow> w32 list \<Rightarrow> nat \<Rightarrow> 'loc \<Rightarrow> (nat \<times> w32 list) option" where
  "wcsxfrm_l dest src n loc = wcsxfrm_l_internal dest src n loc"

definition wcsxfrm :: "w32 list \<Rightarrow> w32 list \<Rightarrow> nat \<Rightarrow> (nat \<times> w32 list) option" where
  "wcsxfrm dest src n = wcsxfrm_l_internal dest src n ()"

section \<open>Character classes and widths\<close>

definition spaces :: "w32 list" where
  "spaces = [0x20, 9, 10, 13, 11, 12, 0x0085,
     0x2000, 0x2001, 0x2002, 0x2003, 0x2004, 0x2005,
     0x2006, 0x2008, 0x2009, 0x200a,
     0x2028, 0x2029, 0x205f, 0x3000, 0]"

definition iswspace :: "u32 \<Rightarrow> bool" where
  "iswspace wc = (wc \<noteq> 0 \<and> the (wcschr spaces wc) \<noteq> None)"

definition iswspace_l :: "u32 \<Rightarrow> 'loc \<Rightarrow> bool" where
  "iswspace_l wc loc = iswspace wc"

text \<open>\<open>(t[t[wc>>8]*32+((wc&255)>>3)]>>(wc&7))&1\<close>; \<open>None\<close> is an index outside the table.\<close>

definition width_bit :: "int list \<Rightarrow> u32 \<Rightarrow> bool option" where
  "width_bit t wc =
     do { b \<leftarrow> rd t (unat (drop_bit 8 wc));
          x \<leftarrow> rd t (nat (b * 32) + unat (drop_bit 3 (wc AND 255)));
          Some (odd (x div 2 ^ unat (wc AND 7))) }"

definition wcwidth :: "w32 \<Rightarrow> int option" where
  "wcwidth wc =
     (if wc < 0xff then Some (if 0x21 \<le> (wc + 1) AND 0x7f then 1 else if wc \<noteq> 0 then -1 else 0)
      else if wc AND 0xfffeffff < 0xfffe then
        do { ns \<leftarrow> width_bit w32_nonspacing_table wc;
             if ns then Some 0
             else do { wd \<leftarrow> width_bit w32_wide_table wc; Some (if wd then 2 else 1) } }
      else if wc AND 0xfffe = 0xfffe then Some (-1)
      else if wc - 0x20000 < 0x20000 then Some 2
      else if wc = 0xe0001 \<or> wc - 0xe0020 < 0x5f \<or> wc - 0xe0100 < 0xef then Some 0
      else Some 1)"

text \<open>
  \<open>for (; n-- && *wcs && (k = wcwidth(*wcs)) >= 0; l+=k, wcs++)\<close>; \<open>l\<close> and \<open>k\<close> are \<open>int\<close>.
\<close>

fun wcswidth_loop :: "w32 list \<Rightarrow> nat \<Rightarrow> int \<Rightarrow> int \<Rightarrow> int option" where
  "wcswidth_loop s 0 l k = Some (if k < 0 then k else l)"
| "wcswidth_loop [] (Suc n) l k = None"
| "wcswidth_loop (x # s) (Suc n) l k =
     (if x = 0 then Some (if k < 0 then k else l)
      else do { k' \<leftarrow> wcwidth x;
                if k' \<ge> 0 then wcswidth_loop s n (l + k') k' else Some k' })"

definition wcswidth :: "w32 list \<Rightarrow> nat \<Rightarrow> int option" where
  "wcswidth s n = wcswidth_loop s n 0 0"

end
