(* ===== verification/WPrintf.thy ===== *)
theory WPrintf
  imports WConv WSearch
begin

text \<open>
  The number parsers and the formatted output of \<open>src/orbis_wchar32.c\<close>: the \<open>wcsto*\<close> family over
  the narrow \<open>strto*\<close>, \<open>vswprintf\<close>, and \<open>wcsftime\<close> over \<open>strftime\<close>. The narrow functions and
  \<open>malloc\<close> are arguments. \<open>None\<close> is a read or write outside an object, or an argument fetched
  with the wrong type.
\<close>

unbundle bit_operations_syntax

abbreviation ch :: "char \<Rightarrow> u32" where "ch c \<equiv> of_char c"

abbreviation ch8 :: "char \<Rightarrow> u8" where "ch8 c \<equiv> of_char c"

section \<open>The parsers of numbers\<close>

text \<open>\<open>w32_skip_space\<close>: the offset of the first element that is no space.\<close>

fun w32_skip_space :: "u32 list \<Rightarrow> nat option" where
  "w32_skip_space [] = None"
| "w32_skip_space (c # t) = (if iswspace c then map_option Suc (w32_skip_space t) else Some 0)"

text \<open>The length of the leading run of ASCII characters other than NUL; \<open>w32_t\<close> is signed.\<close>

fun ascii_count :: "u32 list \<Rightarrow> nat option" where
  "ascii_count [] = None"
| "ascii_count (c # t) = (if 0 <s c \<and> c <s 0x80 then map_option Suc (ascii_count t) else Some 0)"

text \<open>
  \<open>w32_ascii_prefix\<close>: the run as a C string, with whether it is on the heap. \<open>malloc_ok\<close> tells
  whether an allocation of a size succeeds; when it fails the run is cut to the stack buffer.
\<close>

definition w32_ascii_prefix :: "(nat \<Rightarrow> bool) \<Rightarrow> u32 list \<Rightarrow> nat \<Rightarrow> (u8 list \<times> bool) option" where
  "w32_ascii_prefix malloc_ok t cap =
     do { k \<leftarrow> ascii_count t;
          let (k, heap) = (if k \<ge> cap then (if malloc_ok (k + 1) then (k, True) else (cap - 1, False))
                           else (k, False))
          in Some (map ucast (take k t) @ [0], heap) }"

text \<open>
  \<open>W32_STRTO_INT\<close> and \<open>W32_STRTO_FLT\<close>: the value and the offset stored through \<open>p\<close>. \<open>narrow\<close> is
  the narrow function: its value and the offset of its end pointer.
\<close>

definition w32_strto_int :: "(nat \<Rightarrow> bool) \<Rightarrow> (u8 list \<Rightarrow> int \<Rightarrow> 'v \<times> nat) \<Rightarrow> u32 list \<Rightarrow> int \<Rightarrow> ('v \<times> nat) option" where
  "w32_strto_int malloc_ok narrow s base =
     do { t \<leftarrow> w32_skip_space s;
          (b, heap) \<leftarrow> w32_ascii_prefix malloc_ok (drop t s) 128;
          let (y, e) = narrow b base in Some (y, if e \<noteq> 0 then t + e else 0) }"

definition w32_strto_flt :: "(nat \<Rightarrow> bool) \<Rightarrow> (u8 list \<Rightarrow> 'v \<times> nat) \<Rightarrow> u32 list \<Rightarrow> ('v \<times> nat) option" where
  "w32_strto_flt malloc_ok narrow s =
     do { t \<leftarrow> w32_skip_space s;
          (b, heap) \<leftarrow> w32_ascii_prefix malloc_ok (drop t s) 128;
          let (y, e) = narrow b in Some (y, if e \<noteq> 0 then t + e else 0) }"

section \<open>Output\<close>

text \<open>\<open>struct w32_out\<close>\<close>

record w32_out =
  o_s :: "u32 list"
  o_cap :: nat
  o_len :: nat

definition w32_put :: "w32_out \<Rightarrow> u32 \<Rightarrow> w32_out option" where
  "w32_put ob c =
     (if o_len ob < o_cap ob
      then do { s \<leftarrow> wr (o_s ob) (o_len ob) c; Some (ob\<lparr>o_s := s, o_len := o_len ob + 1\<rparr>) }
      else Some (ob\<lparr>o_len := o_len ob + 1\<rparr>))"

primrec w32_puts :: "w32_out \<Rightarrow> u32 list \<Rightarrow> w32_out option" where
  "w32_puts ob [] = Some ob"
| "w32_puts ob (c # cs) = do { ob' \<leftarrow> w32_put ob c; w32_puts ob' cs }"

primrec w32_pad :: "w32_out \<Rightarrow> nat \<Rightarrow> w32_out option" where
  "w32_pad ob 0 = Some ob"
| "w32_pad ob (Suc k) = do { ob' \<leftarrow> w32_put ob (ch CHR '' ''); w32_pad ob' k }"

definition INT_MAX :: int where "INT_MAX = 2147483647"

definition digit :: "u32 \<Rightarrow> bool" where
  "digit c = (c - ch CHR ''0'' < 10)"

text \<open>\<open>w32_getint\<close>: the number from \<open>i\<close> on and what follows it.\<close>

fun w32_getint :: "int \<Rightarrow> u32 list \<Rightarrow> (int \<times> u32 list) option" where
  "w32_getint i [] = None"
| "w32_getint i (c # s) =
     (if \<not> digit c then Some (i, c # s)
      else let d = uint (c - ch CHR ''0'') in
           w32_getint (if i < 0 \<or> i > INT_MAX div 10 \<or> d > INT_MAX - 10 * i then -1 else 10 * i + d) s)"

section \<open>Arguments, lengths and errors\<close>

text \<open>
  An element of the argument list: \<open>int\<close> and \<open>wint_t\<close> (32 bits), the 64-bit integer types, a
  floating-point value, a pointer to a wide or narrow string, any other pointer.
\<close>

datatype 'd va_arg =
    A_int u32
  | A_long u64
  | A_double 'd
  | A_ldouble 'd
  | A_wcs "u32 list option"
  | A_str "u8 list option"
  | A_ptr u64

datatype w32_len = LEN_NONE | LEN_HH | LEN_H | LEN_L | LEN_LL | LEN_BIGL | LEN_J | LEN_Z | LEN_T

text \<open>How the call fails: the errno it sets, or what a library call left in errno.\<close>

datatype pf_error = Errno int | Library

text \<open>A store of \<open>%n\<close>: the pointer, the width and the number.\<close>

type_synonym pf_store = "u64 \<times> w32_len \<times> nat"

text \<open>What the narrow \<open>snprintf\<close> is given for one number; it answers the bytes, or fails.\<close>

datatype 'd pf_number = N_int u64 | N_double 'd | N_ldouble 'd | N_ptr u64

type_synonym 'd snprintf = "u8 list \<Rightarrow> int \<Rightarrow> int \<Rightarrow> 'd pf_number \<Rightarrow> u8 list option"

definition arg_int :: "'d va_arg list \<Rightarrow> (u32 \<times> 'd va_arg list) option" where
  "arg_int as = (case as of A_int v # r \<Rightarrow> Some (v, r) | _ \<Rightarrow> None)"

definition arg_long :: "'d va_arg list \<Rightarrow> (u64 \<times> 'd va_arg list) option" where
  "arg_long as = (case as of A_long v # r \<Rightarrow> Some (v, r) | _ \<Rightarrow> None)"

definition arg_ptr :: "'d va_arg list \<Rightarrow> (u64 \<times> 'd va_arg list) option" where
  "arg_ptr as = (case as of A_ptr v # r \<Rightarrow> Some (v, r) | _ \<Rightarrow> None)"

section \<open>Directives\<close>

definition pf_flag :: "u32 \<Rightarrow> bool" where
  "pf_flag c = (c = ch CHR ''-'' \<or> c = ch CHR ''+'' \<or> c = ch CHR '' '' \<or> c = ch CHR ''#'' \<or>
     c = ch CHR ''0'' \<or> c = 0x27)"

text \<open>The flag characters, whether \<open>-\<close> is among them, and the rest.\<close>

fun pf_flags :: "u8 list \<Rightarrow> bool \<Rightarrow> u32 list \<Rightarrow> (u8 list \<times> bool \<times> u32 list) option" where
  "pf_flags fl left [] = None"
| "pf_flags fl left (c # f) =
     (if \<not> pf_flag c then Some (fl, left, c # f)
      else pf_flags (if length fl < 7 \<and> ucast c \<notin> set fl then fl @ [ucast c] else fl)
             (left \<or> c = ch CHR ''-'') f)"

text \<open>Digits followed by a dollar sign.\<close>

fun skip_digits :: "u32 list \<Rightarrow> u32 list" where
  "skip_digits [] = []"
| "skip_digits (c # f) = (if digit c then skip_digits f else c # f)"

definition positional :: "u32 list \<Rightarrow> bool option" where
  "positional f = (let q = skip_digits f in do { c \<leftarrow> rd q 0; Some (length q \<noteq> length f \<and> c = ch CHR ''$'') })"

record 'd pf_spec =
  ps_flags :: "u8 list"
  ps_left :: bool
  ps_w :: int
  ps_p :: int
  ps_len :: w32_len
  ps_conv :: u32
  ps_rest :: "u32 list"
  ps_args :: "'d va_arg list"

text \<open>The width: the value, the flags with \<open>-\<close> added for a negative one, the rest.\<close>

definition pf_width :: "u8 list \<Rightarrow> bool \<Rightarrow> u32 list \<Rightarrow> 'd va_arg list \<Rightarrow>
    (pf_error + int \<times> u8 list \<times> bool \<times> u32 list \<times> 'd va_arg list) option" where
  "pf_width fl left f as =
     do { c \<leftarrow> rd f 0;
          if c = ch CHR ''*'' then do {
            (v, as') \<leftarrow> arg_int as;
            let w = sint v in
            if w \<ge> 0 then Some (Inr (w, fl, left, drop 1 f, as'))
            else if w = - (2 ^ 31) then Some (Inl (Errno EOVERFLOW))
            else if left then Some (Inr (- w, fl, left, drop 1 f, as'))
            else Some (Inr (- w, if length fl < 7 then fl @ [ch8 CHR ''-''] else fl, True, drop 1 f, as')) }
          else do {
            (w, f') \<leftarrow> w32_getint 0 f;
            if w < 0 then Some (Inl (Errno EOVERFLOW)) else Some (Inr (w, fl, left, f', as)) } }"

definition pf_prec :: "u32 list \<Rightarrow> 'd va_arg list \<Rightarrow> (pf_error + int \<times> u32 list \<times> 'd va_arg list) option" where
  "pf_prec f as =
     do { c \<leftarrow> rd f 0;
          if c \<noteq> ch CHR ''.'' then Some (Inr (-1, f, as))
          else do {
            c1 \<leftarrow> rd f 1;
            if c1 = ch CHR ''*'' then do {
              (v, as') \<leftarrow> arg_int as;
              Some (Inr (if sint v < 0 then -1 else sint v, drop 2 f, as')) }
            else do {
              (p, f') \<leftarrow> w32_getint 0 (drop 1 f);
              if p < 0 then Some (Inl (Errno EOVERFLOW)) else Some (Inr (p, f', as)) } } }"

definition pf_length :: "u32 list \<Rightarrow> (w32_len \<times> u32 list) option" where
  "pf_length f =
     do { c \<leftarrow> rd f 0;
          if c = ch CHR ''h'' then do { d \<leftarrow> rd f 1;
            Some (if d = ch CHR ''h'' then (LEN_HH, drop 2 f) else (LEN_H, drop 1 f)) }
          else if c = ch CHR ''l'' then do { d \<leftarrow> rd f 1;
            Some (if d = ch CHR ''l'' then (LEN_LL, drop 2 f) else (LEN_L, drop 1 f)) }
          else Some (if c = ch CHR ''L'' then (LEN_BIGL, drop 1 f)
            else if c = ch CHR ''q'' then (LEN_LL, drop 1 f)
            else if c = ch CHR ''j'' then (LEN_J, drop 1 f)
            else if c = ch CHR ''z'' then (LEN_Z, drop 1 f)
            else if c = ch CHR ''t'' then (LEN_T, drop 1 f)
            else (LEN_NONE, f)) }"

text \<open>The conversion character with its length: \<open>%lc\<close> is \<open>%C\<close> and \<open>%ls\<close> is \<open>%S\<close>.\<close>

definition pf_conv :: "w32_len \<Rightarrow> u32 \<Rightarrow> u32" where
  "pf_conv len c = (if c = ch CHR ''c'' \<and> len = LEN_L then ch CHR ''C''
                    else if c = ch CHR ''s'' \<and> len = LEN_L then ch CHR ''S'' else c)"

text \<open>A directive after its width.\<close>

definition pf_tail :: "int \<Rightarrow> u8 list \<Rightarrow> bool \<Rightarrow> u32 list \<Rightarrow> 'd va_arg list \<Rightarrow> (pf_error + 'd pf_spec) option" where
  "pf_tail w fl left f as =
     do { rp \<leftarrow> pf_prec f as;
          case rp of Inl e \<Rightarrow> Some (Inl e)
          | Inr (p, f', as') \<Rightarrow> do {
              (len, g) \<leftarrow> pf_length f';
              c \<leftarrow> rd g 0;
              Some (Inr \<lparr>ps_flags = fl, ps_left = left, ps_w = w, ps_p = p, ps_len = len,
                ps_conv = pf_conv len c, ps_rest = drop 1 g, ps_args = as'\<rparr>) } }"

text \<open>A directive from behind its percent sign up to and with its conversion character.\<close>

definition pf_directive :: "u32 list \<Rightarrow> 'd va_arg list \<Rightarrow> (pf_error + 'd pf_spec) option" where
  "pf_directive f as =
     do { pos \<leftarrow> positional f;
          if pos then Some (Inl (Errno EINVAL))
          else do {
            (fl, left, f1) \<leftarrow> pf_flags [] False f;
            rw \<leftarrow> pf_width fl left f1 as;
            case rw of Inl e \<Rightarrow> Some (Inl e)
            | Inr (w, fl', left', f2, as2) \<Rightarrow> pf_tail w fl' left' f2 as2 } }"

section \<open>Conversions\<close>

text \<open>What a conversion leaves: the output, the arguments, the stores of \<open>%n\<close>.\<close>

type_synonym 'd pf_result = "(pf_error + w32_out \<times> 'd va_arg list \<times> pf_store list) option"

definition conv_n :: "'d pf_spec \<Rightarrow> w32_out \<Rightarrow> 'd pf_result" where
  "conv_n sp ob =
     do { (ptr, as) \<leftarrow> arg_ptr (ps_args sp);
          if ps_len sp = LEN_BIGL then Some (Inl (Errno EINVAL))
          else Some (Inr (ob, as, [(ptr, ps_len sp, o_len ob)])) }"

text \<open>Text in a field of width \<open>w\<close>.\<close>

definition put_field :: "'d pf_spec \<Rightarrow> w32_out \<Rightarrow> nat \<Rightarrow> u32 list \<Rightarrow> w32_out option" where
  "put_field sp ob k cs =
     do { ob1 \<leftarrow> (if \<not> ps_left sp then w32_pad ob k else Some ob);
          ob2 \<leftarrow> w32_puts ob1 cs;
          if ps_left sp then w32_pad ob2 k else Some ob2 }"

definition conv_c :: "'d pf_spec \<Rightarrow> w32_out \<Rightarrow> 'd pf_result" where
  "conv_c sp ob =
     do { (v, as) \<leftarrow> arg_int (ps_args sp);
          let c = (if ps_conv sp = ch CHR ''C'' then v else btowc v);
              w = (if ps_w sp < 1 then 1 else ps_w sp) in
          do { ob' \<leftarrow> put_field sp ob (nat (w - 1)) [c]; Some (Inr (ob', as, [])) } }"

definition null_ws :: "u32 list" where
  "null_ws = map of_char ''(null)'' @ [0]"

definition pf_limit :: "int \<Rightarrow> nat" where
  "pf_limit p = (if p < 0 then nat INT_MAX else nat p)"

definition conv_S :: "'d pf_spec \<Rightarrow> w32_out \<Rightarrow> 'd pf_result" where
  "conv_S sp ob =
     (case ps_args sp of
        A_wcs arg # as \<Rightarrow>
          let a = (case arg of None \<Rightarrow> null_ws | Some a \<Rightarrow> a) in
          do { l \<leftarrow> wcsnlen a (pf_limit (ps_p sp));
               more \<leftarrow> (if ps_p sp < 0 then do { x \<leftarrow> rd a l; Some (x \<noteq> 0) } else Some False);
               if more then Some (Inl (Errno EOVERFLOW))
               else do { ob' \<leftarrow> put_field sp ob (nat (ps_w sp) - l) (take l a); Some (Inr (ob', as, [])) } }
      | _ \<Rightarrow> None)"

text \<open>
  \<open>%s\<close>: count the characters of the narrow string (the last result of \<open>mbtowc\<close>, the count, the
  rest), then decode them again.
\<close>

function s_count :: "u8 list \<Rightarrow> nat \<Rightarrow> nat \<Rightarrow> int \<Rightarrow> (int \<times> nat \<times> u8 list) option" where
  "s_count bs l lim i0 =
     (if l < lim then
        do { (i, _, _) \<leftarrow> mbtowc (Some bs) 4;
             if i > 0 then s_count (drop (nat i) bs) (l + 1) lim i else Some (i, l, bs) }
      else Some (i0, l, bs))"
  by pat_completeness auto
termination by (relation "measure (\<lambda>(bs, l, lim, i). lim - l)") auto

declare s_count.simps [simp del]

primrec s_decode :: "u8 list \<Rightarrow> nat \<Rightarrow> u32 list option" where
  "s_decode a 0 = Some []"
| "s_decode a (Suc k) =
     do { (i, wc, _) \<leftarrow> mbtowc (Some a) 4;
          c \<leftarrow> wc;
          cs \<leftarrow> s_decode (drop (nat i) a) k;
          Some (c # cs) }"

definition null_s :: "u8 list" where
  "null_s = map of_char ''(null)'' @ [0]"

definition conv_s :: "'d pf_spec \<Rightarrow> w32_out \<Rightarrow> 'd pf_result" where
  "conv_s sp ob =
     (case ps_args sp of
        A_str arg # as \<Rightarrow>
          let a = (case arg of None \<Rightarrow> null_s | Some a \<Rightarrow> a) in
          do { (i, l, bs) \<leftarrow> s_count a 0 (pf_limit (ps_p sp)) 0;
               if i < 0 then Some (Inl (Errno EILSEQ))
               else do {
                 more \<leftarrow> (if ps_p sp < 0 then do { x \<leftarrow> rd bs 0; Some (x \<noteq> 0) } else Some False);
                 if more then Some (Inl (Errno EOVERFLOW))
                 else do { cs \<leftarrow> s_decode a l;
                           ob' \<leftarrow> put_field sp ob (nat (ps_w sp) - l) cs; Some (Inr (ob', as, [])) } } }
      | _ \<Rightarrow> None)"

text \<open>A number: the format built for it, the narrow output, on the heap when 256 bytes are too few.\<close>

definition conv_number :: "(nat \<Rightarrow> bool) \<Rightarrow> 'd snprintf \<Rightarrow> u8 list \<Rightarrow> 'd pf_number \<Rightarrow> 'd va_arg list \<Rightarrow>
    'd pf_spec \<Rightarrow> w32_out \<Rightarrow> 'd pf_result" where
  "conv_number malloc_ok snp suffix v as sp ob =
     (case snp (ch8 CHR ''%'' # ps_flags sp @ suffix) (ps_w sp) (ps_p sp) v of
        None \<Rightarrow> Some (Inl Library)
      | Some bytes \<Rightarrow>
          if length bytes \<ge> 256 \<and> \<not> malloc_ok (length bytes + 1) then Some (Inl Library)
          else do { ob' \<leftarrow> w32_puts ob (map ucast bytes); Some (Inr (ob', as, [])) })"

definition int_suffix :: "u32 \<Rightarrow> u8 list" where
  "int_suffix conv = map of_char ''*.*j'' @ [ucast conv]"

text \<open>The argument of a signed and of an unsigned conversion, as the 64-bit value passed on.\<close>

definition signed_arg :: "w32_len \<Rightarrow> 'd va_arg list \<Rightarrow> (pf_error + u64 \<times> 'd va_arg list) option" where
  "signed_arg len as =
     (case len of
        LEN_HH \<Rightarrow> do { (v, r) \<leftarrow> arg_int as; Some (Inr (scast (ucast v :: u8), r)) }
      | LEN_H \<Rightarrow> do { (v, r) \<leftarrow> arg_int as; Some (Inr (scast (ucast v :: u16), r)) }
      | LEN_NONE \<Rightarrow> do { (v, r) \<leftarrow> arg_int as; Some (Inr (scast v, r)) }
      | LEN_BIGL \<Rightarrow> Some (Inl (Errno EINVAL))
      | _ \<Rightarrow> do { (v, r) \<leftarrow> arg_long as; Some (Inr (v, r)) })"

definition unsigned_arg :: "w32_len \<Rightarrow> 'd va_arg list \<Rightarrow> (pf_error + u64 \<times> 'd va_arg list) option" where
  "unsigned_arg len as =
     (case len of
        LEN_HH \<Rightarrow> do { (v, r) \<leftarrow> arg_int as; Some (Inr (ucast (ucast v :: u8), r)) }
      | LEN_H \<Rightarrow> do { (v, r) \<leftarrow> arg_int as; Some (Inr (ucast (ucast v :: u16), r)) }
      | LEN_NONE \<Rightarrow> do { (v, r) \<leftarrow> arg_int as; Some (Inr (ucast v, r)) }
      | LEN_BIGL \<Rightarrow> Some (Inl (Errno EINVAL))
      | _ \<Rightarrow> do { (v, r) \<leftarrow> arg_long as; Some (Inr (v, r)) })"

definition conv_int :: "(nat \<Rightarrow> bool) \<Rightarrow> 'd snprintf \<Rightarrow> (pf_error + u64 \<times> 'd va_arg list) option \<Rightarrow>
    'd pf_spec \<Rightarrow> w32_out \<Rightarrow> 'd pf_result" where
  "conv_int malloc_ok snp arg sp ob =
     do { r \<leftarrow> arg;
          case r of Inl e \<Rightarrow> Some (Inl e)
          | Inr (v, as) \<Rightarrow> conv_number malloc_ok snp (int_suffix (ps_conv sp)) (N_int v) as sp ob }"

definition conv_ptr :: "(nat \<Rightarrow> bool) \<Rightarrow> 'd snprintf \<Rightarrow> 'd pf_spec \<Rightarrow> w32_out \<Rightarrow> 'd pf_result" where
  "conv_ptr malloc_ok snp sp ob =
     do { (v, as) \<leftarrow> arg_ptr (ps_args sp);
          conv_number malloc_ok snp (map of_char ''*p'') (N_ptr v) as sp ob }"

definition conv_float :: "(nat \<Rightarrow> bool) \<Rightarrow> 'd snprintf \<Rightarrow> 'd pf_spec \<Rightarrow> w32_out \<Rightarrow> 'd pf_result" where
  "conv_float malloc_ok snp sp ob =
     (if ps_len sp = LEN_BIGL then
        (case ps_args sp of
           A_ldouble v # as \<Rightarrow>
             conv_number malloc_ok snp (map of_char ''*.*L'' @ [ucast (ps_conv sp)]) (N_ldouble v) as sp ob
         | _ \<Rightarrow> None)
      else if ps_len sp = LEN_NONE \<or> ps_len sp = LEN_L then
        (case ps_args sp of
           A_double v # as \<Rightarrow>
             conv_number malloc_ok snp (map of_char ''*.*'' @ [ucast (ps_conv sp)]) (N_double v) as sp ob
         | _ \<Rightarrow> None)
      else Some (Inl (Errno EINVAL)))"

definition pf_convert :: "(nat \<Rightarrow> bool) \<Rightarrow> 'd snprintf \<Rightarrow> 'd pf_spec \<Rightarrow> w32_out \<Rightarrow> 'd pf_result" where
  "pf_convert malloc_ok snp sp ob =
     (let c = ps_conv sp in
      if c = ch CHR ''n'' then conv_n sp ob
      else if c = ch CHR ''c'' \<or> c = ch CHR ''C'' then conv_c sp ob
      else if c = ch CHR ''S'' then conv_S sp ob
      else if c = ch CHR ''s'' then conv_s sp ob
      else if c = ch CHR ''d'' \<or> c = ch CHR ''i'' then
        conv_int malloc_ok snp (signed_arg (ps_len sp) (ps_args sp)) sp ob
      else if c = ch CHR ''o'' \<or> c = ch CHR ''u'' \<or> c = ch CHR ''x'' \<or> c = ch CHR ''X'' then
        conv_int malloc_ok snp (unsigned_arg (ps_len sp) (ps_args sp)) sp ob
      else if c = ch CHR ''p'' then conv_ptr malloc_ok snp sp ob
      else if c \<in> set (map of_char ''aAeEfFgG'') then conv_float malloc_ok snp sp ob
      else Some (Inl (Errno EINVAL)))"

text \<open>Every step of a directive leaves a suffix of the format that is no longer.\<close>

lemma w32_getint_length: "w32_getint i f = Some (v, f') \<Longrightarrow> length f' \<le> length f"
  by (induction i f rule: w32_getint.induct) (fastforce simp: Let_def split: if_splits)+

lemma pf_flags_length: "pf_flags fl left f = Some (fl', left', f') \<Longrightarrow> length f' \<le> length f"
  by (induction fl left f rule: pf_flags.induct) (fastforce split: if_splits)+

lemma pf_width_length: "pf_width fl left f as = Some (Inr (w, fl', left', f', as')) \<Longrightarrow> length f' \<le> length f"
  by (auto simp: pf_width_def Let_def bind_eq_Some_conv dest: w32_getint_length split: if_splits)

lemma pf_prec_length: "pf_prec f as = Some (Inr (p, f', as')) \<Longrightarrow> length f' \<le> length f"
  by (fastforce simp: pf_prec_def bind_eq_Some_conv dest: w32_getint_length split: if_splits)

lemma pf_length_length: "pf_length f = Some (len, f') \<Longrightarrow> length f' \<le> length f"
  by (auto simp: pf_length_def bind_eq_Some_conv split: if_splits)

lemma pf_tail_length: "pf_tail w fl left f as = Some (Inr sp) \<Longrightarrow> length (ps_rest sp) < length f"
  by (auto simp: pf_tail_def rd_eq_Some dest!: pf_prec_length pf_length_length
      split: bind_splits sum.splits prod.splits)
    (metis Suc_le_eq Suc_pred le_trans length_greater_0_conv)

lemma pf_directive_length: "pf_directive f as = Some (Inr sp) \<Longrightarrow> length (ps_rest sp) < length f"
  by (fastforce simp: pf_directive_def dest!: pf_tail_length pf_width_length pf_flags_length
      split: bind_splits if_splits sum.splits prod.splits)

section \<open>The calls\<close>

text \<open>The loop of \<open>vswprintf\<close>: the error it stops with, if any, the output and the stores.\<close>

function vsw_loop :: "(nat \<Rightarrow> bool) \<Rightarrow> 'd snprintf \<Rightarrow> u32 list \<Rightarrow> 'd va_arg list \<Rightarrow> pf_store list \<Rightarrow> w32_out \<Rightarrow>
    (pf_error option \<times> w32_out \<times> pf_store list) option" where
  "vsw_loop malloc_ok snp f as ns ob =
     (case rd f 0 of None \<Rightarrow> None
      | Some c \<Rightarrow>
          if c = 0 then Some (None, ob, ns)
          else if int (o_len ob) > INT_MAX then Some (Some (Errno EOVERFLOW), ob, ns)
          else if c \<noteq> ch CHR ''%'' then
            (case w32_put ob c of None \<Rightarrow> None
             | Some ob' \<Rightarrow> vsw_loop malloc_ok snp (drop 1 f) as ns ob')
          else
            (case rd f 1 of None \<Rightarrow> None
             | Some c1 \<Rightarrow>
                 if c1 = ch CHR ''%'' then
                   (case w32_put ob (ch CHR ''%'') of None \<Rightarrow> None
                    | Some ob' \<Rightarrow> vsw_loop malloc_ok snp (drop 2 f) as ns ob')
                 else
                   (case pf_directive (drop 1 f) as of None \<Rightarrow> None
                    | Some (Inl e) \<Rightarrow> Some (Some e, ob, ns)
                    | Some (Inr sp) \<Rightarrow>
                        (case pf_convert malloc_ok snp sp ob of None \<Rightarrow> None
                         | Some (Inl e) \<Rightarrow> Some (Some e, ob, ns)
                         | Some (Inr (ob', as', st)) \<Rightarrow>
                             vsw_loop malloc_ok snp (ps_rest sp) as' (ns @ st) ob'))))"
  by pat_completeness auto
termination
proof (relation "measure (\<lambda>(malloc_ok, snp, f, as, ns, ob). length f)", goal_cases)
  case (2 malloc_ok snp f as ns ob c ob')
  then show ?case by (simp add: rd_eq_Some)
next
  case (3 malloc_ok snp f as ns ob c c1 ob')
  then show ?case by (simp add: rd_eq_Some)
next
  case (4 malloc_ok snp f as ns ob c c1 r sp q t ob' u as' st)
  then show ?case
    using pf_directive_length [of "drop 1 f" as sp] by simp
qed simp

declare vsw_loop.simps [simp del]

text \<open>
  The end of \<open>vswprintf\<close>, from an error the loop left with (the labels \<open>inval\<close> and \<open>fail\<close>) or from
  the end of the format: the result, the terminated destination and the error.
\<close>

definition vsw_finish :: "nat \<Rightarrow> pf_error option \<Rightarrow> w32_out \<Rightarrow> (int \<times> u32 list \<times> pf_error option) option" where
  "vsw_finish n e ob =
     (let e' = (case e of Some x \<Rightarrow> Some x
                | None \<Rightarrow> if int (o_len ob) > INT_MAX then Some (Errno EOVERFLOW) else None);
          r = (if e' \<noteq> None \<or> o_len ob \<ge> n then -1 else int (o_len ob)) in
      do { s' \<leftarrow> wr (o_s ob) (if o_len ob < o_cap ob then o_len ob else o_cap ob) 0;
           Some (r, s', e') })"

text \<open>The result, the destination, the error of a failed call, the stores of \<open>%n\<close>.\<close>

definition vswprintf :: "(nat \<Rightarrow> bool) \<Rightarrow> 'd snprintf \<Rightarrow> u32 list \<Rightarrow> nat \<Rightarrow> u32 list \<Rightarrow> 'd va_arg list \<Rightarrow>
    (int \<times> u32 list \<times> pf_error option \<times> pf_store list) option" where
  "vswprintf malloc_ok snp s n fmt ap =
     (if n = 0 then Some (-1, s, None, [])
      else do {
        (e, ob, ns) \<leftarrow> vsw_loop malloc_ok snp fmt ap [] \<lparr>o_s = s, o_cap = n - 1, o_len = 0\<rparr>;
        (r, s', e') \<leftarrow> vsw_finish n e ob;
        Some (r, s', e', ns) })"

definition swprintf :: "(nat \<Rightarrow> bool) \<Rightarrow> 'd snprintf \<Rightarrow> u32 list \<Rightarrow> nat \<Rightarrow> u32 list \<Rightarrow> 'd va_arg list \<Rightarrow>
    (int \<times> u32 list \<times> pf_error option \<times> pf_store list) option" where
  "swprintf malloc_ok snp s n fmt args = vswprintf malloc_ok snp s n fmt args"

text \<open>
  \<open>__wcsftime_l\<close>. \<open>strf\<close> is \<open>strftime\<close>: from the size of the buffer and the format, the bytes it
  stores (with their NUL) and its result. The narrow buffers start out as zeros here; both are
  written before they are read.
\<close>

definition w32_wcsftime_l :: "(nat \<Rightarrow> bool) \<Rightarrow> (nat \<Rightarrow> u8 list \<Rightarrow> 'tm \<Rightarrow> u8 list \<times> nat) \<Rightarrow> u32 list \<Rightarrow> nat \<Rightarrow>
    u32 list \<Rightarrow> 'tm \<Rightarrow> (nat \<times> u32 list) option" where
  "w32_wcsftime_l malloc_ok strf s n f tm =
     (if n = 0 then Some (0, s)
      else do {
        s0 \<leftarrow> wr s 0 0;
        (fl, _) \<leftarrow> wcstombs None f 0;
        if fl = -1 then Some (0, s0)
        else if unat fl \<ge> 256 \<and> \<not> malloc_ok (unat fl + 1) then Some (0, s0)
        else do {
          (_, nf) \<leftarrow> wcstombs (Some (replicate (max 256 (unat fl + 1)) 0)) f (fl + 1);
          nfmt \<leftarrow> nf;
          let cap = (if n > 2 ^ 20 then 4 * 2 ^ 20 + 1 else 4 * n + 1) in
          if cap > 512 \<and> \<not> malloc_ok cap then Some (0, s0)
          else
            let (out, k) = strf cap nfmt tm in
            if k = 0 then Some (0, s0)
            else do {
              (wl, _, _) \<leftarrow> mbstowcs None out 0;
              if wl \<noteq> -1 \<and> unat wl < n then do {
                (_, s1, _) \<leftarrow> mbstowcs (Some s0) out (of_nat n);
                s2 \<leftarrow> s1;
                Some (unat wl, s2) }
              else Some (0, s0) } } })"

definition wcsftime_l :: "(nat \<Rightarrow> bool) \<Rightarrow> (nat \<Rightarrow> u8 list \<Rightarrow> 'tm \<Rightarrow> u8 list \<times> nat) \<Rightarrow> u32 list \<Rightarrow> nat \<Rightarrow>
    u32 list \<Rightarrow> 'tm \<Rightarrow> (nat \<times> u32 list) option" where
  "wcsftime_l malloc_ok strf s n f tm = w32_wcsftime_l malloc_ok strf s n f tm"

definition wcsftime :: "(nat \<Rightarrow> bool) \<Rightarrow> (nat \<Rightarrow> u8 list \<Rightarrow> 'tm \<Rightarrow> u8 list \<times> nat) \<Rightarrow> u32 list \<Rightarrow> nat \<Rightarrow>
    u32 list \<Rightarrow> 'tm \<Rightarrow> (nat \<times> u32 list) option" where
  "wcsftime malloc_ok strf s n f tm = w32_wcsftime_l malloc_ok strf s n f tm"

end
