(* ===== verification/WPrintf_Props.thy ===== *)
theory WPrintf_Props
  imports WPrintf
begin

text \<open>
  What \<open>vswprintf\<close> promises about its buffer. Two runs of the call with different buffers are
  related step by step: they read the same format and arguments, produce the same characters,
  and the shorter buffer holds the beginning of the longer one.
\<close>

named_theorems pf_rel \<open>operations that keep two runs related\<close>

text \<open>
  Two outputs of which the first has the smaller capacity \<open>n\<close>: as many characters produced, the
  same ones stored below \<open>n\<close>, and \<open>d\<close> still behind the first buffer's capacity.
\<close>

definition out_rel :: "nat \<Rightarrow> nat \<Rightarrow> u32 list \<Rightarrow> w32_out \<Rightarrow> w32_out \<Rightarrow> bool" where
  "out_rel n m d x y \<longleftrightarrow> o_cap x = n \<and> o_cap y = m \<and> n \<le> m \<and> n < length (o_s x) \<and> m < length (o_s y) \<and>
     drop (Suc n) (o_s x) = d \<and> o_len x = o_len y \<and> (\<forall>i<min (o_len x) n. o_s x ! i = o_s y ! i)"

abbreviation res_rel where
  "res_rel n m d \<equiv> rel_option (rel_sum (=) (rel_prod (out_rel n m d) (=)))"

lemma rel_option_bind [intro]:
  "rel_option Q x y \<Longrightarrow> (\<And>a b. Q a b \<Longrightarrow> rel_option P (f a) (g b)) \<Longrightarrow>
   rel_option P (Option.bind x f) (Option.bind y g)"
  by (cases x; cases y) auto

lemma rel_option_same: "(\<And>a. P (f a) (g a)) \<Longrightarrow> rel_option P (map_option f x) (map_option g x)"
  by (cases x) auto

lemma rel_option_bind_same:
  "(\<And>a. x = Some a \<Longrightarrow> rel_option P (f a) (g a)) \<Longrightarrow> rel_option P (Option.bind x f) (Option.bind x g)"
  by (cases x) auto

lemma put_rel [pf_rel]:
  assumes "out_rel n m d x y"
  shows "rel_option (out_rel n m d) (w32_put x c) (w32_put y c)"
proof -
  have "out_rel n m d (x\<lparr>o_s := (o_s x)[o_len x := c], o_len := o_len x + 1\<rparr>)
      (y\<lparr>o_s := (o_s y)[o_len y := c], o_len := o_len y + 1\<rparr>)" if "o_len x < n"
    using assms that by (auto simp: out_rel_def nth_list_update less_Suc_eq)
  moreover have "out_rel n m d (x\<lparr>o_len := o_len x + 1\<rparr>)
      (y\<lparr>o_s := (o_s y)[o_len y := c], o_len := o_len y + 1\<rparr>)" if "n \<le> o_len x"
    using assms that by (auto simp: out_rel_def nth_list_update)
  moreover have "out_rel n m d (x\<lparr>o_len := o_len x + 1\<rparr>) (y\<lparr>o_len := o_len y + 1\<rparr>)" if "n \<le> o_len x"
    using assms that by (auto simp: out_rel_def)
  ultimately show ?thesis
    using assms by (auto simp: w32_put_def out_rel_def)
qed

lemma puts_rel [pf_rel]:
  "out_rel n m d x y \<Longrightarrow> rel_option (out_rel n m d) (w32_puts x cs) (w32_puts y cs)"
  by (induction cs arbitrary: x y) (auto intro!: rel_option_bind put_rel)

lemma pad_rel [pf_rel]:
  "out_rel n m d x y \<Longrightarrow> rel_option (out_rel n m d) (w32_pad x k) (w32_pad y k)"
  by (induction k arbitrary: x y) (auto intro!: rel_option_bind put_rel)

lemma field_rel [pf_rel]:
  "out_rel n m d x y \<Longrightarrow> rel_option (out_rel n m d) (put_field sp x k cs) (put_field sp y k cs)"
  unfolding put_field_def by (auto intro!: rel_option_bind puts_rel pad_rel)

lemma field_done [pf_rel]:
  "out_rel n m d x y \<Longrightarrow>
   res_rel n m d (do { ob' \<leftarrow> put_field sp x k cs; Some (Inr (ob', as, ns)) })
                 (do { ob' \<leftarrow> put_field sp y k cs; Some (Inr (ob', as, ns)) })"
  by (auto intro!: rel_option_bind [OF field_rel])

lemma conv_n_rel [pf_rel]: "out_rel n m d x y \<Longrightarrow> res_rel n m d (conv_n sp x) (conv_n sp y)"
  unfolding conv_n_def by (auto intro!: rel_option_bind_same simp: out_rel_def)

lemma conv_c_rel [pf_rel]: "out_rel n m d x y \<Longrightarrow> res_rel n m d (conv_c sp x) (conv_c sp y)"
  unfolding conv_c_def by (auto intro!: rel_option_bind_same field_done simp: Let_def)

lemma conv_S_rel [pf_rel]: "out_rel n m d x y \<Longrightarrow> res_rel n m d (conv_S sp x) (conv_S sp y)"
  unfolding conv_S_def
  by (auto intro!: rel_option_bind_same field_done simp: Let_def split: list.splits va_arg.splits)

lemma conv_s_rel [pf_rel]: "out_rel n m d x y \<Longrightarrow> res_rel n m d (conv_s sp x) (conv_s sp y)"
  unfolding conv_s_def
  by (auto intro!: rel_option_bind_same field_done simp: Let_def split: list.splits va_arg.splits)

lemma conv_number_rel [pf_rel]:
  "out_rel n m d x y \<Longrightarrow>
   res_rel n m d (conv_number mo snp suf v as sp x) (conv_number mo snp suf v as sp y)"
  unfolding conv_number_def
  by (auto intro!: rel_option_bind [OF puts_rel] split: option.splits)

lemma conv_int_rel [pf_rel]:
  "out_rel n m d x y \<Longrightarrow> res_rel n m d (conv_int mo snp arg sp x) (conv_int mo snp arg sp y)"
  unfolding conv_int_def
  by (auto intro!: rel_option_bind_same conv_number_rel split: sum.splits)

lemma conv_ptr_rel [pf_rel]:
  "out_rel n m d x y \<Longrightarrow> res_rel n m d (conv_ptr mo snp sp x) (conv_ptr mo snp sp y)"
  unfolding conv_ptr_def by (auto intro!: rel_option_bind_same conv_number_rel)

lemma conv_float_rel [pf_rel]:
  "out_rel n m d x y \<Longrightarrow> res_rel n m d (conv_float mo snp sp x) (conv_float mo snp sp y)"
  unfolding conv_float_def
  by (auto intro!: conv_number_rel split: list.splits va_arg.splits)

lemma pf_convert_rel:
  "out_rel n m d x y \<Longrightarrow> res_rel n m d (pf_convert mo snp sp x) (pf_convert mo snp sp y)"
  by (simp add: pf_convert_def Let_def pf_rel)

section \<open>The loop\<close>

abbreviation loop_rel where
  "loop_rel n m d \<equiv> rel_option (rel_prod (=) (rel_prod (out_rel n m d) (=)))"

lemma vsw_loop_rel:
  "out_rel n m d x y \<Longrightarrow> loop_rel n m d (vsw_loop mo snp f as ns x) (vsw_loop mo snp f as ns y)"
proof (induction mo snp f as ns x arbitrary: y rule: vsw_loop.induct)
  case (1 mo snp f as ns x)
  have len: "o_len y = o_len x" using 1(4) by (simp add: out_rel_def)
  show ?case
  proof (cases "rd f 0")
    case None
    then show ?thesis by (simp add: vsw_loop.simps [of mo snp f])
  next
    case (Some c)
    note c = Some
    consider (stop) "c = 0 \<or> int (o_len x) > INT_MAX"
      | (literal) "c \<noteq> 0" "\<not> int (o_len x) > INT_MAX" "c \<noteq> ch CHR ''%''"
      | (directive) "c \<noteq> 0" "\<not> int (o_len x) > INT_MAX" "c = ch CHR ''%''" by blast
    then show ?thesis
    proof cases
      case stop
      then show ?thesis using c 1(4) by (auto simp: vsw_loop.simps [of mo snp f] len)
    next
      case literal
      have "rel_option (out_rel n m d) (w32_put x c) (w32_put y c)" by (rule put_rel [OF 1(4)])
      then show ?thesis
        using c literal 1(1) [OF c literal(1-3)]
        by (cases rule: option.rel_cases) (simp_all add: vsw_loop.simps [of mo snp f] len)
    next
      case directive
      show ?thesis
      proof (cases "rd f 1")
        case None
        then show ?thesis using c directive by (simp add: vsw_loop.simps [of mo snp f] len)
      next
        case (Some c1)
        note c1 = Some
        note unfold = vsw_loop.simps [of mo snp f] len c c1 c1 [unfolded One_nat_def] directive(2)
        show ?thesis
        proof (cases "c1 = ch CHR ''%''")
          case True
          have "rel_option (out_rel n m d) (w32_put x (ch CHR ''%'')) (w32_put y (ch CHR ''%''))"
            by (rule put_rel [OF 1(4)])
          then show ?thesis
            using directive True 1(2) [OF c directive(1,2) _ c1 True]
            by (cases rule: option.rel_cases) (simp_all add: unfold)
        next
          case False
          show ?thesis
          proof (cases "pf_directive (drop 1 f) as")
            case None
            then show ?thesis using directive False by (simp add: unfold)
          next
            case (Some r)
            note r = Some
            show ?thesis
            proof (cases r)
              case (Inl e)
              then show ?thesis using r directive False 1(4) by (simp add: unfold)
            next
              case (Inr sp)
              note sp = Inr
              have "res_rel n m d (pf_convert mo snp sp x) (pf_convert mo snp sp y)"
                by (rule pf_convert_rel [OF 1(4)])
              then show ?thesis
              proof (cases rule: option.rel_cases)
                case None
                then show ?thesis using r sp directive False by (simp add: unfold)
              next
                case (Some q q')
                show ?thesis
                proof (cases q)
                  case (Inl e)
                  then have "q' = Inl e" using Some(3) by (cases q') simp_all
                  with Inl show ?thesis using Some r sp directive False 1(4) by (simp add: unfold)
                next
                  case (Inr p)
                  then obtain p' where p': "q' = Inr p'" "rel_prod (out_rel n m d) (=) p p'"
                    using Some(3) by (cases q') simp_all
                  obtain ob as1 st ob' as1' st' where p: "p = (ob, as1, st)" "p' = (ob', as1', st')"
                    by (metis surj_pair)
                  then have rel: "out_rel n m d ob ob'" "as1' = as1" "st' = st" using p'(2) by simp_all
                  show ?thesis
                    using 1(3) [OF c directive(1,2) _ c1 False r sp Some(1) Inr p(1) [symmetric] refl rel(1)]
                      Some Inr p p'(1) rel r sp directive False by (simp add: unfold)
                qed
              qed
            qed
          qed
        qed
      qed
    qed
  qed
qed

section \<open>The property\<close>

text \<open>What \<open>vswprintf\<close> makes of the end of its loop.\<close>

lemma vswprintf_result:
  assumes "vsw_loop malloc_ok snp f args [] \<lparr>o_s = s, o_cap = n - 1, o_len = 0\<rparr> = Some (e2, x, st)" "0 < n"
    and "o_cap x = n - 1" "n - 1 < length (o_s x)"
  defines "e \<equiv> (case e2 of Some z \<Rightarrow> Some z | None \<Rightarrow> if int (o_len x) > INT_MAX then Some (Errno EOVERFLOW) else None)"
  shows "vswprintf malloc_ok snp s n f args =
    Some (if e \<noteq> None \<or> o_len x \<ge> n then -1 else int (o_len x), (o_s x)[min (o_len x) (n - 1) := 0], e, st)"
proof -
  have "wr (o_s x) (if o_len x < o_cap x then o_len x else o_cap x) 0 = Some ((o_s x)[min (o_len x) (n - 1) := 0])"
    using assms(3,4) by (simp add: min_def)
  then show ?thesis using assms(1,2) by (simp add: vswprintf_def vsw_finish_def e_def Let_def del: not_None_eq)
qed

text \<open>Two buffers that agree as far as the shorter one reaches, both terminated.\<close>

lemma cut_buffers:
  assumes r: "out_rel (n - 1) (m - 1) (drop n s) x y" and n: "0 < n" "n \<le> m" "n \<le> length s"
  defines "k \<equiv> min (o_len x) (n - 1)"
  defines "s' \<equiv> (o_s x)[k := 0]" and "t' \<equiv> (o_s y)[min (o_len x) (m - 1) := 0]"
  shows "length s' = length s \<and> drop n s' = drop n s \<and> k < n \<and> s' ! k = 0 \<and> take k s' = take k t' \<and>
    (k < n - 1 \<longrightarrow> t' ! k = 0)"
proof -
  have lens: "n - 1 < length (o_s x)" "m - 1 < length (o_s y)" "drop n (o_s x) = drop n s"
    and same: "\<And>i. i < k \<Longrightarrow> o_s x ! i = o_s y ! i"
    using r n(1) by (auto simp: out_rel_def k_def)
  have "length (o_s x) - n = length s - n" using lens(3) by (metis length_drop)
  then have "length s' = length s" using lens(1) n(1,3) by (simp add: s'_def)
  moreover have "drop n s' = drop n s" "k < n" "s' ! k = 0" using lens n(1) by (auto simp: s'_def k_def)
  moreover have "take k s' = take k t'"
  proof (rule nth_equalityI)
    show "length (take k s') = length (take k t')" using lens(1,2) n(2) by (auto simp: s'_def t'_def k_def)
  next
    fix i assume "i < length (take k s')"
    then have i: "i < k" by simp
    then have "i \<noteq> min (o_len x) (m - 1)" using n(2) by (auto simp: k_def)
    then show "take k s' ! i = take k t' ! i" using i same [OF i] by (simp add: s'_def t'_def)
  qed
  moreover have "t' ! k = 0" if "k < n - 1" using that n(2) lens(2) by (auto simp: t'_def k_def min_def)
  ultimately show ?thesis by blast
qed

text \<open>
  C31. For a format and arguments there is a length \<open>L\<close>, the number of characters they produce until
  the end or an error, which does not depend on the buffer: into \<open>n\<close> characters \<open>vswprintf\<close> returns
  \<open>-1\<close> exactly when it failed or \<open>L\<close> characters and the terminator do not fit, and \<open>L\<close> otherwise; it
  leaves what it leaves in a larger buffer cut to \<open>n - 1\<close> characters, terminated behind the last of
  them, and writes nothing behind the buffer. Errors and the stores of \<open>%n\<close> are the same in both, and
  a length above \<open>INT_MAX\<close> is an error.
\<close>

theorem vswprintf_truncates:
  assumes "0 < n" "n \<le> m" "n \<le> length s" "m \<le> length t"
    and "vswprintf malloc_ok snp t m f args = Some (r', t', e, st)"
  shows "\<exists>L s'. vswprintf malloc_ok snp s n f args =
             Some (if e \<noteq> None \<or> n \<le> L then -1 else int L, s', e, st) \<and>
           r' = (if e \<noteq> None \<or> m \<le> L then -1 else int L) \<and> (e = None \<longrightarrow> int L \<le> INT_MAX) \<and>
           length s' = length s \<and> drop n s' = drop n s \<and>
           s' ! min L (n - 1) = 0 \<and> t' ! min L (m - 1) = 0 \<and>
           take (min L (n - 1)) s' = take (min L (n - 1)) t'"
proof -
  let ?x = "\<lparr>o_s = s, o_cap = n - 1, o_len = 0\<rparr>" and ?y = "\<lparr>o_s = t, o_cap = m - 1, o_len = 0\<rparr>"
  have init: "out_rel (n - 1) (m - 1) (drop n s) ?x ?y"
    using assms(1-4) by (auto simp: out_rel_def)
  obtain e2 y where y: "vsw_loop malloc_ok snp f args [] ?y = Some (e2, y, st)"
    using assms(1,2,5) by (auto simp: vswprintf_def vsw_finish_def Let_def bind_eq_Some_conv)
  obtain x where x: "vsw_loop malloc_ok snp f args [] ?x = Some (e2, x, st)"
    and rel: "out_rel (n - 1) (m - 1) (drop n s) x y"
    using vsw_loop_rel [OF init, of malloc_ok snp f args "[]"] y
    by (auto simp: option_rel_Some2)
  define k where "k = min (o_len x) (n - 1)"
  have caps: "o_cap x = n - 1" "n - 1 < length (o_s x)" "o_cap y = m - 1" "m - 1 < length (o_s y)" "o_len y = o_len x"
    using rel by (simp_all add: out_rel_def)
  have m: "0 < m" using assms(1,2) by simp
  note vx = vswprintf_result [OF x assms(1) caps(1,2)] and vy = vswprintf_result [OF y m caps(3,4), unfolded caps(5)]
  have t': "t' = (o_s y)[min (o_len x) (m - 1) := 0]"
    and e: "e = (case e2 of Some z \<Rightarrow> Some z | None \<Rightarrow> if int (o_len x) > INT_MAX then Some (Errno EOVERFLOW) else None)"
    using assms(5) vy by simp_all
  have r': "r' = (if e \<noteq> None \<or> o_len x \<ge> m then -1 else int (o_len x))"
    using assms(5) vy [folded e] by (simp del: not_None_eq)
  have "e = None \<longrightarrow> int (o_len x) \<le> INT_MAX" by (auto simp: e split: option.splits if_splits)
  moreover have "t' ! min (o_len x) (m - 1) = 0" unfolding t' using caps(4) by simp
  moreover note vx [folded e k_def] cut_buffers [OF rel assms(1-3), folded k_def t']
  ultimately show ?thesis unfolding r'
    by (intro exI [of _ "o_len x"] exI [of _ "(o_s x)[k := 0]"]) (simp add: k_def)
qed

text \<open>\<open>a%c%d\<close> with a narrow \<open>snprintf\<close> that prints 12, into ten and into four characters.\<close>

lemma vswprintf_example:
  "vswprintf (\<lambda>_. True) (\<lambda>_ _ _ _. Some [0x31, 0x32]) (replicate 10 7) 10
     [0x61, 0x25, 0x63, 0x25, 0x64, 0] [A_int 0x58, A_int 12 :: unit va_arg] =
   Some (4, [0x61, 0x58, 0x31, 0x32, 0, 7, 7, 7, 7, 7], None, [])"
  by code_simp

lemma vswprintf_truncates_witness:
  "\<exists>s'. vswprintf (\<lambda>_. True) (\<lambda>_ _ _ _. Some [0x31, 0x32]) (replicate 6 9) 4
     [0x61, 0x25, 0x63, 0x25, 0x64, 0] [A_int 0x58, A_int 12 :: unit va_arg] = Some (-1, s', None, []) \<and>
   take 4 s' = [0x61, 0x58, 0x31, 0] \<and> drop 4 s' = [9, 9]"
proof -
  from vswprintf_truncates [of 4 10 "replicate 6 9", OF _ _ _ _ vswprintf_example]
  obtain s' where s': "vswprintf (\<lambda>_. True) (\<lambda>_ _ _ _. Some [0x31, 0x32]) (replicate 6 9) 4
      [0x61, 0x25, 0x63, 0x25, 0x64, 0] [A_int 0x58, A_int 12 :: unit va_arg] = Some (-1, s', None, [])"
      "length s' = 6" "drop 4 s' = replicate 2 9" "s' ! 3 = 0" "take 3 s' = [0x61, 0x58, 0x31]"
    by (auto split: if_splits)
  have "take 4 s' = take 3 s' @ [s' ! 3]" using s'(2) take_Suc_conv_app_nth [of 3 s'] by simp
  then show ?thesis using s' by (auto simp: numeral_eq_Suc)
qed

end
