(* ===== verification/Jit.thy ===== *)
theory Jit
  imports Prelude
begin

text \<open>
  The executable-memory allocator of \<open>src/orbis_jit.c\<close>: arenas of direct memory, the
  address search near the module, the sorted free list of each arena, allocation with a
  length header in front of every block, freeing, promotion of a caller's pages, and the
  module-wide verdict. Addresses and sizes are natural numbers with the 64-bit wrap written
  out where the code computes on \<open>size_t\<close> or \<open>uintptr_t\<close>. The kernel and the environment are
  a record of functions on a kernel state \<open>'k\<close>; a null pointer result is
  \<open>None\<close>, and \<open>near\<close> stands for \<open>flags & ORBIS_JIT_NEAR_TEXT\<close>.
\<close>

section \<open>Constants and data\<close>

definition JIT_GRANULE :: nat where "JIT_GRANULE = 0x4000"
definition JIT_MAP_FIXED :: nat where "JIT_MAP_FIXED = 0x10"
definition JIT_PROT_RW :: nat where "JIT_PROT_RW = 3"
definition JIT_PROT_RWX :: nat where "JIT_PROT_RWX = 7"
definition JIT_REACH :: nat where "JIT_REACH = 0x80000000"
definition JIT_MODULE_SPAN :: nat where "JIT_MODULE_SPAN = 0x10000000"
definition JIT_WINDOW :: nat where "JIT_WINDOW = JIT_REACH - 2 * JIT_MODULE_SPAN"
definition JIT_ALIGN :: nat where "JIT_ALIGN = 64"
definition JIT_MAX_ARENAS :: nat where "JIT_MAX_ARENAS = 8"
definition JIT_MAX_SPANS :: nat where "JIT_MAX_SPANS = 256"
definition JIT_MAX_PROMOTED :: nat where "JIT_MAX_PROMOTED = 16"

lemmas jit_consts = JIT_GRANULE_def JIT_MAP_FIXED_def JIT_PROT_RW_def
  JIT_PROT_RWX_def JIT_REACH_def JIT_MODULE_SPAN_def JIT_WINDOW_def JIT_ALIGN_def
  JIT_MAX_ARENAS_def JIT_MAX_SPANS_def JIT_MAX_PROMOTED_def

text \<open>\<open>orbis_jit_span\<close>: address and length.\<close>

type_synonym jit_span = "nat \<times> nat"

text \<open>\<open>orbis_jit_arena\<close>; \<open>spans\<close> are the first \<open>nspans\<close> elements of its array.\<close>

record jit_arena =
  base :: nat
  asize :: nat
  phys :: nat
  dedicated :: bool
  spans :: "jit_span list"

record jit_promoted =
  pbase :: nat
  pend :: nat
  pok :: bool

text \<open>The lines \<open>orbis_report\<close> prints, one constructor per call site.\<close>

datatype jit_report =
    Calling_stub nat | Stub_wrong nat u32
  | No_direct_memory int string | Could_not_map int string nat | No_execute int string
  | No_arena_slot | No_free_reach nat | Arena_taken nat
  | No_span_slot nat | Unaligned_addr nat | Already_mapped nat
  | Not_dedicated_base nat | Bad_header nat nat
  | Promoted nat bool | No_promoted_slot nat

text \<open>The kernel calls and the environment lookup the file makes.\<close>

record 'k jit_kernel =
  AllocateDirectMemory :: "nat \<Rightarrow> 'k \<Rightarrow> int \<times> nat \<times> 'k"
  MapNamedDirectMemory :: "nat \<Rightarrow> nat \<Rightarrow> nat \<Rightarrow> nat \<Rightarrow> nat \<Rightarrow> 'k \<Rightarrow> int \<times> nat \<times> 'k"
  Mprotect :: "nat \<Rightarrow> nat \<Rightarrow> nat \<Rightarrow> 'k \<Rightarrow> int \<times> 'k"
  Munmap :: "nat \<Rightarrow> nat \<Rightarrow> 'k \<Rightarrow> 'k"
  ReleaseDirectMemory :: "nat \<Rightarrow> nat \<Rightarrow> 'k \<Rightarrow> 'k"
  VirtualQuery :: "'k \<Rightarrow> nat \<Rightarrow> nat option"
  call_stub :: "nat \<Rightarrow> 'k \<Rightarrow> u32 \<times> 'k"
  env_get :: "string \<Rightarrow> string option"
  anchor :: nat

record 'k jit_state =
  s_arena :: "jit_arena list"
  s_state :: int
  s_verbose :: int
  s_first_stub :: bool
  s_promoted :: "jit_promoted list"
  mem :: memory
  reports :: "jit_report list"
  kst :: 'k

definition jit_init :: "memory \<Rightarrow> 'k \<Rightarrow> 'k jit_state" where
  "jit_init m k = \<lparr>s_arena = [], s_state = -1, s_verbose = -1, s_first_stub = True,
     s_promoted = [], mem = m, reports = [], kst = k\<rparr>"

definition report :: "jit_report \<Rightarrow> 'k jit_state \<Rightarrow> 'k jit_state" where
  "report r s = s\<lparr>reports := reports s @ [r]\<rparr>"

section \<open>Reporting, rounding, the proof\<close>

definition jit_err :: "int \<Rightarrow> string" where
  "jit_err rc =
     (let c = rc mod 2 ^ 32 in
      if c = 0x80020001 then ''EPERM - not permitted''
      else if c = 0x80020009 then ''EBADF - the flags word was not anonymous''
      else if c = 0x8002000C then ''ENOMEM - out of memory or address space''
      else if c = 0x8002000D then ''EACCES - understood and refused on policy''
      else if c = 0x8002000E then ''EFAULT - bad address argument''
      else if c = 0x80020016 then ''EINVAL - malformed request, policy never reached''
      else if c = 0x80020023 then ''EAGAIN - the direct memory pool is exhausted''
      else ''not in this file's table'')"

definition jit_should_log :: "'k jit_kernel \<Rightarrow> 'k jit_state \<Rightarrow> bool \<times> 'k jit_state" where
  "jit_should_log K s =
     (if s_verbose s < 0 then
        let v = (case env_get K ''ORBIS_JIT_VERBOSE'' of
                   Some e \<Rightarrow> if e \<noteq> [] \<and> hd e \<noteq> CHR ''0'' then 1 else 0
                 | None \<Rightarrow> 0)
        in (v \<noteq> 0, s\<lparr>s_verbose := v\<rparr>)
      else (s_verbose s \<noteq> 0, s))"

text \<open>\<open>c || orbis_jit_should_log()\<close>: the knob is only read when \<open>c\<close> is false.\<close>

definition jit_say :: "'k jit_kernel \<Rightarrow> bool \<Rightarrow> 'k jit_state \<Rightarrow> bool \<times> 'k jit_state" where
  "jit_say K c s = (if c then (True, s) else jit_should_log K s)"

definition jit_round :: "nat \<Rightarrow> nat \<Rightarrow> nat" where
  "jit_round n to = round_up64 n to"

definition jit_stub :: "nat list" where
  "jit_stub = [0xb8, 0xee, 0xff, 0xc0, 0x00, 0xc3]"

definition jit_verify :: "'k jit_kernel \<Rightarrow> nat \<Rightarrow> 'k jit_state \<Rightarrow> bool \<times> 'k jit_state" where
  "jit_verify K at s =
     (let s1 = s\<lparr>mem := mem_write at jit_stub (mem s)\<rparr>;
          (say, s2) = jit_say K (s_first_stub s1) s1;
          s3 = (if say then report (Calling_stub at) s2 else s2);
          (got, k) = call_stub K at (kst s3);
          s4 = s3\<lparr>s_first_stub := False, kst := k\<rparr>
      in if got \<noteq> 0x00c0ffee then (False, report (Stub_wrong at got) s4) else (True, s4))"

definition jit_record :: "bool \<Rightarrow> 'k jit_state \<Rightarrow> 'k jit_state" where
  "jit_record ok s =
     s\<lparr>s_state := (if s_state s < 0 then (if ok then 1 else 0)
                   else if s_state s \<noteq> 0 \<and> ok then 1 else 0)\<rparr>"

section \<open>Reachability and address search\<close>

definition jit_reachable :: "nat \<Rightarrow> nat \<Rightarrow> nat \<Rightarrow> nat \<Rightarrow> bool" where
  "jit_reachable a len b len2 =
     (let lo = (if a < b then a else b);
          hi = (if add64 a len > add64 b len2 then add64 a len else add64 b len2)
      in sub64 hi lo < JIT_REACH)"

definition jit_near_module :: "'k jit_kernel \<Rightarrow> nat \<Rightarrow> nat \<Rightarrow> bool" where
  "jit_near_module K b sz =
     jit_reachable (sub64 (anchor K) JIT_MODULE_SPAN) (2 * JIT_MODULE_SPAN) b sz"

text \<open>
  The loop of \<open>orbis_jit_find_free\<close>: \<open>q\<close> answers \<open>Some end\<close> where something is mapped and
  \<open>None\<close> where nothing is. An outer \<open>None\<close> is a search that does not end.
\<close>

partial_function (option) jit_find_free_loop ::
  "(nat \<Rightarrow> nat option) \<Rightarrow> nat \<Rightarrow> nat \<Rightarrow> nat \<Rightarrow> nat \<Rightarrow> nat option option" where
  "jit_find_free_loop q hi len p run =
     (if add64 p JIT_GRANULE \<le> hi then
        (case q p of
           Some e \<Rightarrow>
             jit_find_free_loop q hi len
               (if e > p then round_up64 e JIT_GRANULE else add64 p JIT_GRANULE)
               (if e > p then round_up64 e JIT_GRANULE else add64 p JIT_GRANULE)
         | None \<Rightarrow>
             if sub64 (add64 p JIT_GRANULE) run \<ge> len then Some (Some run)
             else jit_find_free_loop q hi len (add64 p JIT_GRANULE) run)
      else Some None)"

definition jit_find_free :: "(nat \<Rightarrow> nat option) \<Rightarrow> nat \<Rightarrow> nat \<Rightarrow> nat \<Rightarrow> nat option option" where
  "jit_find_free q lo hi len =
     jit_find_free_loop q hi len (round_up64 lo JIT_GRANULE) (round_up64 lo JIT_GRANULE)"

section \<open>Arena creation\<close>

text \<open>
  \<open>orbis_jit_map\<close>: on success the base, size and physical offset it stores in the arena slot.
\<close>

definition jit_map ::
  "'k jit_kernel \<Rightarrow> nat option \<Rightarrow> nat \<Rightarrow> 'k jit_state \<Rightarrow> (nat \<times> nat \<times> nat) option \<times> 'k jit_state" where
  "jit_map K at len s =
     (let (rc, ph, k1) = AllocateDirectMemory K len (kst s);
          s1 = s\<lparr>kst := k1\<rparr>
      in if rc \<noteq> 0 then (None, report (No_direct_memory rc (jit_err rc)) s1)
      else
        let (rc2, got, k2) = MapNamedDirectMemory K (case at of Some a \<Rightarrow> a | None \<Rightarrow> 0) len JIT_PROT_RW
              (case at of Some _ \<Rightarrow> JIT_MAP_FIXED | None \<Rightarrow> 0) ph (kst s1);
            s2 = s1\<lparr>kst := k2\<rparr>
        in if rc2 \<noteq> 0 \<or> got = 0 \<or> (at \<noteq> None \<and> at \<noteq> Some got) then
             let s3 = report (Could_not_map rc2 (jit_err rc2) got) s2;
                 k3 = (if rc2 = 0 \<and> got \<noteq> 0 then Munmap K got len (kst s3) else kst s3)
             in (None, s3\<lparr>kst := ReleaseDirectMemory K ph len k3\<rparr>)
        else
          let (rc3, k3) = Mprotect K got len JIT_PROT_RWX (kst s2);
              s3 = s2\<lparr>kst := k3\<rparr>
          in if rc3 \<noteq> 0 then
               let s4 = report (No_execute rc3 (jit_err rc3)) s3
               in (None, jit_record False
                     (s4\<lparr>kst := ReleaseDirectMemory K ph len (Munmap K got len (kst s4))\<rparr>))
          else
            let (ok, s4) = jit_verify K got s3
            in if \<not> ok then
                 (None, jit_record False
                     (s4\<lparr>kst := ReleaseDirectMemory K ph len (Munmap K got len (kst s4))\<rparr>))
               else (Some (got, len, ph), jit_record True s4))"

text \<open>\<open>strtol(e, NULL, 10)\<close>, saturating at the \<open>long\<close> limits.\<close>

definition is_space :: "char \<Rightarrow> bool" where
  "is_space c = (c = CHR '' '' \<or> (9 \<le> (of_char c :: nat) \<and> (of_char c :: nat) \<le> 13))"

definition is_digit :: "char \<Rightarrow> bool" where
  "is_digit c = (48 \<le> (of_char c :: nat) \<and> (of_char c :: nat) \<le> 57)"

definition digits_value :: "string \<Rightarrow> int" where
  "digits_value ds = foldl (\<lambda>v c. v * 10 + (of_char c - 48)) 0 ds"

definition strtol10 :: "string \<Rightarrow> int" where
  "strtol10 e =
     (let t = dropWhile is_space e;
          neg = (t \<noteq> [] \<and> hd t = CHR ''-'');
          u = (if t \<noteq> [] \<and> (hd t = CHR ''-'' \<or> hd t = CHR ''+'') then tl t else t);
          v = digits_value (takeWhile is_digit u)
      in if neg then max (- (2 ^ 63)) (- v) else min (2 ^ 63 - 1) v)"

definition jit_arena_size :: "'k jit_kernel \<Rightarrow> nat \<Rightarrow> nat" where
  "jit_arena_size K atleast =
     (let mb = (case env_get K ''ORBIS_JIT_ARENA_MB'' of
                  None \<Rightarrow> 16
                | Some e \<Rightarrow>
                    if e = [] then 16
                    else let v = strtol10 e in if v > 0 \<and> v \<le> 512 then nat v else 16);
          want = mb * 1024 * 1024
      in jit_round (if atleast > want then atleast else want) JIT_GRANULE)"

text \<open>
  \<open>orbis_jit_grow\<close>: the index of the new arena, or a null pointer. An outer \<open>None\<close> is an
  address search that does not end.
\<close>

definition jit_grow_commit ::
  "'k jit_kernel \<Rightarrow> nat option \<Rightarrow> nat \<Rightarrow> 'k jit_state \<Rightarrow> nat option \<times> 'k jit_state" where
  "jit_grow_commit K at len s =
     (case jit_map K at len s of
        (None, s1) \<Rightarrow> (None, s1)
      | (Some (b, n, ph), s1) \<Rightarrow>
          let s2 = s1\<lparr>s_arena := s_arena s1 @
                [\<lparr>base = b, asize = n, phys = ph, dedicated = False, spans = [(b, n)]\<rparr>]\<rparr>;
              (say, s3) = jit_say K (length (s_arena s2) = 1) s2
          in (Some (length (s_arena s)), if say then report (Arena_taken b) s3 else s3))"

definition jit_search_near :: "'k jit_kernel \<Rightarrow> nat \<Rightarrow> 'k jit_state \<Rightarrow> nat option option" where
  "jit_search_near K len s =
     do { at \<leftarrow> jit_find_free (VirtualQuery K (kst s))
                   (add64 (anchor K) JIT_MODULE_SPAN) (add64 (anchor K) JIT_WINDOW) len;
          case at of
            Some a \<Rightarrow> Some (Some a)
          | None \<Rightarrow> jit_find_free (VirtualQuery K (kst s))
                   (sub64 (anchor K) JIT_WINDOW) (sub64 (anchor K) JIT_MODULE_SPAN) len }"

definition jit_grow ::
  "'k jit_kernel \<Rightarrow> nat \<Rightarrow> bool \<Rightarrow> 'k jit_state \<Rightarrow> (nat option \<times> 'k jit_state) option" where
  "jit_grow K atleast near s =
     (if length (s_arena s) \<ge> JIT_MAX_ARENAS then Some (None, report No_arena_slot s)
      else
        let len = jit_arena_size K atleast in
        if near then
          do { at \<leftarrow> jit_search_near K len s;
               Some (case at of
                   None \<Rightarrow> (None, report (No_free_reach (anchor K)) s)
                 | Some a \<Rightarrow> jit_grow_commit K (Some a) len s) }
        else Some (jit_grow_commit K None len s))"

section \<open>The free list\<close>

fun jit_take :: "nat \<Rightarrow> jit_span list \<Rightarrow> (nat \<times> jit_span list) option" where
  "jit_take len [] = None"
| "jit_take len ((at, l) # ss) =
     (if l < len then map_option (\<lambda>(r, ss'). (r, (at, l) # ss')) (jit_take len ss)
      else if l = len then Some (at, ss)
      else Some (at, (at + len, l - len) # ss))"

text \<open>The two coalescing steps of \<open>orbis_jit_give\<close>, at index \<open>i\<close>.\<close>

definition jit_merge_next :: "nat \<Rightarrow> jit_span list \<Rightarrow> jit_span list" where
  "jit_merge_next i l =
     (if i + 1 < length l \<and> fst (l ! i) + snd (l ! i) = fst (l ! (i + 1))
      then take i l @ (fst (l ! i), snd (l ! i) + snd (l ! (i + 1))) # drop (i + 2) l
      else l)"

definition jit_merge_prev :: "nat \<Rightarrow> jit_span list \<Rightarrow> jit_span list" where
  "jit_merge_prev i l =
     (if i > 0 \<and> fst (l ! (i - 1)) + snd (l ! (i - 1)) = fst (l ! i)
      then take (i - 1) l @ (fst (l ! (i - 1)), snd (l ! (i - 1)) + snd (l ! i)) # drop (i + 1) l
      else l)"

definition jit_give :: "nat \<Rightarrow> nat \<Rightarrow> jit_span list \<Rightarrow> jit_span list" where
  "jit_give at len ss =
     (let i = length (takeWhile (\<lambda>sp. fst sp < at) ss) in
      if length ss \<ge> JIT_MAX_SPANS then ss
      else jit_merge_prev i (jit_merge_next i (take i ss @ (at, len) # drop i ss)))"

section \<open>The interface\<close>

text \<open>The search of \<open>orbis_jit_alloc\<close> over the arenas from index \<open>i\<close>.\<close>

fun jit_alloc_scan ::
  "'k jit_kernel \<Rightarrow> bool \<Rightarrow> nat \<Rightarrow> jit_arena list \<Rightarrow> (nat \<times> jit_arena list) option" where
  "jit_alloc_scan K near len [] = None"
| "jit_alloc_scan K near len (a # as) =
     (if dedicated a \<or> (near \<and> \<not> jit_near_module K (base a) (asize a))
      then map_option (\<lambda>(at, as'). (at, a # as')) (jit_alloc_scan K near len as)
      else case jit_take len (spans a) of
             Some (at, ss) \<Rightarrow> Some (at, a\<lparr>spans := ss\<rparr> # as)
           | None \<Rightarrow> map_option (\<lambda>(at, as'). (at, a # as')) (jit_alloc_scan K near len as))"

definition jit_alloc_len :: "nat \<Rightarrow> nat" where
  "jit_alloc_len sz = add64 (jit_round (if sz = 0 then 1 else sz) JIT_ALIGN) JIT_ALIGN"

definition jit_alloc_find ::
  "'k jit_kernel \<Rightarrow> bool \<Rightarrow> nat \<Rightarrow> 'k jit_state \<Rightarrow> (nat option \<times> 'k jit_state) option" where
  "jit_alloc_find K near len s =
     (case jit_alloc_scan K near len (s_arena s) of
        Some (at, as) \<Rightarrow> Some (Some at, s\<lparr>s_arena := as\<rparr>)
      | None \<Rightarrow>
          do { (r, s1) \<leftarrow> jit_grow K len near s;
               Some (case r of
                   None \<Rightarrow> (None, s1)
                 | Some i \<Rightarrow>
                     (case jit_take len (spans (s_arena s1 ! i)) of
                        None \<Rightarrow> (None, s1)
                      | Some (at, ss) \<Rightarrow>
                          (Some at, s1\<lparr>s_arena := (s_arena s1)[i := (s_arena s1 ! i)\<lparr>spans := ss\<rparr>]\<rparr>))) })"

definition jit_alloc ::
  "'k jit_kernel \<Rightarrow> nat \<Rightarrow> bool \<Rightarrow> 'k jit_state \<Rightarrow> (nat option \<times> 'k jit_state) option" where
  "jit_alloc K sz near s =
     (let len = jit_alloc_len sz in
      do { (at, s1) \<leftarrow> jit_alloc_find K near len s;
           Some (case at of
               None \<Rightarrow> (None, s1)
             | Some a \<Rightarrow> (Some (a + JIT_ALIGN), s1\<lparr>mem := mem_write a (le_bytes 8 len) (mem s1)\<rparr>)) })"

definition jit_alloc_at ::
  "'k jit_kernel \<Rightarrow> nat \<Rightarrow> nat \<Rightarrow> 'k jit_state \<Rightarrow> (nat option \<times> 'k jit_state) option" where
  "jit_alloc_at K addr sz s =
     (let len = jit_round (if sz = 0 then 1 else sz) JIT_GRANULE in
      if addr = 0 \<or> addr mod JIT_GRANULE \<noteq> 0 then Some (None, report (Unaligned_addr addr) s)
      else if length (s_arena s) \<ge> JIT_MAX_ARENAS then Some (None, report No_arena_slot s)
      else do {
        r \<leftarrow> jit_find_free (VirtualQuery K (kst s)) addr (add64 addr len) len;
        Some (case r of
            None \<Rightarrow> (None, report (Already_mapped addr) s)
          | Some _ \<Rightarrow>
              (case jit_map K (Some addr) len s of
                 (None, s1) \<Rightarrow> (None, s1)
               | (Some (b, n, ph), s1) \<Rightarrow>
                   (Some b, s1\<lparr>s_arena := s_arena s1 @
                      [\<lparr>base = b, asize = n, phys = ph, dedicated = True, spans = []\<rparr>]\<rparr>))) })"

text \<open>The arena \<open>orbis_jit_free\<close> finds an address in.\<close>

fun jit_owner :: "nat \<Rightarrow> jit_arena list \<Rightarrow> nat option" where
  "jit_owner at [] = None"
| "jit_owner at (a # as) =
     (if at < base a \<or> at \<ge> base a + asize a then map_option Suc (jit_owner at as) else Some 0)"

definition jit_header_ok :: "jit_arena \<Rightarrow> nat \<Rightarrow> nat \<Rightarrow> bool" where
  "jit_header_ok a blk len =
     (\<not> (len < 2 * JIT_ALIGN \<or> len mod JIT_ALIGN \<noteq> 0 \<or> add64 blk len > base a + asize a))"

definition jit_free :: "'k jit_kernel \<Rightarrow> nat \<Rightarrow> 'k jit_state \<Rightarrow> 'k jit_state" where
  "jit_free K addr s =
     (if addr = 0 then s
      else case jit_owner addr (s_arena s) of
        None \<Rightarrow> s
      | Some i \<Rightarrow>
          let a = s_arena s ! i in
          if dedicated a then
            (if addr \<noteq> base a then report (Not_dedicated_base addr) s
             else s\<lparr>kst := ReleaseDirectMemory K (phys a) (asize a) (Munmap K (base a) (asize a) (kst s)),
                    s_arena := take i (s_arena s) @ drop (i + 1) (s_arena s)\<rparr>)
          else
            let blk = sub64 addr JIT_ALIGN;
                len = le_value (mem_read blk 8 (mem s))
            in if \<not> jit_header_ok a blk len then report (Bad_header addr len) s
               else if length (spans a) \<ge> JIT_MAX_SPANS then report (No_span_slot blk) s
               else s\<lparr>s_arena := (s_arena s)[i := a\<lparr>spans := jit_give blk len (spans a)\<rparr>]\<rparr>)"

definition jit_release_all :: "'k jit_kernel \<Rightarrow> 'k jit_state \<Rightarrow> 'k jit_state" where
  "jit_release_all K s =
     s\<lparr>kst := fold (\<lambda>a k. ReleaseDirectMemory K (phys a) (asize a) (Munmap K (base a) (asize a) k))
              (s_arena s) (kst s),
       s_arena := []\<rparr>"

section \<open>Promotion\<close>

fun jit_covering :: "nat \<Rightarrow> nat \<Rightarrow> jit_promoted list \<Rightarrow> bool option" where
  "jit_covering b e [] = None"
| "jit_covering b e (p # ps) =
     (if b \<ge> pbase p \<and> e \<le> pend p then Some (pok p) else jit_covering b e ps)"

fun jit_overlap :: "nat \<Rightarrow> nat \<Rightarrow> jit_promoted list \<Rightarrow> nat option" where
  "jit_overlap b e [] = None"
| "jit_overlap b e (p # ps) =
     (if b < pend p \<and> e > pbase p then Some 0 else map_option Suc (jit_overlap b e ps))"

definition jit_widen :: "nat \<Rightarrow> nat \<Rightarrow> jit_promoted \<Rightarrow> jit_promoted" where
  "jit_widen b e p =
     p\<lparr>pbase := (if b < pbase p then b else pbase p), pend := (if e > pend p then e else pend p)\<rparr>"

definition jit_protect_record :: "nat \<Rightarrow> nat \<Rightarrow> bool \<Rightarrow> 'k jit_state \<Rightarrow> bool \<times> 'k jit_state" where
  "jit_protect_record b e ok s =
     (let s1 = jit_record ok s in
      (ok, if length (s_promoted s1) < JIT_MAX_PROMOTED
           then s1\<lparr>s_promoted := s_promoted s1 @ [\<lparr>pbase = b, pend = e, pok = ok\<rparr>]\<rparr>
           else report (No_promoted_slot b) s1))"

definition jit_protect :: "'k jit_kernel \<Rightarrow> nat \<Rightarrow> nat \<Rightarrow> 'k jit_state \<Rightarrow> bool \<times> 'k jit_state" where
  "jit_protect K addr len s =
     (let b = round_down64 addr JIT_GRANULE;
          e = round_up64 (add64 addr len) JIT_GRANULE
      in case jit_covering b e (s_promoted s) of
           Some ok \<Rightarrow> (ok, s)
         | None \<Rightarrow>
             let (rc, k) = Mprotect K b (sub64 e b) JIT_PROT_RWX (kst s);
                 s1 = s\<lparr>kst := k\<rparr>
             in if rc \<noteq> 0 then jit_protect_record b e False (report (No_execute rc (jit_err rc)) s1)
                else case jit_overlap b e (s_promoted s) of
                  Some i \<Rightarrow>
                    let p = s_promoted s ! i
                    in (pok p, s1\<lparr>s_promoted := (s_promoted s1)[i := jit_widen b e p]\<rparr>)
                | None \<Rightarrow>
                    let (say, s2) = jit_say K (s_first_stub s1) s1;
                        (ok, s3) = jit_verify K addr s2;
                        s4 = (if say \<or> \<not> ok then report (Promoted addr ok) s3 else s3)
                    in jit_protect_record b e ok s4)"

definition jit_state_query :: "'k jit_state \<Rightarrow> int" where
  "jit_state_query s = s_state s"

end
