(* ===== verification/Range_Pool.thy ===== *)
theory Range_Pool
  imports Prelude
begin

text \<open>
  The contract of an allocator that hands out address ranges from a set of free bytes. The
  executable-memory free lists of \<open>src/orbis_jit.c\<close> and the carve block lists of
  \<open>src/orbis_mmap.cpp\<close> both provide it. Clients use it through \<open>pool_run\<close>: any sequence of
  requests and returns, where only a block that is live can be returned.
\<close>

datatype pool_op = Take nat | Give nat nat

type_synonym live_blocks = "(nat \<times> nat) list"

fun pool_step ::
  "(nat \<Rightarrow> 's \<Rightarrow> (nat \<times> 's) option) \<Rightarrow> (nat \<Rightarrow> nat \<Rightarrow> 's \<Rightarrow> 's) \<Rightarrow> pool_op \<Rightarrow>
   's \<times> live_blocks \<Rightarrow> 's \<times> live_blocks" where
  "pool_step tk gv (Take len) (s, live) =
     (if len = 0 then (s, live)
      else case tk len s of None \<Rightarrow> (s, live) | Some (at, s') \<Rightarrow> (s', (at, len) # live))"
| "pool_step tk gv (Give at len) (s, live) =
     (if (at, len) \<in> set live then (gv at len s, remove1 (at, len) live) else (s, live))"

definition pool_run ::
  "(nat \<Rightarrow> 's \<Rightarrow> (nat \<times> 's) option) \<Rightarrow> (nat \<Rightarrow> nat \<Rightarrow> 's \<Rightarrow> 's) \<Rightarrow> pool_op list \<Rightarrow>
   's \<times> live_blocks \<Rightarrow> 's \<times> live_blocks" where
  "pool_run tk gv ops c = fold (pool_step tk gv) ops c"

abbreviation block :: "nat \<times> nat \<Rightarrow> nat set" where
  "block b \<equiv> {fst b..<fst b + snd b}"

definition disjoint_blocks :: "live_blocks \<Rightarrow> bool" where
  "disjoint_blocks live = sorted_wrt (\<lambda>p q. block p \<inter> block q = {}) live"

lemma disjoint_blocks_Nil [simp]: "disjoint_blocks []"
  by (simp add: disjoint_blocks_def)

lemma disjoint_blocks_Cons:
  "disjoint_blocks (b # bs) \<longleftrightarrow> (\<forall>q \<in> set bs. block b \<inter> block q = {}) \<and> disjoint_blocks bs"
  by (simp add: disjoint_blocks_def)

lemma disjoint_blocks_remove1:
  "disjoint_blocks bs \<Longrightarrow> b \<in> set bs \<Longrightarrow> q \<in> set (remove1 b bs) \<Longrightarrow> block q \<inter> block b = {}"
  by (induction bs) (auto simp: disjoint_blocks_Cons Int_commute split: if_splits)

lemma disjoint_blocks_remove1':
  "disjoint_blocks bs \<Longrightarrow> disjoint_blocks (remove1 b bs)"
  by (induction bs) (auto simp: disjoint_blocks_Cons dest: notin_set_remove1 set_remove1_subset [THEN subsetD])

locale range_pool =
  fixes inv :: "'s \<Rightarrow> bool"
    and free :: "'s \<Rightarrow> nat set"
    and tk :: "nat \<Rightarrow> 's \<Rightarrow> (nat \<times> 's) option"
    and gv :: "nat \<Rightarrow> nat \<Rightarrow> 's \<Rightarrow> 's"
    and fits :: "nat \<Rightarrow> nat \<Rightarrow> 's \<Rightarrow> bool"
  assumes take_law: "inv s \<Longrightarrow> 0 < len \<Longrightarrow> tk len s = Some (at, s') \<Longrightarrow>
      inv s' \<and> {at..<at + len} \<subseteq> free s \<and> free s' = free s - {at..<at + len} \<and> fits at len s'"
    and take_keeps: "inv s \<Longrightarrow> 0 < len \<Longrightarrow> tk len s = Some (at, s') \<Longrightarrow> 0 < m \<Longrightarrow>
      {b..<b + m} \<inter> free s = {} \<Longrightarrow> fits b m s \<Longrightarrow> fits b m s'"
    and give_law: "inv s \<Longrightarrow> 0 < len \<Longrightarrow> fits at len s \<Longrightarrow> {at..<at + len} \<inter> free s = {} \<Longrightarrow>
      inv (gv at len s) \<and> free (gv at len s) \<subseteq> free s \<union> {at..<at + len}"
    and give_keeps: "inv s \<Longrightarrow> 0 < len \<Longrightarrow> fits at len s \<Longrightarrow> 0 < m \<Longrightarrow> fits b m s \<Longrightarrow>
      {b..<b + m} \<inter> {at..<at + len} = {} \<Longrightarrow> {b..<b + m} \<inter> free s = {} \<Longrightarrow>
      fits b m (gv at len s)"
begin

definition consistent :: "'s \<times> live_blocks \<Rightarrow> bool" where
  "consistent c \<longleftrightarrow> inv (fst c) \<and> disjoint_blocks (snd c) \<and>
     (\<forall>b \<in> set (snd c). 0 < snd b \<and> block b \<inter> free (fst c) = {} \<and> fits (fst b) (snd b) (fst c))"

lemma consistent_take:
  assumes "consistent (s, live)" "0 < len" "tk len s = Some (at, s')"
  shows "consistent (s', (at, len) # live)"
proof -
  from assms(1) have i: "inv s" and d: "disjoint_blocks live"
    and l: "\<And>b. b \<in> set live \<Longrightarrow> 0 < snd b \<and> block b \<inter> free s = {} \<and> fits (fst b) (snd b) s"
    by (auto simp: consistent_def)
  note t = take_law [OF i assms(2,3)]
  have "fits (fst b) (snd b) s'" if "b \<in> set live" for b
    using take_keeps [OF i assms(2,3)] l [OF that] by blast
  moreover have "block (at, len) \<inter> block b = {}" "block b \<inter> free s' = {}" if "b \<in> set live" for b
    using l [OF that] t by fastforce+
  moreover have "{at..<at + len} \<inter> free s' = {}" using t by auto
  ultimately show ?thesis
    using t d l assms(2) by (auto simp: consistent_def disjoint_blocks_Cons)
qed

lemma consistent_give:
  assumes "consistent (s, live)" "(at, len) \<in> set live"
  shows "consistent (gv at len s, remove1 (at, len) live)"
proof -
  from assms have i: "inv s" and d: "disjoint_blocks live" and z: "0 < len" "fits at len s"
      "{at..<at + len} \<inter> free s = {}"
    and l: "\<And>b. b \<in> set live \<Longrightarrow> 0 < snd b \<and> block b \<inter> free s = {} \<and> fits (fst b) (snd b) s"
    by (force simp: consistent_def)+
  note g = give_law [OF i z]
  have "block b \<inter> {at..<at + len} = {}" "b \<in> set live" if "b \<in> set (remove1 (at, len) live)" for b
    using disjoint_blocks_remove1 [OF d assms(2) that] set_remove1_subset [of "(at, len)" live] that
    by auto
  then have "0 < snd b \<and> block b \<inter> free (gv at len s) = {} \<and> fits (fst b) (snd b) (gv at len s)"
    if "b \<in> set (remove1 (at, len) live)" for b
    using give_keeps [OF i z(1,2)] l [of b] g that by blast
  then show ?thesis
    using g disjoint_blocks_remove1' [OF d] by (simp add: consistent_def)
qed

lemma consistent_step: "consistent c \<Longrightarrow> consistent (pool_step tk gv op c)"
  by (cases op; cases c) (auto split: option.split intro: consistent_take consistent_give)

lemma consistent_run: "consistent c \<Longrightarrow> consistent (pool_run tk gv ops c)"
proof (induction ops arbitrary: c)
  case Nil then show ?case by (simp add: pool_run_def)
next
  case (Cons op ops)
  from Cons.IH [OF consistent_step [OF Cons.prems]] show ?case by (simp add: pool_run_def)
qed

lemma run_disjoint:
  assumes "inv s"
  shows "disjoint_blocks (snd (pool_run tk gv ops (s, []))) \<and>
    (\<forall>b \<in> set (snd (pool_run tk gv ops (s, []))).
       block b \<inter> free (fst (pool_run tk gv ops (s, []))) = {})"
  using consistent_run [of "(s, [])" ops] assms by (simp add: consistent_def)

end

end
