(* ===== verification/Jit_Facts.thy ===== *)
theory Jit_Facts
  imports Jit Range_Pool
begin

text \<open>
  The free list of \<open>src/orbis_jit.c\<close>: sorted, separated, non-empty spans inside the arena
  (\<open>spans_ok\<close>), read as a set of free bytes (\<open>free_bytes\<close>). Taking and giving are set
  difference and union on that set, the list is determined by the set, and so the pair
  provides the \<open>range_pool\<close> contract.
\<close>

section \<open>The free list as a set of bytes\<close>

definition free_bytes :: "jit_span list \<Rightarrow> nat set" where
  "free_bytes ss = (\<Union>(a, l) \<in> set ss. {a..<a + l})"

definition spans_ok :: "nat \<Rightarrow> nat \<Rightarrow> jit_span list \<Rightarrow> bool" where
  "spans_ok lo hi ss \<longleftrightarrow>
     sorted_wrt (\<lambda>p q. fst p + snd p < fst q) ss \<and>
     (\<forall>p \<in> set ss. lo \<le> fst p \<and> 0 < snd p \<and> fst p + snd p \<le> hi)"

lemma free_bytes_simps [simp]:
  "free_bytes [] = {}"
  "free_bytes ((a, l) # ss) = {a..<a + l} \<union> free_bytes ss"
  "free_bytes (xs @ ys) = free_bytes xs \<union> free_bytes ys"
  by (auto simp: free_bytes_def)

lemma free_bytesE: "x \<in> free_bytes ss \<Longrightarrow> \<exists>p \<in> set ss. fst p \<le> x \<and> x < fst p + snd p"
  by (force simp: free_bytes_def)

lemma free_bytesI: "p \<in> set ss \<Longrightarrow> fst p \<le> x \<Longrightarrow> x < fst p + snd p \<Longrightarrow> x \<in> free_bytes ss"
  by (force simp: free_bytes_def)

lemma spans_ok_Nil [simp]: "spans_ok lo hi []"
  by (simp add: spans_ok_def)

lemma spans_ok_Cons: "spans_ok lo hi (p # ss) \<longleftrightarrow>
    lo \<le> fst p \<and> 0 < snd p \<and> fst p + snd p \<le> hi \<and> spans_ok lo hi ss \<and>
    (\<forall>q \<in> set ss. fst p + snd p < fst q)"
  by (auto simp: spans_ok_def)

lemma spans_ok_append: "spans_ok lo hi (xs @ ys) \<longleftrightarrow>
    spans_ok lo hi xs \<and> spans_ok lo hi ys \<and> (\<forall>p \<in> set xs. \<forall>q \<in> set ys. fst p + snd p < fst q)"
  by (auto simp: spans_ok_def sorted_wrt_append)

lemma free_bytes_range: "spans_ok lo hi ss \<Longrightarrow> free_bytes ss \<subseteq> {lo..<hi}"
  by (auto simp: spans_ok_def dest!: free_bytesE)

lemma jit_take_None: "jit_take len ss = None \<longleftrightarrow> (\<forall>p \<in> set ss. snd p < len)"
  by (induction len ss rule: jit_take.induct) auto

lemma jit_take_starts:
  "jit_take len ss = Some (at, ss') \<Longrightarrow> q \<in> set ss' \<Longrightarrow> \<exists>p \<in> set ss. fst p \<le> fst q"
  by (induction len ss arbitrary: ss' rule: jit_take.induct) (auto split: if_splits)

lemma jit_take_Some:
  assumes "jit_take len ss = Some (at, ss')" "spans_ok lo hi ss" "0 < len"
  shows "spans_ok lo hi ss' \<and> {at..<at + len} \<subseteq> free_bytes ss \<and>
    free_bytes ss' = free_bytes ss - {at..<at + len} \<and> length ss' \<le> length ss"
  using assms
proof (induction len ss arbitrary: ss' rule: jit_take.induct)
  case (2 len a l ss)
  have hd: "\<forall>q \<in> set ss. a + l < fst q" using 2(3) by (simp add: spans_ok_Cons)
  then have dis: "x \<notin> free_bytes ss" if "x < a + l" for x
    using that by (auto dest!: free_bytesE)
  show ?case
  proof (cases "l < len")
    case True
    with 2(2) obtain ss1 where t: "jit_take len ss = Some (at, ss1)" "ss' = (a, l) # ss1" by auto
    with 2(1) [OF True] 2(3,4) have IH: "spans_ok lo hi ss1" "{at..<at + len} \<subseteq> free_bytes ss"
      "free_bytes ss1 = free_bytes ss - {at..<at + len}" "length ss1 \<le> length ss"
      by (simp_all add: spans_ok_Cons)
    moreover have "\<forall>q \<in> set ss1. a + l < fst q"
      using jit_take_starts [OF t(1)] hd by fastforce
    moreover have "{a..<a + l} \<inter> {at..<at + len} = {}"
      using IH(2) dis by fastforce
    ultimately show ?thesis using 2(3) t(2) by (auto simp: spans_ok_Cons)
  next
    case False
    with 2(2-4) hd dis show ?thesis
      by (auto simp: spans_ok_Cons split: if_splits)
  qed
qed simp

section \<open>Giving a block back\<close>

lemma merge_next_at:
  "jit_merge_next (length pre) (pre @ (a, l) # post) =
    (case post of (b, m) # ps \<Rightarrow> if a + l = b then pre @ (a, l + m) # ps else pre @ (a, l) # post
     | [] \<Rightarrow> pre @ (a, l) # post)"
  by (auto simp: jit_merge_next_def nth_append split: list.split)

lemma merge_prev_at:
  "jit_merge_prev (length pre) (pre @ (a, l) # post) =
    (if pre \<noteq> [] \<and> fst (last pre) + snd (last pre) = a
     then butlast pre @ (fst (last pre), snd (last pre) + l) # post else pre @ (a, l) # post)"
  by (cases pre rule: rev_cases) (auto simp: jit_merge_prev_def nth_append)

text \<open>
  What is around a block that is free of its arena's free list: the spans before it end at or
  before its start, the spans after it start at or after its end.
\<close>

lemma give_split:
  assumes ok: "spans_ok lo hi ss" and len: "0 < len" and dis: "{at..<at + len} \<inter> free_bytes ss = {}"
  defines "pre \<equiv> takeWhile (\<lambda>sp. fst sp < at) ss" and "post \<equiv> dropWhile (\<lambda>sp. fst sp < at) ss"
  shows "p \<in> set pre \<Longrightarrow> fst p + snd p \<le> at" and "q \<in> set post \<Longrightarrow> at + len \<le> fst q"
proof -
  have apart: "fst p + snd p \<le> at \<or> at + len \<le> fst p" if "p \<in> set ss" for p
  proof (rule ccontr)
    assume c: "\<not> ?thesis"
    define x where "x = max at (fst p)"
    have "0 < snd p" using ok that by (auto simp: spans_ok_def)
    then have "x \<in> {at..<at + len}" "fst p \<le> x" "x < fst p + snd p" using c len by (auto simp: x_def)
    then show False using free_bytesI [OF that] dis by blast
  qed
  show "fst p + snd p \<le> at" if "p \<in> set pre"
    using that apart [of p] len set_takeWhileD [of p "\<lambda>sp. fst sp < at" ss] by (auto simp: pre_def)
  show "at + len \<le> fst q" if q: "q \<in> set post"
  proof -
    obtain r rs where post: "post = r # rs" using q by (cases post) auto
    have "\<not> fst r < at" using post dropWhile_eq_Cons_conv [of "\<lambda>sp. fst sp < at" ss r rs] by (simp add: post_def)
    moreover have "ss = pre @ post" by (simp add: pre_def post_def)
    then have "spans_ok lo hi post" using ok by (simp add: spans_ok_append)
    then have "q = r \<or> fst r + snd r < fst q" "0 < snd q"
      using q post by (auto simp: spans_ok_Cons) (auto simp: spans_ok_def)
    ultimately have "\<not> fst q < at" by auto
    moreover have "q \<in> set ss" using q \<open>ss = pre @ post\<close> by simp
    ultimately show ?thesis using apart [of q] \<open>0 < snd q\<close> by auto
  qed
qed

lemma jit_give_Some:
  assumes ok: "spans_ok lo hi ss" and len: "0 < len" "lo \<le> at" "at + len \<le> hi"
    and dis: "{at..<at + len} \<inter> free_bytes ss = {}" and room: "length ss < JIT_MAX_SPANS"
  shows "spans_ok lo hi (jit_give at len ss) \<and>
    free_bytes (jit_give at len ss) = free_bytes ss \<union> {at..<at + len} \<and>
    length (jit_give at len ss) \<le> Suc (length ss)"
proof -
  define pre where "pre = takeWhile (\<lambda>sp. fst sp < at) ss"
  define post where "post = dropWhile (\<lambda>sp. fst sp < at) ss"
  have ss: "ss = pre @ post" by (simp add: pre_def post_def)
  note sp = give_split [OF ok len(1) dis, folded pre_def post_def]
  have oks: "spans_ok lo hi pre" "spans_ok lo hi post" using ok unfolding ss spans_ok_append by auto
  define mid where "mid = jit_merge_next (length pre) (pre @ (at, len) # post)"
  have mid: "\<exists>l2 post2. mid = pre @ (at, l2) # post2 \<and> spans_ok lo hi ((at, l2) # post2) \<and>
      free_bytes ((at, l2) # post2) = free_bytes post \<union> {at..<at + len} \<and> length post2 \<le> length post \<and>
      (\<forall>p \<in> set pre. \<forall>q \<in> set post2. fst p + snd p < fst q)"
  proof (cases post)
    case Nil
    with len show ?thesis unfolding mid_def merge_next_at by (auto simp: spans_ok_Cons)
  next
    case (Cons r rs)
    obtain b m where r: "r = (b, m)" by (cases r)
    have b: "at + len \<le> b" using sp(2) [of r] Cons r by simp
    have gap: "\<forall>p \<in> set pre. \<forall>q \<in> set rs. fst p + snd p < fst q"
      using ok unfolding ss spans_ok_append Cons by auto
    show ?thesis
    proof (cases "at + len = b")
      case True
      then show ?thesis unfolding mid_def merge_next_at using oks(2) len gap
        by (intro exI [of _ "len + m"] exI [of _ rs]) (auto simp: Cons r spans_ok_Cons)
    next
      case False
      then show ?thesis unfolding mid_def merge_next_at using oks(2) len gap b sp ok ss
        by (intro exI [of _ len] exI [of _ post]) (auto simp: Cons r spans_ok_Cons spans_ok_append)
    qed
  qed
  then obtain l2 post2 where m: "mid = pre @ (at, l2) # post2" "spans_ok lo hi ((at, l2) # post2)"
    "free_bytes ((at, l2) # post2) = free_bytes post \<union> {at..<at + len}" "length post2 \<le> length post"
    "\<forall>p \<in> set pre. \<forall>q \<in> set post2. fst p + snd p < fst q" by blast
  have give: "jit_give at len ss = jit_merge_prev (length pre) mid"
  proof -
    have i: "length (takeWhile (\<lambda>sp. fst sp < at) ss) = length pre" by (simp add: pre_def)
    have "take (length pre) ss = pre" "drop (length pre) ss = post" by (simp_all add: ss)
    then show ?thesis using room unfolding jit_give_def i mid_def by (simp add: Let_def)
  qed
  show ?thesis
  proof (cases "pre \<noteq> [] \<and> fst (last pre) + snd (last pre) = at")
    case False
    then have g: "jit_give at len ss = mid" unfolding give m(1) merge_prev_at by auto
    have "fst p + snd p < at" if "p \<in> set pre" for p
    proof -
      obtain ys y where y: "pre = ys @ [y]" using \<open>p \<in> set pre\<close> by (cases pre rule: rev_cases) auto
      then have "fst y + snd y < at" using False sp(1) [of y] by (auto simp: le_less)
      moreover have "p = y \<or> fst p + snd p < fst y" using that oks(1) y by (auto simp: spans_ok_append)
      ultimately show ?thesis by auto
    qed
    then show ?thesis unfolding g m(1) using m oks(1) ss
      by (auto simp: spans_ok_append spans_ok_Cons)
  next
    case True
    then obtain qs a l where pre: "pre = qs @ [(a, l)]" by (cases pre rule: rev_cases) auto
    then have g: "jit_give at len ss = qs @ (a, l + l2) # post2" and al: "a + l = at"
      using True unfolding give m(1) merge_prev_at by auto
    have "free_bytes (qs @ (a, l + l2) # post2) = free_bytes pre \<union> free_bytes ((at, l2) # post2)"
      using al by (auto simp: pre)
    then have "free_bytes (qs @ (a, l + l2) # post2) = free_bytes ss \<union> {at..<at + len}"
      unfolding m(3) ss by auto
    moreover have "spans_ok lo hi (qs @ (a, l + l2) # post2)"
      using m(2,5) oks(1) al by (auto simp: pre spans_ok_append spans_ok_Cons)
    ultimately show ?thesis unfolding g using m(4) ss pre by simp
  qed
qed

section \<open>The list is determined by its bytes\<close>

lemma spans_ok_Cons_least:
  assumes "spans_ok lo hi ((a, l) # ss)"
  shows "a \<in> free_bytes ((a, l) # ss)" "x \<in> free_bytes ((a, l) # ss) \<Longrightarrow> a \<le> x"
    "a + l \<notin> free_bytes ((a, l) # ss)" "a \<le> x \<Longrightarrow> x < a + l \<Longrightarrow> x \<notin> free_bytes ss"
  using assms by (auto simp: spans_ok_Cons dest!: free_bytesE)

lemma spans_ok_head_eq:
  assumes "spans_ok lo hi ((a, l) # ss)" "spans_ok lo hi ((b, m) # ts)"
    and eq: "free_bytes ((a, l) # ss) = free_bytes ((b, m) # ts)"
  shows "a = b \<and> l = m"
proof -
  note A = spans_ok_Cons_least [OF assms(1)] and B = spans_ok_Cons_least [OF assms(2)]
  have ab: "a = b" using A(1) B(1) A(2) [of b] B(2) [of a] unfolding eq by (metis antisym)
  have "\<not> l < m" using A(3) eq ab by auto
  moreover have "\<not> m < l" using B(3) eq ab by auto
  ultimately show ?thesis using ab by simp
qed

lemma spans_ok_unique:
  assumes "spans_ok lo hi xs" "spans_ok lo hi ys" "free_bytes xs = free_bytes ys"
  shows "xs = ys"
  using assms
proof (induction xs arbitrary: ys)
  case Nil
  then show ?case by (cases ys) (auto simp: spans_ok_Cons)
next
  case (Cons p xs)
  obtain a l where p: "p = (a, l)" by (cases p)
  obtain q zs where ys: "ys = q # zs" using Cons.prems p by (cases ys) (auto simp: spans_ok_Cons)
  obtain b m where q: "q = (b, m)" by (cases q)
  have eq: "a = b" "l = m"
    using spans_ok_head_eq [of lo hi a l xs b m zs] Cons.prems p ys q by auto
  have "{a..<a + l} \<inter> free_bytes xs = {}" "{a..<a + l} \<inter> free_bytes zs = {}"
    using spans_ok_Cons_least(4) [of lo hi a l xs] spans_ok_Cons_least(4) [of lo hi a l zs]
      Cons.prems p ys q eq by auto
  then have "free_bytes xs = free_bytes zs" using Cons.prems(3) p ys q eq by auto
  then show ?case using Cons.IH [of zs] Cons.prems p ys q eq by (simp add: spans_ok_Cons)
qed

interpretation jit_pool: range_pool "spans_ok lo hi" free_bytes jit_take jit_give
  "\<lambda>at len ss. lo \<le> at \<and> at + len \<le> hi" for lo hi
proof (unfold_locales, goal_cases)
  case (1 s len at s')
  note t = jit_take_Some [OF 1(3,1,2)]
  have "{at..<at + len} \<subseteq> {lo..<hi}" using t free_bytes_range [OF 1(1)] by blast
  then have "lo \<le> at \<and> at + len \<le> hi" using 1(2) by (simp add: ivl_subset)
  then show ?case using t by blast
next
  case (3 s len at)
  show ?case
  proof (cases "length s < JIT_MAX_SPANS")
    case True
    then show ?thesis using jit_give_Some [OF 3(1,2) _ _ 3(4)] 3(3) by auto
  next
    case False
    then have "jit_give at len s = s" by (simp add: jit_give_def Let_def)
    then show ?thesis using 3(1) by auto
  qed
qed auto

end
