(* ===== verification/Jit_Arenas.thy ===== *)
theory Jit_Arenas
  imports Jit_Search
begin

text \<open>
  The arena table of \<open>src/orbis_jit.c\<close>: disjoint arenas, each shared one with a well-formed
  free list (\<open>arenas_ok\<close>). Allocation keeps it, and freeing a block that was handed out puts
  exactly that block back into the arena it came from.
\<close>

abbreviation arena_range :: "jit_arena \<Rightarrow> nat set" where
  "arena_range a \<equiv> {base a..<base a + asize a}"

definition arena_ok :: "jit_arena \<Rightarrow> bool" where
  "arena_ok a \<longleftrightarrow> 0 < base a \<and> base a + asize a < 2 ^ 64 \<and>
     (dedicated a \<or> (spans_ok (base a) (base a + asize a) (spans a) \<and> length (spans a) \<le> JIT_MAX_SPANS))"

definition arenas_ok :: "jit_arena list \<Rightarrow> bool" where
  "arenas_ok as \<longleftrightarrow> (\<forall>a \<in> set as. arena_ok a) \<and>
     sorted_wrt (\<lambda>a b. arena_range a \<inter> arena_range b = {}) as"

lemma arenas_ok_disjoint:
  "arenas_ok as \<Longrightarrow> i < length as \<Longrightarrow> j < length as \<Longrightarrow> i \<noteq> j \<Longrightarrow>
   arena_range (as ! i) \<inter> arena_range (as ! j) = {}"
proof -
  assume a: "arenas_ok as" "i < length as" "j < length as" "i \<noteq> j"
  then have lt: "i' < j' \<Longrightarrow> j' < length as \<Longrightarrow> arena_range (as ! i') \<inter> arena_range (as ! j') = {}" for i' j'
    by (simp only: arenas_ok_def sorted_wrt_iff_nth_less)
  show ?thesis
    using lt [of i j] lt [of j i] a(2-4) by (cases "i < j") (simp_all only: Int_commute linorder_neq_iff simp_thms)
qed

lemma arenas_ok_update:
  assumes "arenas_ok as" "i < length as" "base a = base (as ! i)" "asize a = asize (as ! i)" "arena_ok a"
  shows "arenas_ok (as[i := a])"
proof -
  have "sorted_wrt (\<lambda>a b. arena_range a \<inter> arena_range b = {}) (as[i := a])"
    unfolding sorted_wrt_iff_nth_less
    using assms arenas_ok_disjoint [OF assms(1)] by (auto simp: nth_list_update)
  moreover have "\<forall>x \<in> set (as[i := a]). arena_ok x"
    using assms set_update_subset_insert [of as i a] by (auto simp: arenas_ok_def)
  ultimately show ?thesis by (simp add: arenas_ok_def)
qed

lemma jit_alloc_scan_Some:
  "jit_alloc_scan K near len as = Some (at, as') \<Longrightarrow>
   \<exists>i ss. i < length as \<and> \<not> dedicated (as ! i) \<and>
     (near \<longrightarrow> jit_near_module K (base (as ! i)) (asize (as ! i))) \<and>
     jit_take len (spans (as ! i)) = Some (at, ss) \<and> as' = as[i := (as ! i)\<lparr>spans := ss\<rparr>]"
proof (induction K near len as arbitrary: as' rule: jit_alloc_scan.induct)
  case (2 K near len a as)
  have rec: ?case if t: "jit_alloc_scan K near len as = Some (at, as1)" "as' = a # as1"
    and IH: "\<exists>i ss. i < length as \<and> \<not> dedicated (as ! i) \<and>
     (near \<longrightarrow> jit_near_module K (base (as ! i)) (asize (as ! i))) \<and>
     jit_take len (spans (as ! i)) = Some (at, ss) \<and> as1 = as[i := (as ! i)\<lparr>spans := ss\<rparr>]" for as1
  proof -
    from IH obtain i ss where "i < length as" "\<not> dedicated (as ! i)"
      "near \<longrightarrow> jit_near_module K (base (as ! i)) (asize (as ! i))"
      "jit_take len (spans (as ! i)) = Some (at, ss)" "as1 = as[i := (as ! i)\<lparr>spans := ss\<rparr>]" by blast
    then show ?case using t(2) by (intro exI [of _ "Suc i"] exI [of _ ss]) auto
  qed
  show ?case
  proof (cases "dedicated a \<or> (near \<and> \<not> jit_near_module K (base a) (asize a))")
    case True
    then obtain as1 where t: "jit_alloc_scan K near len as = Some (at, as1)" "as' = a # as1"
      using 2(3) by auto
    show ?thesis by (rule rec [OF t 2(1) [OF True t(1)]])
  next
    case False
    show ?thesis
    proof (cases "jit_take len (spans a)")
      case None
      then obtain as1 where t: "jit_alloc_scan K near len as = Some (at, as1)" "as' = a # as1"
        using 2(3) False by auto
      show ?thesis by (rule rec [OF t 2(2) [OF False None t(1)]])
    next
      case (Some r)
      then show ?thesis using 2(3) False
        by (intro exI [of _ 0] exI [of _ "snd r"]) (auto split: prod.splits)
    qed
  qed
qed simp

lemma jit_owner_eq:
  assumes "arenas_ok as" "i < length as" "x \<in> arena_range (as ! i)"
  shows "jit_owner x as = Some i"
  using assms
proof (induction as arbitrary: i)
  case (Cons a as)
  show ?case
  proof (cases i)
    case 0 then show ?thesis using Cons.prems by auto
  next
    case (Suc j)
    have "x \<notin> arena_range a"
      using arenas_ok_disjoint [OF Cons.prems(1), of 0 i] Cons.prems Suc by auto
    moreover have "arenas_ok as" using Cons.prems(1) by (simp add: arenas_ok_def)
    ultimately show ?thesis using Cons.IH [of j] Cons.prems Suc by auto
  qed
qed simp

text \<open>The length \<open>orbis_jit_alloc\<close> asks for, away from the top of \<open>size_t\<close>.\<close>

lemma jit_alloc_len_small:
  assumes "sz + 2 * JIT_ALIGN \<le> 2 ^ 64"
  shows "sz + JIT_ALIGN \<le> jit_alloc_len sz" "JIT_ALIGN dvd jit_alloc_len sz"
    "2 * JIT_ALIGN \<le> jit_alloc_len sz" "jit_alloc_len sz < 2 ^ 64"
proof -
  define n where "n = (if sz = 0 then 1 else sz)"
  define r where "r = (n + 63) div 64 * 64"
  have n: "0 < n" "sz \<le> n" "n + 128 \<le> 2 ^ 64" using assms by (auto simp: n_def jit_consts)
  have up: "n \<le> r" "r \<le> n + 63" unfolding r_def using round_up_ge [of 64 n] by simp_all
  have "64 dvd r" by (simp add: r_def)
  then have r64: "64 \<le> r" using up n by (auto intro: dvd_imp_le)
  have "r + 64 < 2 ^ 64 + 64" using up n by simp
  have "r + 64 \<le> 2 ^ 64 - 64 + 63" using up n by simp
  have jr: "jit_round n JIT_ALIGN = r"
    using n by (simp add: jit_round_def JIT_ALIGN_def r_def round_up64_small)
  have lt: "r + 64 < 2 ^ 64"
  proof -
    have "r \<le> 2 ^ 64 - 128"
    proof (rule ccontr)
      assume c: "\<not> r \<le> 2 ^ 64 - 128"
      obtain k where k: "r = 64 * k" using \<open>64 dvd r\<close> by blast
      show False using up(2) n(3) c k by simp
    qed
    then show ?thesis by simp
  qed
  have l: "jit_alloc_len sz = r + 64"
    unfolding jit_alloc_len_def n_def [symmetric] jr using lt by (simp add: JIT_ALIGN_def add64_small)
  show "sz + JIT_ALIGN \<le> jit_alloc_len sz" "JIT_ALIGN dvd jit_alloc_len sz"
    "2 * JIT_ALIGN \<le> jit_alloc_len sz" "jit_alloc_len sz < 2 ^ 64"
    using up n r64 lt \<open>64 dvd r\<close> by (simp_all add: l JIT_ALIGN_def)
qed

section \<open>Allocation\<close>

text \<open>
  What \<open>orbis_jit_alloc\<close> does on success, whichever arena serves the request: a block of
  \<open>len\<close> free bytes leaves the free list of one shared arena, and the header in front of the
  returned pointer holds \<open>len\<close>.
\<close>

definition handed_out :: "jit_arena list \<Rightarrow> memory \<Rightarrow> nat \<Rightarrow> nat \<Rightarrow> nat \<Rightarrow> bool" where
  "handed_out as m i blk len \<longleftrightarrow>
     i < length as \<and> \<not> dedicated (as ! i) \<and> {blk..<blk + len} \<subseteq> arena_range (as ! i) \<and>
     {blk..<blk + len} \<inter> free_bytes (spans (as ! i)) = {} \<and> le_value (mem_read blk 8 m) = len"

lemma take_keeps_arena:
  assumes ok: "arenas_ok as" and i: "i < length as" "\<not> dedicated (as ! i)"
    and t: "jit_take len (spans (as ! i)) = Some (at, ss)" and len: "0 < len" "len < 2 ^ 64"
  defines "as' \<equiv> as[i := (as ! i)\<lparr>spans := ss\<rparr>]"
  shows "arenas_ok as'" and "handed_out as' (mem_write at (le_bytes 8 len) m) i at len"
    and "0 < at"
proof -
  have a: "arena_ok (as ! i)" using ok i by (simp add: arenas_ok_def)
  then have sp: "spans_ok (base (as ! i)) (base (as ! i) + asize (as ! i)) (spans (as ! i))"
    using i by (simp add: arena_ok_def)
  note s = jit_take_Some [OF t sp len(1)]
  show "arenas_ok as'" unfolding as'_def
    by (rule arenas_ok_update [OF ok i(1)]) (use a i s in \<open>auto simp: arena_ok_def\<close>)
  have sub: "{at..<at + len} \<subseteq> arena_range (as ! i)" using s free_bytes_range [OF sp] by blast
  moreover have "le_value (mem_read at 8 (mem_write at (le_bytes 8 len) m)) = len"
    using len(2) by (simp add: mem_read_write_same le_value_bytes)
  ultimately show "handed_out as' (mem_write at (le_bytes 8 len) m) i at len"
    using i s by (auto simp: handed_out_def as'_def)
  have "base (as ! i) \<le> at" using sub len(1) by (simp add: ivl_subset)
  then show "0 < at" using a by (simp add: arena_ok_def)
qed

section \<open>Freeing\<close>

text \<open>With no slot left the block is dropped, and nothing else changes.\<close>

lemma jit_free_shared:
  assumes ok: "arenas_ok (s_arena s)" and h: "handed_out (s_arena s) (mem s) i blk len"
    and len: "2 * JIT_ALIGN \<le> len" "JIT_ALIGN dvd len"
  shows "jit_free K (blk + JIT_ALIGN) s =
    (if length (spans (s_arena s ! i)) \<ge> JIT_MAX_SPANS then report (No_span_slot blk) s
     else s\<lparr>s_arena := (s_arena s)[i := (s_arena s ! i)\<lparr>spans := jit_give blk len (spans (s_arena s ! i))\<rparr>]\<rparr>)"
proof -
  let ?a = "s_arena s ! i"
  have i: "i < length (s_arena s)" "\<not> dedicated ?a" and hdr: "le_value (mem_read blk 8 (mem s)) = len"
    and sub: "{blk..<blk + len} \<subseteq> arena_range ?a" using h by (auto simp: handed_out_def)
  have a: "arena_ok ?a" using ok i by (simp add: arenas_ok_def)
  have in_a: "base ?a \<le> blk" "blk + len \<le> base ?a + asize ?a" "base ?a + asize ?a < 2 ^ 64"
    using sub a len(1) by (auto simp: ivl_subset arena_ok_def JIT_ALIGN_def)
  have "blk + JIT_ALIGN \<in> arena_range ?a" using in_a len(1) by (auto simp: JIT_ALIGN_def)
  then have own: "jit_owner (blk + JIT_ALIGN) (s_arena s) = Some i" by (rule jit_owner_eq [OF ok i(1)])
  have "sub64 (blk + JIT_ALIGN) JIT_ALIGN = blk"
    using in_a len(1) by (subst sub64_small) (auto simp: JIT_ALIGN_def)
  moreover have "jit_header_ok ?a blk len"
    using in_a len by (auto simp: jit_header_ok_def add64_small)
  ultimately show ?thesis
    using own i hdr by (simp add: jit_free_def Let_def JIT_ALIGN_def)
qed

lemma jit_free_handed_out:
  assumes "arenas_ok (s_arena s)" "handed_out (s_arena s) (mem s) i blk len" "2 * JIT_ALIGN \<le> len" "JIT_ALIGN dvd len"
    and "length (spans (s_arena s ! i)) < JIT_MAX_SPANS"
  shows "jit_free K (blk + JIT_ALIGN) s =
    s\<lparr>s_arena := (s_arena s)[i := (s_arena s ! i)\<lparr>spans := jit_give blk len (spans (s_arena s ! i))\<rparr>]\<rparr>"
  using assms(5) by (simp add: jit_free_shared [OF assms(1-4)])

lemma take_give_same:
  assumes "spans_ok lo hi ss" "0 < len" "jit_take len ss = Some (at, ss')" "length ss' < JIT_MAX_SPANS"
  shows "jit_give at len ss' = ss"
proof (rule spans_ok_unique)
  note t = jit_take_Some [OF assms(3,1,2)]
  have r: "lo \<le> at" "at + len \<le> hi"
    using subset_trans [OF conjunct1 [OF conjunct2 [OF t]] free_bytes_range [OF assms(1)]] assms(2)
    by (auto simp: ivl_subset)
  have d: "{at..<at + len} \<inter> free_bytes ss' = {}" using t by auto
  note g = jit_give_Some [OF conjunct1 [OF t] assms(2) r d assms(4)]
  show "spans_ok lo hi (jit_give at len ss')" using g by blast
  show "spans_ok lo hi ss" by (rule assms(1))
  show "free_bytes (jit_give at len ss') = free_bytes ss" using g t by blast
qed


section \<open>Taking a new arena\<close>

lemma report_simps [simp]:
  "s_arena (report r s) = s_arena s" "mem (report r s) = mem s" "kst (report r s) = kst s"
  by (simp_all add: report_def)

lemma record_simps [simp]:
  "s_arena (jit_record ok s) = s_arena s" "mem (jit_record ok s) = mem s" "kst (jit_record ok s) = kst s"
  by (simp_all add: jit_record_def)

lemma say_keeps: "jit_say K c s = (say, s') \<Longrightarrow> s_arena s' = s_arena s \<and> mem s' = mem s \<and> kst s' = kst s"
  by (auto simp: jit_say_def jit_should_log_def Let_def split: if_splits)

lemma s_arena_verify: "jit_verify K at s = (ok, s') \<Longrightarrow> s_arena s' = s_arena s"
  by (auto simp: jit_verify_def Let_def dest!: say_keeps split: if_splits prod.splits)

lemma jit_map_Some:
  assumes "jit_map K at len s = (Some (b, n, ph), s')"
  shows "s_arena s' = s_arena s \<and> n = len \<and> 0 < b \<and> (at = None \<or> at = Some b) \<and>
    (\<exists>x prot fl k k'. MapNamedDirectMemory K x len prot fl ph k = (0, b, k'))"
  using assms unfolding jit_map_def Let_def
  by (auto split: prod.splits if_splits dest!: s_arena_verify) blast+

lemma jit_grow_commit_shape:
  assumes "jit_grow_commit K at len s = (Some i, s')"
  shows "\<exists>b ph s1. jit_map K at len s = (Some (b, len, ph), s1) \<and> 0 < b \<and> (at = None \<or> at = Some b) \<and>
    i = length (s_arena s) \<and> mem s' = mem s1 \<and> kst s' = kst s1 \<and>
    s_arena s' = s_arena s @ [\<lparr>base = b, asize = len, phys = ph, dedicated = False, spans = [(b, len)]\<rparr>]"
proof -
  obtain b n ph s1 where m: "jit_map K at len s = (Some (b, n, ph), s1)"
    using assms(1) by (auto simp: jit_grow_commit_def split: prod.splits option.splits)
  note f = jit_map_Some [OF m]
  show ?thesis
    using assms(1) m f by (auto simp: jit_grow_commit_def Let_def dest!: say_keeps split: prod.splits if_splits)
qed

lemma grown_arenas_ok:
  assumes "arenas_ok as" "0 < b" "0 < len" "b + len < 2 ^ 64" "\<forall>a \<in> set as. arena_range a \<inter> {b..<b + len} = {}"
  shows "arenas_ok (as @ [\<lparr>base = b, asize = len, phys = ph, dedicated = d, spans = (if d then [] else [(b, len)])\<rparr>])"
  using assms by (auto simp: arenas_ok_def sorted_wrt_append arena_ok_def spans_ok_Cons jit_consts)

lemma jit_arena_size_ge:
  assumes "atleast < 2 ^ 63"
  shows "atleast \<le> jit_arena_size K atleast" "0 < jit_arena_size K atleast" "JIT_GRANULE dvd jit_arena_size K atleast"
proof -
  obtain mb :: nat where mb: "mb \<le> 512" "0 < mb"
    and eq: "jit_arena_size K atleast = jit_round (if atleast > mb * 1024 * 1024 then atleast else mb * 1024 * 1024) JIT_GRANULE"
  proof -
    have "\<exists>mb. mb \<le> 512 \<and> 0 < mb \<and>
      jit_arena_size K atleast = jit_round (if atleast > mb * 1024 * 1024 then atleast else mb * 1024 * 1024) JIT_GRANULE"
      unfolding jit_arena_size_def Let_def by (rule exI, intro conjI, rule_tac [3] refl) (auto split: option.split)
    with that show thesis by blast
  qed
  define w where "w = (if atleast > mb * 1024 * 1024 then atleast else mb * 1024 * 1024)"
  have w: "atleast \<le> w" "0 < w" "w < 2 ^ 63 + 1" using mb assms by (auto simp: w_def)
  then have r: "jit_arena_size K atleast = (w + (JIT_GRANULE - 1)) div JIT_GRANULE * JIT_GRANULE"
    unfolding eq w_def [symmetric] jit_round_def by (intro round_up64_small) (simp add: jit_consts)
  show "atleast \<le> jit_arena_size K atleast" "0 < jit_arena_size K atleast" "JIT_GRANULE dvd jit_arena_size K atleast"
    unfolding r using w less_le_trans [OF w(2) round_up_ge [of JIT_GRANULE w]] round_up_ge [of JIT_GRANULE w]
    by (simp_all only: granule_pos le_trans dvd_triv_right)
qed

end
