(* ===== verification/Jit_Props.thy ===== *)
theory Jit_Props
  imports Jit_Arenas
begin

text \<open>
  What the executable-memory allocator of \<open>src/orbis_jit.c\<close> guarantees.
\<close>

text \<open>A kernel for the concrete instances: it grants requests of up to 1 TiB, at 2 TiB if no address is asked for.\<close>

definition demo_kernel :: "unit jit_kernel" where
  "demo_kernel = \<lparr>
     AllocateDirectMemory = (\<lambda>len k. (0, 0, k)),
     MapNamedDirectMemory = (\<lambda>at len prot fl ph k. if len \<le> 2 ^ 40 \<and> (at = 0 \<or> 2 ^ 41 \<le> at \<and> at < 2 ^ 42) then (0, if at = 0 then 2 ^ 41 else at, k) else (12, 0, k)),
     Mprotect = (\<lambda>a len prot k. (0, k)),
     Munmap = (\<lambda>a len k. k),
     ReleaseDirectMemory = (\<lambda>ph len k. k),
     VirtualQuery = (\<lambda>k p. if p < 0x500000000 then Some 0x500000000 else None),
     call_stub = (\<lambda>a k. (0xc0ffee, k)),
     env_get = (\<lambda>n. None),
     anchor = 0x400000000\<rparr>"

definition demo_state :: "jit_arena list \<Rightarrow> unit jit_state" where
  "demo_state as = (jit_init (\<lambda>_. 0) ())\<lparr>s_arena := as\<rparr>"

definition demo_arena :: jit_arena where
  "demo_arena = \<lparr>base = 4096, asize = 4096, phys = 0, dedicated = False, spans = [(4096, 4096)]\<rparr>"

lemmas demo_defs = demo_kernel_def demo_state_def demo_arena_def jit_init_def

lemma spans_separated:
  "spans_ok lo hi ss \<Longrightarrow> p \<in> set ss \<Longrightarrow> q \<in> set ss \<Longrightarrow>
   p = q \<or> fst p + snd p < fst q \<or> fst q + snd q < fst p"
  by (induction ss) (auto simp: spans_ok_Cons)

lemma jit_grow_shape:
  assumes "jit_grow K len near s = Some (Some i, s1)"
  shows "\<exists>at. jit_grow_commit K at (jit_arena_size K len) s = (Some i, s1) \<and>
    (if near then \<exists>a. at = Some a \<and> jit_search_near K (jit_arena_size K len) s = Some (Some a) else at = None)"
  using assms by (auto simp: jit_grow_def Let_def bind_eq_Some_conv split: if_splits option.splits)

lemma find_free_spec:
  assumes "query_ok q" "hi \<le> limit64" "lo \<le> limit64" "0 < len" "JIT_GRANULE dvd len"
  shows "\<exists>r. jit_find_free q lo hi len = Some r \<and>
    (case r of
       Some x \<Rightarrow> lo \<le> x \<and> x + len \<le> hi \<and> free_run q x len
     | None \<Rightarrow> \<forall>x \<ge> lo. x + len \<le> hi \<longrightarrow> \<not> free_run q x len)"
proof -
  define p where "p = round_up64 lo JIT_GRANULE"
  note r = limit64_round [OF assms(3), folded p_def]
  obtain r where r1: "jit_find_free q lo hi len = Some r" and r2: "(case r of
       Some x \<Rightarrow> p \<le> x \<and> x + len \<le> hi \<and> free_run q x len
     | None \<Rightarrow> \<forall>x \<ge> p. x + len \<le> hi \<longrightarrow> \<not> free_run q x len)"
    using find_free_loop [OF assms(1,2,4,5), of p p] r assms(4)
    unfolding jit_find_free_def p_def [symmetric] by (auto simp: p_def round_up64_dvd)
  have "p \<le> x" if "lo \<le> x" "free_run q x len" for x
    using that r(3) [of x] by (fastforce simp: free_run_def)
  then show ?thesis using r(1) r1 r2 by (cases r) auto
qed

text \<open>
  What the near-text search relies on: the module is away from both ends of the address space
  and the query behaves as \<open>query_ok\<close> says.
\<close>

definition near_search_ok :: "'k jit_kernel \<Rightarrow> 'k jit_state \<Rightarrow> bool" where
  "near_search_ok K s \<longleftrightarrow> query_ok (VirtualQuery K (kst s)) \<and> JIT_REACH \<le> anchor K \<and>
     anchor K + JIT_REACH \<le> limit64"

lemma near_module_iff:
  assumes "JIT_MODULE_SPAN \<le> anchor K" "anchor K + JIT_MODULE_SPAN < 2 ^ 64" "b + n < 2 ^ 64"
  shows "jit_near_module K b n \<longleftrightarrow>
    max (anchor K + JIT_MODULE_SPAN) (b + n) - min (anchor K - JIT_MODULE_SPAN) b < JIT_REACH"
proof -
  define lo hi where "lo = anchor K - JIT_MODULE_SPAN" and "hi = anchor K + JIT_MODULE_SPAN"
  have e: "sub64 (anchor K) JIT_MODULE_SPAN = lo" "add64 lo (2 * JIT_MODULE_SPAN) = hi" "add64 b n = b + n"
    using assms by (simp_all add: lo_def hi_def sub64_small add64_small)
  have le: "min lo b \<le> max hi (b + n)" "max hi (b + n) < 2 ^ 64"
    using assms by (auto simp: lo_def hi_def)
  show ?thesis
    unfolding jit_near_module_def jit_reachable_def Let_def e lo_def [symmetric] hi_def [symmetric]
    using sub64_small [OF le] by (simp add: min_def max_def not_le split: if_splits) (auto simp: not_less le_less)
qed

lemma search_near_reach:
  assumes "near_search_ok K s" "jit_search_near K len s = Some (Some a)" "0 < len" "JIT_GRANULE dvd len"
  shows "jit_near_module K a len"
proof -
  have q: "query_ok (VirtualQuery K (kst s))" and an: "JIT_REACH \<le> anchor K" "anchor K + JIT_REACH \<le> limit64"
    using assms(1) by (auto simp: near_search_ok_def)
  have c: "JIT_WINDOW = JIT_REACH - 2 * JIT_MODULE_SPAN" "JIT_MODULE_SPAN = 0x10000000" "JIT_REACH = 0x80000000"
    "limit64 < 2 ^ 64"
    by (simp_all add: jit_consts limit64_def)
  have e: "add64 (anchor K) JIT_MODULE_SPAN = anchor K + JIT_MODULE_SPAN" "add64 (anchor K) JIT_WINDOW = anchor K + JIT_WINDOW"
    "sub64 (anchor K) JIT_WINDOW = anchor K - JIT_WINDOW" "sub64 (anchor K) JIT_MODULE_SPAN = anchor K - JIT_MODULE_SPAN"
    using an c by (simp_all add: add64_small sub64_small)
  have up: "\<exists>r. jit_find_free (VirtualQuery K (kst s)) lo hi len = Some r \<and>
      (case r of Some x \<Rightarrow> lo \<le> x \<and> x + len \<le> hi \<and> free_run (VirtualQuery K (kst s)) x len
       | None \<Rightarrow> \<forall>x \<ge> lo. x + len \<le> hi \<longrightarrow> \<not> free_run (VirtualQuery K (kst s)) x len)"
    if "lo \<le> limit64" "hi \<le> limit64" for lo hi
    by (rule find_free_spec [OF q that(2,1) assms(3,4)])
  have "(anchor K + JIT_MODULE_SPAN \<le> a \<and> a + len \<le> anchor K + JIT_WINDOW) \<or>
    (anchor K - JIT_WINDOW \<le> a \<and> a + len \<le> anchor K - JIT_MODULE_SPAN)"
  proof -
    have l: "anchor K + JIT_MODULE_SPAN \<le> limit64" "anchor K + JIT_WINDOW \<le> limit64"
      "anchor K - JIT_WINDOW \<le> limit64" "anchor K - JIT_MODULE_SPAN \<le> limit64"
      using an c by linarith+
    obtain r1 where r1: "jit_find_free (VirtualQuery K (kst s)) (anchor K + JIT_MODULE_SPAN) (anchor K + JIT_WINDOW) len = Some r1"
      and p1: "case r1 of Some x \<Rightarrow> anchor K + JIT_MODULE_SPAN \<le> x \<and> x + len \<le> anchor K + JIT_WINDOW \<and>
         free_run (VirtualQuery K (kst s)) x len | None \<Rightarrow> True"
      using up [OF l(1,2)] by (auto split: option.splits)
    obtain r2 where r2: "jit_find_free (VirtualQuery K (kst s)) (anchor K - JIT_WINDOW) (anchor K - JIT_MODULE_SPAN) len = Some r2"
      and p2: "case r2 of Some x \<Rightarrow> anchor K - JIT_WINDOW \<le> x \<and> x + len \<le> anchor K - JIT_MODULE_SPAN \<and>
         free_run (VirtualQuery K (kst s)) x len | None \<Rightarrow> True"
      using up [OF l(3,4)] by (auto split: option.splits)
    show ?thesis
      using assms(2) r1 p1 r2 p2 unfolding jit_search_near_def e by (cases r1) auto
  qed
  then show ?thesis using an c assms(3) by (subst near_module_iff) auto
qed

lemma grow_near:
  assumes "jit_grow K len True s = Some (Some i, s1)" "near_search_ok K s" "len < 2 ^ 63"
  shows "jit_near_module K (base (s_arena s1 ! i)) (asize (s_arena s1 ! i))"
proof -
  note z = jit_arena_size_ge(2,3) [OF assms(3), of K]
  obtain a where c: "jit_search_near K (jit_arena_size K len) s = Some (Some a)"
    "jit_grow_commit K (Some a) (jit_arena_size K len) s = (Some i, s1)"
    using jit_grow_shape [OF assms(1)] by auto
  from jit_grow_commit_shape [OF c(2)] search_near_reach [OF assms(2) c(1) z]
  show ?thesis by auto
qed

text \<open>The length of a request of less than \<open>2 ^ 62\<close> bytes.\<close>

lemma alloc_len_bounds: "sz < 2 ^ 62 \<Longrightarrow> 0 < jit_alloc_len sz \<and> jit_alloc_len sz < 2 ^ 63"
  using jit_alloc_len_small(3) [of sz]
  by (auto simp: jit_alloc_len_def jit_round_def jit_consts round_up64_def add64_def w64_def)

text \<open>
  The two ways \<open>orbis_jit_alloc\<close> finds a block: in the table as it is, or in the arena it has just
  taken.
\<close>

lemma alloc_find_steps:
  assumes "jit_alloc_find K near len s = Some (r, s2)"
  shows "\<exists>s3. (s3 = s \<and> r \<noteq> None \<or> (\<exists>ri. jit_grow K len near s = Some (ri, s3) \<and> (ri = None \<longrightarrow> r = None))) \<and>
    (case r of None \<Rightarrow> s2 = s3
     | Some blk \<Rightarrow> \<exists>i ss. i < length (s_arena s3) \<and> \<not> dedicated (s_arena s3 ! i) \<and>
         (near \<longrightarrow> jit_near_module K (base (s_arena s3 ! i)) (asize (s_arena s3 ! i)) \<or>
            jit_grow K len near s = Some (Some i, s3)) \<and>
         jit_take len (spans (s_arena s3 ! i)) = Some (blk, ss) \<and>
         s2 = s3\<lparr>s_arena := (s_arena s3)[i := (s_arena s3 ! i)\<lparr>spans := ss\<rparr>]\<rparr>)"
proof (cases "jit_alloc_scan K near len (s_arena s)")
  case (Some q)
  then obtain blk as' where q: "jit_alloc_scan K near len (s_arena s) = Some (blk, as')" "r = Some blk"
    "s2 = s\<lparr>s_arena := as'\<rparr>"
    using assms by (auto simp: jit_alloc_find_def split: prod.splits)
  from jit_alloc_scan_Some [OF q(1)] show ?thesis unfolding q(2,3) by (intro exI [of _ s]) auto
next
  case None
  then obtain ri s3 where g: "jit_grow K len near s = Some (ri, s3)"
    using assms by (auto simp: jit_alloc_find_def bind_eq_Some_conv)
  show ?thesis
  proof (cases ri)
    case ri: None
    then show ?thesis using assms None g by (intro exI [of _ s3]) (auto simp: jit_alloc_find_def)
  next
    case ri: (Some i)
    have i: "i < length (s_arena s3)" "\<not> dedicated (s_arena s3 ! i)"
      using jit_grow_shape [OF g [unfolded ri]] jit_grow_commit_shape by fastforce+
    show ?thesis
    proof (cases "jit_take len (spans (s_arena s3 ! i))")
      case n: None
      then show ?thesis using assms None g ri by (intro exI [of _ s3]) (auto simp: jit_alloc_find_def)
    next
      case (Some q)
      then have "r = Some (fst q)" "s2 = s3\<lparr>s_arena := (s_arena s3)[i := (s_arena s3 ! i)\<lparr>spans := snd q\<rparr>]\<rparr>"
        using assms None g ri by (auto simp: jit_alloc_find_def split: prod.splits)
      then show ?thesis using i g ri Some
        by (intro exI [of _ s3] conjI) (auto intro!: exI [of _ i] exI [of _ "snd q"])
    qed
  qed
qed

lemma alloc_outcome:
  assumes a: "jit_alloc K sz near s = Some (Some p, s1)"
    and ok: "arenas_ok (s_arena s)" and sz: "sz < 2 ^ 62"
    and grown: "\<And>i s1. jit_grow K (jit_alloc_len sz) near s = Some (Some i, s1) \<Longrightarrow> arenas_ok (s_arena s1)"
  shows "\<exists>i blk. p = blk + JIT_ALIGN \<and> arenas_ok (s_arena s1) \<and>
    handed_out (s_arena s1) (mem s1) i blk (jit_alloc_len sz) \<and>
    (near \<longrightarrow> near_search_ok K s \<longrightarrow> jit_near_module K (base (s_arena s1 ! i)) (asize (s_arena s1 ! i)))"
proof -
  define len where "len = jit_alloc_len sz"
  have len: "0 < len" "len < 2 ^ 64" "len < 2 ^ 63" using alloc_len_bounds [OF sz] by (simp_all add: len_def)
  obtain blk s2 where f: "jit_alloc_find K near len s = Some (Some blk, s2)" and p: "p = blk + JIT_ALIGN"
    and s1: "s1 = s2\<lparr>mem := mem_write blk (le_bytes 8 len) (mem s2)\<rparr>"
    using a by (auto simp: jit_alloc_def len_def Let_def bind_eq_Some_conv split: option.splits)
  from alloc_find_steps [OF f] obtain s3 i ss where
    s3: "s3 = s \<or> (\<exists>j. jit_grow K len near s = Some (Some j, s3))"
    and i: "i < length (s_arena s3)" "\<not> dedicated (s_arena s3 ! i)"
    and nm: "near \<longrightarrow> jit_near_module K (base (s_arena s3 ! i)) (asize (s_arena s3 ! i)) \<or>
      jit_grow K len near s = Some (Some i, s3)"
    and t: "jit_take len (spans (s_arena s3 ! i)) = Some (blk, ss)"
      "s2 = s3\<lparr>s_arena := (s_arena s3)[i := (s_arena s3 ! i)\<lparr>spans := ss\<rparr>]\<rparr>" by fastforce
  have ok3: "arenas_ok (s_arena s3)" using s3 ok grown [folded len_def] by blast
  have "near \<longrightarrow> near_search_ok K s \<longrightarrow> jit_near_module K (base (s_arena s3 ! i)) (asize (s_arena s3 ! i))"
    using nm grow_near [OF _ _ len(3)] by (cases near) auto
  with take_keeps_arena(1) [OF ok3 i t(1) len(1,2)] take_keeps_arena(2) [OF ok3 i t(1) len(1,2), of "mem s2"] i(1) t(2)
  show ?thesis unfolding s1 p len_def [symmetric] by auto
qed

lemma jit_give_full: "\<not> length ss < JIT_MAX_SPANS \<Longrightarrow> jit_give at len ss = ss"
  by (simp add: jit_give_def Let_def)

text \<open>
  C7. The free list implements a set of free bytes: \<open>orbis_jit_take\<close> fails only when no run of
  that many free bytes exists in the arena (the list is always fully coalesced), and
  otherwise removes exactly the block it returns; \<open>orbis_jit_give\<close> adds exactly the block it is
  given, unless the list has all its \<open>ORBIS_JIT_MAX_SPANS\<close> slots in use: then the free bytes stay
  as they were and the block is lost, also where it would have joined a neighbour. Both keep the
  spans sorted, separated and inside the arena.
\<close>

theorem jit_free_list_refines_set:
  assumes "spans_ok lo hi ss" "0 < len"
  shows "(case jit_take len ss of
      None \<Rightarrow> \<forall>x. \<not> {x..<x + len} \<subseteq> free_bytes ss
    | Some (at, ss') \<Rightarrow> spans_ok lo hi ss' \<and> {at..<at + len} \<subseteq> free_bytes ss \<and>
        free_bytes ss' = free_bytes ss - {at..<at + len}) \<and>
   (\<forall>at. lo \<le> at \<and> at + len \<le> hi \<and> {at..<at + len} \<inter> free_bytes ss = {} \<longrightarrow>
      spans_ok lo hi (jit_give at len ss) \<and>
      free_bytes (jit_give at len ss) =
        (if length ss < JIT_MAX_SPANS then free_bytes ss \<union> {at..<at + len} else free_bytes ss))"
proof (intro conjI)
  show "case jit_take len ss of
      None \<Rightarrow> \<forall>x. \<not> {x..<x + len} \<subseteq> free_bytes ss
    | Some (at, ss') \<Rightarrow> spans_ok lo hi ss' \<and> {at..<at + len} \<subseteq> free_bytes ss \<and>
        free_bytes ss' = free_bytes ss - {at..<at + len}"
  proof (cases "jit_take len ss")
    case None
    have "\<not> {x..<x + len} \<subseteq> free_bytes ss" for x
    proof
      assume sub: "{x..<x + len} \<subseteq> free_bytes ss"
      then have "x \<in> free_bytes ss" using assms(2) by auto
      then obtain p where p: "p \<in> set ss" "fst p \<le> x" "x < fst p + snd p" by (blast dest: free_bytesE)
      have "snd p < len" using None p(1) by (simp add: jit_take_None)
      then have "fst p + snd p \<in> free_bytes ss" using sub p by auto
      then obtain q where q: "q \<in> set ss" "fst q \<le> fst p + snd p" "fst p + snd p < fst q + snd q"
        by (blast dest: free_bytesE)
      show False using spans_separated [OF assms(1) p(1) q(1)] p q by auto
    qed
    then show ?thesis using None by simp
  qed (use jit_take_Some [OF _ assms] in auto)
  show "\<forall>at. lo \<le> at \<and> at + len \<le> hi \<and> {at..<at + len} \<inter> free_bytes ss = {} \<longrightarrow>
      spans_ok lo hi (jit_give at len ss) \<and>
      free_bytes (jit_give at len ss) =
        (if length ss < JIT_MAX_SPANS then free_bytes ss \<union> {at..<at + len} else free_bytes ss)"
    using jit_give_Some [OF assms(1,2)] assms(1) by (auto simp: jit_give_full)
qed

theorem jit_free_list_refines_set_witness:
  "(\<forall>x. \<not> {x..<x + (64::nat)} \<subseteq> free_bytes [(0, 32), (96, 32)]) \<and>
   free_bytes (jit_give 32 64 [(0, 32), (96, 32)]) = free_bytes [(0, 32), (96, 32)] \<union> {32..<96}"
proof -
  have d: "{32..<32 + 64} \<inter> free_bytes [(0, 32), (96, 32)] = {}" by (auto simp: free_bytes_def)
  have t: "jit_take 64 [(0, 32), (96, 32)] = None" by simp
  have ok: "spans_ok 0 128 [(0, 32), (96, 32)]" by (simp add: spans_ok_def)
  from jit_free_list_refines_set [OF ok, of 64] d show ?thesis
    unfolding t by (auto simp: JIT_MAX_SPANS_def)
qed

text \<open>
  Over any sequence of requests and returns served by one arena's free list, in which only
  live blocks are returned, the live blocks never overlap one another or a free span - also
  when a return is dropped because the list has no slot left.
\<close>

theorem jit_live_blocks_disjoint:
  assumes "0 < n"
  shows "disjoint_blocks (snd (pool_run jit_take jit_give ops ([(b, n)], []))) \<and>
    (\<forall>blk \<in> set (snd (pool_run jit_take jit_give ops ([(b, n)], []))).
       block blk \<inter> free_bytes (fst (pool_run jit_take jit_give ops ([(b, n)], []))) = {})"
  using assms by (intro jit_pool.run_disjoint [of b "b + n"]) (simp add: spans_ok_def)

theorem jit_live_blocks_disjoint_witness:
  "disjoint_blocks (snd (pool_run jit_take jit_give [Take 64, Take 128, Give 0 64, Take 32] ([(0, 4096)], [])))"
  using jit_live_blocks_disjoint [of 4096 "[Take 64, Take 128, Give 0 64, Take 32]" 0] by simp

lemma demo_len: "jit_alloc_len 100 = 192"
  by (simp add: jit_alloc_len_def jit_round_def round_up64_def add64_def w64_def JIT_ALIGN_def)

text \<open>
  C10. For every request up to \<open>SIZE_MAX - 128\<close> that an existing arena serves, allocating takes from
  one arena's free list only, and freeing the pointer puts the arena table back exactly as it was,
  split spans rejoined, whatever the kernel and the other arenas hold - except when that free list
  still has all its slots in use after the block was split off: then the block is not put back and
  the table stays as the allocation left it.
\<close>

theorem jit_alloc_free_restores:
  assumes "jit_alloc_scan K near (jit_alloc_len sz) (s_arena s) \<noteq> None"
    and "jit_alloc K sz near s = Some (Some p, s1)"
    and ok: "arenas_ok (s_arena s)" and "sz + 2 * JIT_ALIGN \<le> 2 ^ 64"
  shows "\<exists>i < length (s_arena s).
    s_arena s1 = (s_arena s)[i := (s_arena s ! i)\<lparr>spans := spans (s_arena s1 ! i)\<rparr>] \<and>
    s_arena (jit_free K p s1) =
      (if length (spans (s_arena s1 ! i)) < JIT_MAX_SPANS then s_arena s else s_arena s1)"
proof -
  define len where "len = jit_alloc_len sz"
  have l: "2 * JIT_ALIGN \<le> len" "JIT_ALIGN dvd len" "len < 2 ^ 64" "0 < len"
    using jit_alloc_len_small [OF assms(4)] by (auto simp: len_def JIT_ALIGN_def)
  obtain blk as' where r: "jit_alloc_scan K near len (s_arena s) = Some (blk, as')"
    and p: "p = blk + JIT_ALIGN"
    and s1: "s1 = s\<lparr>s_arena := as', mem := mem_write blk (le_bytes 8 len) (mem s)\<rparr>"
    using assms(1,2) by (auto simp: jit_alloc_def jit_alloc_find_def len_def Let_def)
  from jit_alloc_scan_Some [OF r] obtain i ss where i: "i < length (s_arena s)" "\<not> dedicated (s_arena s ! i)"
    "jit_take len (spans (s_arena s ! i)) = Some (blk, ss)" "as' = (s_arena s)[i := (s_arena s ! i)\<lparr>spans := ss\<rparr>]"
    by blast
  have k: "arenas_ok (s_arena s1)" "handed_out (s_arena s1) (mem s1) i blk len"
    using take_keeps_arena(1,2) [OF ok i(1-3) l(4,3)] by (simp_all add: s1 i(4))
  have sp: "spans_ok (base (s_arena s ! i)) (base (s_arena s ! i) + asize (s_arena s ! i)) (spans (s_arena s ! i))"
    using ok i by (auto simp: arenas_ok_def arena_ok_def)
  have "s_arena (jit_free K p s1) =
      (if length (spans (s_arena s1 ! i)) < JIT_MAX_SPANS then s_arena s else s_arena s1)"
    unfolding p jit_free_shared [OF k l(1,2)] using i take_give_same [OF sp l(4) i(3)] by (simp add: s1)
  then show ?thesis using i by (intro exI [of _ i]) (simp add: s1)
qed

theorem jit_alloc_free_restores_witness:
  "\<exists>s1. jit_alloc demo_kernel 100 False (demo_state [demo_arena]) = Some (Some 4160, s1) \<and>
     s_arena s1 \<noteq> [demo_arena] \<and> s_arena (jit_free demo_kernel 4160 s1) = [demo_arena]"
proof -
  let ?s = "demo_state [demo_arena]"
  have "\<exists>s1. jit_alloc demo_kernel 100 False ?s = Some (Some 4160, s1) \<and>
      s_arena s1 = [demo_arena\<lparr>spans := [(4288, 3904)]\<rparr>]"
    by (simp add: jit_alloc_def Let_def demo_len jit_alloc_find_def demo_defs JIT_ALIGN_def)
  then obtain s1 where a: "jit_alloc demo_kernel 100 False ?s = Some (Some 4160, s1)"
    and n: "s_arena s1 = [demo_arena\<lparr>spans := [(4288, 3904)]\<rparr>]" by blast
  have "\<exists>i < length (s_arena ?s).
    s_arena s1 = (s_arena ?s)[i := (s_arena ?s ! i)\<lparr>spans := spans (s_arena s1 ! i)\<rparr>] \<and>
    s_arena (jit_free demo_kernel 4160 s1) =
      (if length (spans (s_arena s1 ! i)) < JIT_MAX_SPANS then s_arena ?s else s_arena s1)"
    by (rule jit_alloc_free_restores [OF _ a])
      (simp_all add: demo_len arenas_ok_def arena_ok_def spans_ok_def demo_defs JIT_MAX_SPANS_def JIT_ALIGN_def)
  then have "s_arena (jit_free demo_kernel 4160 s1) = [demo_arena]"
    by (auto simp: demo_state_def n JIT_MAX_SPANS_def)
  then show ?thesis using a n by (auto simp: demo_arena_def)
qed

text \<open>
  C11. The address search ends; a range it returns is granule-aligned, inside the window and
  unmapped in every granule, and it answers "none" only when no such range exists.
\<close>

theorem jit_find_free_correct:
  assumes "query_ok q" "hi \<le> limit64" "lo \<le> limit64" "0 < len" "JIT_GRANULE dvd len"
  shows "\<exists>r. jit_find_free q lo hi len = Some r \<and>
    (case r of
       Some x \<Rightarrow> lo \<le> x \<and> x + len \<le> hi \<and> free_run q x len
     | None \<Rightarrow> \<forall>x \<ge> lo. x + len \<le> hi \<longrightarrow> \<not> free_run q x len)"
  by (rule find_free_spec [OF assms])

theorem jit_find_free_correct_witness:
  "\<exists>r. jit_find_free (\<lambda>p. if p < 0x8000 then Some 0x8000 else None) 0 0x20000 0x8000 = Some r \<and>
    (case r of
       Some x \<Rightarrow> 0 \<le> x \<and> x + 0x8000 \<le> 0x20000 \<and> free_run (\<lambda>p. if p < 0x8000 then Some 0x8000 else None) x 0x8000
     | None \<Rightarrow> \<forall>x \<ge> 0. x + 0x8000 \<le> 0x20000 \<longrightarrow> \<not> free_run (\<lambda>p. if p < 0x8000 then Some 0x8000 else None) x 0x8000)"
  by (rule jit_find_free_correct) (auto simp: query_ok_def limit64_def jit_consts)


lemma covering_None_append:
  "jit_covering b e ps = None \<Longrightarrow> jit_covering b e (ps @ qs) = jit_covering b e qs"
  by (induction ps) (auto split: if_splits)

lemma covering_widen:
  "jit_covering b e ps = None \<Longrightarrow> jit_overlap b e ps = Some i \<Longrightarrow>
   jit_covering b e (ps[i := jit_widen b e (ps ! i)]) = Some (pok (ps ! i))"
  by (induction ps arbitrary: i) (auto simp: jit_widen_def split: if_splits)

lemma s_promoted_say: "jit_say K c s = (say, s') \<Longrightarrow> s_promoted s' = s_promoted s"
  by (auto simp: jit_say_def jit_should_log_def Let_def split: if_splits)

lemma s_promoted_verify: "jit_verify K at s = (ok, s') \<Longrightarrow> s_promoted s' = s_promoted s"
  by (auto simp: jit_verify_def report_def Let_def dest!: s_promoted_say split: if_splits prod.splits)

lemma protect_record_covers:
  assumes "jit_covering b e (s_promoted s) = None" "length (s_promoted s) < JIT_MAX_PROMOTED"
  shows "\<exists>s1. jit_protect_record b e ok s = (ok, s1) \<and> jit_covering b e (s_promoted s1) = Some ok"
  using assms by (simp add: jit_protect_record_def Let_def jit_record_def covering_None_append)

text \<open>
  With a slot left in its table, \<open>orbis_jit_protect\<close> remembers its answer: the same request
  made again returns the same verdict and changes nothing - no further \<open>mprotect\<close> and no stub
  written over generated code.
\<close>

theorem jit_protect_remembers:
  assumes "jit_protect K addr len s = (ok, s1)" "length (s_promoted s) < JIT_MAX_PROMOTED"
  shows "jit_protect K addr len s1 = (ok, s1)"
proof -
  define b where "b = round_down64 addr JIT_GRANULE"
  define e where "e = round_up64 (add64 addr len) JIT_GRANULE"
  have hit: "jit_protect K addr len s1 = (ok, s1)" if "jit_covering b e (s_promoted s1) = Some ok"
    using that by (simp add: jit_protect_def b_def e_def Let_def)
  show ?thesis
  proof (cases "jit_covering b e (s_promoted s)")
    case (Some v)
    then show ?thesis using assms(1) hit by (simp add: jit_protect_def b_def e_def Let_def)
  next
    case None
    obtain rc k where mp: "Mprotect K b (sub64 e b) JIT_PROT_RWX (kst s) = (rc, k)" by (metis surj_pair)
    have rec: ?thesis if "jit_protect_record b e ok' s2 = (ok, s1)" "s_promoted s2 = s_promoted s" for ok' s2
      using protect_record_covers [of b e s2 ok'] that None assms(2) hit by auto
    show ?thesis
    proof (cases "rc = 0")
      case False
      then have "jit_protect_record b e False (report (No_execute rc (jit_err rc)) (s\<lparr>kst := k\<rparr>)) = (ok, s1)"
        using assms(1) None mp by (simp add: jit_protect_def b_def e_def Let_def)
      then show ?thesis by (rule rec) (simp add: report_def)
    next
      case rc: True
      show ?thesis
      proof (cases "jit_overlap b e (s_promoted s)")
        case (Some i)
        then have "ok = pok (s_promoted s ! i)" "s_promoted s1 = (s_promoted s)[i := jit_widen b e (s_promoted s ! i)]"
          using assms(1) None mp rc by (auto simp: jit_protect_def b_def e_def Let_def)
        then show ?thesis using hit covering_widen [OF None Some] by simp
      next
        case no: None
        obtain say s2 where sy: "jit_say K (s_first_stub s) (s\<lparr>kst := k\<rparr>) = (say, s2)" by (metis surj_pair)
        obtain ok' s3 where v: "jit_verify K addr s2 = (ok', s3)" by (metis surj_pair)
        have "jit_protect_record b e ok' (if say \<or> \<not> ok' then report (Promoted addr ok') s3 else s3) = (ok, s1)"
          using assms(1) None mp rc no sy v by (simp add: jit_protect_def b_def e_def Let_def)
        then show ?thesis
          by (rule rec) (use s_promoted_say [OF sy] s_promoted_verify [OF v] in \<open>simp add: report_def\<close>)
      qed
    qed
  qed
qed

theorem jit_protect_remembers_witness:
  "jit_protect demo_kernel 0x5000 0x1000 (snd (jit_protect demo_kernel 0x5000 0x1000 (demo_state []))) =
    jit_protect demo_kernel 0x5000 0x1000 (demo_state [])"
  using jit_protect_remembers [of demo_kernel "0x5000" "0x1000" "demo_state []"
      "fst (jit_protect demo_kernel 0x5000 0x1000 (demo_state []))"
      "snd (jit_protect demo_kernel 0x5000 0x1000 (demo_state []))"]
  by (simp add: demo_state_def jit_init_def JIT_MAX_PROMOTED_def)


lemma state_simps [simp]:
  "s_state (report r s) = s_state s"
  "s_state s = 0 \<Longrightarrow> s_state (jit_record ok s) = 0"
  by (simp_all add: report_def jit_record_def)

lemma s_state_say: "jit_say K c s = (say, s') \<Longrightarrow> s_state s' = s_state s"
  by (auto simp: jit_say_def jit_should_log_def Let_def split: if_splits)

lemma s_state_verify: "jit_verify K at s = (ok, s') \<Longrightarrow> s_state s' = s_state s"
  by (auto simp: jit_verify_def Let_def dest!: s_state_say split: if_splits prod.splits)

lemma s_state_map: "jit_map K at len s = (r, s') \<Longrightarrow> s_state s = 0 \<Longrightarrow> s_state s' = 0"
  unfolding jit_map_def Let_def by (auto split: prod.splits if_splits dest!: s_state_verify)

lemma s_state_grow_commit: "jit_grow_commit K at len s = (r, s') \<Longrightarrow> s_state s = 0 \<Longrightarrow> s_state s' = 0"
  unfolding jit_grow_commit_def Let_def
  by (auto split: prod.splits option.splits if_splits dest!: s_state_say s_state_map)

lemma s_state_grow: "jit_grow K len near s = Some (r, s') \<Longrightarrow> s_state s = 0 \<Longrightarrow> s_state s' = 0"
  unfolding jit_grow_def Let_def
  by (auto simp: bind_eq_Some_conv split: option.splits if_splits dest!: s_state_grow_commit)

lemma s_state_alloc_find: "jit_alloc_find K near len s = Some (r, s') \<Longrightarrow> s_state s = 0 \<Longrightarrow> s_state s' = 0"
proof -
  assume f: "jit_alloc_find K near len s = Some (r, s')" and z: "s_state s = 0"
  show ?thesis
  proof (cases "jit_alloc_scan K near len (s_arena s)")
    case (Some x) then show ?thesis using f z by (auto simp: jit_alloc_find_def split: prod.splits)
  next
    case None
    then obtain q s3 where g: "jit_grow K len near s = Some (q, s3)"
      using f by (auto simp: jit_alloc_find_def bind_eq_Some_conv)
    then have "s_state s' = s_state s3"
      using f None by (cases q) (auto simp: jit_alloc_find_def split: option.splits)
    then show ?thesis using s_state_grow [OF g z] by simp
  qed
qed

text \<open>
  The module-wide verdict only gets worse: once a buffer has been refused, no later
  allocation, promotion or dedicated mapping makes \<open>orbis_jit_state\<close> answer otherwise.
\<close>

theorem jit_verdict_sticky:
  assumes "jit_state_query s = 0"
  shows "(\<forall>sz near r s'. jit_alloc K sz near s = Some (r, s') \<longrightarrow> jit_state_query s' = 0) \<and>
    (\<forall>addr sz r s'. jit_alloc_at K addr sz s = Some (r, s') \<longrightarrow> jit_state_query s' = 0) \<and>
    (\<forall>addr len. jit_state_query (snd (jit_protect K addr len s)) = 0) \<and>
    (\<forall>addr. jit_state_query (jit_free K addr s) = 0) \<and> jit_state_query (jit_release_all K s) = 0"
proof (intro conjI allI impI)
  note z = assms [unfolded jit_state_query_def]
  show "jit_state_query s' = 0" if "jit_alloc K sz near s = Some (r, s')" for sz near r s'
    using that z by (auto simp: jit_state_query_def jit_alloc_def Let_def bind_eq_Some_conv
      split: option.splits dest!: s_state_alloc_find)
  show "jit_state_query s' = 0" if "jit_alloc_at K addr sz s = Some (r, s')" for addr sz r s'
    using that z by (auto simp: jit_state_query_def jit_alloc_at_def Let_def bind_eq_Some_conv
      split: option.splits prod.splits if_splits dest!: s_state_map)
  show "jit_state_query (snd (jit_protect K addr len s)) = 0" for addr len
    using z by (auto simp: jit_state_query_def jit_protect_def jit_protect_record_def Let_def
      split: option.splits prod.splits dest!: s_state_say s_state_verify)
  show "jit_state_query (jit_free K addr s) = 0" for addr
    using z by (auto simp: jit_state_query_def jit_free_def Let_def split: option.splits)
  show "jit_state_query (jit_release_all K s) = 0"
    using z by (simp add: jit_state_query_def jit_release_all_def)
qed

theorem jit_verdict_sticky_witness:
  "jit_state_query (snd (jit_protect demo_kernel 0 4096 ((demo_state [])\<lparr>s_state := 0\<rparr>))) = 0"
  using jit_verdict_sticky [of "(demo_state [])\<lparr>s_state := 0\<rparr>" demo_kernel]
  by (simp add: jit_state_query_def)

text \<open>
  The length the allocator works with covers the request and the header for every request
  up to \<open>SIZE_MAX - 128\<close>; above that the sum wraps, and the 63 largest sizes are served by a
  64-byte block whose pointer leaves no byte for the caller.
\<close>

theorem jit_alloc_len_wraps:
  "(if sz + 2 * JIT_ALIGN \<le> 2 ^ 64 then sz + JIT_ALIGN \<le> jit_alloc_len sz
    else if 2 ^ 64 - 64 < sz \<and> sz < 2 ^ 64 then jit_alloc_len sz = JIT_ALIGN else True)"
proof -
  have "jit_alloc_len sz = JIT_ALIGN" if "2 ^ 64 - 64 < sz" "sz < 2 ^ 64"
  proof -
    define k where "k = sz - (2 ^ 64 - 63)"
    have k: "sz = 2 ^ 64 - 63 + k" "k < 63" using that by (auto simp: k_def)
    have "w64 (sz + 63) = k" unfolding w64_def using k by simp
    then have "jit_round sz JIT_ALIGN = 0"
      using k by (simp add: jit_round_def round_up64_def JIT_ALIGN_def add64_def)
    then show ?thesis using that by (simp add: jit_alloc_len_def add64_def w64_def JIT_ALIGN_def)
  qed
  then show ?thesis using jit_alloc_len_small(1) [of sz] by auto
qed

end
