(* ===== verification/Mmap.thy ===== *)
theory Mmap
  imports Prelude
begin

text \<open>
  The anonymous-mapping interposer of \<open>src/orbis_mmap.cpp\<close>: musl's \<open>__mmap\<close>, \<open>__munmap\<close> and
  \<open>__madvise\<close> served from carve-outs of direct memory. A carve-out's block array is the list
  of its first \<open>n\<close> blocks, addresses and 64-bit counters are \<open>nat\<close> with the wrap-around written
  out, the 32-bit counts are bounded by the tables' sizes. What a call does under the
  global lock is a definition of its own (\<open>map_locked\<close>, \<open>unmap_locked\<close>); the lock itself is the
  relation \<open>lock_step\<close> at the end, and \<open>Mmap_Threads\<close> puts the two together.
\<close>

definition Page :: nat where "Page = 0x4000"
definition DirectAlign :: nat where "DirectAlign = 0x200000"
definition CarveBytes :: nat where "CarveBytes = 128 * 1024 * 1024"
definition MaxCarves :: nat where "MaxCarves = 12"
definition DirectCap :: nat where "DirectCap = MaxCarves * CarveBytes"
definition MaxBlocks :: nat where "MaxBlocks = 1536"
definition OwnedProt :: int where "OwnedProt = 3"
definition OwnedFlags :: int where "OwnedFlags = 0x1002"
definition LogCap :: nat where "LogCap = 8"

lemmas mmap_consts = Page_def DirectAlign_def CarveBytes_def MaxCarves_def DirectCap_def MaxBlocks_def

record mblock =
  boff :: nat
  bsize :: nat
  used :: bool

record carve =
  va :: nat
  cphys :: nat
  csize :: nat
  blk :: "mblock list"

text \<open>The lines the code logs, in the order it logs them.\<close>

datatype mm_report =
    Banner bool
  | Refused_table nat
  | Refused_cap nat nat nat
  | Alloc_failed nat int
  | Map_failed nat nat int
  | Misaligned nat
  | Carve_taken nat nat nat nat nat
  | Fell_back nat
  | Bad_unmap nat nat nat

text \<open>
  The libkernel calls: each takes the kernel's state and returns its result (0 is success)
  with the new state. The address or offset a failed call leaves behind is the \<open>0\<close> the code
  initialised it with.
\<close>

record 'k mm_kernel =
  AllocateDirect :: "nat \<Rightarrow> nat \<Rightarrow> 'k \<Rightarrow> int \<times> nat \<times> 'k"
  MapDirect :: "nat \<Rightarrow> nat \<Rightarrow> nat \<Rightarrow> 'k \<Rightarrow> int \<times> nat \<times> 'k"
  MunmapDirect :: "nat \<Rightarrow> nat \<Rightarrow> 'k \<Rightarrow> 'k"
  ReleaseDirect :: "nat \<Rightarrow> nat \<Rightarrow> 'k \<Rightarrow> 'k"
  os_mmap :: "nat \<Rightarrow> nat \<Rightarrow> int \<Rightarrow> int \<Rightarrow> int \<Rightarrow> int \<Rightarrow> 'k \<Rightarrow> nat \<times> 'k"
  os_munmap :: "nat \<Rightarrow> nat \<Rightarrow> 'k \<Rightarrow> int \<times> 'k"
  os_madvise :: "nat \<Rightarrow> nat \<Rightarrow> int \<Rightarrow> 'k \<Rightarrow> int \<times> 'k"

record 'k mm_state =
  carves :: "carve list"
  heldBytes :: nat
  liveBytes :: nat
  peakLive :: nat
  cumMapped :: nat
  mapCalls :: nat
  unmapCalls :: nat
  fallbackCalls :: nat
  fallbackBytes :: nat
  anomalies :: nat
  fallbackLogged :: nat
  anomalyLogged :: nat
  bannerDone :: bool
  nMmap :: nat
  nMmapCarved :: nat
  nMmapFell :: nat
  nMunmap :: nat
  nMunmapCarved :: nat
  nMunmapFell :: nat
  merrno :: int
  mlog :: "mm_report list"
  mmem :: memory
  mkst :: 'k

definition mm_init :: "memory \<Rightarrow> 'k \<Rightarrow> 'k mm_state" where
  "mm_init m k = \<lparr>carves = [], heldBytes = 0, liveBytes = 0, peakLive = 0, cumMapped = 0, mapCalls = 0,
     unmapCalls = 0, fallbackCalls = 0, fallbackBytes = 0, anomalies = 0, fallbackLogged = 0,
     anomalyLogged = 0, bannerDone = False, nMmap = 0, nMmapCarved = 0, nMmapFell = 0, nMunmap = 0,
     nMunmapCarved = 0, nMunmapFell = 0, merrno = 0, mlog = [], mmem = m, mkst = k\<rparr>"

definition mm_say :: "mm_report \<Rightarrow> 'k mm_state \<Rightarrow> 'k mm_state" where
  "mm_say r s = s\<lparr>mlog := mlog s @ [r]\<rparr>"

definition alignUp :: "nat \<Rightarrow> nat \<Rightarrow> nat" where
  "alignUp v a = round_up64 v a"

definition banner :: "bool \<Rightarrow> 'k mm_state \<Rightarrow> 'k mm_state" where
  "banner active s =
     (if bannerDone s then s else mm_say (Banner active) (s\<lparr>bannerDone := True\<rparr>))"

definition noteLive :: "nat \<Rightarrow> 'k mm_state \<Rightarrow> 'k mm_state" where
  "noteLive n s =
     (let now = add64 (liveBytes s) n in
      s\<lparr>liveBytes := now, peakLive := max (peakLive s) now,
        cumMapped := add64 (cumMapped s) n, mapCalls := add64 (mapCalls s) 1\<rparr>)"

section \<open>One carve-out\<close>

text \<open>
  \<open>allocInLocked\<close> with \<open>n\<close> the number of blocks: first fit, split when there is a slot for the
  tail, skip the block otherwise. The result is the offset handed out and the new blocks.
\<close>

fun allocInLocked :: "nat \<Rightarrow> nat \<Rightarrow> mblock list \<Rightarrow> (nat \<times> mblock list) option" where
  "allocInLocked n len [] = None"
| "allocInLocked n len (b # bs) =
     (let skip = map_option (\<lambda>(at, bs'). (at, b # bs')) (allocInLocked n len bs) in
      if used b \<or> bsize b < len then skip
      else if bsize b = len then Some (boff b, b\<lparr>used := True\<rparr> # bs)
      else if n \<ge> MaxBlocks then skip
      else Some (boff b, b\<lparr>bsize := len, used := True\<rparr> #
             \<lparr>boff = add64 (boff b) len, bsize = bsize b - len, used = False\<rparr> # bs))"

text \<open>The binary search of \<open>freeInLocked\<close> for the first block at or after \<open>at\<close>.\<close>

function block_search :: "mblock list \<Rightarrow> nat \<Rightarrow> nat \<Rightarrow> nat \<Rightarrow> nat" where
  "block_search bs at lo hi =
     (if lo < hi then
        let m = (lo + hi) div 2 in
        if boff (bs ! m) < at then block_search bs at (m + 1) hi else block_search bs at lo m
      else lo)"
  by pat_completeness auto
termination by (relation "measure (\<lambda>(bs, at, lo, hi). hi - lo)") auto

declare block_search.simps [simp del]

definition merge_forward :: "nat \<Rightarrow> mblock list \<Rightarrow> mblock list" where
  "merge_forward lo bs =
     (if lo + 1 < length bs \<and> \<not> used (bs ! (lo + 1))
      then take lo bs @ (bs ! lo)\<lparr>bsize := add64 (bsize (bs ! lo)) (bsize (bs ! (lo + 1)))\<rparr> # drop (lo + 2) bs
      else bs)"

definition merge_back :: "nat \<Rightarrow> mblock list \<Rightarrow> mblock list" where
  "merge_back lo bs =
     (if 0 < lo \<and> \<not> used (bs ! (lo - 1))
      then take (lo - 1) bs @
        (bs ! (lo - 1))\<lparr>bsize := add64 (bsize (bs ! (lo - 1))) (bsize (bs ! lo))\<rparr> # drop (lo + 1) bs
      else bs)"

text \<open>\<open>freeInLocked\<close> on the block list: \<open>None\<close> when no live block has that offset and length.\<close>

definition free_blocks :: "nat \<Rightarrow> nat \<Rightarrow> mblock list \<Rightarrow> mblock list option" where
  "free_blocks at len bs =
     (let lo = block_search bs at 0 (length bs) in
      if lo \<ge> length bs \<or> boff (bs ! lo) \<noteq> at \<or> \<not> used (bs ! lo) \<or> bsize (bs ! lo) \<noteq> len then None
      else Some (merge_back lo (merge_forward lo (bs[lo := (bs ! lo)\<lparr>used := False\<rparr>]))))"

section \<open>The carve-out table\<close>

text \<open>\<open>addCarveLocked\<close>\<close>

definition addCarveLocked :: "'k mm_kernel \<Rightarrow> nat \<Rightarrow> 'k mm_state \<Rightarrow> bool \<times> 'k mm_state" where
  "addCarveLocked K need s =
     (if length (carves s) \<ge> MaxCarves then (False, mm_say (Refused_table need) s)
      else
        let len = alignUp (if need > CarveBytes then need else CarveBytes) DirectAlign;
            held = heldBytes s
        in if add64 held len > DirectCap then (False, mm_say (Refused_cap need len held) s)
        else
          let (errA, ph, k1) = AllocateDirect K len DirectAlign (mkst s); s1 = s\<lparr>mkst := k1\<rparr> in
          if errA \<noteq> 0 then (False, mm_say (Alloc_failed len errA) s1)
          else
            let (errM, at, k2) = MapDirect K len ph DirectAlign k1; s2 = s1\<lparr>mkst := k2\<rparr> in
            if errM \<noteq> 0 then
              (False, (mm_say (Map_failed len ph errM) s2)\<lparr>mkst := ReleaseDirect K ph len k2\<rparr>)
            else if at mod Page \<noteq> 0 then
              (False, (mm_say (Misaligned at) s2)\<lparr>mkst := ReleaseDirect K ph len (MunmapDirect K at len k2)\<rparr>)
            else
              (True, mm_say (Carve_taken (length (carves s)) len at ph (add64 held len))
                 (s2\<lparr>carves := carves s @ [\<lparr>va = at, cphys = ph, csize = len,
                        blk = [\<lparr>boff = 0, bsize = len, used = False\<rparr>]\<rparr>],
                     heldBytes := add64 held len\<rparr>)))"

text \<open>\<open>allocInLocked\<close> over the carve-outs in order: address and new table.\<close>

fun alloc_carves :: "nat \<Rightarrow> carve list \<Rightarrow> (nat \<times> carve list) option" where
  "alloc_carves len [] = None"
| "alloc_carves len (c # cs) =
     (case allocInLocked (length (blk c)) len (blk c) of
        Some (at, bs) \<Rightarrow> Some (add64 (va c) at, c\<lparr>blk := bs\<rparr> # cs)
      | None \<Rightarrow> map_option (\<lambda>(a, cs'). (a, c # cs')) (alloc_carves len cs))"

text \<open>\<open>carveOfLocked\<close>: the index of the carve-out an address lies in.\<close>

fun carveOfLocked :: "nat \<Rightarrow> carve list \<Rightarrow> nat option" where
  "carveOfLocked p [] = None"
| "carveOfLocked p (c # cs) =
     (if va c \<le> p \<and> p < add64 (va c) (csize c) then Some 0
      else map_option Suc (carveOfLocked p cs))"

text \<open>
  \<open>freeInLocked\<close>. A range that names no live mapping is counted and reported, the first
  \<open>LogCap\<close> times (the 32-bit report counter wraps).
\<close>

definition freeInLocked :: "nat \<Rightarrow> nat \<Rightarrow> nat \<Rightarrow> 'k mm_state \<Rightarrow> bool \<times> 'k mm_state" where
  "freeInLocked i p len s =
     (let c = carves s ! i; at = sub64 p (va c) in
      case free_blocks at len (blk c) of
        None \<Rightarrow>
          let s1 = s\<lparr>anomalies := add64 (anomalies s) 1,
                     anomalyLogged := (anomalyLogged s + 1) mod 2 ^ 32\<rparr>
          in (False, if anomalyLogged s < LogCap then mm_say (Bad_unmap p len at) s1 else s1)
      | Some bs \<Rightarrow>
          (True, s\<lparr>carves := (carves s)[i := c\<lparr>blk := bs\<rparr>], liveBytes := sub64 (liveBytes s) len,
                   unmapCalls := add64 (unmapCalls s) 1\<rparr>))"

section \<open>The interposed calls\<close>

definition isOwnedRequest :: "nat \<Rightarrow> int \<Rightarrow> int \<Rightarrow> int \<Rightarrow> int \<Rightarrow> bool" where
  "isOwnedRequest addr prot flags fd foff =
     (addr = 0 \<and> prot = OwnedProt \<and> flags = OwnedFlags \<and> fd < 0 \<and> foff = 0)"

text \<open>
  The part of \<open>mapOwned\<close> under the lock (\<open>map_locked\<close>): the address, if a carve-out can serve the
  request (\<open>map_carved\<close>), and the counts. The block is cleared outside the lock.
\<close>

definition map_carved :: "'k mm_kernel \<Rightarrow> nat \<Rightarrow> 'k mm_state \<Rightarrow> nat option \<times> 'k mm_state" where
  "map_carved K want s =
     (case alloc_carves want (carves s) of
        Some (a, cs) \<Rightarrow> (Some a, s\<lparr>carves := cs\<rparr>)
      | None \<Rightarrow>
          let (ok, s1) = addCarveLocked K want s in
          if ok then
            let c = last (carves s1) in
            (case allocInLocked (length (blk c)) want (blk c) of
               Some (at, bs) \<Rightarrow> (Some (add64 (va c) at), s1\<lparr>carves := butlast (carves s1) @ [c\<lparr>blk := bs\<rparr>]\<rparr>)
             | None \<Rightarrow> (None, s1))
          else (None, s1))"

definition map_locked :: "'k mm_kernel \<Rightarrow> nat \<Rightarrow> 'k mm_state \<Rightarrow> nat option \<times> 'k mm_state" where
  "map_locked K want s =
     (case map_carved K want s of
        (Some out, s1) \<Rightarrow> (Some out, noteLive want s1)
      | (None, s1) \<Rightarrow>
          let s2 = s1\<lparr>fallbackCalls := add64 (fallbackCalls s1) 1,
                      fallbackBytes := add64 (fallbackBytes s1) want,
                      fallbackLogged := (fallbackLogged s1 + 1) mod 2 ^ 32\<rparr>
          in (None, if fallbackLogged s1 < LogCap then mm_say (Fell_back want) s2 else s2))"

definition mapOwned :: "'k mm_kernel \<Rightarrow> nat \<Rightarrow> 'k mm_state \<Rightarrow> nat \<times> 'k mm_state" where
  "mapOwned K len s =
     (let want = alignUp len Page in
      case map_locked K want s of
        (Some out, s1) \<Rightarrow> (out, s1\<lparr>mmem := mem_write out (replicate want 0) (mmem s1)\<rparr>)
      | (None, s1) \<Rightarrow>
          let (r, k) = os_mmap K 0 len OwnedProt OwnedFlags (-1) 0 (mkst s1)
          in (r, s1\<lparr>mkst := k\<rparr>))"

text \<open>\<open>__mmap\<close>; \<open>direct\<close> is the build switch \<open>ORBIS_MMAP_DIRECT\<close>.\<close>

definition mm_mmap :: "bool \<Rightarrow> 'k mm_kernel \<Rightarrow> nat \<Rightarrow> nat \<Rightarrow> int \<Rightarrow> int \<Rightarrow> int \<Rightarrow> int \<Rightarrow>
    'k mm_state \<Rightarrow> nat \<times> 'k mm_state" where
  "mm_mmap direct K addr len prot flags fd foff s =
     (let s1 = s\<lparr>nMmap := add64 (nMmap s) 1\<rparr>;
          fall = (\<lambda>s. let (r, k) = os_mmap K addr len prot flags fd foff (mkst s)
                      in (r, s\<lparr>nMmapFell := add64 (nMmapFell s) 1, mkst := k\<rparr>))
      in if \<not> isOwnedRequest addr prot flags fd foff then fall s1
      else
        let s2 = banner direct s1 in
        if direct then mapOwned K len (s2\<lparr>nMmapCarved := add64 (nMmapCarved s2) 1\<rparr>)
        else fall s2)"

text \<open>\<open>__munmap\<close>: the part under the lock answers whether a carve-out was meant and the release done.\<close>

definition unmap_locked :: "nat \<Rightarrow> nat \<Rightarrow> 'k mm_state \<Rightarrow> bool option \<times> 'k mm_state" where
  "unmap_locked addr len s =
     (case carveOfLocked addr (carves s) of
        Some i \<Rightarrow>
          let (ok, s1) = freeInLocked i addr (alignUp len Page) s in
          (Some ok, if ok then s1\<lparr>nMunmapCarved := add64 (nMunmapCarved s1) 1\<rparr> else s1\<lparr>merrno := EINVAL\<rparr>)
      | None \<Rightarrow> (None, s))"

definition mm_munmap :: "'k mm_kernel \<Rightarrow> nat \<Rightarrow> nat \<Rightarrow> 'k mm_state \<Rightarrow> int \<times> 'k mm_state" where
  "mm_munmap K addr len s =
     (case unmap_locked addr len (s\<lparr>nMunmap := add64 (nMunmap s) 1\<rparr>) of
        (Some ok, s1) \<Rightarrow> (if ok then 0 else -1, s1)
      | (None, s1) \<Rightarrow>
          let (r, k) = os_munmap K addr len (mkst s1) in
          (r, s1\<lparr>nMunmapFell := add64 (nMunmapFell s1) 1, mkst := k\<rparr>))"

text \<open>\<open>__madvise\<close>\<close>

definition mm_madvise :: "'k mm_kernel \<Rightarrow> nat \<Rightarrow> nat \<Rightarrow> int \<Rightarrow> 'k mm_state \<Rightarrow> int \<times> 'k mm_state" where
  "mm_madvise K addr len advice s =
     (case carveOfLocked addr (carves s) of
        Some _ \<Rightarrow> (0, s)
      | None \<Rightarrow> let (r, k) = os_madvise K addr len advice (mkst s) in (r, s\<lparr>mkst := k\<rparr>))"

text \<open>\<open>orbis_mmap_counts\<close>: maps, carved, fallen through, unmaps, carved, fallen through.\<close>

definition mm_counts :: "'k mm_state \<Rightarrow> nat list" where
  "mm_counts s = [nMmap s, nMmapCarved s, nMmapFell s, nMunmap s, nMunmapCarved s, nMunmapFell s]"

text \<open>\<open>mmapDirectDescribe\<close>: which carve-out and block an address lies in.\<close>

record mmap_span =
  sindex :: nat
  sbase :: nat
  ssize :: nat
  soffset :: nat
  sblock :: "mblock option"

fun describe_from :: "nat \<Rightarrow> nat \<Rightarrow> carve list \<Rightarrow> mmap_span option" where
  "describe_from i p [] = None"
| "describe_from i p (c # cs) =
     (if va c = 0 \<or> p < va c \<or> p \<ge> add64 (va c) (csize c) then describe_from (i + 1) p cs
      else
        let at = sub64 p (va c) in
        Some \<lparr>sindex = i + 1, sbase = va c, ssize = csize c, soffset = at,
          sblock = find (\<lambda>b. \<not> (at < boff b \<or> at \<ge> add64 (boff b) (bsize b))) (blk c)\<rparr>)"

definition mmapDirectDescribe :: "nat \<Rightarrow> 'k mm_state \<Rightarrow> mmap_span option" where
  "mmapDirectDescribe p s = describe_from 0 p (carves s)"

text \<open>\<open>mmapDirectReport\<close>: the figures of its two lines, in KiB where it prints KiB.\<close>

definition mmapDirectReport :: "'k mm_state \<Rightarrow> nat list" where
  "mmapDirectReport s =
     [heldBytes s div 1024, length (carves s), liveBytes s div 1024, peakLive s div 1024,
      mapCalls s, unmapCalls s, cumMapped s div 1024, fallbackCalls s, fallbackBytes s div 1024, anomalies s]"

section \<open>The lock\<close>

text \<open>
  Threads at \<open>lockAcq\<close>: spinning with the number of failed tries since the last sleep, asleep in
  \<open>sceKernelUsleep\<close>, holding the lock, or elsewhere. A weak compare-exchange may fail although
  the flag is clear.
\<close>

datatype lock_pc = Outside | Spinning nat | Napping | Holding

record lock_state =
  lockFlag :: bool
  pc :: "nat \<Rightarrow> lock_pc"

definition lock_init :: lock_state where
  "lock_init = \<lparr>lockFlag = False, pc = (\<lambda>_. Outside)\<rparr>"

inductive lock_step :: "nat \<Rightarrow> lock_state \<Rightarrow> lock_state \<Rightarrow> bool" for t s where
  enter: "pc s t = Outside \<Longrightarrow> lock_step t s (s\<lparr>pc := (pc s)(t := Spinning 0)\<rparr>)"
| acquire: "pc s t = Spinning k \<Longrightarrow> \<not> lockFlag s \<Longrightarrow>
    lock_step t s (s\<lparr>lockFlag := True, pc := (pc s)(t := Holding)\<rparr>)"
| fail: "pc s t = Spinning k \<Longrightarrow> Suc k < 64 \<Longrightarrow> lock_step t s (s\<lparr>pc := (pc s)(t := Spinning (Suc k))\<rparr>)"
| nap: "pc s t = Spinning k \<Longrightarrow> \<not> Suc k < 64 \<Longrightarrow> lock_step t s (s\<lparr>pc := (pc s)(t := Napping)\<rparr>)"
| wake: "pc s t = Napping \<Longrightarrow> lock_step t s (s\<lparr>pc := (pc s)(t := Spinning 0)\<rparr>)"
| release: "pc s t = Holding \<Longrightarrow> lock_step t s (s\<lparr>lockFlag := False, pc := (pc s)(t := Outside)\<rparr>)"

end
