(* ===== verification/Mmap_Facts.thy ===== *)
theory Mmap_Facts
  imports Mmap Range_Pool
begin

text \<open>
  The block list of a carve-out (\<open>src/orbis_mmap.cpp\<close>) as a tiling of the carve-out: the
  blocks follow one another from its start to its end (\<open>tiles\<close>) and no two free ones are
  neighbours (\<open>coalesced\<close>). Allocation and release keep both, and a carve-out provides the
  \<open>range_pool\<close> contract.
\<close>

named_theorems tile_simps \<open>facts that follow a tiling block by block\<close>

section \<open>Tilings\<close>

fun tiles :: "nat \<Rightarrow> mblock list \<Rightarrow> nat \<Rightarrow> bool" where
  "tiles a [] e = (a = e)"
| "tiles a (b # bs) e = (boff b = a \<and> 0 < bsize b \<and> tiles (a + bsize b) bs e)"

fun coalesced :: "mblock list \<Rightarrow> bool" where
  "coalesced (b # c # bs) = ((used b \<or> used c) \<and> coalesced (c # bs))"
| "coalesced _ = True"

definition bytes_where :: "(mblock \<Rightarrow> bool) \<Rightarrow> mblock list \<Rightarrow> nat set" where
  "bytes_where P bs = (\<Union>b \<in> {b \<in> set bs. P b}. {boff b..<boff b + bsize b})"

abbreviation free_of :: "mblock list \<Rightarrow> nat set" where
  "free_of \<equiv> bytes_where (\<lambda>b. \<not> used b)"

abbreviation used_of :: "mblock list \<Rightarrow> nat set" where
  "used_of \<equiv> bytes_where used"

definition carve_ok :: "nat \<Rightarrow> mblock list \<Rightarrow> bool" where
  "carve_ok sz bs \<longleftrightarrow> tiles 0 bs sz \<and> coalesced bs"

lemma bytes_where_simps [simp]:
  "bytes_where P [] = {}"
  "bytes_where P (b # bs) = (if P b then {boff b..<boff b + bsize b} else {}) \<union> bytes_where P bs"
  "bytes_where P (xs @ ys) = bytes_where P xs \<union> bytes_where P ys"
  by (auto simp: bytes_where_def)

lemma bytes_whereI: "b \<in> set bs \<Longrightarrow> P b \<Longrightarrow> boff b \<le> x \<Longrightarrow> x < boff b + bsize b \<Longrightarrow> x \<in> bytes_where P bs"
  by (auto simp: bytes_where_def)

lemma tiles_append [tile_simps]:
  "tiles a (xs @ ys) e \<longleftrightarrow> (\<exists>m. tiles a xs m \<and> tiles m ys e)"
  by (induction xs arbitrary: a) auto

lemma tiles_le: "tiles a bs e \<Longrightarrow> a \<le> e"
  by (induction bs arbitrary: a) (auto dest: add_leD1)

lemma tiles_mem: "tiles a bs e \<Longrightarrow> b \<in> set bs \<Longrightarrow> a \<le> boff b \<and> 0 < bsize b \<and> boff b + bsize b \<le> e"
  by (induction bs arbitrary: a) (fastforce dest: tiles_le)+

lemma tiles_range: "tiles a bs e \<Longrightarrow> bytes_where P bs \<subseteq> {a..<e}"
  by (force simp: bytes_where_def dest: tiles_mem)

text \<open>Two blocks that share a byte are the same block.\<close>

lemma tiles_unique:
  "tiles a bs e \<Longrightarrow> b \<in> set bs \<Longrightarrow> c \<in> set bs \<Longrightarrow> x \<in> {boff b..<boff b + bsize b} \<Longrightarrow>
   x \<in> {boff c..<boff c + bsize c} \<Longrightarrow> b = c"
proof (induction bs arbitrary: a)
  case (Cons d bs)
  then have t: "tiles (a + bsize d) bs e" and d: "boff d = a" by auto
  show ?case
    using Cons.IH [OF t] Cons.prems(2-5) tiles_mem [OF t, of b] tiles_mem [OF t, of c] d by fastforce
qed simp

lemma tiles_disjoint: "tiles a bs e \<Longrightarrow> free_of bs \<inter> used_of bs = {}"
proof (induction bs arbitrary: a)
  case (Cons b bs)
  then have t: "tiles (a + bsize b) bs e" and b: "boff b = a" by auto
  have "{a..<a + bsize b} \<inter> bytes_where P bs = {}" for P
    using tiles_range [OF t, of P] by fastforce
  with Cons.IH [OF t] b show ?case by auto
qed simp

lemma tiles_cover: "tiles a bs e \<Longrightarrow> free_of bs \<union> used_of bs = {a..<e}"
proof (induction bs arbitrary: a)
  case (Cons b bs)
  then have t: "tiles (a + bsize b) bs e" and b: "boff b = a" by auto
  have u: "{a..<a + bsize b} \<union> {a + bsize b..<e} = {a..<e}" using tiles_le [OF t] by auto
  have "free_of (b # bs) \<union> used_of (b # bs) = {a..<a + bsize b} \<union> (free_of bs \<union> used_of bs)"
    using b by (cases "used b") (simp_all add: Un_ac)
  then show ?case using Cons.IH [OF t] u by simp
qed simp

lemma free_of_used: "tiles a bs e \<Longrightarrow> free_of bs = {a..<e} - used_of bs"
  using tiles_cover [of a bs e] tiles_disjoint [of a bs e] by blast

lemma used_of_filter: "used_of bs = used_of (filter used bs)"
  by (auto simp: bytes_where_def)

lemma coalesced_append:
  "coalesced (xs @ ys) \<longleftrightarrow> coalesced xs \<and> coalesced ys \<and>
     (xs \<noteq> [] \<and> ys \<noteq> [] \<longrightarrow> used (last xs) \<or> used (hd ys))"
proof (induction xs rule: coalesced.induct)
  case (1 b c bs) then show ?case by auto
qed (cases ys; auto)+

section \<open>Allocation\<close>

lemma alloc_split:
  "allocInLocked n len bs = Some (at, bs') \<Longrightarrow>
   \<exists>pre b post. bs = pre @ b # post \<and> \<not> used b \<and> len \<le> bsize b \<and> at = boff b \<and>
     bs' = (if bsize b = len then pre @ b\<lparr>used := True\<rparr> # post
            else pre @ b\<lparr>bsize := len, used := True\<rparr> #
              \<lparr>boff = add64 (boff b) len, bsize = bsize b - len, used = False\<rparr> # post)"
proof (induction n len bs arbitrary: bs' rule: allocInLocked.induct)
  case (2 n len b bs)
  show ?case
  proof (cases "\<not> used b \<and> len \<le> bsize b \<and> (bsize b = len \<or> n < MaxBlocks)")
    case True
    with 2(2) show ?thesis by (intro exI [of _ "[]"] exI [of _ b] exI [of _ bs]) (auto split: if_splits)
  next
    case False
    with 2(2) obtain bs1 where "allocInLocked n len bs = Some (at, bs1)" "bs' = b # bs1"
      by (cases "allocInLocked n len bs") (auto simp: Let_def split: if_splits)
    from 2(1) [OF this(1)] obtain pre c post where "bs = pre @ c # post" "\<not> used c" "len \<le> bsize c" "at = boff c"
      "bs1 = (if bsize c = len then pre @ c\<lparr>used := True\<rparr> # post
            else pre @ c\<lparr>bsize := len, used := True\<rparr> #
              \<lparr>boff = add64 (boff c) len, bsize = bsize c - len, used = False\<rparr> # post)" by blast
    with \<open>bs' = b # bs1\<close> show ?thesis by (intro exI [of _ "b # pre"] exI [of _ c] exI [of _ post]) simp
  qed
qed simp

lemma alloc_blocks_ok:
  assumes "allocInLocked n len bs = Some (at, bs')" "carve_ok sz bs" "0 < len" "sz < 2 ^ 64"
  shows "carve_ok sz bs' \<and> {at..<at + len} \<subseteq> free_of bs \<and> used_of bs' = used_of bs \<union> {at..<at + len} \<and>
    free_of bs' = free_of bs - {at..<at + len} \<and>
    \<lparr>boff = at, bsize = len, used = True\<rparr> \<in> set bs' \<and> (\<forall>b \<in> set bs. used b \<longrightarrow> b \<in> set bs')"
proof -
  from alloc_split [OF assms(1)] obtain pre b post where
    s: "bs = pre @ b # post" "\<not> used b" "len \<le> bsize b" "at = boff b" and
    n: "bs' = (if bsize b = len then pre @ b\<lparr>used := True\<rparr> # post
            else pre @ b\<lparr>bsize := len, used := True\<rparr> #
              \<lparr>boff = add64 (boff b) len, bsize = bsize b - len, used = False\<rparr> # post)" by blast
  from assms(2) s have t: "tiles 0 bs sz" and c: "coalesced bs" by (auto simp: carve_ok_def)
  have "boff b + bsize b \<le> sz" using tiles_mem [OF t, of b] s by simp
  then have a: "add64 (boff b) len = boff b + len" using s(3) assms(4) by (simp add: add64_small)
  have t': "tiles 0 bs' sz"
    using t s(3) assms(3) by (auto simp: s(1) n a tiles_append)
  have c': "coalesced bs'"
    using c s(2) by (cases post) (auto simp: s(1) n coalesced_append)
  have u: "used_of bs' = used_of bs \<union> {at..<at + len}"
    using s(2,4) by (auto simp: s(1) n)
  have "{at..<at + len} \<subseteq> free_of bs" using s(2-4) by (auto simp: s(1))
  moreover have "free_of bs' = free_of bs - {at..<at + len}"
    unfolding free_of_used [OF t'] free_of_used [OF t] u by blast
  moreover have "\<lparr>boff = at, bsize = len, used = True\<rparr> \<in> set bs'" using s by (cases b) (auto simp: n)
  moreover have "\<forall>b \<in> set bs. used b \<longrightarrow> b \<in> set bs'" using s(2) by (auto simp: s(1) n)
  ultimately show ?thesis using t' c' u by (simp add: carve_ok_def)
qed

text \<open>With a slot to spare the search fails only when no free block is large enough.\<close>

lemma alloc_None:
  "n < MaxBlocks \<Longrightarrow> allocInLocked n len bs = None \<longleftrightarrow> (\<forall>b \<in> set bs. used b \<or> bsize b < len)"
  by (induction n len bs rule: allocInLocked.induct) (auto simp: Let_def split: if_splits)

lemma alloc_length: "allocInLocked n len bs = Some (at, bs') \<Longrightarrow> length bs' \<le> Suc (length bs)"
  by (drule alloc_split) (auto split: if_splits)

section \<open>Release\<close>

lemma tiles_boff_mono:
  "tiles a bs e \<Longrightarrow> i < j \<Longrightarrow> j < length bs \<Longrightarrow> boff (bs ! i) + bsize (bs ! i) \<le> boff (bs ! j)"
proof (induction bs arbitrary: a i j)
  case (Cons b bs)
  then have t: "tiles (a + bsize b) bs e" and j: "0 < j" "j - 1 < length bs" by auto
  show ?case
  proof (cases i)
    case 0
    have "a + bsize b \<le> boff (bs ! (j - 1))" using tiles_mem [OF t, of "bs ! (j - 1)"] j by simp
    with Cons.prems 0 j show ?thesis by (simp add: nth_Cons')
  next
    case (Suc k) with Cons.IH [OF t, of k "j - 1"] Cons.prems j show ?thesis by (simp add: nth_Cons')
  qed
qed simp

lemma tiles_boff_less: "tiles a bs e \<Longrightarrow> i < j \<Longrightarrow> j < length bs \<Longrightarrow> boff (bs ! i) < boff (bs ! j)"
  using tiles_boff_mono [of a bs e i j] tiles_mem [of a bs e "bs ! i"] by fastforce

text \<open>The binary search finds the block that starts at a given offset, if there is one.\<close>

lemma block_search_finds:
  assumes "tiles a bs e" "i < length bs" "boff (bs ! i) = at" "lo \<le> i" "i \<le> hi" "hi \<le> length bs"
  shows "block_search bs at lo hi = i"
  using assms(4-6)
proof (induction "hi - lo" arbitrary: lo hi rule: less_induct)
  case less
  show ?case
  proof (cases "lo < hi")
    case False with less.prems show ?thesis by (simp add: block_search.simps [of bs at lo hi])
  next
    case True
    define m where "m = (lo + hi) div 2"
    have m: "lo \<le> m" "m < hi" using True by (auto simp: m_def)
    show ?thesis
    proof (cases "boff (bs ! m) < at")
      case True
      then have "m < i"
        using tiles_boff_less [OF assms(1), of i m] m less.prems assms(3) by (metis le_less_trans less_asym linorder_neqE_nat nat_less_le order.strict_trans2)
      with less.hyps [of hi "m + 1"] less.prems m True \<open>lo < hi\<close> show ?thesis
        by (simp add: block_search.simps [of bs at lo hi] Let_def flip: m_def)
    next
      case False
      then have "i \<le> m"
        using tiles_boff_less [OF assms(1), of m i] assms(2,3) by (metis not_le)
      with less.hyps [of m lo] less.prems m False \<open>lo < hi\<close> show ?thesis
        by (simp add: block_search.simps [of bs at lo hi] Let_def flip: m_def)
    qed
  qed
qed

text \<open>Freeing a block and merging it with its free neighbours.\<close>

lemma merge_around:
  assumes t: "tiles a (pre @ b # post) e" and e: "e < 2 ^ 64" and b: "\<not> used b"
    and c: "coalesced pre" "coalesced post"
  defines "bs' \<equiv> merge_back (length pre) (merge_forward (length pre) (pre @ b # post))"
  shows "tiles a bs' e \<and> coalesced bs' \<and> filter used bs' = filter used pre @ filter used post \<and>
    boff ` set bs' \<subseteq> boff ` set (pre @ b # post) \<and> length bs' \<le> length pre + length post + 1"
proof -
  have sum: "boff b + bsize b \<le> e" using tiles_mem [OF t, of b] by simp
  obtain b1 post1 where f: "merge_forward (length pre) (pre @ b # post) = pre @ b1 # post1"
    and b1: "\<not> used b1" "boff b1 = boff b" "boff b1 + bsize b1 \<le> e" "tiles a (pre @ b1 # post1) e"
    and p1: "coalesced post1" "post1 = [] \<or> used (hd post1)" "filter used post1 = filter used post"
      "set post1 \<subseteq> set post" "length post1 \<le> length post"
  proof (cases "\<exists>n ps. post = n # ps \<and> \<not> used n")
    case True
    then obtain n ps where p: "post = n # ps" "\<not> used n" by blast
    let ?b1 = "b\<lparr>bsize := bsize b + bsize n\<rparr>"
    have t1: "tiles a (pre @ ?b1 # ps) e" using t by (auto simp: p tiles_append ac_simps)
    have le1: "boff b + (bsize b + bsize n) \<le> e" using tiles_mem [OF t1, of ?b1] by simp
    have "merge_forward (length pre) (pre @ b # post) = pre @ ?b1 # ps"
      using p le1 e by (simp add: merge_forward_def nth_append add64_small)
    moreover have "coalesced ps" "ps = [] \<or> used (hd ps)" using c(2) p by (cases ps; auto)+
    ultimately show ?thesis using t1 le1 b p by (intro that [of ?b1 ps]) auto
  next
    case False
    then have "post = [] \<or> used (hd post)" by (cases post) auto
    moreover from this have "merge_forward (length pre) (pre @ b # post) = pre @ b # post"
      by (cases post) (auto simp: merge_forward_def nth_append)
    ultimately show ?thesis using t b c sum by (intro that [of b post]) auto
  qed
  show ?thesis
  proof (cases "pre \<noteq> [] \<and> \<not> used (last pre)")
    case True
    then obtain ps q where p: "pre = ps @ [q]" "\<not> used q" by (metis append_butlast_last_id last_snoc)
    have le: "bsize q + bsize b1 < 2 ^ 64" using b1 e by (auto simp: p tiles_append dest: tiles_le)
    have r: "bs' = ps @ q\<lparr>bsize := bsize q + bsize b1\<rparr> # post1"
      using p le unfolding bs'_def f by (simp add: merge_back_def nth_append add64_small)
    have img: "boff ` set bs' \<subseteq> boff ` set (pre @ b # post)" using p1(4) by (auto simp: r p)
    have "tiles a bs' e \<and> coalesced bs' \<and> filter used bs' = filter used pre @ filter used post"
      using b1 p1(1-3) p c b by (cases post1) (auto simp: r tiles_append coalesced_append ac_simps)
    moreover have "length bs' \<le> length pre + length post + 1" using p1(5) by (simp add: r p)
    ultimately show ?thesis using img by blast
  next
    case False
    then have r: "bs' = pre @ b1 # post1"
      unfolding bs'_def f by (cases pre rule: rev_cases) (auto simp: merge_back_def nth_append)
    have img: "boff ` set bs' \<subseteq> boff ` set (pre @ b # post)" using p1(4) b1(2) by (auto simp: r)
    have "tiles a bs' e \<and> coalesced bs' \<and> filter used bs' = filter used pre @ filter used post"
      using b1 p1(1-3) c b False by (cases post1) (auto simp: r coalesced_append)
    moreover have "length bs' \<le> length pre + length post + 1" using p1(5) by (simp add: r)
    ultimately show ?thesis using img by blast
  qed
qed

lemma free_blocks_ok:
  assumes "carve_ok sz bs" "b \<in> set bs" "used b" "sz < 2 ^ 64"
  obtains bs' where "free_blocks (boff b) (bsize b) bs = Some bs'" "carve_ok sz bs'"
    "used_of bs' = used_of bs - {boff b..<boff b + bsize b}"
    "filter used bs' = remove1 b (filter used bs)" "boff ` set bs' \<subseteq> boff ` set bs" "length bs' \<le> length bs"
proof -
  from assms(1) have t: "tiles 0 bs sz" and c: "coalesced bs" by (auto simp: carve_ok_def)
  obtain i where i: "i < length bs" "bs ! i = b" using assms(2) by (auto simp: in_set_conv_nth)
  have lo: "block_search bs (boff b) 0 (length bs) = i"
    by (rule block_search_finds [OF t i(1)]) (use i in auto)
  define pre post where "pre = take i bs" and "post = drop (Suc i) bs"
  have s: "bs = pre @ b # post" "length pre = i" using i id_take_nth_drop [of i bs] by (auto simp: pre_def post_def)
  let ?b = "b\<lparr>used := False\<rparr>"
  have t': "tiles 0 (pre @ ?b # post) sz" using t by (auto simp: s(1) tiles_append)
  have cc: "coalesced pre" "coalesced post" using c by (cases post; auto simp: s(1) coalesced_append)+
  note m = merge_around [OF t' assms(4) _ cc]
  have b_pre: "b \<notin> set pre"
  proof
    assume "b \<in> set pre"
    then obtain j where j: "j < i" "bs ! j = b" using s by (auto simp: in_set_conv_nth nth_append)
    from tiles_boff_less [OF t j(1) i(1)] j(2) i(2) show False by simp
  qed
  have r: "filter used pre @ filter used post = remove1 b (filter used bs)"
    using b_pre assms(3) by (simp add: s(1) remove1_append)
  have u: "used_of (filter used pre @ filter used post) = used_of bs - {boff b..<boff b + bsize b}"
  proof -
    have "used_of pre \<inter> {boff b..<boff b + bsize b} = {}" "used_of post \<inter> {boff b..<boff b + bsize b} = {}"
      using t tiles_range [of 0 pre _ used] tiles_range [of _ post sz used] by (fastforce simp: s(1) tiles_append)+
    then show ?thesis using assms(3) by (auto simp: s(1) simp flip: used_of_filter)
  qed
  have "bs[i := ?b] = pre @ ?b # post" using s by (simp add: list_update_append)
  then have f: "free_blocks (boff b) (bsize b) bs = Some (merge_back i (merge_forward i (pre @ ?b # post)))"
    using lo i assms(3) by (simp add: free_blocks_def)
  show ?thesis
  proof (rule that [OF f])
    let ?bs = "merge_back i (merge_forward i (pre @ ?b # post))"
    note m = m [unfolded s(2)]
    show "carve_ok sz ?bs" using m by (simp add: carve_ok_def)
    show "filter used ?bs = remove1 b (filter used bs)" using m r by simp
    then show "used_of ?bs = used_of bs - {boff b..<boff b + bsize b}"
      using u r used_of_filter [of ?bs] by simp
    show "boff ` set ?bs \<subseteq> boff ` set bs" using m by (auto simp: s(1))
    show "length ?bs \<le> length bs" using m s by simp
  qed
qed

text \<open>Only a live block with that offset and length is released.\<close>

lemma free_blocks_Some:
  assumes "free_blocks at len bs = Some bs'"
  obtains b where "b \<in> set bs" "used b" "boff b = at" "bsize b = len"
proof -
  define i where "i = block_search bs at 0 (length bs)"
  from assms have "i < length bs" "used (bs ! i)" "boff (bs ! i) = at" "bsize (bs ! i) = len"
    by (auto simp: free_blocks_def Let_def not_le i_def split: if_splits)
  with that [of "bs ! i"] show ?thesis by simp
qed

section \<open>The contract\<close>

interpretation carve_pool: range_pool "\<lambda>bs. carve_ok sz bs \<and> sz < 2 ^ 64" free_of
  "\<lambda>len bs. allocInLocked (length bs) len bs"
  "\<lambda>at len bs. case free_blocks at len bs of None \<Rightarrow> bs | Some bs' \<Rightarrow> bs'"
  "\<lambda>at len bs. \<lparr>boff = at, bsize = len, used = True\<rparr> \<in> set bs" for sz
proof (unfold_locales, goal_cases)
  case (1 s len at s')
  then show ?case using alloc_blocks_ok [of "length s" len s at s' sz] by auto
next
  case (2 s len at s' m b)
  then show ?case using alloc_blocks_ok [of "length s" len s at s' sz] by auto
next
  case (3 s len at)
  from 3(1) have ok: "carve_ok sz s" "sz < 2 ^ 64" by auto
  obtain s' where f: "free_blocks at len s = Some s'" and s': "carve_ok sz s'"
    "used_of s' = used_of s - {at..<at + len}"
    by (rule free_blocks_ok [OF ok(1) 3(3) _ ok(2)]) auto
  have t: "tiles 0 s sz" "tiles 0 s' sz" using ok s' by (auto simp: carve_ok_def)
  then have "free_of s' \<subseteq> free_of s \<union> {at..<at + len}"
    unfolding free_of_used [OF t(2)] free_of_used [OF t(1)] s'(2) by blast
  with f s' ok show ?case by simp
next
  case (4 s len at m b)
  from 4(1) have ok: "carve_ok sz s" "sz < 2 ^ 64" by auto
  obtain s' where f: "free_blocks at len s = Some s'"
    and k: "filter used s' = remove1 \<lparr>boff = at, bsize = len, used = True\<rparr> (filter used s)"
    by (rule free_blocks_ok [OF ok(1) 4(3) _ ok(2)]) auto
  have "(b, m) \<noteq> (at, len)" using 4(4,6) by auto
  then have "\<lparr>boff = b, bsize = m, used = True\<rparr> \<in> set (filter used s')"
    using 4(5) unfolding k by (simp add: in_set_remove1)
  with f show ?case by auto
qed

end
