(* ===== verification/Mmap_Carves.thy ===== *)
theory Mmap_Carves
  imports Mmap_Facts
begin

text \<open>
  The carve-out table of \<open>src/orbis_mmap.cpp\<close>: what holds of it between two calls
  (\<open>mm_ok\<close>), the mappings it has handed out (\<open>live_maps\<close>), and how the steps of \<open>__mmap\<close> and
  \<open>__munmap\<close> change them.
\<close>

section \<open>The invariant\<close>

definition page_blocks :: "mblock list \<Rightarrow> bool" where
  "page_blocks bs \<longleftrightarrow> (\<forall>b \<in> set bs. Page dvd boff b \<and> Page dvd bsize b)"

definition one_carve_ok :: "carve \<Rightarrow> bool" where
  "one_carve_ok c \<longleftrightarrow> carve_ok (csize c) (blk c) \<and> page_blocks (blk c) \<and> Page dvd va c \<and>
     va c + csize c < 2 ^ 64"

text \<open>Two address ranges, given by start and length, that do not overlap.\<close>

definition apart :: "nat \<Rightarrow> nat \<Rightarrow> nat \<Rightarrow> nat \<Rightarrow> bool" where
  "apart a l b m \<longleftrightarrow> a + l \<le> b \<or> b + m \<le> a"

abbreviation carves_apart :: "carve \<Rightarrow> carve \<Rightarrow> bool" where
  "carves_apart c d \<equiv> apart (va c) (csize c) (va d) (csize d)"

abbreviation inside :: "nat \<Rightarrow> nat \<Rightarrow> carve \<Rightarrow> bool" where
  "inside a l c \<equiv> va c \<le> a \<and> a + l \<le> va c + csize c"

definition table_ok :: "carve list \<Rightarrow> bool" where
  "table_ok cs \<longleftrightarrow> (\<forall>c \<in> set cs. one_carve_ok c) \<and>
     sorted_wrt carves_apart cs"

definition used_bytes :: "mblock list \<Rightarrow> nat" where
  "used_bytes bs = sum_list (map bsize (filter used bs))"

definition mm_ok :: "'k mm_state \<Rightarrow> bool" where
  "mm_ok s \<longleftrightarrow> table_ok (carves s) \<and> length (carves s) \<le> MaxCarves \<and>
     heldBytes s = sum_list (map csize (carves s)) \<and> heldBytes s \<le> DirectCap \<and>
     liveBytes s = sum_list (map (used_bytes \<circ> blk) (carves s))"

text \<open>The mappings handed out: address and length of every used block.\<close>

definition carve_maps :: "carve \<Rightarrow> (nat \<times> nat) set" where
  "carve_maps c = {(va c + boff b, bsize b) |b. b \<in> set (blk c) \<and> used b}"

definition live_maps :: "carve list \<Rightarrow> (nat \<times> nat) set" where
  "live_maps cs = (\<Union>c \<in> set cs. carve_maps c)"

text \<open>Where the carve-outs lie: address and size of each.\<close>

definition extents :: "carve list \<Rightarrow> (nat \<times> nat) list" where
  "extents cs = map (\<lambda>c. (va c, csize c)) cs"

lemma extents_simps [simp]:
  "extents [] = []"
  "extents (c # cs) = (va c, csize c) # extents cs"
  "extents (cs @ ds) = extents cs @ extents ds"
  by (simp_all add: extents_def)

lemma in_extents: "c \<in> set cs \<Longrightarrow> (va c, csize c) \<in> set (extents cs)"
  by (auto simp: extents_def)

text \<open>
  The mapping \<open>addCarveLocked\<close> is about to make lies where no carve-out of the table is, away from
  the end of the address space.
\<close>

definition map_fresh_now :: "'k mm_kernel \<Rightarrow> 'k mm_state \<Rightarrow> bool" where
  "map_fresh_now K s \<longleftrightarrow> (\<forall>len e ph k1 a k2. AllocateDirect K len DirectAlign (mkst s) = (e, ph, k1) \<and>
     MapDirect K len ph DirectAlign k1 = (0, a, k2) \<longrightarrow>
     a + len < 2 ^ 64 \<and> (\<forall>c \<in> set (carves s). apart a len (va c) (csize c)))"

lemma table_ok_simps [simp]:
  "table_ok []"
  "table_ok (c # cs) \<longleftrightarrow> one_carve_ok c \<and> (\<forall>d \<in> set cs. carves_apart c d) \<and> table_ok cs"
  by (auto simp: table_ok_def)

lemma apart_sym: "apart a l b m = apart b m a l"
  by (auto simp: apart_def)

lemma apart_sub: "apart a l b m \<Longrightarrow> b \<le> b' \<Longrightarrow> b' + m' \<le> b + m \<Longrightarrow> apart a l b' m'"
  by (auto simp: apart_def)

lemma table_ok_snoc:
  "table_ok (cs @ [c]) \<longleftrightarrow> table_ok cs \<and> one_carve_ok c \<and> (\<forall>d \<in> set cs. carves_apart c d)"
  by (auto simp: table_ok_def sorted_wrt_append apart_sym [of "va c"])

lemma live_maps_simps [simp]:
  "live_maps [] = {}"
  "live_maps (c # cs) = carve_maps c \<union> live_maps cs"
  "live_maps (cs @ ds) = live_maps cs \<union> live_maps ds"
  by (auto simp: live_maps_def)

lemma tiles_apart:
  "tiles a bs e \<Longrightarrow> b \<in> set bs \<Longrightarrow> c \<in> set bs \<Longrightarrow> b \<noteq> c \<Longrightarrow> apart (boff b) (bsize b) (boff c) (bsize c)"
proof (induction bs arbitrary: a)
  case (Cons d bs)
  then have t: "tiles (a + bsize d) bs e" and d: "boff d = a" by auto
  show ?case
    using Cons.IH [OF t] Cons.prems(2-4) tiles_mem [OF t, of b] tiles_mem [OF t, of c] d
    by (auto simp: apart_def)
qed simp

lemma carve_maps_UN: "carve_maps c = (\<Union>b \<in> set (blk c). if used b then {(va c + boff b, bsize b)} else {})"
  by (auto simp: carve_maps_def split: if_splits)

lemma carve_maps_inside:
  "one_carve_ok c \<Longrightarrow> m \<in> carve_maps c \<Longrightarrow> inside (fst m) (snd m) c \<and> 0 < snd m"
  by (auto simp: one_carve_ok_def carve_ok_def carve_maps_def dest!: tiles_mem)

lemma live_maps_inside:
  assumes "table_ok cs" "m \<in> live_maps cs"
  obtains c where "c \<in> set cs" "m \<in> carve_maps c" "inside (fst m) (snd m) c" "0 < snd m"
proof -
  from assms obtain c where c: "c \<in> set cs" "m \<in> carve_maps c" "one_carve_ok c"
    by (auto simp: live_maps_def table_ok_def)
  with carve_maps_inside [OF c(3,2)] that show thesis by blast
qed

section \<open>Allocating\<close>

lemma page_blocks_alloc:
  assumes "allocInLocked n len bs = Some (at, bs')" "page_blocks bs" "Page dvd len" "carve_ok sz bs" "sz < 2 ^ 64"
  shows "page_blocks bs' \<and> Page dvd at"
proof -
  from alloc_split [OF assms(1)] obtain pre b post where
    s: "bs = pre @ b # post" "len \<le> bsize b" "at = boff b" and
    n: "bs' = (if bsize b = len then pre @ b\<lparr>used := True\<rparr> # post
            else pre @ b\<lparr>bsize := len, used := True\<rparr> #
              \<lparr>boff = add64 (boff b) len, bsize = bsize b - len, used = False\<rparr> # post)" by blast
  have "boff b + bsize b \<le> sz" using assms(4) s(1) tiles_mem [of 0 bs sz b] by (simp add: carve_ok_def)
  then have "add64 (boff b) len = boff b + len" using s(2) assms(5) by (simp add: add64_small)
  then show ?thesis using assms(2,3) s by (auto simp: page_blocks_def n dvd_diff_nat)
qed

lemma used_bytes_alloc:
  "allocInLocked n len bs = Some (at, bs') \<Longrightarrow> used_bytes bs' = used_bytes bs + len"
  by (drule alloc_split) (auto simp: used_bytes_def)

text \<open>One carve-out serves a request of whole pages.\<close>

lemma carve_alloc:
  assumes "allocInLocked (length (blk c)) len (blk c) = Some (at, bs)" "one_carve_ok c" "0 < len" "Page dvd len"
  defines "c' \<equiv> c\<lparr>blk := bs\<rparr>"
  shows "one_carve_ok c' \<and> add64 (va c) at = va c + at \<and> Page dvd va c + at \<and> inside (va c + at) len c \<and>
    (\<forall>m \<in> carve_maps c. apart (fst m) (snd m) (va c + at) len) \<and>
    carve_maps c' = insert (va c + at, len) (carve_maps c)"
proof -
  from assms(2) have ok: "carve_ok (csize c) (blk c)" and pb: "page_blocks (blk c)" and v: "Page dvd va c"
    and lt: "va c + csize c < 2 ^ 64" by (auto simp: one_carve_ok_def)
  then have sz: "csize c < 2 ^ 64" by simp
  note a = alloc_blocks_ok [OF assms(1) ok assms(3) sz]
  have t: "tiles 0 (blk c) (csize c)" using ok by (simp add: carve_ok_def)
  from alloc_split [OF assms(1)] obtain pre b post where
    s: "blk c = pre @ b # post" "\<not> used b" "len \<le> bsize b" "at = boff b" and
    n: "bs = (if bsize b = len then pre @ b\<lparr>used := True\<rparr> # post
            else pre @ b\<lparr>bsize := len, used := True\<rparr> #
              \<lparr>boff = add64 (boff b) len, bsize = bsize b - len, used = False\<rparr> # post)" by blast
  have bm: "b \<in> set (blk c)" by (simp add: s(1))
  have r: "at + len \<le> csize c" using tiles_mem [OF t bm] s(3,4) by simp
  have "apart (va c + boff x) (bsize x) (va c + at) len" if "x \<in> set (blk c)" "used x" for x
  proof -
    have "x \<noteq> b" using that(2) s(2) by auto
    then show ?thesis using tiles_apart [OF t that(1) bm] s(3,4) by (auto simp: apart_def)
  qed
  moreover have "carve_maps c' = insert (va c + at, len) (carve_maps c)"
    using s by (auto simp: carve_maps_UN c'_def n)
  ultimately show ?thesis
    using a page_blocks_alloc [OF assms(1) pb assms(4) ok sz] v lt r
    by (auto simp: one_carve_ok_def c'_def add64_small carve_maps_def)
qed

lemma alloc_carves_split:
  "alloc_carves len cs = Some (a, cs') \<Longrightarrow>
   \<exists>pre c post at bs. cs = pre @ c # post \<and> allocInLocked (length (blk c)) len (blk c) = Some (at, bs) \<and>
     a = add64 (va c) at \<and> cs' = pre @ c\<lparr>blk := bs\<rparr> # post"
proof (induction len cs arbitrary: cs' rule: alloc_carves.induct)
  case (2 len c cs)
  show ?case
  proof (cases "allocInLocked (length (blk c)) len (blk c)")
    case None
    with 2(2) obtain cs1 where r: "alloc_carves len cs = Some (a, cs1)" "cs' = c # cs1" by auto
    from 2(1) [OF None r(1)] obtain pre d post at bs where "cs = pre @ d # post"
      "allocInLocked (length (blk d)) len (blk d) = Some (at, bs)" "a = add64 (va d) at" "cs1 = pre @ d\<lparr>blk := bs\<rparr> # post"
      by blast
    with r(2) show ?thesis by (intro exI [of _ "c # pre"]) auto
  next
    case (Some ab) with 2(2) show ?thesis by (cases ab) (auto intro!: exI [of _ "[]"])
  qed
qed simp

lemma table_ok_replace:
  assumes "table_ok (pre @ c # post)" "one_carve_ok d" "va d = va c" "csize d = csize c"
  shows "table_ok (pre @ d # post)"
  using assms by (auto simp: table_ok_def sorted_wrt_append)

lemma alloc_carves_ok:
  assumes "alloc_carves len cs = Some (a, cs')" "table_ok cs" "0 < len" "Page dvd len"
  shows "table_ok cs' \<and> Page dvd a \<and> (\<forall>m \<in> live_maps cs. apart (fst m) (snd m) a len) \<and>
    live_maps cs' = insert (a, len) (live_maps cs) \<and> map csize cs' = map csize cs \<and>
    sum_list (map (used_bytes \<circ> blk) cs') = sum_list (map (used_bytes \<circ> blk) cs) + len"
proof -
  from alloc_carves_split [OF assms(1)] obtain pre c post at bs where
    s: "cs = pre @ c # post" "allocInLocked (length (blk c)) len (blk c) = Some (at, bs)"
      "a = add64 (va c) at" "cs' = pre @ c\<lparr>blk := bs\<rparr> # post" by blast
  from assms(2) have oc: "one_carve_ok c" and od: "\<And>d. d \<in> set pre \<union> set post \<Longrightarrow> one_carve_ok d \<and> carves_apart d c"
    by (auto simp: s(1) table_ok_def sorted_wrt_append apart_sym [of _ _ "va c"])
  note ca = carve_alloc [OF s(2) oc assms(3,4)]
  have "apart (fst m) (snd m) a len" if d: "d \<in> set pre \<union> set post" "m \<in> carve_maps d" for m d
    using od [OF d(1)] carve_maps_inside [OF _ d(2)] ca s(3) by (auto simp: apart_def)
  then have "\<forall>m \<in> live_maps cs. apart (fst m) (snd m) a len"
    using ca s(3) by (auto simp: s(1) live_maps_def)
  then show ?thesis
    using ca table_ok_replace [of pre c post "c\<lparr>blk := bs\<rparr>"] assms(2) used_bytes_alloc [OF s(2)]
    by (simp add: s)
qed

lemma alignUp_small: "v + (a - 1) < 2 ^ 64 \<Longrightarrow> 0 < a \<Longrightarrow> v \<le> alignUp v a \<and> a dvd alignUp v a"
  using round_up_ge [of a v] by (simp add: alignUp_def round_up64_small)

lemma addCarve_ok:
  assumes "addCarveLocked K need s = (ok, s')" "mm_ok s" "map_fresh_now K s" "need < 2 ^ 63"
  shows "mm_ok s' \<and> mmem s' = mmem s \<and> live_maps (carves s') = live_maps (carves s) \<and> liveBytes s' = liveBytes s \<and>
    fallbackCalls s' = fallbackCalls s \<and> cumMapped s' = cumMapped s \<and> peakLive s' = peakLive s \<and>
    (if ok then \<exists>c. carves s' = carves s @ [c] \<and> blk c = [\<lparr>boff = 0, bsize = csize c, used = False\<rparr>] \<and> need \<le> csize c
     else carves s' = carves s)"
proof -
  define want where "want = (if need > CarveBytes then need else CarveBytes)"
  define len where "len = alignUp want DirectAlign"
  have w: "need \<le> want" "0 < want" "want + (DirectAlign - 1) < 2 ^ 64"
    using assms(4) by (auto simp: want_def mmap_consts)
  have len: "want \<le> len" "DirectAlign dvd len"
    using alignUp_small [OF w(3)] by (auto simp: len_def mmap_consts)
  have pl: "Page dvd len" using len(2) by (rule dvd_trans [rotated]) (simp add: mmap_consts)
  note ok = assms(2) [unfolded mm_ok_def]
  obtain eA ph k1 where A: "AllocateDirect K len DirectAlign (mkst s) = (eA, ph, k1)" by (metis prod_cases3)
  obtain eM at k2 where M: "MapDirect K len ph DirectAlign k1 = (eM, at, k2)" by (metis prod_cases3)
  show ?thesis
  proof (cases "length (carves s) < MaxCarves \<and> add64 (heldBytes s) len \<le> DirectCap \<and> eA = 0 \<and> eM = 0 \<and> at mod Page = 0")
    case False
    then have "\<not> ok" "carves s' = carves s" "heldBytes s' = heldBytes s" "liveBytes s' = liveBytes s" "mmem s' = mmem s"
      "fallbackCalls s' = fallbackCalls s" "cumMapped s' = cumMapped s" "peakLive s' = peakLive s"
      using assms(1) A M
      by (auto simp: addCarveLocked_def Let_def mm_say_def len_def [symmetric] want_def [symmetric] split: if_splits)
    with ok show ?thesis by (simp add: mm_ok_def)
  next
    case True
    have "MapDirect K len ph DirectAlign k1 = (0, at, k2)" using M True by simp
    then have fresh: "at + len < 2 ^ 64" "\<forall>c \<in> set (carves s). apart at len (va c) (csize c)"
      using assms(3) A unfolding map_fresh_now_def by blast+
    have "len \<le> want + (DirectAlign - 1)"
      using w(3) by (simp add: len_def alignUp_def round_up64_small round_up_le)
    then have "heldBytes s + len < 2 ^ 64" using ok assms(4) by (simp add: want_def mmap_consts split: if_splits)
    then have hl: "add64 (heldBytes s) len = heldBytes s + len" by (rule add64_small)
    let ?c = "\<lparr>va = at, cphys = ph, csize = len, blk = [\<lparr>boff = 0, bsize = len, used = False\<rparr>]\<rparr>"
    have s': "ok" "carves s' = carves s @ [?c]" "heldBytes s' = heldBytes s + len" "liveBytes s' = liveBytes s" "mmem s' = mmem s"
      "fallbackCalls s' = fallbackCalls s" "cumMapped s' = cumMapped s" "peakLive s' = peakLive s"
      using assms(1) A M True hl
      by (auto simp: addCarveLocked_def Let_def mm_say_def len_def [symmetric] want_def [symmetric])
    have "one_carve_ok ?c"
      using pl len(1) w(2) fresh(1) True by (auto simp: one_carve_ok_def carve_ok_def page_blocks_def dvd_eq_mod_eq_0)
    then show ?thesis
      using s' ok fresh(2) True hl len(1) w(1)
      by (auto simp: mm_ok_def table_ok_snoc carve_maps_def used_bytes_def)
  qed
qed

text \<open>The locked part of \<open>mapOwned\<close>.\<close>

lemma map_carved_ok:
  assumes "map_carved K want s = (r, s')" "mm_ok s" "map_fresh_now K s" "0 < want" "want < 2 ^ 63" "Page dvd want"
  shows "mmem s' = mmem s \<and> fallbackCalls s' = fallbackCalls s \<and> cumMapped s' = cumMapped s \<and> peakLive s' = peakLive s \<and>
    (case r of
       None \<Rightarrow> mm_ok s' \<and> live_maps (carves s') = live_maps (carves s)
     | Some a \<Rightarrow> mm_ok (s'\<lparr>liveBytes := liveBytes s' + want\<rparr>) \<and> Page dvd a \<and> liveBytes s' = liveBytes s \<and>
         live_maps (carves s') = insert (a, want) (live_maps (carves s)) \<and>
         (\<forall>m \<in> live_maps (carves s). apart (fst m) (snd m) a want))"
proof -
  note ok = assms(2) [unfolded mm_ok_def]
  show ?thesis
  proof (cases "alloc_carves want (carves s)")
    case (Some acs)
    then obtain a cs where a: "alloc_carves want (carves s) = Some (a, cs)" by (cases acs) auto
    note ac = alloc_carves_ok [OF a _ assms(4,6)]
    have "length cs = length (carves s)" using ac ok by (metis length_map)
    with a ac ok assms(1) show ?thesis
      by (auto simp: map_carved_def mm_ok_def)
  next
    case None
    obtain okc s1 where add: "addCarveLocked K want s = (okc, s1)" by (metis surj_pair)
    note ad = addCarve_ok [OF add assms(2,3,5)]
    show ?thesis
    proof (cases okc)
      case False with None add ad assms(1) show ?thesis by (simp add: map_carved_def)
    next
      case True
      with ad obtain c where c: "carves s1 = carves s @ [c]" "blk c = [\<lparr>boff = 0, bsize = csize c, used = False\<rparr>]"
        "want \<le> csize c" by auto
      have ok1: "mm_ok s1" using ad by simp
      then have oc: "one_carve_ok c" and tb: "table_ok (carves s)" "\<forall>d \<in> set (carves s). carves_apart c d"
        by (auto simp: mm_ok_def c(1) table_ok_snoc)
      obtain at bs where al: "allocInLocked (length (blk c)) want (blk c) = Some (at, bs)"
        using c(2,3) by (cases "csize c = want") (auto simp: MaxBlocks_def)
      note ca = carve_alloc [OF al oc assms(4,6)]
      have r: "r = Some (va c + at)" "s' = s1\<lparr>carves := carves s @ [c\<lparr>blk := bs\<rparr>]\<rparr>"
        using assms(1) None add True c(1) al ca by (simp_all add: map_carved_def)
      have "apart (fst m) (snd m) (va c + at) want" if m: "m \<in> live_maps (carves s)" for m
      proof -
        from live_maps_inside [OF tb(1) m] obtain d where "d \<in> set (carves s)" "inside (fst m) (snd m) d" by blast
        with tb(2) ca show ?thesis by (force simp: apart_def)
      qed
      moreover have "carve_maps c = {}" by (auto simp: carve_maps_def c(2))
      moreover have "used_bytes (blk c) = 0" by (simp add: used_bytes_def c(2))
      ultimately show ?thesis
        using ok1 tb ca r ad used_bytes_alloc [OF al] by (simp add: mm_ok_def c(1) table_ok_snoc)
    qed
  qed
qed

section \<open>Releasing\<close>

lemma carve_of_Some:
  "carveOfLocked p cs = Some i \<Longrightarrow> table_ok cs \<Longrightarrow> i < length cs \<and> inside p 1 (cs ! i)"
proof (induction cs arbitrary: i)
  case (Cons c cs)
  have "add64 (va c) (csize c) = va c + csize c" using Cons.prems(2) by (auto simp: one_carve_ok_def add64_small)
  with Cons show ?case by (auto split: if_splits)
qed simp

lemma carve_of_mem:
  "table_ok cs \<Longrightarrow> i < length cs \<Longrightarrow> inside p 1 (cs ! i) \<Longrightarrow> carveOfLocked p cs = Some i"
proof (induction cs arbitrary: i)
  case (Cons c cs)
  have a: "add64 (va c) (csize c) = va c + csize c" using Cons.prems(1) by (auto simp: one_carve_ok_def add64_small)
  show ?case
  proof (cases i)
    case 0 with Cons.prems a show ?thesis by simp
  next
    case (Suc j)
    with Cons.prems have p: "inside p 1 (cs ! j)" "j < length cs" by auto
    then have "carves_apart c (cs ! j)" using Cons.prems(1) by auto
    with p(1) have "\<not> inside p 1 c" by (auto simp: apart_def)
    with Cons.IH [of j] Cons.prems p a Suc show ?thesis by auto
  qed
qed simp


text \<open>Releasing a live mapping through \<open>freeInLocked\<close>.\<close>

lemma tiles_dvd_end: "tiles a bs e \<Longrightarrow> page_blocks bs \<Longrightarrow> Page dvd a \<Longrightarrow> Page dvd e"
  by (induction bs arbitrary: a) (auto simp: page_blocks_def)

lemma tiles_page_blocks:
  "tiles a bs e \<Longrightarrow> Page dvd e \<Longrightarrow> (\<forall>b \<in> set bs. Page dvd boff b) \<Longrightarrow> page_blocks bs"
proof (induction bs arbitrary: a)
  case (Cons b bs)
  then have t: "tiles (a + bsize b) bs e" and b: "boff b = a" "Page dvd a" by auto
  have "Page dvd a + bsize b" using t Cons.prems(2,3) by (cases bs) auto
  with b(2) have "Page dvd bsize b" by (simp add: dvd_add_right_iff)
  with Cons.IH [OF t] Cons.prems b show ?case by (auto simp: page_blocks_def)
qed (simp add: page_blocks_def)

lemma sum_remove1:
  "x \<in> set xs \<Longrightarrow> sum_list (map f (remove1 x xs)) = sum_list (map f xs) - (f x :: nat) \<and> f x \<le> sum_list (map f xs)"
  by (induction xs) auto

lemma distinct_used: "tiles a bs e \<Longrightarrow> distinct bs"
proof (induction bs arbitrary: a)
  case (Cons b bs)
  then have t: "tiles (a + bsize b) bs e" by simp
  with Cons show ?case using tiles_mem [OF t, of b] by auto
qed simp

lemma carve_release:
  assumes "one_carve_ok c" "b \<in> set (blk c)" "used b"
  obtains bs where "free_blocks (boff b) (bsize b) (blk c) = Some bs" "one_carve_ok (c\<lparr>blk := bs\<rparr>)"
    "carve_maps (c\<lparr>blk := bs\<rparr>) = carve_maps c - {(va c + boff b, bsize b)}"
    "used_bytes bs = used_bytes (blk c) - bsize b" "bsize b \<le> used_bytes (blk c)"
proof -
  from assms(1) have ok: "carve_ok (csize c) (blk c)" and sz: "csize c < 2 ^ 64" and pb: "page_blocks (blk c)"
    by (auto simp: one_carve_ok_def)
  then have t: "tiles 0 (blk c) (csize c)" by (simp add: carve_ok_def)
  obtain bs where bs: "free_blocks (boff b) (bsize b) (blk c) = Some bs" "carve_ok (csize c) bs"
    "filter used bs = remove1 b (filter used (blk c))" "boff ` set bs \<subseteq> boff ` set (blk c)"
    by (rule free_blocks_ok [OF ok assms(2,3) sz])
  have pb': "page_blocks bs"
    using bs(2,4) pb tiles_dvd_end [OF t pb]
    by (intro tiles_page_blocks [of 0 bs "csize c"]) (auto simp: carve_ok_def page_blocks_def)
  have fs: "{x \<in> set bs. used x} = {x \<in> set (blk c). used x} - {b}"
    using arg_cong [OF bs(3), of set] distinct_used [OF t] by (simp add: set_remove1_eq)
  have eq: "x = b" if "boff x = boff b" "x \<in> set (blk c)" for x
  proof (rule ccontr)
    assume "x \<noteq> b"
    with tiles_apart [OF t that(2) assms(2)] have "apart (boff b) (bsize x) (boff b) (bsize b)" by (simp add: that(1))
    with tiles_mem [OF t that(2)] tiles_mem [OF t assms(2)] show False unfolding apart_def by linarith
  qed
  have "carve_maps (c\<lparr>blk := bs\<rparr>) = (\<lambda>x. (va c + boff x, bsize x)) ` ({x \<in> set (blk c). used x} - {b})"
    by (auto simp: carve_maps_def simp flip: fs)
  also have "\<dots> = carve_maps c - {(va c + boff b, bsize b)}" using eq assms(3) by (auto simp: carve_maps_def)
  finally have "carve_maps (c\<lparr>blk := bs\<rparr>) = carve_maps c - {(va c + boff b, bsize b)}" .
  moreover have "b \<in> set (filter used (blk c))" using assms(2,3) by simp
  ultimately show ?thesis
    using that [OF bs(1)] assms(1) bs(2,3) pb' sum_remove1 [of b "filter used (blk c)" bsize]
    by (auto simp: one_carve_ok_def used_bytes_def)
qed

lemma tiles_sum: "tiles a bs e \<Longrightarrow> a + sum_list (map bsize bs) = e"
  by (induction bs arbitrary: a) (auto simp flip: add.assoc)

lemma used_bytes_le: "one_carve_ok c \<Longrightarrow> used_bytes (blk c) \<le> csize c"
proof -
  have "used_bytes bs \<le> sum_list (map bsize bs)" for bs by (induction bs) (auto simp: used_bytes_def)
  then show "one_carve_ok c \<Longrightarrow> used_bytes (blk c) \<le> csize c"
    using tiles_sum [of 0 "blk c" "csize c"] by (metis add_0 carve_ok_def one_carve_ok_def)
qed

text \<open>A mapping found in the table is found again by its address.\<close>

lemma live_map_find:
  assumes "table_ok cs" "(p, len) \<in> live_maps cs"
  obtains pre c post b where "cs = pre @ c # post" "one_carve_ok c" "b \<in> set (blk c)" "used b"
    "p = va c + boff b" "len = bsize b" "carveOfLocked p cs = Some (length pre)" "sub64 p (va c) = boff b"
    "\<And>d m. d \<in> set pre \<union> set post \<Longrightarrow> m \<in> carve_maps d \<Longrightarrow> m \<noteq> (p, len)"
proof -
  from assms obtain c where c: "c \<in> set cs" "(p, len) \<in> carve_maps c" and oc: "one_carve_ok c"
    by (auto simp: live_maps_def table_ok_def)
  then obtain pre post where s: "cs = pre @ c # post" by (meson split_list)
  from c(2) obtain b where b: "b \<in> set (blk c)" "used b" "p = va c + boff b" "len = bsize b"
    by (auto simp: carve_maps_def)
  from carve_maps_inside [OF oc c(2)] have i: "inside p len c" "0 < len" by auto
  then have f: "carveOfLocked p cs = Some (length pre)"
    by (intro carve_of_mem [OF assms(1)]) (auto simp: s)
  have "p < 2 ^ 64" using i oc by (auto simp: one_carve_ok_def)
  then have o: "sub64 p (va c) = boff b" using b(3) by (simp add: sub64_small)
  have "m \<noteq> (p, len)" if "d \<in> set pre \<union> set post" "m \<in> carve_maps d" for d m
  proof -
    have "one_carve_ok d" "carves_apart d c"
      using assms(1) that(1) by (auto simp: s table_ok_def sorted_wrt_append apart_sym [of _ _ "va c"])
    from carve_maps_inside [OF this(1) that(2)] this(2) i show ?thesis by (auto simp: apart_def)
  qed
  then show ?thesis using that [OF s oc b f o] by blast
qed

lemma unmap_live:
  assumes "mm_ok s" "(p, len) \<in> live_maps (carves s)" "alignUp n Page = len"
  shows "\<exists>s'. unmap_locked p n s = (Some True, s') \<and> mm_ok s' \<and>
    live_maps (carves s') = live_maps (carves s) - {(p, len)} \<and> extents (carves s') = extents (carves s) \<and>
    mmem s' = mmem s \<and> mkst s' = mkst s"
proof -
  from assms(1) have tb: "table_ok (carves s)" by (simp add: mm_ok_def)
  obtain pre c post b where f: "carves s = pre @ c # post" "one_carve_ok c" "b \<in> set (blk c)" "used b"
    "p = va c + boff b" "len = bsize b" "carveOfLocked p (carves s) = Some (length pre)" "sub64 p (va c) = boff b"
    and other: "\<And>d m. d \<in> set pre \<union> set post \<Longrightarrow> m \<in> carve_maps d \<Longrightarrow> m \<noteq> (p, len)"
    by (rule live_map_find [OF tb assms(2)]) blast
  obtain bs where bs: "free_blocks (boff b) (bsize b) (blk c) = Some bs" "one_carve_ok (c\<lparr>blk := bs\<rparr>)"
    "carve_maps (c\<lparr>blk := bs\<rparr>) = carve_maps c - {(va c + boff b, bsize b)}"
    "used_bytes bs = used_bytes (blk c) - bsize b" "bsize b \<le> used_bytes (blk c)"
    by (rule carve_release [OF f(2-4)])
  have live: "live_maps (pre @ c\<lparr>blk := bs\<rparr> # post) = live_maps (carves s) - {(p, len)}"
    using other bs(3) f(5,6) by (auto simp: f(1) live_maps_def)
  have lb: "sub64 (liveBytes s) len = liveBytes s - len" "len \<le> liveBytes s"
  proof -
    have "len \<le> liveBytes s" using assms(1) bs(5) f(6) by (simp add: mm_ok_def f(1))
    moreover have "liveBytes s \<le> heldBytes s"
    proof -
      have "sum_list (map (used_bytes \<circ> blk) (carves s)) \<le> sum_list (map csize (carves s))"
        using tb used_bytes_le by (intro sum_list_mono) (auto simp: table_ok_def)
      then show ?thesis using assms(1) by (simp add: mm_ok_def)
    qed
    ultimately show "sub64 (liveBytes s) len = liveBytes s - len" "len \<le> liveBytes s"
      using assms(1) by (auto simp: mm_ok_def mmap_consts intro!: sub64_small)
  qed
  show ?thesis
    using f assms(1,3) bs live lb table_ok_replace [of pre c post "c\<lparr>blk := bs\<rparr>"]
    by (auto simp: unmap_locked_def freeInLocked_def mm_ok_def nth_append list_update_append)
qed

lemma munmap_live:
  assumes "mm_ok s" "(p, len) \<in> live_maps (carves s)" "alignUp n Page = len"
  shows "\<exists>s'. mm_munmap K p n s = (0, s') \<and> mm_ok s' \<and> live_maps (carves s') = live_maps (carves s) - {(p, len)} \<and>
    mmem s' = mmem s \<and> mkst s' = mkst s"
  using unmap_live [of "s\<lparr>nMunmap := add64 (nMunmap s) 1\<rparr>" p len n] assms by (auto simp: mm_munmap_def mm_ok_def)

end
