(* ===== verification/Mmap_Props.thy ===== *)
theory Mmap_Props
  imports Mmap_Carves
begin

text \<open>
  What the anonymous-mapping interposer of \<open>src/orbis_mmap.cpp\<close> guarantees: exact
  release, and no loss of address space in a carve-out.
\<close>

section \<open>Concrete instances\<close>

text \<open>A kernel that grants direct memory and maps a carve-out at 1 TiB.\<close>

definition demo_mm_kernel :: "nat mm_kernel" where
  "demo_mm_kernel = \<lparr>
     AllocateDirect = (\<lambda>len al k. (0, k, k + len)),
     MapDirect = (\<lambda>len ph al k. if len < 2 ^ 40 then (0, 2 ^ 40, k) else (12, 0, k)),
     MunmapDirect = (\<lambda>a len k. k), ReleaseDirect = (\<lambda>ph len k. k),
     os_mmap = (\<lambda>a len prot fl fd foff k. (2 ^ 45, k)), os_munmap = (\<lambda>a len k. (0, k)),
     os_madvise = (\<lambda>a len ad k. (0, k))\<rparr>"

abbreviation demo_mm :: "nat mm_state" where
  "demo_mm \<equiv> mm_init (\<lambda>_. 7) 0"

lemma alignUp_bounds: "0 < n \<Longrightarrow> n < 2 ^ 62 \<Longrightarrow> n \<le> alignUp n Page \<and> alignUp n Page < n + Page \<and> Page dvd alignUp n Page"
proof -
  assume n: "0 < n" "n < 2 ^ 62"
  then have u: "alignUp n Page = (n + (Page - 1)) div Page * Page"
    by (simp add: alignUp_def Page_def round_up64_small)
  have "(n + (Page - 1)) div Page * Page \<le> n + (Page - 1)" by (rule round_up_le)
  then show ?thesis unfolding u using round_up_ge [of Page n] by (simp add: Page_def)
qed

lemma add64_neq: "add64 n 1 \<noteq> n"
proof
  assume "add64 n 1 = n"
  then have "(n + 1) mod 2 ^ 64 = n" by (simp add: add64_def w64_def)
  moreover from this have "n < 2 ^ 64" by (metis mod_less_divisor zero_less_numeral zero_less_power)
  moreover from this have "n + 1 < 2 ^ 64 \<or> n + 1 = 2 ^ 64" by linarith
  ultimately show False by auto
qed

text \<open>The count of live bytes cannot wrap: it is bounded by the carve-outs.\<close>

lemma live_bytes_bound: "mm_ok s \<Longrightarrow> liveBytes s < 2 ^ 64"
proof -
  assume ok: "mm_ok s"
  then have "liveBytes s = sum_list (map (used_bytes \<circ> blk) (carves s))" by (simp add: mm_ok_def)
  also have "\<dots> \<le> sum_list (map csize (carves s))"
    using ok used_bytes_le by (intro sum_list_mono) (auto simp: mm_ok_def table_ok_def)
  also have "\<dots> < 2 ^ 64" using ok by (simp add: mm_ok_def mmap_consts)
  finally show ?thesis .
qed

text \<open>
  C24. \<open>__munmap\<close> of an address inside a carve-out releases exactly what was handed out: when
  the address and the rounded length name a live mapping it returns 0 and that mapping alone
  leaves the live ones; otherwise it returns \<open>-1\<close> with \<open>EINVAL\<close> and no block changes. Either
  way the table stays well formed and the platform is not called.
\<close>

theorem munmap_exact:
  assumes "mm_ok s" "carveOfLocked p (carves s) = Some i" "mm_munmap K p n s = (r, s')"
  shows "mm_ok s' \<and> mkst s' = mkst s \<and>
    (if (p, alignUp n Page) \<in> live_maps (carves s)
     then r = 0 \<and> live_maps (carves s') = live_maps (carves s) - {(p, alignUp n Page)}
     else r = -1 \<and> merrno s' = EINVAL \<and> carves s' = carves s)"
proof (cases "(p, alignUp n Page) \<in> live_maps (carves s)")
  case True with munmap_live [OF assms(1) True refl, of K] assms(3) show ?thesis by auto
next
  case False
  from assms(1) have tb: "table_ok (carves s)" by (simp add: mm_ok_def)
  from carve_of_Some [OF assms(2) tb] have i: "i < length (carves s)" "inside p 1 (carves s ! i)" by auto
  then have oc: "one_carve_ok (carves s ! i)" using tb by (simp add: table_ok_def)
  then have sub: "sub64 p (va (carves s ! i)) = p - va (carves s ! i)"
    using i(2) by (intro sub64_small) (auto simp: one_carve_ok_def)
  have none: "free_blocks (p - va (carves s ! i)) (alignUp n Page) (blk (carves s ! i)) = None"
  proof (rule ccontr)
    assume "\<not> ?thesis"
    then obtain bs where "free_blocks (p - va (carves s ! i)) (alignUp n Page) (blk (carves s ! i)) = Some bs" by auto
    then obtain b where b: "b \<in> set (blk (carves s ! i))" "used b" "boff b = p - va (carves s ! i)" "bsize b = alignUp n Page"
      by (rule free_blocks_Some)
    then have "(p, alignUp n Page) = (va (carves s ! i) + boff b, bsize b)" using i(2) by simp
    with b(1,2) have "(p, alignUp n Page) \<in> carve_maps (carves s ! i)" unfolding carve_maps_def by blast
    with False i(1) show False unfolding live_maps_def using nth_mem by blast
  qed
  have "r = -1 \<and> merrno s' = EINVAL \<and> carves s' = carves s \<and> heldBytes s' = heldBytes s \<and>
      liveBytes s' = liveBytes s \<and> mkst s' = mkst s"
    using assms(2,3) none sub by (auto simp: mm_munmap_def unmap_locked_def freeInLocked_def mm_say_def Let_def split: if_splits)
  with False assms(1) show ?thesis by (simp add: mm_ok_def)
qed

definition demo_mapped :: "nat mm_state" where
  "demo_mapped = snd (mm_mmap True demo_mm_kernel 0 0x4000 OwnedProt OwnedFlags (-1) 0 demo_mm)"

theorem munmap_exact_witness:
  "\<exists>s' s''. mm_munmap demo_mm_kernel (2 ^ 40) 0x4000 demo_mapped = (0, s') \<and>
     mm_munmap demo_mm_kernel (2 ^ 40) 0x8000 demo_mapped = (-1, s'')"
proof -
  have c: "carves demo_mapped = [\<lparr>va = 2 ^ 40, cphys = 0, csize = CarveBytes,
      blk = [\<lparr>boff = 0, bsize = 0x4000, used = True\<rparr>, \<lparr>boff = 0x4000, bsize = CarveBytes - 0x4000, used = False\<rparr>]\<rparr>]"
    and f: "fallbackCalls demo_mapped = fallbackCalls demo_mm"
    and eq: "mm_mmap True demo_mm_kernel 0 0x4000 OwnedProt OwnedFlags (-1) 0 demo_mm = (2 ^ 40, demo_mapped)"
    by (simp_all add: demo_mapped_def mm_mmap_def isOwnedRequest_def banner_def mm_say_def mapOwned_def map_locked_def map_carved_def
        mm_init_def addCarveLocked_def demo_mm_kernel_def alignUp_def wrap_simps mmap_consts noteLive_def Let_def)
  have ok: "mm_ok demo_mapped"
    by (simp add: mm_ok_def c one_carve_ok_def carve_ok_def page_blocks_def used_bytes_def demo_mapped_def
        mm_mmap_def isOwnedRequest_def banner_def mm_say_def mapOwned_def map_locked_def map_carved_def
        mm_init_def addCarveLocked_def demo_mm_kernel_def alignUp_def wrap_simps mmap_consts noteLive_def Let_def)
  have at: "carveOfLocked (2 ^ 40) (carves demo_mapped) = Some 0"
    by (simp add: c wrap_simps mmap_consts)
  obtain r1 s1 r2 s2 where m: "mm_munmap demo_mm_kernel (2 ^ 40) 0x4000 demo_mapped = (r1, s1)"
    "mm_munmap demo_mm_kernel (2 ^ 40) 0x8000 demo_mapped = (r2, s2)" by (metis surj_pair)
  show ?thesis
    using munmap_exact [OF ok at m(1)] munmap_exact [OF ok at m(2)] m
    by (simp_all add: c carve_maps_UN alignUp_def wrap_simps mmap_consts)
qed


section \<open>A carve-out over time\<close>

text \<open>The blocks in use are exactly the live ones of a run.\<close>

definition used_pairs :: "mblock list \<Rightarrow> (nat \<times> nat) set" where
  "used_pairs bs = (\<lambda>b. (boff b, bsize b)) ` set (filter used bs)"

abbreviation carve_take :: "nat \<Rightarrow> mblock list \<Rightarrow> (nat \<times> mblock list) option" where
  "carve_take len bs \<equiv> allocInLocked (length bs) len bs"

abbreviation carve_give :: "nat \<Rightarrow> nat \<Rightarrow> mblock list \<Rightarrow> mblock list" where
  "carve_give at len bs \<equiv> (case free_blocks at len bs of None \<Rightarrow> bs | Some bs' \<Rightarrow> bs')"

lemma used_pairs_simps [simp]:
  "used_pairs [] = {}"
  "used_pairs (b # bs) = (if used b then {(boff b, bsize b)} else {}) \<union> used_pairs bs"
  "used_pairs (xs @ ys) = used_pairs xs \<union> used_pairs ys"
  by (auto simp: used_pairs_def)

lemma used_pairs_take: "carve_take len bs = Some (at, bs') \<Longrightarrow> used_pairs bs' = insert (at, len) (used_pairs bs)"
proof -
  assume "carve_take len bs = Some (at, bs')"
  from alloc_split [OF this] obtain pre b post where s: "bs = pre @ b # post" "\<not> used b" "at = boff b" and
    n: "bs' = (if bsize b = len then pre @ b\<lparr>used := True\<rparr> # post
            else pre @ b\<lparr>bsize := len, used := True\<rparr> #
              \<lparr>boff = add64 (boff b) len, bsize = bsize b - len, used = False\<rparr> # post)" by blast
  then show ?thesis by (cases "bsize b = len") auto
qed

lemma used_pairs_give:
  assumes "carve_ok sz bs" "sz < 2 ^ 64" "(at, len) \<in> used_pairs bs"
  shows "used_pairs (carve_give at len bs) = used_pairs bs - {(at, len)}"
proof -
  from assms(1) have t: "tiles 0 bs sz" by (simp add: carve_ok_def)
  from assms(3) obtain b where b: "b \<in> set bs" "used b" "at = boff b" "len = bsize b" by (auto simp: used_pairs_def)
  obtain bs' where f: "free_blocks at len bs = Some bs'" "filter used bs' = remove1 b (filter used bs)"
    using b(3,4) by (auto intro: free_blocks_ok [OF assms(1) b(1,2) assms(2)])
  have eq: "x = b" if "boff x = boff b" "x \<in> set bs" for x
  proof (rule ccontr)
    assume "x \<noteq> b"
    with tiles_apart [OF t that(2) b(1)] have "apart (boff b) (bsize x) (boff b) (bsize b)" by (simp add: that(1))
    with tiles_mem [OF t that(2)] tiles_mem [OF t b(1)] show False unfolding apart_def by linarith
  qed
  have "set (filter used bs') = set (filter used bs) - {b}"
    unfolding f(2) by (rule set_remove1_eq) (use distinct_used [OF t] in simp)
  then show ?thesis using eq b f(1) by (auto simp: used_pairs_def)
qed

lemma disjoint_distinct: "disjoint_blocks bs \<Longrightarrow> \<forall>b \<in> set bs. 0 < snd b \<Longrightarrow> distinct bs"
  by (induction bs) (fastforce simp: disjoint_blocks_Cons)+

lemma carve_run_used:
  assumes "carve_ok sz bs" "sz < 2 ^ 64" "used_pairs bs = set live" "carve_pool.consistent sz (bs, live)"
  shows "used_pairs (fst (pool_run carve_take carve_give ops (bs, live))) =
      set (snd (pool_run carve_take carve_give ops (bs, live))) \<and>
    carve_ok sz (fst (pool_run carve_take carve_give ops (bs, live)))"
  using assms
proof (induction ops arbitrary: bs live)
  case Nil
  from Nil(1,3) show ?case by (simp add: pool_run_def)
next
  case (Cons op ops)
  obtain bs1 live1 where s: "pool_step carve_take carve_give op (bs, live) = (bs1, live1)" by (rule prod.exhaust)
  have c: "carve_pool.consistent sz (bs1, live1)"
    using carve_pool.consistent_step [OF Cons.prems(4)] unfolding s [symmetric] .
  then have ok: "carve_ok sz bs1" unfolding carve_pool.consistent_def by simp
  have "used_pairs bs1 = set live1"
  proof (cases op)
    case (Take len)
    with s Cons.prems(3) show ?thesis by (auto split: if_splits option.splits dest: used_pairs_take)
  next
    case (Give at len)
    have "distinct live" using Cons.prems(4) disjoint_distinct unfolding carve_pool.consistent_def by auto
    show ?thesis
    proof (cases "(at, len) \<in> set live")
      case True
      with s Give have n: "bs1 = carve_give at len bs" "live1 = remove1 (at, len) live" by simp_all
      have "used_pairs bs1 = used_pairs bs - {(at, len)}"
        unfolding n(1) by (rule used_pairs_give [OF Cons.prems(1,2)]) (use True Cons.prems(3) in simp)
      with \<open>distinct live\<close> show ?thesis unfolding n(2) by (simp add: set_remove1_eq Cons.prems(3))
    next
      case False with s Give Cons.prems(3) show ?thesis by simp
    qed
  qed
  from Cons.IH [OF ok Cons.prems(2) this c] s show ?case by (simp add: pool_run_def)
qed

lemma all_free:
  assumes "carve_ok sz bs" "filter used bs = []" "0 < sz"
  shows "bs = [\<lparr>boff = 0, bsize = sz, used = False\<rparr>]"
proof -
  have nu: "\<not> used b" if "b \<in> set bs" for b using assms(2) that by (simp add: filter_empty_conv)
  show ?thesis
  proof (cases bs)
    case Nil with assms(1,3) show ?thesis by (simp add: carve_ok_def)
  next
    case (Cons b cs)
    with assms(1) nu have "cs = []" by (cases cs) (auto simp: carve_ok_def)
    with Cons assms(1) nu [of b] show ?thesis by (cases b) (simp add: carve_ok_def)
  qed
qed

text \<open>
  C25. Whatever sequence of allocations and releases a carve-out sees, its live blocks are
  disjoint and are exactly the blocks in use, every other byte is free, and once nothing is
  live the carve-out is one free block of its full size again: no address space is lost to
  fragmentation or to a forgotten merge.
\<close>

theorem carve_reuse:
  assumes "0 < sz" "sz < 2 ^ 64"
    "pool_run carve_take carve_give ops ([\<lparr>boff = 0, bsize = sz, used = False\<rparr>], []) = (bs, live)"
  shows "disjoint_blocks live \<and> used_pairs bs = set live \<and>
    free_of bs = {0..<sz} - (\<Union>b \<in> set live. block b) \<and>
    (live = [] \<longrightarrow> bs = [\<lparr>boff = 0, bsize = sz, used = False\<rparr>])"
proof -
  let ?init = "[\<lparr>boff = 0, bsize = sz, used = False\<rparr>]"
  have ok: "carve_ok sz ?init" using assms(1) by (simp add: carve_ok_def)
  then have c: "carve_pool.consistent sz (?init, [])"
    unfolding carve_pool.consistent_def using assms(2) by simp
  from carve_run_used [OF ok assms(2) _ c, of ops] assms(3)
  have u: "used_pairs bs = set live" "carve_ok sz bs" by (simp_all add: used_pairs_def)
  have "disjoint_blocks live" using carve_pool.run_disjoint [of sz ?init ops] ok assms(2,3) by simp
  moreover have "used_of bs = (\<Union>b \<in> set live. block b)" by (auto simp: bytes_where_def used_pairs_def simp flip: u(1))
  moreover have "live = [] \<Longrightarrow> filter used bs = []" using u(1) by (simp add: used_pairs_def)
  ultimately show ?thesis
    using u all_free [OF u(2) _ assms(1)] free_of_used [of 0 bs sz] by (auto simp: carve_ok_def)
qed

theorem carve_reuse_witness:
  "\<exists>bs. pool_run carve_take carve_give [Take 0x4000, Take 0x8000, Give 0 0x4000]
      ([\<lparr>boff = 0, bsize = 0x20000, used = False\<rparr>], []) = (bs, [(0x4000, 0x8000)]) \<and>
    free_of bs = {0..<0x20000} - {0x4000..<0xc000}"
proof -
  have r: "pool_run carve_take carve_give [Take 0x4000, Take 0x8000, Give 0 0x4000]
      ([\<lparr>boff = 0, bsize = 0x20000, used = False\<rparr>], []) =
    ([\<lparr>boff = 0, bsize = 0x4000, used = False\<rparr>, \<lparr>boff = 0x4000, bsize = 0x8000, used = True\<rparr>,
      \<lparr>boff = 0xc000, bsize = 0x14000, used = False\<rparr>], [(0x4000, 0x8000)])"
    by (simp add: pool_run_def MaxBlocks_def wrap_simps free_blocks_def block_search.simps merge_forward_def merge_back_def)
  from carve_reuse [OF _ _ r] show ?thesis by (auto simp: r)
qed

section \<open>The block table\<close>

lemma coalesced_length:
  "coalesced bs \<Longrightarrow> length bs \<le> 2 * length (filter used bs) + (if bs \<noteq> [] \<and> \<not> used (hd bs) then 1 else 0)"
  by (induction bs rule: coalesced.induct) (auto split: if_splits)

text \<open>
  C26. The block table of a carve-out of the standard size never fills: with mappings of at
  least 240 KiB, musl's smallest, it holds at most 546 used and 1093 blocks in all, below
  \<open>MaxBlocks\<close>, so an allocation fails only when no free block is large enough (the branch
  that skips a block for want of a slot is not taken).
\<close>

theorem carve_table_never_full:
  assumes "carve_ok CarveBytes bs" "\<forall>b \<in> set bs. used b \<longrightarrow> 240 * 1024 \<le> bsize b"
  shows "length (filter used bs) \<le> 546 \<and> length bs \<le> 1093 \<and> length bs < MaxBlocks \<and>
    (carve_take len bs = None \<longleftrightarrow> (\<forall>b \<in> set bs. used b \<or> bsize b < len))"
proof -
  have "sum_list (map (\<lambda>_. 240 * 1024) (filter used bs)) \<le> sum_list (map bsize (filter used bs))"
    by (rule sum_list_mono) (use assms(2) in auto)
  also have "\<dots> \<le> sum_list (map bsize bs)" by (induction bs) auto
  also have "\<dots> = CarveBytes" using tiles_sum [of 0 bs CarveBytes] assms(1) by (simp add: carve_ok_def)
  finally have "length (filter used bs) * (240 * 1024) \<le> CarveBytes" by (simp add: sum_list_triv)
  then have u: "length (filter used bs) \<le> 546" by (simp add: CarveBytes_def)
  moreover from u have l: "length bs \<le> 1093"
    using coalesced_length [of bs] assms(1) by (simp add: carve_ok_def split: if_splits)
  ultimately show ?thesis using alloc_None [of "length bs" len bs] by (simp add: MaxBlocks_def)
qed

theorem carve_table_never_full_witness:
  "carve_take 0x4000 [\<lparr>boff = 0, bsize = 0x40000, used = True\<rparr>,
      \<lparr>boff = 0x40000, bsize = CarveBytes - 0x40000, used = False\<rparr>] \<noteq> None"
  using carve_table_never_full [of "[\<lparr>boff = 0, bsize = 0x40000, used = True\<rparr>,
      \<lparr>boff = 0x40000, bsize = CarveBytes - 0x40000, used = False\<rparr>]" "0x4000"]
  by (simp add: carve_ok_def CarveBytes_def)

section \<open>Zero-length requests\<close>

text \<open>
  A request of zero bytes (or one whose rounding wraps to zero) is served too, by a block of
  no bytes: the next request is given the same address.
\<close>

lemma mmap_zero_length_shared:
  "\<exists>s1 s2. mm_mmap True demo_mm_kernel 0 0 OwnedProt OwnedFlags (-1) 0 demo_mm = (2 ^ 40, s1) \<and>
     mm_mmap True demo_mm_kernel 0 0x4000 OwnedProt OwnedFlags (-1) 0 s1 = (2 ^ 40, s2)"
  by (simp add: mm_mmap_def isOwnedRequest_def banner_def mm_say_def mapOwned_def map_locked_def map_carved_def mm_init_def
      addCarveLocked_def demo_mm_kernel_def alignUp_def wrap_simps mmap_consts noteLive_def Let_def)

end
