(* ===== verification/Time.thy ===== *)
theory Time
  imports Prelude
begin

text \<open>
  \<open>struct timespec\<close> and the clock numbers of this SDK (Linux numbering), shared by the futex, the
  clocks and the timers. Seconds and nanoseconds are 64-bit signed integers in the sources: here they
  are integers, and every sum, difference and product of them is brought back into 64 bits by
  \<open>s64\<close>. (C leaves a signed overflow undefined; the machine's instructions wrap, as \<open>s64\<close> does.)
\<close>

definition s64 :: "int \<Rightarrow> int" where
  "s64 x = (x + 2 ^ 63) mod 2 ^ 64 - 2 ^ 63"

lemma s64_small: "- (2 ^ 63) \<le> x \<Longrightarrow> x < 2 ^ 63 \<Longrightarrow> s64 x = x"
  by (simp add: s64_def)

lemma s64_range: "- (2 ^ 63) \<le> s64 x \<and> s64 x < 2 ^ 63"
  by (simp add: s64_def)

lemma s64_over: "2 ^ 63 \<le> x \<Longrightarrow> x < 2 ^ 64 + 2 ^ 63 \<Longrightarrow> s64 x = x - 2 ^ 64"
proof -
  assume "2 ^ 63 \<le> x" "x < 2 ^ 64 + 2 ^ 63"
  then have "(x + 2 ^ 63 - 2 ^ 64) mod 2 ^ 64 = x + 2 ^ 63 - 2 ^ 64" by (intro mod_pos_pos_trivial) simp_all
  moreover have "(x + 2 ^ 63 - 2 ^ 64) mod 2 ^ 64 = (x + 2 ^ 63) mod 2 ^ 64" by (rule minus_mod_self2)
  ultimately have "(x + 2 ^ 63) mod 2 ^ 64 = x + 2 ^ 63 - 2 ^ 64" by simp
  then show ?thesis by (simp add: s64_def)
qed

lemma s64_cong: "s64 x mod 2 ^ 64 = x mod 2 ^ 64"
proof -
  have "((x + 2 ^ 63) mod 2 ^ 64 - 2 ^ 63) mod 2 ^ 64 = (x + 2 ^ 63 - 2 ^ 63) mod 2 ^ 64" by (rule mod_diff_left_eq)
  then show ?thesis by (simp add: s64_def)
qed

record timespec =
  tv_sec :: int
  tv_nsec :: int

definition CLOCK_REALTIME :: int where "CLOCK_REALTIME = 0"
definition CLOCK_MONOTONIC :: int where "CLOCK_MONOTONIC = 1"
definition CLOCK_MONOTONIC_RAW :: int where "CLOCK_MONOTONIC_RAW = 4"
definition CLOCK_REALTIME_COARSE :: int where "CLOCK_REALTIME_COARSE = 5"
definition CLOCK_MONOTONIC_COARSE :: int where "CLOCK_MONOTONIC_COARSE = 6"
definition CLOCK_BOOTTIME :: int where "CLOCK_BOOTTIME = 7"

lemmas clock_ids = CLOCK_REALTIME_def CLOCK_MONOTONIC_def CLOCK_MONOTONIC_RAW_def
  CLOCK_REALTIME_COARSE_def CLOCK_MONOTONIC_COARSE_def CLOCK_BOOTTIME_def

text \<open>An instant in nanoseconds, and a time whose nanoseconds are below a second.\<close>

definition tns :: "timespec \<Rightarrow> int" where
  "tns t = tv_sec t * 1000000000 + tv_nsec t"

definition normal :: "timespec \<Rightarrow> bool" where
  "normal t \<longleftrightarrow> 0 \<le> tv_nsec t \<and> tv_nsec t < 1000000000"

end
