(* ===== verification/Umtx.thy ===== *)
theory Umtx
  imports Time "HOL-Library.Signed_Division"
begin

text \<open>
  The futex of \<open>include/sys/umtx.h\<close>: \<open>_umtx_op\<close> over 64 buckets of one mutex and one
  condition variable each, the register of sleeping threads, and the conversion of a caller's
  deadline to the clock the condition variables use. Threads interleave at the mutex, at the
  wait and at stores to the futex words by other code, so the calls are a step relation;
  the pure parts are functions on words, numbers and lists. \<open>pthread_self\<close> is the thread's
  number, which is not 0.
\<close>

unbundle bit_operations_syntax

definition UMTX_OP_WAIT :: int where "UMTX_OP_WAIT = 2"
definition UMTX_OP_WAKE :: int where "UMTX_OP_WAKE = 3"
definition UMTX_OP_WAIT_UINT :: int where "UMTX_OP_WAIT_UINT = 11"
definition UMTX_OP_WAIT_UINT_PRIVATE :: int where "UMTX_OP_WAIT_UINT_PRIVATE = 15"
definition UMTX_OP_WAKE_PRIVATE :: int where "UMTX_OP_WAKE_PRIVATE = 16"
definition UMTX_ABSTIME :: u32 where "UMTX_ABSTIME = 1"
definition UMTX_BUCKETS :: nat where "UMTX_BUCKETS = 64"
definition UMTX_WAITERS :: nat where "UMTX_WAITERS = 64"
definition EWOULDBLOCK :: int where "EWOULDBLOCK = 35"

lemmas umtx_ops = UMTX_OP_WAIT_def UMTX_OP_WAKE_def UMTX_OP_WAIT_UINT_def
  UMTX_OP_WAIT_UINT_PRIVATE_def UMTX_OP_WAKE_PRIVATE_def

text \<open>What the \<open>switch\<close> of \<open>_umtx_op\<close> makes of an operation number.\<close>

datatype umtx_kind = Op_wait | Op_wake | Op_other

definition umtx_kind_of :: "int \<Rightarrow> umtx_kind" where
  "umtx_kind_of op =
     (if op = UMTX_OP_WAIT \<or> op = UMTX_OP_WAIT_UINT \<or> op = UMTX_OP_WAIT_UINT_PRIVATE then Op_wait
      else if op = UMTX_OP_WAKE \<or> op = UMTX_OP_WAKE_PRIVATE then Op_wake
      else Op_other)"

text \<open>\<open>orbis_umtx_bucket_for\<close>\<close>

definition umtx_bucket_for :: "u64 \<Rightarrow> nat" where
  "umtx_bucket_for addr = (let v = drop_bit 2 addr in unat (v XOR drop_bit 8 v) mod UMTX_BUCKETS)"

section \<open>Deadlines\<close>

record umtx_time =
  utimeout :: timespec
  uflags :: u32
  uclockid :: int

text \<open>Carry one second out of the nanoseconds.\<close>

definition carry_ns :: "timespec \<Rightarrow> timespec" where
  "carry_ns t =
     (if tv_nsec t \<ge> 1000000000 then \<lparr>tv_sec = s64 (tv_sec t + 1), tv_nsec = s64 (tv_nsec t - 1000000000)\<rparr> else t)"

text \<open>
  \<open>orbis_umtx_deadline\<close>; \<open>clk\<close> is \<open>clock_gettime\<close> (\<open>None\<close> when it fails; a failing call leaves
  the base uninitialised, so that case is \<open>None\<close> too) and \<open>cclock\<close> the clock the probe chose.
\<close>

definition umtx_deadline :: "(int \<Rightarrow> timespec option) \<Rightarrow> int \<Rightarrow> umtx_time \<Rightarrow> timespec option" where
  "umtx_deadline clk cclock t =
     do { rel \<leftarrow>
            (if uflags t AND UMTX_ABSTIME = 0 then Some (utimeout t)
             else do {
               now \<leftarrow> (case clk (uclockid t) of Some n \<Rightarrow> Some n | None \<Rightarrow> clk CLOCK_MONOTONIC);
               (let s = s64 (tv_sec (utimeout t) - tv_sec now); n = s64 (tv_nsec (utimeout t) - tv_nsec now);
                    s' = (if n < 0 then s64 (s - 1) else s); n' = (if n < 0 then s64 (n + 1000000000) else n)
                in Some (if s' < 0 then \<lparr>tv_sec = 0, tv_nsec = 0\<rparr> else \<lparr>tv_sec = s', tv_nsec = n'\<rparr>)) });
          base \<leftarrow> clk cclock;
          Some (carry_ns \<lparr>tv_sec = s64 (tv_sec base + tv_sec rel), tv_nsec = s64 (tv_nsec base + tv_nsec rel)\<rparr>) }"

text \<open>
  \<open>orbis_umtx_probe_cond_clock\<close>: the deadline of its wait, and what it concludes from the real
  time before and after it (the clock and the milliseconds it reports).
\<close>

definition probe_deadline :: "timespec \<Rightarrow> timespec" where
  "probe_deadline m = carry_ns (m\<lparr>tv_nsec := s64 (tv_nsec m + 20 * 1000 * 1000)\<rparr>)"

definition probe_verdict :: "timespec \<Rightarrow> timespec \<Rightarrow> int \<times> int" where
  "probe_verdict t0 t1 =
     (let elapsed_ms = s64 (s64 (s64 (tv_sec t1 - tv_sec t0) * 1000) + s64 (tv_nsec t1 - tv_nsec t0) sdiv 1000000)
      in (if elapsed_ms \<ge> 10 then CLOCK_MONOTONIC else CLOCK_REALTIME, elapsed_ms))"

text \<open>\<open>orbis_umtx_now_ns\<close>\<close>

definition umtx_now_ns :: "timespec \<Rightarrow> u64" where
  "umtx_now_ns t = word_of_int (tv_sec t) * 1000000000 + word_of_int (tv_nsec t)"

section \<open>The register of sleepers\<close>

record umtx_waiter =
  wthread :: nat
  waddr :: u64
  wsince :: u64

definition umtx_waiters_init :: "umtx_waiter list" where
  "umtx_waiters_init = replicate UMTX_WAITERS \<lparr>wthread = 0, waddr = 0, wsince = 0\<rparr>"

text \<open>\<open>orbis_umtx_waiter_claim\<close>: the first free slot, or none when all are taken.\<close>

fun waiter_claim :: "nat \<Rightarrow> u64 \<Rightarrow> u64 \<Rightarrow> umtx_waiter list \<Rightarrow> nat option \<times> umtx_waiter list" where
  "waiter_claim me a now [] = (None, [])"
| "waiter_claim me a now (w # ws) =
     (if wthread w = 0 then (Some 0, \<lparr>wthread = me, waddr = a, wsince = now\<rparr> # ws)
      else let (r, ws') = waiter_claim me a now ws in (map_option Suc r, w # ws'))"

definition waiter_release :: "nat option \<Rightarrow> umtx_waiter list \<Rightarrow> umtx_waiter list" where
  "waiter_release slot ws =
     (case slot of None \<Rightarrow> ws | Some i \<Rightarrow> ws[i := (ws ! i)\<lparr>wthread := 0\<rparr>])"

definition waiter_count :: "umtx_waiter list \<Rightarrow> nat" where
  "waiter_count ws = length (filter (\<lambda>w. wthread w \<noteq> 0) ws)"

text \<open>\<open>orbis_umtx_waiter_at\<close>: the \<open>i\<close>-th occupied slot.\<close>

fun waiter_at_from :: "int \<Rightarrow> int \<Rightarrow> umtx_waiter list \<Rightarrow> umtx_waiter option" where
  "waiter_at_from seen i [] = None"
| "waiter_at_from seen i (w # ws) =
     (if wthread w = 0 then waiter_at_from seen i ws
      else if seen \<noteq> i then waiter_at_from (seen + 1) i ws
      else Some w)"

definition waiter_at :: "int \<Rightarrow> umtx_waiter list \<Rightarrow> umtx_waiter option" where
  "waiter_at i ws = waiter_at_from 0 i ws"

section \<open>The calls\<close>

text \<open>
  Where a thread is in \<open>_umtx_op\<close>: outside; in the WAIT arm before the mutex, holding it before
  the comparison, holding it with the comparison done and its slot claimed, asleep on the
  condition variable, returning from it with the wait's result before and after it has the
  mutex again; in the WAKE arm before the mutex, holding it, and after the broadcast.
\<close>

datatype umtx_pc =
    Idle
  | W_enter u64 u32 bool
  | W_locked u64 u32 bool
  | W_checked u64 u32 bool "nat option"
  | W_asleep u64 u32 bool "nat option"
  | W_waking u64 int "nat option"
  | W_back u64 int "nat option"
  | K_enter u64
  | K_locked u64
  | K_done u64

text \<open>
  The counters are \<open>orbis_umtx_n_wait\<close>, \<open>n_timedwait\<close>, \<open>n_timeout\<close> and \<open>n_lock\<close>;
  \<open>uresult\<close> is the result of each thread's last call with its errno. \<open>signalled\<close> is not state
  of the code: whether a broadcast for the word's bucket has followed the last store to it.
\<close>

record umtx_state =
  uword :: "u64 \<Rightarrow> u32"
  umutex :: "nat \<Rightarrow> nat option"
  upc :: "nat \<Rightarrow> umtx_pc"
  ureg :: "umtx_waiter list"
  uresult :: "nat \<Rightarrow> int \<times> int"
  n_wait :: nat
  n_timedwait :: nat
  n_timeout :: nat
  n_lock :: nat
  signalled :: "u64 \<Rightarrow> bool"

definition umtx_init :: "(u64 \<Rightarrow> u32) \<Rightarrow> umtx_state" where
  "umtx_init m = \<lparr>uword = m, umutex = (\<lambda>_. None), upc = (\<lambda>_. Idle), ureg = umtx_waiters_init,
     uresult = (\<lambda>_. (0, 0)), n_wait = 0, n_timedwait = 0, n_timeout = 0, n_lock = 0,
     signalled = (\<lambda>_. False)\<rparr>"

abbreviation go :: "nat \<Rightarrow> umtx_pc \<Rightarrow> umtx_state \<Rightarrow> umtx_state" where
  "go t p s \<equiv> s\<lparr>upc := (upc s)(t := p)\<rparr>"

definition take_mutex :: "nat \<Rightarrow> nat \<Rightarrow> umtx_state \<Rightarrow> umtx_state" where
  "take_mutex t b s = s\<lparr>umutex := (umutex s)(b := Some t)\<rparr>"

definition drop_mutex :: "nat \<Rightarrow> umtx_state \<Rightarrow> umtx_state" where
  "drop_mutex b s = s\<lparr>umutex := (umutex s)(b := None)\<rparr>"

text \<open>\<open>pthread_cond_broadcast\<close>: every sleeper of the bucket is on its way back.\<close>

definition broadcast_pc :: "nat \<Rightarrow> umtx_pc \<Rightarrow> umtx_pc" where
  "broadcast_pc b p =
     (case p of W_asleep a v timed slot \<Rightarrow> if umtx_bucket_for a = b then W_waking a 0 slot else p
      | _ \<Rightarrow> p)"

definition broadcast :: "nat \<Rightarrow> umtx_state \<Rightarrow> umtx_state" where
  "broadcast b s = s\<lparr>upc := (\<lambda>t. broadcast_pc b (upc s t)),
     signalled := (\<lambda>a. signalled s a \<or> umtx_bucket_for a = b)\<rparr>"

definition claim_slot :: "nat \<Rightarrow> u64 \<Rightarrow> u64 \<Rightarrow> umtx_state \<Rightarrow> nat option \<times> umtx_state" where
  "claim_slot t a now s = (let (slot, ws) = waiter_claim t a now (ureg s) in (slot, s\<lparr>ureg := ws\<rparr>))"

definition set_result :: "nat \<Rightarrow> int \<times> int \<Rightarrow> umtx_state \<Rightarrow> umtx_state" where
  "set_result t r s = s\<lparr>uresult := (uresult s)(t := r)\<rparr>"

inductive umtx_step :: "umtx_state \<Rightarrow> umtx_state \<Rightarrow> bool" where
  store: "umtx_step s (s\<lparr>uword := (uword s)(a := v), signalled := (signalled s)(a := False)\<rparr>)"
| call_other: "upc s t = Idle \<Longrightarrow> umtx_kind_of op = Op_other \<Longrightarrow>
    umtx_step s (set_result t (-1, ENOSYS) s)"
| call_wait: "t \<noteq> 0 \<Longrightarrow> upc s t = Idle \<Longrightarrow> umtx_kind_of op = Op_wait \<Longrightarrow>
    umtx_step s (go t (W_enter a v timed) (s\<lparr>n_wait := n_wait s + 1, n_lock := n_lock s + 1\<rparr>))"
| wait_lock: "upc s t = W_enter a v timed \<Longrightarrow> umutex s (umtx_bucket_for a) = None \<Longrightarrow>
    umtx_step s (go t (W_locked a v timed) (take_mutex t (umtx_bucket_for a) s))"
| wait_changed: "upc s t = W_locked a v timed \<Longrightarrow> uword s a \<noteq> v \<Longrightarrow>
    umtx_step s (go t Idle (set_result t (-1, EWOULDBLOCK) (drop_mutex (umtx_bucket_for a) s)))"
| wait_check: "upc s t = W_locked a v timed \<Longrightarrow> uword s a = v \<Longrightarrow> claim_slot t a now s = (slot, s') \<Longrightarrow>
    umtx_step s (go t (W_checked a v timed slot) s')"
| wait_sleep: "upc s t = W_checked a v timed slot \<Longrightarrow>
    umtx_step s (go t (W_asleep a v timed slot)
      (drop_mutex (umtx_bucket_for a) (s\<lparr>n_timedwait := n_timedwait s + (if timed then 1 else 0)\<rparr>)))"
| wait_timeout: "upc s t = W_asleep a v True slot \<Longrightarrow> umtx_step s (go t (W_waking a ETIMEDOUT slot) s)"
| wait_spurious: "upc s t = W_asleep a v timed slot \<Longrightarrow> umtx_step s (go t (W_waking a 0 slot) s)"
| wait_relock: "upc s t = W_waking a r slot \<Longrightarrow> umutex s (umtx_bucket_for a) = None \<Longrightarrow>
    umtx_step s (go t (W_back a r slot) (take_mutex t (umtx_bucket_for a)
      (s\<lparr>n_timeout := n_timeout s + (if r = ETIMEDOUT then 1 else 0)\<rparr>)))"
| wait_return: "upc s t = W_back a r slot \<Longrightarrow>
    umtx_step s (go t Idle (set_result t (if r \<noteq> 0 then (-1, r) else (0, snd (uresult s t)))
      (drop_mutex (umtx_bucket_for a) (s\<lparr>ureg := waiter_release slot (ureg s)\<rparr>))))"
| call_wake: "upc s t = Idle \<Longrightarrow> umtx_kind_of op = Op_wake \<Longrightarrow>
    umtx_step s (go t (K_enter a) (s\<lparr>n_lock := n_lock s + 1\<rparr>))"
| wake_lock: "upc s t = K_enter a \<Longrightarrow> umutex s (umtx_bucket_for a) = None \<Longrightarrow>
    umtx_step s (go t (K_locked a) (take_mutex t (umtx_bucket_for a) s))"
| wake_broadcast: "upc s t = K_locked a \<Longrightarrow>
    umtx_step s (go t (K_done a) (broadcast (umtx_bucket_for a) s))"
| wake_return: "upc s t = K_done a \<Longrightarrow>
    umtx_step s (go t Idle (set_result t (0, snd (uresult s t)) (drop_mutex (umtx_bucket_for a) s)))"

inductive umtx_reach :: "umtx_state \<Rightarrow> bool" where
  start: "umtx_reach (umtx_init m)"
| step: "umtx_reach s \<Longrightarrow> umtx_step s s' \<Longrightarrow> umtx_reach s'"

inductive_cases umtx_stepE: "umtx_step s s'"

text \<open>\<open>orbis_umtx_stats\<close>\<close>

definition umtx_stats :: "umtx_state \<Rightarrow> nat list" where
  "umtx_stats s = [n_wait s, n_timedwait s, n_timeout s, n_lock s]"

end
