(* ===== verification/Umtx_Props.thy ===== *)
theory Umtx_Props
  imports Umtx
begin

text \<open>
  What the futex promises: the mutex discipline of its step relation, that no sleeper is left
  behind by a wake-up that follows the store it is waiting for, and that a converted deadline
  is the instant the caller named.
\<close>

section \<open>Who holds a bucket\<close>

text \<open>The bucket whose mutex a thread holds at a point of its call.\<close>

definition pc_holds :: "umtx_pc \<Rightarrow> nat option" where
  "pc_holds p =
     (case p of
        W_locked a v timed \<Rightarrow> Some (umtx_bucket_for a)
      | W_checked a v timed slot \<Rightarrow> Some (umtx_bucket_for a)
      | W_back a r slot \<Rightarrow> Some (umtx_bucket_for a)
      | K_locked a \<Rightarrow> Some (umtx_bucket_for a)
      | K_done a \<Rightarrow> Some (umtx_bucket_for a)
      | _ \<Rightarrow> None)"

lemma pc_holds_simps [simp]:
  "pc_holds Idle = None" "pc_holds (W_enter a v timed) = None"
  "pc_holds (W_locked a v timed) = Some (umtx_bucket_for a)"
  "pc_holds (W_checked a v timed slot) = Some (umtx_bucket_for a)"
  "pc_holds (W_asleep a v timed slot) = None" "pc_holds (W_waking a r slot) = None"
  "pc_holds (W_back a r slot) = Some (umtx_bucket_for a)"
  "pc_holds (K_enter a) = None" "pc_holds (K_locked a) = Some (umtx_bucket_for a)"
  "pc_holds (K_done a) = Some (umtx_bucket_for a)"
  by (simp_all add: pc_holds_def)

lemma pc_holds_broadcast [simp]: "pc_holds (broadcast_pc b p) = pc_holds p"
  by (cases p) (simp_all add: broadcast_pc_def)

definition mutex_ok :: "umtx_state \<Rightarrow> bool" where
  "mutex_ok s \<longleftrightarrow> (\<forall>t b. pc_holds (upc s t) = Some b \<longleftrightarrow> umutex s b = Some t)"

text \<open>A thread past its comparison whose word no longer has the value it compared with.\<close>

definition stale :: "umtx_state \<Rightarrow> u64 \<Rightarrow> umtx_pc \<Rightarrow> bool" where
  "stale s a p =
     (case p of
        W_checked a' v timed slot \<Rightarrow> a' = a \<and> uword s a \<noteq> v
      | W_asleep a' v timed slot \<Rightarrow> a' = a \<and> uword s a \<noteq> v
      | _ \<Rightarrow> False)"

definition wakeup_ok :: "umtx_state \<Rightarrow> bool" where
  "wakeup_ok s \<longleftrightarrow> (\<forall>t a. stale s a (upc s t) \<longrightarrow> \<not> signalled s a)"

lemma stale_simps [simp]:
  "\<not> stale s a Idle" "\<not> stale s a (W_enter a' v timed)" "\<not> stale s a (W_locked a' v timed)"
  "stale s a (W_checked a' v timed slot) = (a' = a \<and> uword s a \<noteq> v)"
  "stale s a (W_asleep a' v timed slot) = (a' = a \<and> uword s a \<noteq> v)"
  "\<not> stale s a (W_waking a' r slot)" "\<not> stale s a (W_back a' r slot)"
  "\<not> stale s a (K_enter a')" "\<not> stale s a (K_locked a')" "\<not> stale s a (K_done a')"
  by (simp_all add: stale_def)

lemma stale_word: "uword s' = uword s \<Longrightarrow> stale s' a p = stale s a p"
  by (cases p) simp_all

lemma stale_store: "uword s' = (uword s)(a := v) \<Longrightarrow> a' \<noteq> a \<Longrightarrow> stale s' a' p = stale s a' p"
  by (cases p) auto

lemma stale_broadcast:
  "stale s a (broadcast_pc b p) \<Longrightarrow> stale s a p \<and> (umtx_bucket_for a = b \<longrightarrow> pc_holds p = Some b)"
  by (cases p) (auto simp: broadcast_pc_def split: if_splits)

lemma claim_slot_frame:
  "claim_slot t a now s = (slot, s') \<Longrightarrow>
     uword s' = uword s \<and> umutex s' = umutex s \<and> upc s' = upc s \<and> signalled s' = signalled s"
  by (auto simp: claim_slot_def split: prod.splits)

lemmas umtx_moves = take_mutex_def drop_mutex_def set_result_def broadcast_def

section \<open>The two invariants\<close>

text \<open>A step in which a thread's hold on the mutexes and the mutexes change together.\<close>

lemma mutex_okD: "mutex_ok s \<Longrightarrow> umutex s b = Some t \<longleftrightarrow> pc_holds (upc s t) = Some b"
  by (simp add: mutex_ok_def)

lemma mutex_ok_keep:
  assumes "mutex_ok s" "umutex s' = umutex s" "\<And>t. pc_holds (upc s' t) = pc_holds (upc s t)"
  shows "mutex_ok s'"
  using assms by (simp add: mutex_ok_def)

lemma mutex_ok_take:
  assumes "mutex_ok s" "umutex s b = None" "pc_holds p = Some b" "pc_holds (upc s t) = None"
    and "umutex s' = (umutex s)(b := Some t)" "upc s' = (upc s)(t := p)"
  shows "mutex_ok s'"
proof -
  have free: "pc_holds (upc s t') \<noteq> Some b" for t'
    using mutex_okD [OF assms(1), of b t'] assms(2) by simp
  show ?thesis
    using assms(3,4) free by (auto simp: mutex_ok_def assms(5,6) mutex_okD [OF assms(1)])
qed

lemma mutex_ok_drop:
  assumes "mutex_ok s" "pc_holds (upc s t) = Some b" "pc_holds p = None"
    and "umutex s' = (umutex s)(b := None)" "upc s' = (upc s)(t := p)"
  shows "mutex_ok s'"
proof -
  have own: "pc_holds (upc s t') = Some b \<longleftrightarrow> t' = t" for t'
    using mutex_okD [OF assms(1), of b] assms(2) by (metis option.inject)
  show ?thesis
    using assms(3) own by (auto simp: mutex_ok_def assms(4,5) mutex_okD [OF assms(1)]) (simp add: assms(2))
qed

lemma mutex_ok_step:
  assumes "umtx_step s s'" "mutex_ok s"
  shows "mutex_ok s'"
  using assms(1)
proof cases
  case (wait_check t a v timed now slot s'')
  with claim_slot_frame [of t a now s slot s''] show ?thesis
    by (intro mutex_ok_keep [OF assms(2)]) simp_all
next
  case (wait_lock t a v timed)
  then show ?thesis by (intro mutex_ok_take [OF assms(2), of _ "W_locked a v timed" t]) (simp_all add: umtx_moves)
next
  case (wait_relock t a r slot)
  then show ?thesis by (intro mutex_ok_take [OF assms(2), of _ "W_back a r slot" t]) (simp_all add: umtx_moves)
next
  case (wake_lock t a)
  then show ?thesis by (intro mutex_ok_take [OF assms(2), of _ "K_locked a" t]) (simp_all add: umtx_moves)
next
  case (wait_changed t a v timed)
  then show ?thesis by (intro mutex_ok_drop [OF assms(2), of t _ Idle]) (simp_all add: umtx_moves)
next
  case (wait_sleep t a v timed slot)
  then show ?thesis
    by (intro mutex_ok_drop [OF assms(2), of t _ "W_asleep a v timed slot"]) (simp_all add: umtx_moves)
next
  case (wait_return t a r slot)
  then show ?thesis by (intro mutex_ok_drop [OF assms(2), of t _ Idle]) (simp_all add: umtx_moves)
next
  case (wake_return t a)
  then show ?thesis by (intro mutex_ok_drop [OF assms(2), of t _ Idle]) (simp_all add: umtx_moves)
qed (auto intro!: mutex_ok_keep [OF assms(2)] simp: umtx_moves)

lemma wakeup_ok_keep:
  assumes "wakeup_ok s" "uword s' = uword s" "signalled s' = signalled s"
    and "\<And>t a. stale s a (upc s' t) \<Longrightarrow> stale s a (upc s t)"
  shows "wakeup_ok s'"
  using assms(1,3,4) by (auto simp: wakeup_ok_def stale_word [OF assms(2)])

lemma wakeup_ok_step:
  assumes "umtx_step s s'" "mutex_ok s" "wakeup_ok s"
  shows "wakeup_ok s'"
  using assms(1)
proof cases
  case (store a v)
  have "\<not> signalled s' a'" if "stale s' a' (upc s' t)" for t a'
  proof (cases "a' = a")
    case False
    then have "stale s a' (upc s t)"
      using that store stale_store [of s' s a v a'] by simp
    then show ?thesis using assms(3) False store by (simp add: wakeup_ok_def)
  qed (simp add: store)
  then show ?thesis by (simp add: wakeup_ok_def)
next
  case (call_other t op)
  then show ?thesis
    by (intro wakeup_ok_keep [OF assms(3)]) (simp_all add: umtx_moves)
next
  case (wait_check t a v timed now slot s'')
  with claim_slot_frame [of t a now s slot s''] show ?thesis
    by (intro wakeup_ok_keep [OF assms(3)]) (simp_all split: if_splits)
next
  case (wake_broadcast t a)
  let ?b = "umtx_bucket_for a"
  have "\<not> signalled s' a'" if "stale s' a' (upc s' t')" for t' a'
  proof -
    have "t' \<noteq> t" using that wake_broadcast by auto
    then have st: "stale s a' (broadcast_pc ?b (upc s t'))"
      using that wake_broadcast stale_word [of s' s] by (simp add: umtx_moves)
    note both = stale_broadcast [OF st]
    have "umtx_bucket_for a' \<noteq> ?b"
    proof
      assume "umtx_bucket_for a' = ?b"
      then have "umutex s ?b = Some t'" using both mutex_okD [OF assms(2)] by simp
      moreover have "umutex s ?b = Some t"
        using mutex_okD [OF assms(2)] wake_broadcast(2) by simp
      ultimately show False using \<open>t' \<noteq> t\<close> by simp
    qed
    then show ?thesis using both assms(3) wake_broadcast by (simp add: wakeup_ok_def umtx_moves)
  qed
  then show ?thesis by (simp add: wakeup_ok_def)
qed (auto intro!: wakeup_ok_keep [OF assms(3)] simp: umtx_moves split: if_splits)

lemma umtx_reach_ok: "umtx_reach s \<Longrightarrow> mutex_ok s \<and> wakeup_ok s"
proof (induction rule: umtx_reach.induct)
  case (start m)
  then show ?case by (simp add: mutex_ok_def wakeup_ok_def umtx_init_def)
next
  case (step s s')
  then show ?case using mutex_ok_step wakeup_ok_step by blast
qed

section \<open>The properties\<close>

lemma umtx_reach_trans [intro]: "umtx_step s s' \<Longrightarrow> umtx_reach s \<Longrightarrow> umtx_reach s'"
  by (rule umtx_reach.step)

text \<open>No two threads are inside the same bucket's critical section.\<close>

lemma umtx_exclusive:
  assumes "umtx_reach s" "pc_holds (upc s t) = Some b" "pc_holds (upc s t') = Some b"
  shows "t = t'"
  using umtx_reach_ok [OF assms(1)] assms(2,3) mutex_okD [of s b t] mutex_okD [of s b t'] by simp

text \<open>
  C29. The futex loses no wake-up. In every reachable interleaving of waiters, wakers and stores,
  over any number of threads and words sharing the 64 buckets: once a broadcast has followed the
  last store to a word, a thread that is asleep on the word is asleep on the word's present
  value.
\<close>

theorem umtx_no_lost_wakeup:
  assumes "umtx_reach s" "signalled s a" "upc s t = W_asleep a v timed slot"
  shows "uword s a = v"
proof (rule ccontr)
  assume "uword s a \<noteq> v"
  then have "stale s a (upc s t)" using assms(3) by simp
  then show False using umtx_reach_ok [OF assms(1)] assms(2) by (auto simp: wakeup_ok_def)
qed

text \<open>A wake, then a waiter that goes to sleep on the value it finds.\<close>

lemma umtx_no_lost_wakeup_witness:
  "\<exists>s. umtx_reach s \<and> signalled s 0 \<and> upc s 2 = W_asleep 0 5 False (Some 0) \<and> uword s 0 = 5"
proof -
  have b: "umtx_bucket_for 0 = 0" by (simp add: umtx_bucket_for_def UMTX_BUCKETS_def)
  note go [simp] = b umtx_moves broadcast_pc_def umtx_kind_of_def umtx_ops umtx_init_def
  let ?ok = "\<lambda>s p1 p2 m. umtx_reach s \<and> uword s 0 = 5 \<and> upc s 1 = p1 \<and> upc s 2 = p2 \<and> umutex s 0 = m"
  have "\<exists>s. ?ok s Idle Idle None \<and> ureg s = umtx_waiters_init"
    using umtx_reach.start [of "\<lambda>_. 5"] by (intro exI [of _ "umtx_init (\<lambda>_. 5)"]) simp
  then obtain s0 where s0: "?ok s0 Idle Idle None" "ureg s0 = umtx_waiters_init" by blast
  obtain s1 where s1: "?ok s1 (K_enter 0) Idle None" "ureg s1 = umtx_waiters_init"
    using umtx_reach.step [OF _ call_wake [of s0 1 UMTX_OP_WAKE 0]] s0 by force
  obtain s2 where s2: "?ok s2 (K_locked 0) Idle (Some 1)" "ureg s2 = umtx_waiters_init"
    using umtx_reach.step [OF _ wake_lock [of s1 1 0]] s1 by force
  obtain s3 where s3: "?ok s3 (K_done 0) Idle (Some 1)" "signalled s3 0" "ureg s3 = umtx_waiters_init"
    using umtx_reach.step [OF _ wake_broadcast [of s2 1 0]] s2 by force
  obtain s4 where s4: "?ok s4 Idle Idle None" "signalled s4 0" "ureg s4 = umtx_waiters_init"
    using umtx_reach.step [OF _ wake_return [of s3 1 0]] s3 by force
  obtain s5 where s5: "?ok s5 Idle (W_enter 0 5 False) None" "signalled s5 0" "ureg s5 = umtx_waiters_init"
    using umtx_reach.step [OF _ call_wait [of 2 s4 UMTX_OP_WAIT 0 5 False]] s4 by force
  obtain s6 where s6: "?ok s6 Idle (W_locked 0 5 False) (Some 2)" "signalled s6 0" "ureg s6 = umtx_waiters_init"
    using umtx_reach.step [OF _ wait_lock [of s5 2 0 5 False]] s5 by force
  have "fst (claim_slot 2 0 0 s6) = Some 0"
    using s6 by (simp add: claim_slot_def umtx_waiters_init_def UMTX_WAITERS_def numeral_eq_Suc)
  then obtain s6' where c: "claim_slot 2 0 0 s6 = (Some 0, s6')"
    by (metis prod.collapse)
  obtain s7 where s7: "?ok s7 Idle (W_checked 0 5 False (Some 0)) (Some 2)" "signalled s7 0"
    using umtx_reach.step [OF _ wait_check [of s6 2 0 5 False 0 "Some 0" s6']] s6 c claim_slot_frame [OF c] by force
  obtain s8 where s8: "?ok s8 Idle (W_asleep 0 5 False (Some 0)) None" "signalled s8 0"
    using umtx_reach.step [OF _ wait_sleep [of s7 2 0 5 False "Some 0"]] s7 by force
  show ?thesis
    using umtx_no_lost_wakeup [of s8 0 2 5 False "Some 0"] s8 by blast
qed

section \<open>Deadlines\<close>

lemma carry_ns_normal:
  "0 \<le> tv_nsec t \<Longrightarrow> tv_nsec t < 2000000000 \<Longrightarrow> - (2 ^ 63) \<le> tv_sec t \<Longrightarrow> tv_sec t < 2 ^ 63 - 1 \<Longrightarrow>
   normal (carry_ns t) \<and> tns (carry_ns t) = tns t"
  by (simp add: carry_ns_def normal_def tns_def s64_small)

text \<open>
  C30. A caller's absolute deadline becomes the same instant on the clock the condition variables
  use: when the two clocks read \<open>now\<close> and \<open>base\<close>, the converted deadline is \<open>base\<close> plus what is
  left of the caller's timeout, and \<open>base\<close> itself when that has passed; its nanoseconds are below
  a second. An interval is added to \<open>base\<close> as it is. This holds for normalised times, clocks that
  read no negative time (the caller's below \<open>2 ^ 62\<close> seconds) and a timeout from \<open>- 2 ^ 62\<close> seconds up to where its seconds and those of \<open>base\<close> stay
  below \<open>2 ^ 63 - 1\<close> together, so that no 64-bit sum leaves its range; beyond that the
  deadline wraps into the past (\<open>umtx_deadline_wraps\<close>).
\<close>

theorem umtx_deadline_instant:
  assumes "clk (uclockid t) = Some now \<or> clk (uclockid t) = None \<and> clk CLOCK_MONOTONIC = Some now"
    and "clk cclock = Some base" and "normal now" "normal base" "normal (utimeout t)"
    and "0 \<le> tv_sec now" "tv_sec now < 2 ^ 62" "0 \<le> tv_sec base" "- (2 ^ 62) \<le> tv_sec (utimeout t)"
    and "tv_sec base + tv_sec (utimeout t) < 2 ^ 63 - 1" "tv_sec base < 2 ^ 63 - 1"
  shows "\<exists>d. umtx_deadline clk cclock t = Some d \<and> normal d \<and>
           tns d = tns base + (if uflags t AND UMTX_ABSTIME = 0 then tns (utimeout t)
                               else max 0 (tns (utimeout t) - tns now))"
proof -
  have nn: "0 \<le> tv_nsec now" "tv_nsec now < 1000000000" "0 \<le> tv_nsec (utimeout t)" "tv_nsec (utimeout t) < 1000000000"
    "0 \<le> tv_nsec base" "tv_nsec base < 1000000000" using assms(3-5) by (simp_all add: normal_def)
  let ?s = "tv_sec (utimeout t) - tv_sec now" and ?n = "tv_nsec (utimeout t) - tv_nsec now"
  define left where "left = (let s = s64 ?s; n = s64 ?n;
      s' = (if n < 0 then s64 (s - 1) else s); n' = (if n < 0 then s64 (n + 1000000000) else n)
    in (if s' < 0 then \<lparr>tv_sec = 0, tv_nsec = 0\<rparr> else \<lparr>tv_sec = s', tv_nsec = n'\<rparr>))"
  have wide: "s64 ?s = ?s" "s64 (?s - 1) = ?s - 1" "s64 ?n = ?n" "s64 (?n + 1000000000) = ?n + 1000000000"
    using assms(6-10) nn by (simp_all add: s64_small)
  have left: "normal left \<and> tns left = max 0 (tns (utimeout t) - tns now) \<and> 0 \<le> tv_sec left \<and>
      tv_sec left \<le> max 0 (tv_sec (utimeout t))"
    using nn assms(6) unfolding left_def Let_def wide by (auto simp: normal_def tns_def max_def)
  define rel where "rel = (if uflags t AND UMTX_ABSTIME = 0 then utimeout t else left)"
  have rel: "normal rel" "- (2 ^ 62) \<le> tv_sec rel" "tv_sec base + tv_sec rel < 2 ^ 63 - 1"
    "tns rel = (if uflags t AND UMTX_ABSTIME = 0 then tns (utimeout t) else max 0 (tns (utimeout t) - tns now))"
    using left assms(5,9-11) by (auto simp: rel_def)
  have now: "(case clk (uclockid t) of Some n \<Rightarrow> Some n | None \<Rightarrow> clk CLOCK_MONOTONIC) = Some now"
    using assms(1) by auto
  let ?d = "carry_ns \<lparr>tv_sec = tv_sec base + tv_sec rel, tv_nsec = tv_nsec base + tv_nsec rel\<rparr>"
  have "s64 (tv_sec base + tv_sec rel) = tv_sec base + tv_sec rel" "s64 (tv_nsec base + tv_nsec rel) = tv_nsec base + tv_nsec rel"
    using rel(1-3) assms(8) nn by (simp_all add: s64_small normal_def)
  moreover have "umtx_deadline clk cclock t =
      Some (carry_ns \<lparr>tv_sec = s64 (tv_sec base + tv_sec rel), tv_nsec = s64 (tv_nsec base + tv_nsec rel)\<rparr>)"
    unfolding umtx_deadline_def now rel_def left_def using assms(2) by (cases "uflags t AND UMTX_ABSTIME = 0") (simp_all add: Let_def)
  ultimately have "umtx_deadline clk cclock t = Some ?d" by simp
  moreover have "normal ?d \<and> tns ?d = tns base + tns rel"
    using rel(1-3) assms(8) nn carry_ns_normal [of "\<lparr>tv_sec = tv_sec base + tv_sec rel, tv_nsec = tv_nsec base + tv_nsec rel\<rparr>"]
    by (simp add: normal_def tns_def algebra_simps)
  ultimately show ?thesis using rel(4) by auto
qed

text \<open>
  An interval of \<open>2 ^ 63 - 1\<close> seconds, the largest there is, behind any clock that has counted a
  second: the sum wraps and the deadline is before every time the clock can read.
\<close>

lemma umtx_deadline_wraps:
  assumes "clk cclock = Some base" "1 \<le> tv_sec base" "tv_sec base < 2 ^ 62" "normal base"
    and "uflags t AND UMTX_ABSTIME = 0" "utimeout t = \<lparr>tv_sec = 2 ^ 63 - 1, tv_nsec = 0\<rparr>"
  shows "\<exists>d. umtx_deadline clk cclock t = Some d \<and> tv_sec d < 0"
proof -
  have "s64 (tv_sec base + (2 ^ 63 - 1)) = tv_sec base + (2 ^ 63 - 1) - 2 ^ 64"
    using assms(2,3) by (intro s64_over) simp_all
  moreover have "s64 (tv_nsec base) = tv_nsec base" using assms(4) by (simp add: normal_def s64_small)
  ultimately show ?thesis using assms by (simp add: umtx_deadline_def carry_ns_def normal_def)
qed

lemma umtx_deadline_instant_witness:
  "\<exists>d. umtx_deadline (\<lambda>c. Some (if c = 0 then \<lparr>tv_sec = 1700000000, tv_nsec = 5\<rparr> else \<lparr>tv_sec = 90, tv_nsec = 999999999\<rparr>))
      0 \<lparr>utimeout = \<lparr>tv_sec = 91, tv_nsec = 1\<rparr>, uflags = 1, uclockid = 1\<rparr> = Some d \<and> tns d = 1700000000000000007"
  using umtx_deadline_instant [of "\<lambda>c. Some (if c = 0 then \<lparr>tv_sec = 1700000000, tv_nsec = 5\<rparr> else \<lparr>tv_sec = 90, tv_nsec = 999999999\<rparr>)"
      "\<lparr>utimeout = \<lparr>tv_sec = 91, tv_nsec = 1\<rparr>, uflags = 1, uclockid = 1\<rparr>" "\<lparr>tv_sec = 90, tv_nsec = 999999999\<rparr>"
      0 "\<lparr>tv_sec = 1700000000, tv_nsec = 5\<rparr>"]
  by (auto simp: normal_def tns_def UMTX_ABSTIME_def)

end
