(* ===== verification/Paths.thy ===== *)
theory Paths
  imports Prelude
begin

text \<open>
  The path anchor of \<open>src/orbis_paths.cpp\<close>. The process has no working directory, so a relative
  path is given to the kernel behind a root that is decided once. Strings are character lists
  without their NUL, a null pointer is \<open>None\<close>. What the file calls in libkernel is a record of
  functions over the world \<open>'w\<close> (the file system and whatever else those calls change); log lines
  are not modelled.
\<close>

unbundle bit_operations_syntax

text \<open>
  The calls below the interposers. \<open>k_app_info\<close> answers the return code and the ten bytes of
  \<open>TitleId\<close>; \<open>k_mkdir\<close>, \<open>k_open\<close> and \<open>k_fstat\<close> the result and the errno they leave; the SCE calls a
  code; the stat calls the bytes written as well. The open flags and \<open>AT_FDCWD\<close> are the SDK's.
\<close>

record 'w kernel =
  k_app_info :: "'w \<Rightarrow> u32 \<times> string \<times> 'w"
  k_mkdir :: "string \<Rightarrow> int \<Rightarrow> int \<Rightarrow> 'w \<Rightarrow> int \<times> int \<times> 'w"
  k_open :: "string option \<Rightarrow> u32 \<Rightarrow> int \<Rightarrow> int \<Rightarrow> 'w \<Rightarrow> int \<times> int \<times> 'w"
  k_cloexec :: "int \<Rightarrow> 'w \<Rightarrow> 'w"
  k_unlink :: "string option \<Rightarrow> 'w \<Rightarrow> u32 \<times> 'w"
  k_rename :: "string option \<Rightarrow> string option \<Rightarrow> 'w \<Rightarrow> u32 \<times> 'w"
  k_rmdir :: "string option \<Rightarrow> 'w \<Rightarrow> u32 \<times> 'w"
  k_stat :: "string option \<Rightarrow> 'w \<Rightarrow> u32 \<times> nat list \<times> 'w"
  k_fstat :: "int \<Rightarrow> int \<Rightarrow> 'w \<Rightarrow> int \<times> int \<times> nat list \<times> 'w"
  O_CREAT :: u32
  O_TMPFILE :: u32
  O_CLOEXEC :: u32
  AT_FDCWD :: int

record 'w paths_state =
  world :: 'w
  rootDecided :: bool
  rootOverride :: string
  anchor :: "string option"
  anchorSaid :: bool
  perrno :: int

definition paths_init :: "'w \<Rightarrow> 'w paths_state" where
  "paths_init w = \<lparr>world = w, rootDecided = False, rootOverride = [], anchor = None,
     anchorSaid = False, perrno = 0\<rparr>"

section \<open>The root\<close>

definition title_char :: "char \<Rightarrow> bool" where
  "title_char c = (let n = of_char c :: nat in
     (of_char CHR ''A'' \<le> n \<and> n \<le> of_char CHR ''Z'') \<or> (of_char CHR ''a'' \<le> n \<and> n \<le> of_char CHR ''z'') \<or>
     (of_char CHR ''0'' \<le> n \<and> n \<le> of_char CHR ''9''))"

fun title_from :: "nat \<Rightarrow> string \<Rightarrow> bool" where
  "title_from n [] = (n > 0)"
| "title_from n (c # cs) = (if n \<ge> 9 then False else if \<not> title_char c then False else title_from (n + 1) cs)"

definition titleIdLooksReal :: "string \<Rightarrow> bool" where
  "titleIdLooksReal ident = title_from 0 ident"

text \<open>The bounded copy of \<open>TitleId\<close> as a C string.\<close>

definition title_id :: "string \<Rightarrow> string" where
  "title_id field = takeWhile (\<lambda>c. c \<noteq> CHR 0x00) (take 9 field)"

definition titleIdRoot :: "'w kernel \<Rightarrow> 'w paths_state \<Rightarrow> string \<times> 'w paths_state" where
  "titleIdRoot k s =
     (let (rc, field, w) = k_app_info k (world s); s' = s\<lparr>world := w\<rparr>; ident = title_id field in
      if rc \<noteq> 0 then ([], s')
      else if \<not> titleIdLooksReal ident then ([], s')
      else (''/data/'' @ ident @ ''/'', s'))"

definition anchorRoot :: "'w kernel \<Rightarrow> 'w paths_state \<Rightarrow> string \<times> 'w paths_state" where
  "anchorRoot k s =
     (case anchor s of
        Some r \<Rightarrow> (r, s)
      | None \<Rightarrow>
          let (r1, s1) = (if rootOverride s = [] then titleIdRoot k s else (rootOverride s, s));
              r = (if r1 = [] then ''/data/orbis-compat/'' else r1);
              (rc, e, w) = k_mkdir k (butlast r) 0x1ff (perrno s1) (world s1)
          in (r, s1\<lparr>rootDecided := True, anchor := Some r, world := w, perrno := e\<rparr>))"

definition orbis_set_anchor_root :: "'w kernel \<Rightarrow> string option \<Rightarrow> 'w paths_state \<Rightarrow> 'w paths_state" where
  "orbis_set_anchor_root k path s =
     (case path of
        None \<Rightarrow> s
      | Some p \<Rightarrow>
          if p = [] \<or> hd p \<noteq> CHR ''/'' then s
          else if rootDecided s then snd (anchorRoot k s)
          else s\<lparr>rootOverride := (if last p \<noteq> CHR ''/'' then p @ ''/'' else p)\<rparr>)"

definition anchorSayOnce :: "'w paths_state \<Rightarrow> 'w paths_state" where
  "anchorSayOnce s = (if anchorSaid s then s else s\<lparr>anchorSaid := True\<rparr>)"

text \<open>\<open>anchorPath\<close>: the path to give to the kernel, in a buffer of \<open>bufSize\<close> bytes.\<close>

definition anchorPath :: "'w kernel \<Rightarrow> string option \<Rightarrow> nat \<Rightarrow> 'w paths_state \<Rightarrow> string option \<times> 'w paths_state" where
  "anchorPath k path bufSize s =
     (case path of
        None \<Rightarrow> (None, s)
      | Some p \<Rightarrow>
          if p = [] \<or> hd p = CHR ''/'' then (Some p, s)
          else
            let (root, s1) = anchorRoot k s in
            if length root + length p + 1 > bufSize then (Some p, s1)
            else (Some (root @ p), anchorSayOnce s1))"

section \<open>The interposed calls\<close>

text \<open>\<open>mode\<close> is the variadic argument, read only when the flags say that there is one.\<close>

definition open_file :: "'w kernel \<Rightarrow> string option \<Rightarrow> u32 \<Rightarrow> int \<Rightarrow> 'w paths_state \<Rightarrow> int \<times> 'w paths_state" where
  "open_file k path flags mode s =
     (let wantsMode = (flags AND O_CREAT k \<noteq> 0 \<or> flags AND O_TMPFILE k = O_TMPFILE k);
          m = (if wantsMode then mode else 0);
          (p, s1) = anchorPath k path 512 s;
          (fd, e, w) = k_open k p flags m (perrno s1) (world s1);
          w' = (if fd \<ge> 0 \<and> flags AND O_CLOEXEC k \<noteq> 0 then k_cloexec k fd w else w)
      in (fd, s1\<lparr>world := w', perrno := e\<rparr>))"

definition sce_errno :: "u32 \<Rightarrow> int" where
  "sce_errno rc = (if drop_bit 16 rc = 0x8002 then uint (rc AND 0xFFFF) else EIO)"

definition sceFailure :: "u32 \<Rightarrow> 'w paths_state \<Rightarrow> int \<times> 'w paths_state" where
  "sceFailure rc s = (-1, s\<lparr>perrno := sce_errno rc\<rparr>)"

definition unlink :: "'w kernel \<Rightarrow> string option \<Rightarrow> 'w paths_state \<Rightarrow> int \<times> 'w paths_state" where
  "unlink k path s =
     (let (p, s1) = anchorPath k path 512 s;
          (rc, w) = k_unlink k p (world s1);
          s2 = s1\<lparr>world := w\<rparr>
      in if rc \<noteq> 0 then sceFailure rc s2 else (0, s2))"

definition rename :: "'w kernel \<Rightarrow> string option \<Rightarrow> string option \<Rightarrow> 'w paths_state \<Rightarrow> int \<times> 'w paths_state" where
  "rename k from to s =
     (let (f, s1) = anchorPath k from 512 s;
          (t, s2) = anchorPath k to 512 s1;
          (rc, w) = k_rename k f t (world s2);
          s3 = s2\<lparr>world := w\<rparr>
      in if rc \<noteq> 0 then sceFailure rc s3 else (0, s3))"

end
