(* ===== verification/Stat.thy ===== *)
theory Stat
  imports Paths Time
begin

text \<open>
  The stat family of \<open>src/orbis_stat.cpp\<close>: the bytes the kernel writes become the caller's
  \<open>struct stat\<close> field by field, and \<open>remove\<close> of \<open>src/orbis_paths.cpp\<close>, which asks \<open>stat\<close>. The
  caller's fields are at least as wide as the kernel's, so they are numbers here.
\<close>

unbundle bit_operations_syntax

section \<open>The layouts\<close>

definition kDev :: nat where "kDev = 0x00"
definition kIno :: nat where "kIno = 0x04"
definition kMode :: nat where "kMode = 0x08"
definition kNlink :: nat where "kNlink = 0x0a"
definition kUid :: nat where "kUid = 0x0c"
definition kGid :: nat where "kGid = 0x10"
definition kRdev :: nat where "kRdev = 0x14"
definition kAtim :: nat where "kAtim = 0x18"
definition kMtim :: nat where "kMtim = 0x28"
definition kCtim :: nat where "kCtim = 0x38"
definition kSize :: nat where "kSize = 0x48"
definition kBlocks :: nat where "kBlocks = 0x50"
definition kBlksize :: nat where "kBlksize = 0x58"
definition kFlags :: nat where "kFlags = 0x5c"
definition kGen :: nat where "kGen = 0x60"
definition kBirth :: nat where "kBirth = 0x68"

lemmas k_offsets = kDev_def kIno_def kMode_def kNlink_def kUid_def kGid_def kRdev_def kAtim_def
  kMtim_def kCtim_def kSize_def kBlocks_def kBlksize_def kFlags_def kGen_def kBirth_def

definition kScratch :: nat where "kScratch = 256"
definition kSonyStatSize :: nat where "kSonyStatSize = 120"

record stat_t =
  st_dev :: nat
  st_ino :: nat
  st_mode :: nat
  st_nlink :: nat
  st_uid :: nat
  st_gid :: nat
  st_rdev :: nat
  st_size :: int
  st_blocks :: int
  st_blksize :: nat
  st_flags :: nat
  st_gen :: nat
  st_atim :: timespec
  st_mtim :: timespec
  st_ctim :: timespec
  st_birthtim :: timespec

text \<open>\<open>fieldAt<uintN_t>\<close> of \<open>n\<close> bytes, and \<open>fieldAt<int64_t>\<close>.\<close>

definition fieldAt :: "nat \<Rightarrow> nat list \<Rightarrow> nat \<Rightarrow> nat" where
  "fieldAt n raw off = le_value (take n (drop off raw))"

definition fieldAt_i64 :: "nat list \<Rightarrow> nat \<Rightarrow> int" where
  "fieldAt_i64 raw off = sint (word_of_nat (fieldAt 8 raw off) :: u64)"

definition readTimespec :: "nat list \<Rightarrow> nat \<Rightarrow> timespec" where
  "readTimespec raw off = \<lparr>tv_sec = fieldAt_i64 raw off, tv_nsec = fieldAt_i64 raw (off + 8)\<rparr>"

text \<open>
  \<open>translate\<close>. The last store is to the byte offset of the kernel's size, which is
  \<open>st_ctim.tv_nsec\<close> in the caller's layout (the file asserts it).
\<close>

definition translate :: "nat list \<Rightarrow> stat_t" where
  "translate raw =
     (let out = \<lparr>st_dev = fieldAt 4 raw kDev, st_ino = fieldAt 4 raw kIno, st_mode = fieldAt 2 raw kMode,
            st_nlink = fieldAt 2 raw kNlink, st_uid = fieldAt 4 raw kUid, st_gid = fieldAt 4 raw kGid,
            st_rdev = fieldAt 4 raw kRdev, st_size = fieldAt_i64 raw kSize, st_blocks = fieldAt_i64 raw kBlocks,
            st_blksize = fieldAt 4 raw kBlksize, st_flags = fieldAt 4 raw kFlags, st_gen = fieldAt 4 raw kGen,
            st_atim = readTimespec raw kAtim, st_mtim = readTimespec raw kMtim,
            st_ctim = readTimespec raw kCtim, st_birthtim = readTimespec raw kBirth\<rparr>;
          trueSize = fieldAt_i64 raw kSize
      in out\<lparr>st_ctim := (st_ctim out)\<lparr>tv_nsec := trueSize\<rparr>\<rparr>)"

definition sonyStatQword :: "nat list \<Rightarrow> nat \<Rightarrow> int" where
  "sonyStatQword raw off = fieldAt_i64 raw off"

section \<open>The calls\<close>

text \<open>
  The result, the structure when it was written, and the state. \<open>out\<close> tells whether the caller's
  pointer is not null. The bytes a kernel call does not write are zero, as the scratch buffer is.
\<close>

definition scratch :: "nat list \<Rightarrow> nat list" where
  "scratch bytes = bytes @ replicate (kScratch - length bytes) 0"

definition rawKernelFstat :: "'w kernel \<Rightarrow> int \<Rightarrow> 'w paths_state \<Rightarrow> int \<times> nat list \<times> 'w paths_state" where
  "rawKernelFstat k fd s =
     (let (rc, e, bytes, w) = k_fstat k fd (perrno s) (world s) in
      (rc, bytes @ replicate (kSonyStatSize - length bytes) 0, s\<lparr>world := w, perrno := e\<rparr>))"

definition fstat :: "'w kernel \<Rightarrow> int \<Rightarrow> bool \<Rightarrow> 'w paths_state \<Rightarrow> int \<times> stat_t option \<times> 'w paths_state" where
  "fstat k fd out s =
     (if \<not> out then (-1, None, s\<lparr>perrno := EFAULT\<rparr>)
      else
        let (rc, e, bytes, w) = k_fstat k fd (perrno s) (world s);
            s' = s\<lparr>world := w, perrno := e\<rparr>
        in if rc \<noteq> 0 then (rc, None, s') else (0, Some (translate (scratch bytes)), s'))"

definition stat_path :: "'w kernel \<Rightarrow> string option \<Rightarrow> bool \<Rightarrow> 'w paths_state \<Rightarrow> int \<times> stat_t option \<times> 'w paths_state" where
  "stat_path k path out s =
     (if path = None \<or> \<not> out then (-1, None, s\<lparr>perrno := EFAULT\<rparr>)
      else
        let (p, s1) = anchorPath k path 512 s;
            (rc, bytes, w) = k_stat k p (world s1);
            s2 = s1\<lparr>world := w\<rparr>
        in if rc \<noteq> 0
           then (-1, None, s2\<lparr>perrno := (if drop_bit 16 rc = 0x8002 then uint (rc AND 0xFFFF) else EIO)\<rparr>)
           else (0, Some (translate (scratch bytes)), s2))"

definition lstat :: "'w kernel \<Rightarrow> string option \<Rightarrow> bool \<Rightarrow> 'w paths_state \<Rightarrow> int \<times> stat_t option \<times> 'w paths_state" where
  "lstat k path out s = stat_path k path out s"

definition fstatat :: "'w kernel \<Rightarrow> int \<Rightarrow> string option \<Rightarrow> bool \<Rightarrow> 'w paths_state \<Rightarrow> int \<times> stat_t option \<times> 'w paths_state" where
  "fstatat k fd path out s =
     (case path of
        None \<Rightarrow> (-1, None, s\<lparr>perrno := EFAULT\<rparr>)
      | Some p \<Rightarrow>
          if \<not> out then (-1, None, s\<lparr>perrno := EFAULT\<rparr>)
          else if (p \<noteq> [] \<and> hd p = CHR ''/'') \<or> fd = AT_FDCWD k then stat_path k path out s
          else (-1, None, s\<lparr>perrno := ENOSYS\<rparr>))"

text \<open>\<open>S_ISDIR\<close>\<close>

definition S_ISDIR :: "nat \<Rightarrow> bool" where
  "S_ISDIR m = (m AND 0xf000 = 0x4000)"

definition remove :: "'w kernel \<Rightarrow> string option \<Rightarrow> 'w paths_state \<Rightarrow> int \<times> 'w paths_state" where
  "remove k path s =
     (let (r, st, s1) = stat_path k path True s in
      case st of
        None \<Rightarrow> (-1, s1)
      | Some v \<Rightarrow>
          if r \<noteq> 0 then (-1, s1)
          else if \<not> S_ISDIR (st_mode v) then unlink k path s1
          else
            let (p, s2) = anchorPath k path 512 s1;
                (rc, w) = k_rmdir k p (world s2);
                s3 = s2\<lparr>world := w\<rparr>
            in if rc \<noteq> 0 then sceFailure rc s3 else (0, s3))"

end
