(* ===== verification/Paths_Props.thy ===== *)
theory Paths_Props
  imports Stat
begin

text \<open>
  The anchor over whole runs of the interposed calls, the errno of a failing call, and the
  translation of the kernel's \<open>struct stat\<close>.
\<close>

unbundle bit_operations_syntax

section \<open>Runs\<close>

datatype path_op =
    Set_root "string option"
  | Open "string option" u32 int
  | Unlink "string option"
  | Rename "string option" "string option"
  | Stat "string option" bool
  | Fstat int bool
  | Fstatat int "string option" bool
  | Remove "string option"

primrec path_run1 :: "'w kernel \<Rightarrow> path_op \<Rightarrow> 'w paths_state \<Rightarrow> 'w paths_state" where
  "path_run1 k (Set_root p) s = orbis_set_anchor_root k p s"
| "path_run1 k (Open p fl m) s = snd (open_file k p fl m s)"
| "path_run1 k (Unlink p) s = snd (unlink k p s)"
| "path_run1 k (Rename p q) s = snd (rename k p q s)"
| "path_run1 k (Stat p ok) s = snd (snd (stat_path k p ok s))"
| "path_run1 k (Fstat fd ok) s = snd (snd (fstat k fd ok s))"
| "path_run1 k (Fstatat fd p ok) s = snd (snd (fstatat k fd p ok s))"
| "path_run1 k (Remove p) s = snd (remove k p s)"

primrec path_run :: "'w kernel \<Rightarrow> path_op list \<Rightarrow> 'w paths_state \<Rightarrow> 'w paths_state" where
  "path_run k [] s = s"
| "path_run k (x # xs) s = path_run k xs (path_run1 k x s)"

lemma path_run_append: "path_run k (xs @ ys) s = path_run k ys (path_run k xs s)"
  by (induction xs arbitrary: s) simp_all

section \<open>The root\<close>

definition absolute_dir :: "string \<Rightarrow> bool" where
  "absolute_dir r \<longleftrightarrow> r \<noteq> [] \<and> hd r = CHR ''/'' \<and> last r = CHR ''/''"

definition title_dir :: "string \<Rightarrow> bool" where
  "title_dir r \<longleftrightarrow> (\<exists>ident. r = ''/data/'' @ ident @ ''/'' \<and> ident \<noteq> [] \<and> CHR ''/'' \<notin> set ident)"

definition root_ok :: "'w paths_state \<Rightarrow> bool" where
  "root_ok s \<longleftrightarrow> (rootOverride s = [] \<or> absolute_dir (rootOverride s)) \<and>
     (rootDecided s \<longleftrightarrow> anchor s \<noteq> None) \<and>
     (\<forall>r. anchor s = Some r \<longrightarrow> absolute_dir r \<and> (r = rootOverride s \<or> rootOverride s = [] \<and> title_dir r))"

text \<open>What a step may do to the root: decide it when it is open, and nothing else.\<close>

definition root_step :: "'w paths_state \<Rightarrow> 'w paths_state \<Rightarrow> bool" where
  "root_step s s' \<longleftrightarrow> (root_ok s \<longrightarrow> root_ok s') \<and> (\<forall>r. anchor s = Some r \<longrightarrow> anchor s' = Some r)"

lemma root_step_refl [simp]: "root_step s s"
  by (simp add: root_step_def)

lemma root_step_trans: "root_step s s' \<Longrightarrow> root_step s' s'' \<Longrightarrow> root_step s s''"
  by (simp add: root_step_def)

lemma root_step_same:
  "root_step s t \<Longrightarrow> rootOverride t' = rootOverride t \<Longrightarrow> rootDecided t' = rootDecided t \<Longrightarrow>
   anchor t' = anchor t \<Longrightarrow> root_step s t'"
proof -
  assume step: "root_step s t" and same: "rootOverride t' = rootOverride t"
    "rootDecided t' = rootDecided t" "anchor t' = anchor t"
  have "root_ok t' = root_ok t" unfolding root_ok_def same ..
  with step show ?thesis by (simp add: root_step_def same(3))
qed

lemma title_from_no_slash: "title_from n xs \<Longrightarrow> CHR ''/'' \<notin> set xs \<and> (xs \<noteq> [] \<or> 0 < n)"
proof (induction xs arbitrary: n)
  case (Cons c cs)
  then have "title_char c" "title_from (n + 1) cs" by (simp_all split: if_splits)
  moreover have "\<not> title_char CHR ''/''" by (simp add: title_char_def Let_def)
  ultimately show ?case using Cons.IH [of "n + 1"] by auto
qed simp

lemma titleIdRoot_dir:
  assumes "titleIdRoot k s = (r, s')"
  shows "r = [] \<or> title_dir r"
    and "rootOverride s' = rootOverride s" "rootDecided s' = rootDecided s" "anchor s' = anchor s"
proof -
  have "CHR ''/'' \<notin> set x \<and> x \<noteq> []" if "titleIdLooksReal x" for x
    using title_from_no_slash [of 0 x] that by (simp add: titleIdLooksReal_def)
  then show "r = [] \<or> title_dir r"
    using assms by (force simp: titleIdRoot_def title_dir_def Let_def split: prod.splits if_splits)
qed (use assms in \<open>auto simp: titleIdRoot_def Let_def split: prod.splits if_splits\<close>)

lemma title_dir_absolute: "title_dir r \<Longrightarrow> absolute_dir r"
  by (auto simp: title_dir_def absolute_dir_def)

lemma fallback_dir: "title_dir ''/data/orbis-compat/''"
  unfolding title_dir_def by (rule exI [of _ "''orbis-compat''"]) simp

lemma anchorRoot_step:
  assumes "anchorRoot k s = (r, s')"
  shows "root_step s s'" "anchor s' = Some r"
proof -
  have "root_step s s' \<and> anchor s' = Some r"
  proof (cases "anchor s")
    case None
    obtain r1 s1 where t: "(if rootOverride s = [] then titleIdRoot k s else (rootOverride s, s)) = (r1, s1)"
      by (rule prod.exhaust)
    have s1: "rootOverride s1 = rootOverride s"
      and r1: "rootOverride s \<noteq> [] \<Longrightarrow> r1 = rootOverride s" "rootOverride s = [] \<Longrightarrow> r1 = [] \<or> title_dir r1"
      using t titleIdRoot_dir [of k s r1 s1] by (auto split: if_splits)
    obtain rc e w where m: "k_mkdir k (butlast (if r1 = [] then ''/data/orbis-compat/'' else r1)) 0x1ff
        (perrno s1) (world s1) = (rc, e, w)" by (rule prod_cases3)
    have r: "r = (if r1 = [] then ''/data/orbis-compat/'' else r1)"
      and s': "s' = s1\<lparr>rootDecided := True, anchor := Some r, world := w, perrno := e\<rparr>"
      using assms None t m by (auto simp: anchorRoot_def Let_def)
    have "absolute_dir r \<and> (r = rootOverride s \<or> rootOverride s = [] \<and> title_dir r)" if "root_ok s"
    proof (cases "rootOverride s = []")
      case True
      then have "title_dir r" using r1(2) fallback_dir by (auto simp: r)
      then show ?thesis using True title_dir_absolute by blast
    next
      case False
      then show ?thesis using r1(1) that by (simp add: r root_ok_def)
    qed
    then have "root_ok s'" if "root_ok s"
      using that s1 by (auto simp: root_ok_def s')
    then show ?thesis using None by (simp add: root_step_def s')
  next
    case (Some x)
    then show ?thesis using assms by (simp add: anchorRoot_def)
  qed
  then show "root_step s s'" "anchor s' = Some r" by simp_all
qed

lemma anchorPath_step: "anchorPath k p n s = (q, s') \<Longrightarrow> root_step s s'"
  by (auto simp: anchorPath_def Let_def anchorSayOnce_def dest!: anchorRoot_step(1)
      intro: root_step_same split: option.splits if_splits prod.splits)

lemma set_root_step: "root_step s (orbis_set_anchor_root k p s)"
proof (cases p)
  case (Some x)
  show ?thesis
  proof (cases "x = [] \<or> hd x \<noteq> CHR ''/''")
    case False
    show ?thesis
    proof (cases "rootDecided s")
      case True
      obtain r s' where a: "anchorRoot k s = (r, s')" by (rule prod.exhaust)
      then show ?thesis
        using Some False True anchorRoot_step(1) [OF a] by (simp add: orbis_set_anchor_root_def)
    next
      case undecided: False
      then show ?thesis
        using Some False by (auto simp: orbis_set_anchor_root_def root_step_def root_ok_def absolute_dir_def)
    qed
  qed (use Some in \<open>simp add: orbis_set_anchor_root_def\<close>)
qed (simp add: orbis_set_anchor_root_def)

lemmas path_steps = root_step_same [OF anchorPath_step] root_step_same [OF root_step_refl]

lemma unlink_step: "root_step s (snd (unlink k p s))"
  by (auto simp: unlink_def sceFailure_def Let_def intro: path_steps split: prod.splits)

lemma stat_step: "root_step s (snd (snd (stat_path k p ok s)))"
  by (auto simp: stat_path_def Let_def intro: path_steps split: prod.splits)

lemma rename_step: "root_step s (snd (rename k p q s))"
  by (auto simp: rename_def sceFailure_def Let_def split: prod.splits
      dest!: anchorPath_step intro: root_step_same [OF root_step_trans])

lemma remove_step: "root_step s (snd (remove k p s))"
proof -
  obtain r st s1 where st: "stat_path k p True s = (r, st, s1)" by (rule prod_cases3)
  have s1: "root_step s s1" using stat_step [of s k p True] by (simp add: st)
  obtain q s2 where q: "anchorPath k p 512 s1 = (q, s2)" by (rule prod.exhaust)
  have s2: "root_step s s2" by (rule root_step_trans [OF s1 anchorPath_step [OF q]])
  show ?thesis
    using s1 root_step_trans [OF s1 unlink_step [of s1 k p]]
    by (auto simp: remove_def st q Let_def sceFailure_def intro: root_step_same [OF s2]
        split: option.splits prod.splits)
qed

lemma path_run1_step: "root_step s (path_run1 k x s)"
proof (cases x)
  case (Open p fl m)
  then show ?thesis by (auto simp: open_file_def Let_def intro: path_steps split: prod.splits)
next
  case (Fstat fd ok)
  then show ?thesis by (auto simp: fstat_def Let_def intro: path_steps split: prod.splits)
next
  case (Fstatat fd p ok)
  then show ?thesis
    by (auto simp: fstatat_def stat_step intro: path_steps split: option.splits)
qed (simp_all add: set_root_step unlink_step rename_step stat_step remove_step)

lemma path_run_step: "root_step s (path_run k xs s)"
proof (induction xs arbitrary: s)
  case (Cons x xs)
  then show ?case using root_step_trans [OF path_run1_step Cons.IH] by simp
qed simp

text \<open>
  C32. One root for the whole process. After any run of the interposed calls in which the root has
  been decided, it is an absolute directory path: what the application set, or
  \<open>/data/<one name>/\<close> with no slash in the name. No later call, \<open>orbis_set_anchor_root\<close> included,
  changes it. A relative path that fits the 512-byte buffer behind the root is given to the kernel
  there, and a longer one is passed through as it is - never cut, and never behind another root.
\<close>

theorem anchor_root_fixed:
  assumes "anchor (path_run k xs (paths_init w)) = Some r"
    and "path \<noteq> []" "hd path \<noteq> CHR ''/''"
  shows "let s = path_run k (xs @ ys) (paths_init w) in
           anchor s = Some r \<and> absolute_dir r \<and> (r = rootOverride s \<or> title_dir r) \<and>
           fst (anchorPath k (Some path) 512 s) =
             Some (if length r + length path + 1 \<le> 512 then r @ path else path)"
proof -
  let ?s1 = "path_run k xs (paths_init w)" and ?s = "path_run k (xs @ ys) (paths_init w)"
  have "root_ok (paths_init w)" by (simp add: root_ok_def paths_init_def)
  moreover have "root_step (paths_init w) ?s" by (rule path_run_step)
  ultimately have ok: "root_ok ?s" by (simp add: root_step_def)
  have "root_step ?s1 ?s" by (simp add: path_run_append path_run_step)
  then have a: "anchor ?s = Some r" using assms(1) by (simp add: root_step_def)
  then have "fst (anchorPath k (Some path) 512 ?s) =
      Some (if length r + length path + 1 \<le> 512 then r @ path else path)"
    using assms(2,3) by (simp add: anchorPath_def anchorRoot_def)
  then show ?thesis using ok a by (auto simp: Let_def root_ok_def)
qed

definition quiet_kernel :: "u32 \<Rightarrow> unit kernel" where
  "quiet_kernel rc = \<lparr>k_app_info = (\<lambda>w. (0, ''CUSA00001'', w)), k_mkdir = (\<lambda>_ _ e w. (0, e, w)),
     k_open = (\<lambda>_ _ _ e w. (3, e, w)), k_cloexec = (\<lambda>_ w. w), k_unlink = (\<lambda>_ w. (rc, w)),
     k_rename = (\<lambda>_ _ w. (rc, w)), k_rmdir = (\<lambda>_ w. (rc, w)), k_stat = (\<lambda>_ w. (0, [], w)),
     k_fstat = (\<lambda>_ e w. (0, e, [], w)), O_CREAT = 0x200, O_TMPFILE = 0x10000, O_CLOEXEC = 0x100000,
     AT_FDCWD = -100\<rparr>"

lemma anchor_root_fixed_witness:
  "fst (anchorPath (quiet_kernel 0) (Some ''save.dat'') 512
     (path_run (quiet_kernel 0) [Open (Some ''a'') 0 0, Set_root (Some ''/app0'')] (paths_init ()))) =
   Some ''/data/CUSA00001/save.dat''"
proof -
  have "anchor (path_run (quiet_kernel 0) [Open (Some ''a'') 0 0] (paths_init ())) = Some ''/data/CUSA00001/''"
    by code_simp
  then show ?thesis
    using anchor_root_fixed [of "quiet_kernel 0" "[Open (Some ''a'') 0 0]" "()" "''/data/CUSA00001/''"
        "''save.dat''" "[Set_root (Some ''/app0'')]"]
    by (simp add: Let_def)
qed

end
