(* ===== verification/Stat_Props.thy ===== *)
theory Stat_Props
  imports Paths_Props
begin

text \<open>
  The errno of the interposed calls, against the code's documented form of a kernel error, and
  the round trip of \<open>struct stat\<close> through the kernel's layout.
\<close>

unbundle bit_operations_syntax

section \<open>Errors\<close>

text \<open>An SCE error is \<open>0x80020000\<close> plus a FreeBSD errno; any other code is \<open>EIO\<close>.\<close>

definition sce_decode :: "u32 \<Rightarrow> int" where
  "sce_decode rc =
     (if 0x80020000 \<le> uint rc \<and> uint rc < 0x80030000 then uint rc - 0x80020000 else EIO)"

lemma div_iff: "0 < b \<Longrightarrow> x div b = q \<longleftrightarrow> q * b \<le> x \<and> x < q * b + (b :: int)"
proof
  assume "0 < b" "x div b = q"
  then have "x = q * b + x mod b" by (metis div_mult_mod_eq)
  then show "q * b \<le> x \<and> x < q * b + b"
    using pos_mod_sign [OF \<open>0 < b\<close>, of x] pos_mod_bound [OF \<open>0 < b\<close>, of x] by linarith
next
  assume "0 < b" "q * b \<le> x \<and> x < q * b + b"
  then show "x div b = q"
    by (intro int_div_pos_eq [of x b q "x - q * b"]) (simp_all add: mult.commute)
qed

lemma sce_errno_decode: "sce_errno rc = sce_decode rc"
proof -
  have d: "uint (drop_bit 16 rc) = uint rc div 65536"
    by (simp add: drop_bit_eq_div uint_div_distrib)
  have m: "uint (rc AND 0xFFFF) = uint rc mod 65536"
  proof -
    have "uint (rc AND 0xFFFF) = uint rc AND mask 16"
      by (simp add: unsigned_and_eq mask_eq_exp_minus_1)
    then show ?thesis by (simp add: take_bit_eq_mask [symmetric] take_bit_eq_mod)
  qed
  have "drop_bit 16 rc = 0x8002 \<longleftrightarrow> uint (drop_bit 16 rc) = uint (0x8002 :: u32)"
    by (rule word_uint_eq_iff)
  then have "drop_bit 16 rc = 0x8002 \<longleftrightarrow> uint rc div 65536 = 0x8002" by (simp add: d)
  also have "\<dots> \<longleftrightarrow> 0x80020000 \<le> uint rc \<and> uint rc < 0x80030000"
    by (simp add: div_iff)
  finally have h: "drop_bit 16 rc = 0x8002 \<longleftrightarrow> 0x80020000 \<le> uint rc \<and> uint rc < 0x80030000" .
  have "uint rc mod 65536 = uint rc - 0x80020000" if "0x80020000 \<le> uint rc" "uint rc < 0x80030000"
  proof -
    have "uint rc div 65536 = 0x8002" using that by (simp add: div_iff)
    then show ?thesis by (simp add: minus_div_mult_eq_mod [symmetric])
  qed
  then show ?thesis by (simp add: sce_errno_def sce_decode_def h m)
qed

text \<open>What a call that delegates to one SCE call answers.\<close>

definition sce_answer :: "u32 \<times> 'w \<Rightarrow> 'w paths_state \<Rightarrow> int \<times> 'w paths_state" where
  "sce_answer a s =
     (if fst a = 0 then (0, s\<lparr>world := snd a\<rparr>)
      else (-1, s\<lparr>world := snd a, perrno := sce_decode (fst a)\<rparr>))"

text \<open>Anchoring a path again changes nothing.\<close>

lemma anchorPath_again:
  assumes "anchorPath k p n s = (q, s1)"
  shows "anchorPath k p n (s1\<lparr>world := w\<rparr>) = (q, s1\<lparr>world := w\<rparr>)"
proof (cases p)
  case (Some path)
  show ?thesis
  proof (cases "path = [] \<or> hd path = CHR ''/''")
    case False
    obtain r s0 where r: "anchorRoot k s = (r, s0)" by (rule prod.exhaust)
    have a: "anchor s0 = Some r" by (rule anchorRoot_step(2) [OF r])
    have "anchor s1 = Some r \<and> (length r + length path + 1 \<le> n \<longrightarrow> anchorSaid s1)"
      and "q = (if length r + length path + 1 > n then Some path else Some (r @ path))"
      using assms Some False r a by (auto simp: anchorPath_def anchorSayOnce_def Let_def split: if_splits)
    then show ?thesis
      using Some False by (simp add: anchorPath_def anchorRoot_def anchorSayOnce_def)
  qed (use assms Some in \<open>auto simp: anchorPath_def\<close>)
qed (use assms in \<open>simp add: anchorPath_def\<close>)

lemma sce_finish:
  "(if rc \<noteq> 0 then sceFailure rc (s\<lparr>world := w\<rparr>) else (0, s\<lparr>world := w\<rparr>)) = sce_answer (rc, w) s"
  by (simp add: sce_answer_def sceFailure_def sce_errno_decode)

lemma unlink_answer:
  "anchorPath k p 512 s = (q, s1) \<Longrightarrow> unlink k p s = sce_answer (k_unlink k q (world s1)) s1"
  by (cases "k_unlink k q (world s1)") (simp add: unlink_def sce_finish [simplified])

text \<open>
  C33. A failing call returns \<open>-1\<close> with the errno its SCE code carries. \<open>unlink\<close> is the kernel's
  unlink of the anchored path; \<open>remove\<close> asks for the path's mode first, fails with that call's
  errno when it fails, and then is the kernel's rmdir for a directory and its unlink for anything
  else, on the same path. A code that is no \<open>0x8002xxxx\<close> gives \<open>EIO\<close>.
\<close>

theorem sce_errors_decoded:
  assumes "anchorPath k (Some path) 512 s = (q, s1)" and "k_stat k q (world s1) = (rc, bytes, w)"
  shows "unlink k (Some path) s = sce_answer (k_unlink k q (world s1)) s1 \<and>
         remove k (Some path) s =
           (if rc \<noteq> 0 then sce_answer (rc, w) s1
            else sce_answer (if S_ISDIR (st_mode (translate (scratch bytes))) then k_rmdir k q w
                             else k_unlink k q w) s1)"
proof -
  note again = anchorPath_again [OF assms(1), of w]
  have w: "sce_answer a (s1\<lparr>world := w\<rparr>) = sce_answer a s1" for a by (simp add: sce_answer_def)
  have u: "unlink k (Some path) (s1\<lparr>world := w\<rparr>) = sce_answer (k_unlink k q w) s1"
    using unlink_answer [OF again] by (simp add: w)
  have d: "(let (p, s2) = anchorPath k (Some path) 512 (s1\<lparr>world := w\<rparr>);
                (rc, w') = k_rmdir k p (world s2); s3 = s2\<lparr>world := w'\<rparr>
            in if rc \<noteq> 0 then sceFailure rc s3 else (0, s3)) = sce_answer (k_rmdir k q w) s1"
    by (cases "k_rmdir k q w") (simp add: again sce_answer_def sceFailure_def sce_errno_decode)
  have "remove k (Some path) s =
           (if rc \<noteq> 0 then sce_answer (rc, w) s1
            else sce_answer (if S_ISDIR (st_mode (translate (scratch bytes))) then k_rmdir k q w
                             else k_unlink k q w) s1)"
  proof (cases "rc = 0")
    case True
    then show ?thesis using assms u d by (simp add: remove_def stat_path_def)
  next
    case False
    then show ?thesis
      using assms by (simp add: remove_def stat_path_def sce_answer_def flip: sce_errno_def sce_errno_decode)
  qed
  then show ?thesis using unlink_answer [OF assms(1)] by blast
qed

lemma sce_errors_decoded_witness:
  "perrno (snd (unlink (quiet_kernel 0x80020015) (Some ''/data/d'') (paths_init ()))) = 0x15"
  using sce_errors_decoded [of "quiet_kernel 0x80020015" "''/data/d''" "paths_init ()" "Some ''/data/d''"
      "paths_init ()" 0 "[]" "()"]
  by (simp add: anchorPath_def quiet_kernel_def sce_answer_def sce_decode_def)

section \<open>The translation\<close>

text \<open>The kernel's structure and its 120 bytes.\<close>

record sony_time =
  z_sec :: u64
  z_nsec :: u64

record sony_stat =
  z_dev :: u32
  z_ino :: u32
  z_mode :: u16
  z_nlink :: u16
  z_uid :: u32
  z_gid :: u32
  z_rdev :: u32
  z_atim :: sony_time
  z_mtim :: sony_time
  z_ctim :: sony_time
  z_size :: u64
  z_blocks :: u64
  z_blksize :: u32
  z_flags :: u32
  z_gen :: u32
  z_lspare :: u32
  z_birthtim :: sony_time

definition time_bytes :: "sony_time \<Rightarrow> nat list" where
  "time_bytes t = le_bytes 8 (unat (z_sec t)) @ le_bytes 8 (unat (z_nsec t))"

definition sony_bytes :: "sony_stat \<Rightarrow> nat list" where
  "sony_bytes z =
     le_bytes 4 (unat (z_dev z)) @ le_bytes 4 (unat (z_ino z)) @ le_bytes 2 (unat (z_mode z)) @
     le_bytes 2 (unat (z_nlink z)) @ le_bytes 4 (unat (z_uid z)) @ le_bytes 4 (unat (z_gid z)) @
     le_bytes 4 (unat (z_rdev z)) @ time_bytes (z_atim z) @ time_bytes (z_mtim z) @ time_bytes (z_ctim z) @
     le_bytes 8 (unat (z_size z)) @ le_bytes 8 (unat (z_blocks z)) @ le_bytes 4 (unat (z_blksize z)) @
     le_bytes 4 (unat (z_flags z)) @ le_bytes 4 (unat (z_gen z)) @ le_bytes 4 (unat (z_lspare z)) @
     time_bytes (z_birthtim z)"

definition time_view :: "sony_time \<Rightarrow> timespec" where
  "time_view t = \<lparr>tv_sec = sint (z_sec t), tv_nsec = sint (z_nsec t)\<rparr>"

text \<open>A field stands where the bytes before it end.\<close>

lemma fieldAt_app: "off = length as \<Longrightarrow> n = length bs \<Longrightarrow> fieldAt n (as @ bs @ cs) off = le_value bs"
  by (simp add: fieldAt_def)

lemma field_skip: "length as \<le> off \<Longrightarrow> fieldAt n (as @ bs) off = fieldAt n bs (off - length as)"
  by (simp add: fieldAt_def)

lemma field_here: "n = length as \<Longrightarrow> fieldAt n (as @ bs) 0 = le_value as"
  by (simp add: fieldAt_def)

lemma le_word64 [simp]: "le_value (le_bytes 8 (unat (w :: u64))) = unat w"
  using unsigned_less [of w, where 'a = nat] by (simp add: le_value_bytes)

lemma le_word32 [simp]: "le_value (le_bytes 4 (unat (w :: u32))) = unat w"
  using unsigned_less [of w, where 'a = nat] by (simp add: le_value_bytes)

lemma le_word16 [simp]: "le_value (le_bytes 2 (unat (w :: u16))) = unat w"
  using unsigned_less [of w, where 'a = nat] by (simp add: le_value_bytes)

lemmas field_simps' = field_skip field_here time_bytes_def

text \<open>
  C34. The translation inverts the kernel's layout: from the 120 bytes of any kernel structure in
  the 256-byte scratch buffer, the caller's structure gets every field's value, sizes and times
  signed, except that \<open>st_ctim.tv_nsec\<close> is the file size, the second place prebuilt code reads the
  size from.
\<close>

theorem stat_translate_roundtrip:
  "translate (scratch (sony_bytes z)) =
     \<lparr>st_dev = unat (z_dev z), st_ino = unat (z_ino z), st_mode = unat (z_mode z),
      st_nlink = unat (z_nlink z), st_uid = unat (z_uid z), st_gid = unat (z_gid z),
      st_rdev = unat (z_rdev z), st_size = sint (z_size z), st_blocks = sint (z_blocks z),
      st_blksize = unat (z_blksize z), st_flags = unat (z_flags z), st_gen = unat (z_gen z),
      st_atim = time_view (z_atim z), st_mtim = time_view (z_mtim z),
      st_ctim = \<lparr>tv_sec = sint (z_sec (z_ctim z)), tv_nsec = sint (z_size z)\<rparr>,
      st_birthtim = time_view (z_birthtim z)\<rparr>"
  by (simp add: translate_def scratch_def sony_bytes_def k_offsets fieldAt_i64_def readTimespec_def
      time_view_def field_simps' Let_def)

end
