(* ===== verification/Env.thy ===== *)
theory Env
  imports Prelude
begin

text \<open>
  The environment files of \<open>src/orbis_env.cpp\<close>: the line grammar, the bounded table of entries and
  the lookup. A file is the string of its bytes (\<open>None\<close> when it cannot be opened), \<open>getenv\<close> an
  argument, and C strings are character lists without their NUL.
\<close>

definition kMaxEntries :: nat where "kMaxEntries = 64"
definition kMaxLine :: nat where "kMaxLine = 512"

text \<open>\<open>Entry\<close>: the sizes of \<open>key\<close> and \<open>val\<close>.\<close>

definition key_size :: nat where "key_size = 64"
definition val_size :: nat where "val_size = 256"

lemmas env_bounds = kMaxEntries_def kMaxLine_def key_size_def val_size_def

type_synonym entry = "string \<times> string"

record env_state =
  entries :: "entry list"
  loaded :: bool

definition env_init :: env_state where
  "env_init = \<lparr>entries = [], loaded = False\<rparr>"

definition blank :: "char \<Rightarrow> bool" where
  "blank c = (c = CHR '' '' \<or> c = CHR 0x09)"

definition white :: "char \<Rightarrow> bool" where
  "white c = (blank c \<or> c = CHR 0x0A \<or> c = CHR 0x0D)"

definition trim_front :: "string \<Rightarrow> string" where
  "trim_front s = dropWhile blank s"

definition trim_back :: "string \<Rightarrow> string" where
  "trim_back s = rev (dropWhile white (rev s))"

text \<open>\<open>snprintf(buf, n, "%s", s)\<close>\<close>

definition bounded :: "nat \<Rightarrow> string \<Rightarrow> string" where
  "bounded n s = take (n - 1) s"

fun store_val :: "string \<Rightarrow> string \<Rightarrow> entry list \<Rightarrow> entry list option" where
  "store_val key val [] = None"
| "store_val key val ((k, v) # es) =
     (if k = key then Some ((k, bounded val_size val) # es)
      else map_option ((#) (k, v)) (store_val key val es))"

definition store :: "string \<Rightarrow> string \<Rightarrow> entry list \<Rightarrow> entry list" where
  "store key val es =
     (case store_val key val es of
        Some es' \<Rightarrow> es'
      | None \<Rightarrow>
          if length es \<ge> kMaxEntries then es
          else es @ [(bounded key_size key, bounded val_size val)])"

text \<open>\<open>fgets\<close>: at most \<open>n\<close> characters up to and with a newline, and the rest of the file.\<close>

fun fgets :: "nat \<Rightarrow> string \<Rightarrow> string \<times> string" where
  "fgets 0 cs = ([], cs)"
| "fgets (Suc n) [] = ([], [])"
| "fgets (Suc n) (c # cs) =
     (if c = CHR 0x0A then ([c], cs) else let (l, r) = fgets n cs in (c # l, r))"

lemma fgets_length: "length (snd (fgets n cs)) \<le> length cs"
  by (induction n cs rule: fgets.induct) (auto simp: case_prod_unfold Let_def)

lemma fgets_shorter: "0 < n \<Longrightarrow> cs \<noteq> [] \<Longrightarrow> length (snd (fgets n cs)) < length cs"
  using fgets_length by (cases n; cases cs) (auto simp: case_prod_unfold Let_def less_Suc_eq_le)

text \<open>The body of the loop: the key and the value of a line, if it is an assignment.\<close>

definition parse_line :: "string \<Rightarrow> entry option" where
  "parse_line line =
     (let s = takeWhile (\<lambda>c. c \<noteq> CHR 0x00) line; key = trim_front s in
      if key = [] \<or> hd key = CHR ''#'' \<or> hd key = CHR 0x0A \<or> hd key = CHR 0x0D then None
      else if CHR ''='' \<notin> set key then None
      else
        let k = trim_back (takeWhile (\<lambda>c. c \<noteq> CHR ''='') key);
            v = trim_back (trim_front (drop 1 (dropWhile (\<lambda>c. c \<noteq> CHR ''='') key)))
        in if k \<noteq> [] then Some (k, v) else None)"

function load_lines :: "string \<Rightarrow> entry list \<Rightarrow> entry list" where
  "load_lines cs es =
     (if cs = [] then es
      else
        let (line, rest) = fgets (kMaxLine - 1) cs in
        load_lines rest (case parse_line line of None \<Rightarrow> es | Some (k, v) \<Rightarrow> store k v es))"
  by pat_completeness auto
termination
proof (relation "measure (\<lambda>(cs, es). length cs)", goal_cases)
  case (2 cs es p line rest)
  then have "snd (fgets (kMaxLine - 1) cs) = rest" by (metis snd_conv)
  then show ?case using 2(1) fgets_shorter [of "kMaxLine - 1" cs] by (auto simp: kMaxLine_def)
qed simp

declare load_lines.simps [simp del]

definition load_file :: "(string \<Rightarrow> string option) \<Rightarrow> string \<Rightarrow> entry list \<Rightarrow> entry list" where
  "load_file files path es = (case files path of None \<Rightarrow> es | Some cs \<Rightarrow> load_lines cs es)"

definition env_files :: "string list" where
  "env_files = [''/data/orbis-env.txt'', ''/data/tempest-env.txt'', ''/data/retroarch-env.txt'',
     ''/data/retroarch-glcore-env.txt'']"

definition load_once :: "(string \<Rightarrow> string option) \<Rightarrow> env_state \<Rightarrow> env_state" where
  "load_once files s =
     (if loaded s then s
      else s\<lparr>loaded := True, entries := fold (load_file files) env_files (entries s)\<rparr>)"

definition orbis_env_get :: "(string \<Rightarrow> string option) \<Rightarrow> (string \<Rightarrow> string option) \<Rightarrow> string option \<Rightarrow>
    env_state \<Rightarrow> string option \<times> env_state" where
  "orbis_env_get getenv files name s =
     (case name of
        None \<Rightarrow> (None, s)
      | Some n \<Rightarrow>
          if n = [] then (None, s)
          else
            (case getenv n of
               Some (c # cs) \<Rightarrow> (Some (c # cs), s)
             | _ \<Rightarrow> let s' = load_once files s in (map_of (entries s') n, s')))"

end
