(* ===== verification/Env_Props.thy ===== *)
theory Env_Props
  imports Env
begin

text \<open>
  The lookup against its specification: the assignments of all the files in order, of which the
  last one for a name counts.
\<close>

section \<open>The assignments of a file\<close>

function file_assignments :: "string \<Rightarrow> entry list" where
  "file_assignments cs =
     (if cs = [] then []
      else
        let (line, rest) = fgets (kMaxLine - 1) cs in
        (case parse_line line of None \<Rightarrow> [] | Some e \<Rightarrow> [e]) @ file_assignments rest)"
  by pat_completeness auto
termination
proof (relation "measure length", goal_cases)
  case (2 cs p line rest)
  then have "snd (fgets (kMaxLine - 1) cs) = rest" by (metis snd_conv)
  then show ?case using 2(1) fgets_shorter [of "kMaxLine - 1" cs] by (auto simp: kMaxLine_def)
qed simp

declare file_assignments.simps [simp del]

definition all_assignments :: "(string \<Rightarrow> string option) \<Rightarrow> entry list" where
  "all_assignments files =
     concat (map (\<lambda>p. case files p of None \<Rightarrow> [] | Some cs \<Rightarrow> file_assignments cs) env_files)"

abbreviation stores :: "entry list \<Rightarrow> entry list \<Rightarrow> entry list" where
  "stores asg es \<equiv> fold (\<lambda>(k, v). store k v) asg es"

lemma load_lines_stores: "load_lines cs es = stores (file_assignments cs) es"
proof (induction cs es rule: load_lines.induct)
  case (1 cs es)
  obtain line rest where f: "fgets (kMaxLine - 1) cs = (line, rest)" by (rule prod.exhaust)
  then show ?case
    using 1 by (auto simp: load_lines.simps [of cs] file_assignments.simps [of cs] split: option.splits)
qed

lemma load_files_stores:
  "fold (load_file files) ps es =
   stores (concat (map (\<lambda>p. case files p of None \<Rightarrow> [] | Some cs \<Rightarrow> file_assignments cs) ps)) es"
  by (induction ps arbitrary: es) (auto simp: load_file_def load_lines_stores split: option.splits)

section \<open>The table\<close>

lemma store_val_None: "store_val k v es = None \<longleftrightarrow> k \<notin> fst ` set es"
  by (induction k v es rule: store_val.induct) auto

lemma store_val_Some:
  "store_val k v es = Some es' \<Longrightarrow>
   map fst es' = map fst es \<and> map_of es' = (map_of es)(k \<mapsto> bounded val_size v)"
  by (induction k v es arbitrary: es' rule: store_val.induct) (auto split: if_splits)

lemma map_of_append_new:
  "k \<notin> fst ` set es \<Longrightarrow> map_of (es @ [(k, v)]) = (map_of es)(k \<mapsto> v)"
  by (induction es) auto

text \<open>With room and a key that fits, a store is an update of the finite map.\<close>

lemma store_update:
  assumes "length k < key_size" "k \<in> fst ` set es \<or> length es < kMaxEntries" "distinct (map fst es)"
  shows "map_of (store k v es) = (map_of es)(k \<mapsto> bounded val_size v) \<and>
         fst ` set (store k v es) = insert k (fst ` set es) \<and> distinct (map fst (store k v es))"
proof (cases "store_val k v es")
  case None
  then have "k \<notin> fst ` set es" by (simp add: store_val_None)
  moreover have "bounded key_size k = k" using assms(1) by (simp add: bounded_def)
  ultimately show ?thesis
    using None assms(2,3) map_of_append_new [of k es] by (auto simp: store_def)
next
  case (Some es')
  then have m: "map fst es' = map fst es" "map_of es' = (map_of es)(k \<mapsto> bounded val_size v)"
    using store_val_Some by blast+
  have "k \<in> fst ` set es" using Some store_val_None [of k v es] by auto
  then show ?thesis using Some m assms(3) by (metis image_set insert_absorb option.simps(5) store_def)
qed

text \<open>The names in the order of their first assignments.\<close>

definition first_names :: "entry list \<Rightarrow> string list" where
  "first_names asg = rev (remdups (rev (map fst asg)))"

lemma first_names_snoc:
  "first_names (asg @ [(k, v)]) = (if k \<in> fst ` set asg then first_names asg else first_names asg @ [k])"
  by (simp add: first_names_def)

lemma set_first_names [simp]: "set (first_names asg) = fst ` set asg"
  by (simp add: first_names_def)

lemma store_full: "k \<notin> fst ` set es \<Longrightarrow> kMaxEntries \<le> length es \<Longrightarrow> store k v es = es"
  using store_val_None [of k v es] by (simp add: store_def)

lemma store_names:
  assumes "length k < key_size"
  shows "map fst (store k v es) =
    (if k \<in> fst ` set es \<or> kMaxEntries \<le> length es then map fst es else map fst es @ [k])"
proof (cases "store_val k v es")
  case None
  have "bounded key_size k = k" "k \<notin> fst ` set es"
    using assms None store_val_None [of k v es] by (simp_all add: bounded_def)
  then show ?thesis using None by (simp add: store_def)
next
  case (Some es')
  then show ?thesis using store_val_Some [OF Some] store_val_None [of k v es] by (auto simp: store_def)
qed

text \<open>The table holds the first names that are assigned, as many as have room.\<close>

lemma stores_names:
  assumes "\<forall>k\<in>fst ` set asg. length k < key_size"
  shows "map fst (stores asg []) = take kMaxEntries (first_names asg)"
  using assms
proof (induction asg rule: rev_induct)
  case Nil
  then show ?case by (simp add: first_names_def)
next
  case (snoc e asg)
  obtain a v where e: "e = (a, v)" by (rule prod.exhaust)
  let ?es = "stores asg []"
  have ih: "map fst ?es = take kMaxEntries (first_names asg)" and a: "length a < key_size"
    using snoc by (auto simp: e)
  have len: "length ?es = min (length (first_names asg)) kMaxEntries" using arg_cong [OF ih, of length] by simp
  have in_es: "a \<in> fst ` set ?es \<longleftrightarrow> a \<in> set (take kMaxEntries (first_names asg))"
    using arg_cong [OF ih, of set] by (metis set_map)
  show ?case
  proof (cases "length (first_names asg) < kMaxEntries")
    case True
    then show ?thesis using ih len in_es a by (simp add: e first_names_snoc store_names)
  next
    case False
    then have "kMaxEntries \<le> length ?es" using len by simp
    then show ?thesis using ih a False by (simp add: e first_names_snoc store_names)
  qed
qed

lemma stores_map:
  assumes "\<forall>k\<in>fst ` set asg. length k < key_size"
  shows "map_of (stores asg []) k =
    (if k \<in> set (take kMaxEntries (first_names asg))
     then map_option (bounded val_size) (map_of (rev asg) k) else None)"
  using assms
proof (induction asg rule: rev_induct)
  case Nil
  then show ?case by simp
next
  case (snoc e asg)
  obtain a v where e: "e = (a, v)" by (rule prod.exhaust)
  let ?es = "stores asg []" and ?n = "take kMaxEntries (first_names asg)"
  have keys: "\<forall>k\<in>fst ` set asg. length k < key_size" and a: "length a < key_size" using snoc.prems by (auto simp: e)
  have ih: "map_of ?es k = (if k \<in> set ?n then map_option (bounded val_size) (map_of (rev asg) k) else None)"
    by (rule snoc.IH [OF keys])
  note names = stores_names [OF keys]
  have in_es: "fst ` set ?es = set ?n" using arg_cong [OF names, of set] by (metis set_map)
  have len: "length ?es = min (length (first_names asg)) kMaxEntries" using arg_cong [OF names, of length] by simp
  have dist: "distinct (map fst ?es)" unfolding names first_names_def by simp
  show ?case
  proof (cases "a \<in> set ?n \<or> length (first_names asg) < kMaxEntries")
    case True
    then have "map_of (store a v ?es) = (map_of ?es)(a \<mapsto> bounded val_size v)"
      using store_update [OF a _ dist, of v] in_es len by auto
    moreover have "set (take kMaxEntries (first_names (asg @ [e]))) = insert a (set ?n)"
    proof (cases "a \<in> fst ` set asg")
      case in_asg: True
      have "a \<in> set ?n" using True in_asg by (cases "a \<in> set ?n") (simp_all only: set_first_names simp_thms take_all less_imp_le)
      then show ?thesis using in_asg by (simp add: e first_names_snoc insert_absorb)
    next
      case new: False
      then have "a \<notin> set ?n" using set_take_subset [of kMaxEntries "first_names asg"] unfolding set_first_names by blast
      then have "length (first_names asg) < kMaxEntries" using True by blast
      then show ?thesis using new by (simp add: e first_names_snoc)
    qed
    ultimately show ?thesis using ih by (auto simp: e)
  next
    case False
    then have "store a v ?es = ?es" using in_es len by (intro store_full) auto
    moreover have "take kMaxEntries (first_names (asg @ [e])) = ?n" using False by (simp add: e first_names_snoc)
    ultimately show ?thesis using ih False by (auto simp: e)
  qed
qed

section \<open>The property\<close>

text \<open>
  C36. What \<open>orbis_env_get\<close> answers, with assignments of keys shorter than 64 bytes in the files:
  a name that the process's own environment sets to something has that value; any other name is
  answered from the four files in order, when it is one of the first 64 names they assign, with the
  value of the last assignment to it, cut to 255 bytes; and a name that is assigned nowhere, or was
  the 65th or a later one, has no answer. The answer does not change on later calls, whatever has
  become of the files. (A longer key is stored cut and lost: \<open>env_long_key_lost\<close>.)
\<close>

theorem env_last_assignment:
  assumes "\<forall>k\<in>fst ` set (all_assignments files). length k < 64" and "name \<noteq> []"
  shows "let (v, s) = orbis_env_get getenv files (Some name) env_init; asg = all_assignments files in
           v = (case getenv name of
                  Some (c # cs) \<Rightarrow> Some (c # cs)
                | _ \<Rightarrow> if name \<in> set (take 64 (first_names asg))
                       then map_option (take 255) (map_of (rev asg) name) else None) \<and>
           orbis_env_get getenv files' (Some name) s = (v, s)"
proof -
  let ?asg = "all_assignments files"
  let ?es = "stores ?asg []"
  have es: "fold (load_file files) env_files [] = ?es"
    by (simp add: load_files_stores all_assignments_def)
  have b: "bounded val_size = take 255" by (simp add: bounded_def val_size_def fun_eq_iff)
  have v: "map_of ?es name =
      (if name \<in> set (take 64 (first_names ?asg)) then map_option (take 255) (map_of (rev ?asg) name) else None)"
    using stores_map [of ?asg name] assms(1) unfolding b kMaxEntries_def key_size_def by blast
  show ?thesis
  proof (cases "getenv name = None \<or> getenv name = Some []")
    case True
    then have miss: "(case getenv name of Some (c # cs) \<Rightarrow> f c cs | _ \<Rightarrow> y) = y" for f and y :: "string option \<times> env_state"
      by auto
    have miss': "(case getenv name of Some (c # cs) \<Rightarrow> f c cs | _ \<Rightarrow> y) = y" for f and y :: "string option"
      using True by auto
    have "orbis_env_get getenv files (Some name) env_init = (map_of ?es name, \<lparr>entries = ?es, loaded = True\<rparr>)"
      using assms(2) miss by (simp add: orbis_env_get_def load_once_def env_init_def es Let_def)
    moreover have "orbis_env_get getenv files' (Some name) \<lparr>entries = ?es, loaded = True\<rparr> =
        (map_of ?es name, \<lparr>entries = ?es, loaded = True\<rparr>)"
      using assms(2) miss by (simp add: orbis_env_get_def load_once_def Let_def)
    ultimately show ?thesis unfolding Let_def miss' by (simp only: prod.case v simp_thms)
  next
    case False
    then obtain c cs where "getenv name = Some (c # cs)" by (metis list.exhaust option.exhaust)
    then show ?thesis using assms(2) by (simp add: orbis_env_get_def Let_def)
  qed
qed

lemma env_last_assignment_witness:
  "fst (orbis_env_get (\<lambda>_. None)
     (\<lambda>p. if p = ''/data/orbis-env.txt'' then Some '' A = 1 '' else if p = ''/data/tempest-env.txt'' then Some ''A=2'' else None)
     (Some ''A'') env_init) = Some ''2''"
proof -
  let ?f = "\<lambda>p. if p = ''/data/orbis-env.txt'' then Some '' A = 1 '' else if p = ''/data/tempest-env.txt'' then Some ''A=2'' else None"
  have a: "all_assignments ?f = [(''A'', ''1''), (''A'', ''2'')]" by code_simp
  show ?thesis
    using env_last_assignment [of ?f "''A''" "\<lambda>_. None" ?f] unfolding a
    by (auto simp: Let_def first_names_def split: prod.splits)
qed

text \<open>A key of 64 bytes or more is stored cut and never found under its name.\<close>

lemma env_long_key_lost:
  assumes "64 \<le> length k"
  shows "map_of (store k v []) k = None"
proof -
  have "length (take 63 k) \<noteq> length k" using assms by simp
  then have "k \<noteq> take 63 k" by metis
  then show ?thesis by (simp add: store_def bounded_def env_bounds)
qed

end
