(* ===== verification/Sigev.thy ===== *)
theory Sigev
  imports Time
begin

text \<open>
  The SIGEV_THREAD timers of \<open>src/orbis_sigev.cpp\<close>: a table of eight slots, and the threads that
  were started for them. The pure parts are functions; the calls and the threads interleave at
  their locks, at the waits on the slot's condition variable and at \<open>pthread_join\<close>, so together
  they are a step relation whose steps are the code between two such points. The calls are made by
  the application's threads and by the callbacks themselves. A handle is a slot of the table or a
  kernel timer's number, which the range check of \<open>slotOf\<close> tells apart.
\<close>

unbundle bit_operations_syntax

definition kMaxTimers :: nat where "kMaxTimers = 8"

datatype timer_t = H_slot nat | H_id int

text \<open>\<open>struct sigevent\<close> as far as the file reads it, and the kernel's.\<close>

record sigevent =
  sigev_notify :: int
  sigev_signo :: int
  sigev_value :: u64
  sigev_fn :: u64

record ksigevent =
  ks_value :: u64
  ks_signo :: int
  ks_notify :: int
  ks_zero :: int
  ks_pad :: int

definition SIGEV_NONE :: int where "SIGEV_NONE = 1"
definition SIGEV_THREAD :: int where "SIGEV_THREAD = 2"

definition toKernel :: "sigevent option \<Rightarrow> ksigevent" where
  "toKernel ev =
     (let k = \<lparr>ks_value = 0, ks_signo = 0, ks_notify = 0, ks_zero = 0, ks_pad = 0\<rparr> in
      case ev of None \<Rightarrow> k
      | Some v \<Rightarrow> k\<lparr>ks_value := sigev_value v, ks_signo := sigev_signo v, ks_notify := sigev_notify v\<rparr>)"

text \<open>\<open>enabled\<close>, from the value of \<open>ORBIS_SIGEV_THREAD\<close>.\<close>

definition sigev_enabled :: "string option \<Rightarrow> bool" where
  "sigev_enabled e = (case e of Some (c # _) \<Rightarrow> c \<noteq> CHR ''0'' | _ \<Rightarrow> True)"

definition isZero :: "timespec \<Rightarrow> bool" where
  "isZero t = (tv_sec t = 0 \<and> tv_nsec t = 0)"

definition addTo :: "timespec \<Rightarrow> timespec \<Rightarrow> timespec" where
  "addTo t d =
     (let s = s64 (tv_sec t + tv_sec d); n = s64 (tv_nsec t + tv_nsec d) in
      if n \<ge> 1000000000 then \<lparr>tv_sec = s64 (s + 1), tv_nsec = s64 (n - 1000000000)\<rparr>
      else \<lparr>tv_sec = s, tv_nsec = n\<rparr>)"

text \<open>\<open>now\<close> before \<open>value\<close>, as \<open>body\<close> compares them.\<close>

definition before :: "timespec \<Rightarrow> timespec \<Rightarrow> bool" where
  "before now v = (tv_sec now < tv_sec v \<or> (tv_sec now = tv_sec v \<and> tv_nsec now < tv_nsec v))"

section \<open>Slots\<close>

record slot =
  s_used :: bool
  s_under :: int
  s_fn :: u64
  s_val :: u64
  s_thread :: "nat option"
  s_armed :: bool
  s_stop :: bool
  s_value :: timespec
  s_interval :: timespec

definition zero_ts :: timespec where "zero_ts = \<lparr>tv_sec = 0, tv_nsec = 0\<rparr>"

definition slot_init :: slot where
  "slot_init = \<lparr>s_used = False, s_under = -1, s_fn = 0, s_val = 0, s_thread = None, s_armed = False, s_stop = False,
     s_value = zero_ts, s_interval = zero_ts\<rparr>"

text \<open>What \<open>timer_create\<close> writes into the slot it has claimed.\<close>

definition slot_create :: "int \<Rightarrow> sigevent \<Rightarrow> slot \<Rightarrow> slot" where
  "slot_create k ev s = s\<lparr>s_under := k, s_fn := sigev_fn ev, s_val := sigev_value ev, s_armed := False,
     s_stop := False, s_value := zero_ts, s_interval := zero_ts\<rparr>"

record itimerspec =
  it_interval :: timespec
  it_value :: timespec

definition TIMER_ABSTIME :: u32 where "TIMER_ABSTIME = 1"

definition slot_settime :: "u32 \<Rightarrow> itimerspec option \<Rightarrow> timespec \<Rightarrow> slot \<Rightarrow> slot" where
  "slot_settime flags new now s =
     (case new of
        None \<Rightarrow> s\<lparr>s_armed := False\<rparr>
      | Some v \<Rightarrow>
          if isZero (it_value v) then s\<lparr>s_armed := False\<rparr>
          else
            let deadline = (if flags AND TIMER_ABSTIME \<noteq> 0 then it_value v else addTo now (it_value v)) in
            s\<lparr>s_value := deadline, s_interval := it_interval v, s_armed := True\<rparr>)"

definition slot_stop :: "slot \<Rightarrow> slot" where
  "slot_stop s = s\<lparr>s_stop := True, s_armed := False\<rparr>"

definition slot_free :: "slot \<Rightarrow> slot" where
  "slot_free s = s\<lparr>s_used := False, s_under := -1, s_fn := 0\<rparr>"

section \<open>The thread of a slot\<close>

text \<open>
  Where a thread is in \<open>body\<close>: about to take the lock and look at the head of its loop (at its start,
  out of the untimed wait and after a callback); in the untimed and in the timed wait; out of the
  timed wait, with \<open>ETIMEDOUT\<close> or not, and about to have the lock again; in the caller's function
  (null when the slot had none), called for a deadline; returned.
\<close>

datatype body_pc = B_head | B_wait | B_timed | B_back bool | B_call u64 u64 timespec | B_done

text \<open>The head of the loop: wait until armed or stopped, stop, or wait for the deadline.\<close>

definition body_head :: "slot \<Rightarrow> body_pc" where
  "body_head s = (if \<not> s_armed s \<and> \<not> s_stop s then B_wait else if s_stop s then B_done else B_timed)"

text \<open>After the timed wait: \<open>expired\<close> tells that it returned \<open>ETIMEDOUT\<close>.\<close>

definition body_after :: "bool \<Rightarrow> timespec \<Rightarrow> slot \<Rightarrow> slot \<times> body_pc" where
  "body_after expired now s =
     (if s_stop s then (s, B_done)
      else if \<not> expired then (s, B_head)
      else if before now (s_value s) then (s, B_head)
      else
        (if isZero (s_interval s) then s\<lparr>s_armed := False\<rparr> else s\<lparr>s_value := addTo (s_value s) (s_interval s)\<rparr>,
         B_call (s_fn s) (s_val s) (s_value s)))"

text \<open>What leaving a wait before its time makes of a thread.\<close>

fun woken :: "body_pc \<Rightarrow> body_pc" where
  "woken B_wait = B_head"
| "woken B_timed = B_back False"
| "woken pc = pc"

section \<open>The table and the calls\<close>

text \<open>
  Who makes calls: a thread of the application, or a thread of a slot in its callback. It is outside,
  has claimed a slot in \<open>timer_create\<close>, is in \<open>timer_settime\<close> before the slot's lock, or in
  \<open>timer_delete\<close> before and after its \<open>pthread_join\<close>.
\<close>

datatype actor = App nat | Th nat

datatype caller =
    Out
  | C_claimed nat sigevent
  | S_setting nat u32 "itimerspec option"
  | D_joining nat
  | D_joined nat

text \<open>
  \<open>bodies\<close> are the threads that were started and not yet joined, each with its slot; \<open>ktimers\<close> the
  kernel's live timers; \<open>orphaned\<close> the slots whose timer was deleted by its own callback, which the
  code does not record.
\<close>

record timers =
  slots :: "nat \<Rightarrow> slot"
  bodies :: "nat \<Rightarrow> (nat \<times> body_pc) option"
  callers :: "actor \<Rightarrow> caller"
  now :: timespec
  fired :: nat
  ktimers :: "int set"
  orphaned :: "nat set"

definition timers_init :: "timespec \<Rightarrow> timers" where
  "timers_init t = \<lparr>slots = (\<lambda>_. slot_init), bodies = (\<lambda>_. None), callers = (\<lambda>_. Out), now = t, fired = 0,
     ktimers = {}, orphaned = {}\<rparr>"

definition slotOf :: "timers \<Rightarrow> timer_t \<Rightarrow> nat option" where
  "slotOf s h = (case h of H_slot i \<Rightarrow> if i < kMaxTimers \<and> s_used (slots s i) then Some i else None | H_id n \<Rightarrow> None)"

text \<open>The kernel timer that \<open>timer_gettime\<close> and \<open>timer_getoverrun\<close> ask; \<open>idOf\<close> of a handle.\<close>

definition kernel_timer :: "(timer_t \<Rightarrow> int) \<Rightarrow> timers \<Rightarrow> timer_t \<Rightarrow> int" where
  "kernel_timer idOf s h = (case slotOf s h of Some i \<Rightarrow> s_under (slots s i) | None \<Rightarrow> idOf h)"

definition first_free :: "timers \<Rightarrow> nat option" where
  "first_free s = find (\<lambda>i. \<not> s_used (slots s i)) [0..<kMaxTimers]"

text \<open>What \<open>timer_create\<close> does before it touches the table.\<close>

datatype create_kind = Pass "ksigevent option" | Refuse int | Claim nat

definition timer_create_kind :: "string option \<Rightarrow> sigevent option \<Rightarrow> timers \<Rightarrow> create_kind" where
  "timer_create_kind e ev s =
     (case ev of
        None \<Rightarrow> Pass None
      | Some v \<Rightarrow>
          if sigev_notify v \<noteq> SIGEV_THREAD then Pass (Some (toKernel ev))
          else if \<not> sigev_enabled e then Refuse ENOTSUP
          else (case first_free s of None \<Rightarrow> Refuse EAGAIN | Some i \<Rightarrow> Claim i))"

definition timerCounts :: "timers \<Rightarrow> nat \<times> nat" where
  "timerCounts s = (length (filter (\<lambda>i. s_used (slots s i)) [0..<kMaxTimers]), fired s)"

definition on_slot :: "nat \<Rightarrow> (slot \<Rightarrow> slot) \<Rightarrow> timers \<Rightarrow> timers" where
  "on_slot i f s = s\<lparr>slots := (slots s)(i := f (slots s i))\<rparr>"

definition on_caller :: "actor \<Rightarrow> caller \<Rightarrow> timers \<Rightarrow> timers" where
  "on_caller a c s = s\<lparr>callers := (callers s)(a := c)\<rparr>"

definition on_body :: "nat \<Rightarrow> (nat \<times> body_pc) option \<Rightarrow> timers \<Rightarrow> timers" where
  "on_body b p s = s\<lparr>bodies := (bodies s)(b := p)\<rparr>"

text \<open>
  \<open>pthread_cond_signal\<close> on the slot's condition variable: one of the threads that wait on it, if any,
  leaves its wait. A thread whose wait has timed out waits no more, and the signal is lost on it.
\<close>

definition may_wake :: "timers \<Rightarrow> nat \<Rightarrow> nat option \<Rightarrow> bool" where
  "may_wake s i w =
     (case w of
        None \<Rightarrow> (\<forall>b. bodies s b \<noteq> Some (i, B_wait) \<and> bodies s b \<noteq> Some (i, B_timed))
      | Some b \<Rightarrow> bodies s b = Some (i, B_wait) \<or> bodies s b = Some (i, B_timed))"

definition wake :: "nat option \<Rightarrow> timers \<Rightarrow> timers" where
  "wake w s =
     (case w of
        None \<Rightarrow> s
      | Some b \<Rightarrow> on_body b (map_option (\<lambda>(i, pc). (i, woken pc)) (bodies s b)) s)"

text \<open>A thread that can make a call: one of the application's, or a slot's that runs its callback.\<close>

definition can_call :: "timers \<Rightarrow> actor \<Rightarrow> bool" where
  "can_call s a \<longleftrightarrow> callers s a = Out \<and>
     (case a of App _ \<Rightarrow> True | Th b \<Rightarrow> (\<exists>i f v d. bodies s b = Some (i, B_call f v d) \<and> f \<noteq> 0))"

definition owns :: "caller \<Rightarrow> nat \<Rightarrow> bool" where
  "owns c i = (case c of C_claimed j ev \<Rightarrow> i = j | D_joining j \<Rightarrow> i = j | D_joined j \<Rightarrow> i = j | _ \<Rightarrow> False)"

text \<open>A handle that \<open>timer_create\<close> returned and nobody deletes: what POSIX asks of a call of \<open>timer_delete\<close>.\<close>

definition valid :: "timers \<Rightarrow> nat \<Rightarrow> bool" where
  "valid s i \<longleftrightarrow> i < kMaxTimers \<and> s_used (slots s i) \<and> (\<forall>a. \<not> owns (callers s a) i)"

text \<open>
  \<open>timer_create\<close> fails when the kernel has no timer for it, and when there is no thread; then the
  slot is written, but free again. \<open>timer_settime\<close> looks the handle up before it has the lock, so
  its slot may be another timer's, or nobody's, by then. A wait ends by a signal, for no reason,
  or by its time-out, which may come at any moment. \<open>pthread_join\<close> waits for the thread's end; on the
  calling thread itself, for a callback that deletes its own timer, it fails, and the code does not
  look at its result.
\<close>

inductive timer_step :: "timers \<Rightarrow> timers \<Rightarrow> bool" where
  tick: "before (now s) t \<Longrightarrow> timer_step s (s\<lparr>now := t\<rparr>)"
| create_claim: "can_call s a \<Longrightarrow> timer_create_kind e (Some ev) s = Claim i \<Longrightarrow>
    timer_step s (on_caller a (C_claimed i ev) (on_slot i (\<lambda>x. x\<lparr>s_used := True\<rparr>) s))"
| create_no_timer: "callers s a = C_claimed i ev \<Longrightarrow>
    timer_step s (on_caller a Out (on_slot i (\<lambda>x. x\<lparr>s_used := False\<rparr>) s))"
| create_no_thread: "callers s a = C_claimed i ev \<Longrightarrow> k \<notin> ktimers s \<Longrightarrow>
    timer_step s (on_caller a Out (on_slot i (\<lambda>x. (slot_create k ev x)\<lparr>s_used := False\<rparr>) s))"
| create_done: "callers s a = C_claimed i ev \<Longrightarrow> k \<notin> ktimers s \<Longrightarrow> bodies s b = None \<Longrightarrow>
    timer_step s (on_caller a Out (on_body b (Some (i, B_head))
      (on_slot i (\<lambda>x. (slot_create k ev x)\<lparr>s_thread := Some b\<rparr>) (s\<lparr>ktimers := insert k (ktimers s)\<rparr>))))"
| settime_enter: "can_call s a \<Longrightarrow> slotOf s h = Some i \<Longrightarrow> timer_step s (on_caller a (S_setting i flags new) s)"
| settime_lock: "callers s a = S_setting i flags new \<Longrightarrow> may_wake s i w \<Longrightarrow>
    timer_step s (on_caller a Out (wake w (on_slot i (slot_settime flags new (now s)) s)))"
| body_runs: "bodies s b = Some (i, B_head) \<Longrightarrow> timer_step s (on_body b (Some (i, body_head (slots s i))) s)"
| body_wakes: "bodies s b = Some (i, pc) \<Longrightarrow> pc = B_wait \<or> pc = B_timed \<Longrightarrow>
    timer_step s (on_body b (Some (i, woken pc)) s)"
| body_times_out: "bodies s b = Some (i, B_timed) \<Longrightarrow> timer_step s (on_body b (Some (i, B_back True)) s)"
| body_goes_on: "bodies s b = Some (i, B_back expired) \<Longrightarrow> body_after expired (now s) (slots s i) = (x, pc) \<Longrightarrow>
    timer_step s (on_body b (Some (i, pc)) (on_slot i (\<lambda>_. x) s))"
| body_returns: "bodies s b = Some (i, B_call f v d) \<Longrightarrow> callers s (Th b) = Out \<Longrightarrow>
    timer_step s (on_body b (Some (i, B_head)) (s\<lparr>fired := fired s + (if f \<noteq> 0 then 1 else 0)\<rparr>))"
| delete_stop: "can_call s a \<Longrightarrow> valid s i \<Longrightarrow> may_wake s i w \<Longrightarrow>
    timer_step s (on_caller a (D_joining i) (wake w (on_slot i slot_stop s)))"
| delete_join: "callers s a = D_joining i \<Longrightarrow> s_thread (slots s i) = Some b \<Longrightarrow> bodies s b = Some (j, B_done) \<Longrightarrow>
    timer_step s (on_caller a (D_joined i) (on_body b None s))"
| delete_join_self: "callers s (Th b) = D_joining i \<Longrightarrow> s_thread (slots s i) = Some b \<Longrightarrow>
    timer_step s (on_caller (Th b) (D_joined i) (s\<lparr>orphaned := insert i (orphaned s)\<rparr>))"
| delete_free: "callers s a = D_joined i \<Longrightarrow>
    timer_step s (on_caller a Out (on_slot i slot_free (s\<lparr>ktimers := ktimers s - {s_under (slots s i)}\<rparr>)))"

inductive timer_reach :: "timers \<Rightarrow> bool" where
  start: "timer_reach (timers_init t)"
| step: "timer_reach s \<Longrightarrow> timer_step s s' \<Longrightarrow> timer_reach s'"

end
