(* ===== verification/Sigev_Props.thy ===== *)
theory Sigev_Props
  imports Sigev
begin

text \<open>
  The life of a slot over all interleavings of callers, callbacks and slot threads, as invariants
  of the step relation, and what follows for a running callback.
\<close>

section \<open>What a step does to a slot\<close>

lemmas timer_upd = on_slot_def on_caller_def on_body_def

lemma slot_frame [simp]:
  "s_used (slot_settime fl n t x) = s_used x" "s_under (slot_settime fl n t x) = s_under x"
  "s_fn (slot_settime fl n t x) = s_fn x" "s_val (slot_settime fl n t x) = s_val x"
  "s_thread (slot_settime fl n t x) = s_thread x"
  "s_used (slot_stop x) = s_used x" "s_under (slot_stop x) = s_under x" "s_fn (slot_stop x) = s_fn x"
  "s_val (slot_stop x) = s_val x" "s_thread (slot_stop x) = s_thread x"
  "s_used (slot_create k ev x) = s_used x" "s_under (slot_create k ev x) = k" "s_thread (slot_create k ev x) = s_thread x"
  "\<not> s_used (slot_free x)"
  by (simp_all add: slot_settime_def slot_stop_def slot_create_def slot_free_def Let_def split: option.splits)

lemma upd_frame [simp]:
  "slots (on_slot i f s) = (slots s)(i := f (slots s i))" "bodies (on_slot i f s) = bodies s"
  "callers (on_slot i f s) = callers s" "now (on_slot i f s) = now s" "ktimers (on_slot i f s) = ktimers s"
  "orphaned (on_slot i f s) = orphaned s"
  "slots (on_caller a c s) = slots s" "bodies (on_caller a c s) = bodies s"
  "callers (on_caller a c s) = (callers s)(a := c)" "now (on_caller a c s) = now s" "ktimers (on_caller a c s) = ktimers s"
  "orphaned (on_caller a c s) = orphaned s"
  "slots (on_body b p s) = slots s" "bodies (on_body b p s) = (bodies s)(b := p)"
  "callers (on_body b p s) = callers s" "now (on_body b p s) = now s" "ktimers (on_body b p s) = ktimers s"
  "orphaned (on_body b p s) = orphaned s"
  by (simp_all add: timer_upd)

lemma body_head_call [simp]: "body_head x \<noteq> B_call f v d"
  by (simp add: body_head_def)

lemma body_after_frame:
  assumes "body_after ex t x = (y, pc)"
  shows "s_used y = s_used x" "s_under y = s_under x" "s_fn y = s_fn x" "s_val y = s_val x" "s_thread y = s_thread x"
    and "pc = B_call f v d \<Longrightarrow> f = s_fn x \<and> v = s_val x \<and> \<not> before t d"
  using assms by (auto simp: body_after_def split: if_splits)

lemma create_claims:
  assumes "timer_create_kind e (Some ev) s = Claim i"
  shows "\<not> s_used (slots s i)"
  using assms find_Some_iff [of "\<lambda>i. \<not> s_used (slots s i)" "[0..<kMaxTimers]" i]
  by (auto simp: timer_create_kind_def first_free_def split: if_splits option.splits)

lemma before_trans: "before a b \<Longrightarrow> \<not> before a d \<Longrightarrow> \<not> before b d"
  by (auto simp: before_def)

lemma owns_simps [simp]:
  "\<not> owns Out i" "owns (C_claimed j ev) i \<longleftrightarrow> i = j" "\<not> owns (S_setting j fl n) i"
  "owns (D_joining j) i \<longleftrightarrow> i = j" "owns (D_joined j) i \<longleftrightarrow> i = j"
  by (auto simp: owns_def)

section \<open>What a signal does\<close>

lemma wake_frame [simp]:
  "slots (wake w s) = slots s" "callers (wake w s) = callers s" "now (wake w s) = now s" "fired (wake w s) = fired s"
  "ktimers (wake w s) = ktimers s" "orphaned (wake w s) = orphaned s"
  by (simp_all add: wake_def on_body_def split: option.splits)

lemma woken_call [simp]: "woken pc = B_call f v d \<longleftrightarrow> pc = B_call f v d"
  by (cases pc rule: woken.cases) simp_all

text \<open>The slot whose thread \<open>b\<close> is.\<close>

definition runs :: "timers \<Rightarrow> nat \<Rightarrow> nat option" where
  "runs s b = map_option fst (bodies s b)"

lemma runs_at: "bodies s b = Some (i, pc) \<Longrightarrow> runs s b = Some i"
  by (simp add: runs_def)

lemma runs_frame [simp]:
  "runs (on_slot i f s) b = runs s b" "runs (on_caller a c s) b = runs s b" "runs (s\<lparr>ktimers := ks\<rparr>) b = runs s b"
  "runs (s\<lparr>now := t\<rparr>) b = runs s b" "runs (s\<lparr>fired := m\<rparr>) b = runs s b" "runs (s\<lparr>orphaned := os\<rparr>) b = runs s b"
  "runs (wake w s) b = runs s b"
  by (auto simp: runs_def timer_upd wake_def option.map_comp comp_def case_prod_unfold split: option.splits)

lemma runs_on_body [simp]: "runs (on_body c p s) b = (if b = c then map_option fst p else runs s b)"
  by (simp add: runs_def on_body_def)

definition calling :: "timers \<Rightarrow> nat \<Rightarrow> nat \<Rightarrow> u64 \<Rightarrow> u64 \<Rightarrow> timespec \<Rightarrow> bool" where
  "calling s b i f v d \<longleftrightarrow> bodies s b = Some (i, B_call f v d)"

lemma calling_frame [simp]:
  "calling (on_slot j g s) b i f v d = calling s b i f v d" "calling (on_caller a c s) b i f v d = calling s b i f v d"
  "calling (s\<lparr>ktimers := ks\<rparr>) b i f v d = calling s b i f v d" "calling (s\<lparr>now := t\<rparr>) b i f v d = calling s b i f v d"
  "calling (s\<lparr>fired := m\<rparr>) b i f v d = calling s b i f v d" "calling (s\<lparr>orphaned := os\<rparr>) b i f v d = calling s b i f v d"
  "calling (wake w s) b i f v d = calling s b i f v d"
  by (auto simp: calling_def timer_upd wake_def split: option.splits)

lemma calling_on_body [simp]:
  "calling (on_body c p s) b i f v d = (if b = c then p = Some (i, B_call f v d) else calling s b i f v d)"
  by (simp add: calling_def on_body_def)

lemma calling_runs: "calling s b i f v d \<Longrightarrow> runs s b = Some i"
  by (simp add: calling_def runs_def)

section \<open>The invariants\<close>

text \<open>A slot has at most one owner, and a free one none.\<close>

definition owner_ok :: "timers \<Rightarrow> bool" where
  "owner_ok s \<longleftrightarrow> (\<forall>a a' i. owns (callers s a) i \<longrightarrow> owns (callers s a') i \<longrightarrow> a = a') \<and>
     (\<forall>a i. owns (callers s a) i \<longrightarrow> s_used (slots s i))"

text \<open>Between the claim and the end of \<open>timer_create\<close>, and after the join of \<open>timer_delete\<close>.\<close>

definition claims :: "caller \<Rightarrow> nat \<Rightarrow> bool" where
  "claims c i = (case c of C_claimed j ev \<Rightarrow> i = j | _ \<Rightarrow> False)"

definition marks :: "caller \<Rightarrow> nat \<Rightarrow> bool" where
  "marks c i = (claims c i \<or> c = D_joined i)"

lemma marks_simps [simp]:
  "\<not> claims Out i" "claims (C_claimed j ev) i \<longleftrightarrow> i = j" "\<not> claims (S_setting j fl n) i" "\<not> claims (D_joining j) i"
  "\<not> claims (D_joined j) i"
  "\<not> marks Out i" "marks (C_claimed j ev) i \<longleftrightarrow> i = j" "\<not> marks (S_setting j fl n) i" "\<not> marks (D_joining j) i"
  "marks (D_joined j) i \<longleftrightarrow> i = j"
  by (auto simp: claims_def marks_def)

lemma marks_owns: "marks c i \<Longrightarrow> owns c i"
  by (cases c) (auto simp: marks_def claims_def owns_def)

text \<open>The one thread of a slot whose timer was never deleted by its own callback.\<close>

definition thread_ok :: "timers \<Rightarrow> bool" where
  "thread_ok s \<longleftrightarrow> (\<forall>b i. runs s b = Some i \<longrightarrow> i \<notin> orphaned s \<longrightarrow>
     s_thread (slots s i) = Some b \<and> s_used (slots s i) \<and> (\<forall>a. \<not> marks (callers s a) i))"

text \<open>The kernel timers under the slots are live and different.\<close>

definition has_timer :: "timers \<Rightarrow> nat \<Rightarrow> bool" where
  "has_timer s i \<longleftrightarrow> s_used (slots s i) \<and> (\<forall>a. \<not> claims (callers s a) i)"

definition under_ok :: "timers \<Rightarrow> bool" where
  "under_ok s \<longleftrightarrow>
     (\<forall>i. has_timer s i \<longrightarrow> s_under (slots s i) \<in> ktimers s) \<and>
     (\<forall>i j. has_timer s i \<longrightarrow> has_timer s j \<longrightarrow> i \<noteq> j \<longrightarrow> s_under (slots s i) \<noteq> s_under (slots s j))"

text \<open>A callback's deadline has come, and it is its slot's.\<close>

definition call_ok :: "timers \<Rightarrow> bool" where
  "call_ok s \<longleftrightarrow> (\<forall>b i f v d. calling s b i f v d \<longrightarrow>
     \<not> before (now s) d \<and> (i \<notin> orphaned s \<longrightarrow> f = s_fn (slots s i) \<and> v = s_val (slots s i)))"

lemma owner_ok_step:
  assumes "timer_step s s'" "owner_ok s"
  shows "owner_ok s'"
  using assms
proof cases
  case (create_claim a e ev i)
  then have "\<forall>a. \<not> owns (callers s a) i" using assms(2) create_claims [OF create_claim(3)] by (auto simp: owner_ok_def)
  then show ?thesis using create_claim assms(2) by (auto simp: owner_ok_def)
next
  case (create_no_timer a i ev)
  then have "owns (callers s a) i" by simp
  then have "\<forall>a'. owns (callers s a') i \<longrightarrow> a' = a" using assms(2) unfolding owner_ok_def by blast
  then show ?thesis using create_no_timer assms(2) by (auto simp: owner_ok_def)
next
  case (create_no_thread a i ev k)
  then have "owns (callers s a) i" by simp
  then have "\<forall>a'. owns (callers s a') i \<longrightarrow> a' = a" using assms(2) unfolding owner_ok_def by blast
  then show ?thesis using create_no_thread assms(2) by (auto simp: owner_ok_def)
next
  case (delete_free a i)
  then have "owns (callers s a) i" by simp
  then have "\<forall>a'. owns (callers s a') i \<longrightarrow> a' = a" using assms(2) unfolding owner_ok_def by blast
  then show ?thesis using delete_free assms(2) by (auto simp: owner_ok_def)
next
  case (delete_join a i b j)
  then have "owns (callers s a) i" by simp
  then have "s_used (slots s i)" "\<forall>a'. owns (callers s a') i \<longrightarrow> a' = a" using assms(2) unfolding owner_ok_def by blast+
  then show ?thesis using delete_join assms(2) by (auto simp: owner_ok_def)
next
  case (delete_join_self b i)
  then have "owns (callers s (Th b)) i" by simp
  then have "s_used (slots s i)" "\<forall>a'. owns (callers s a') i \<longrightarrow> a' = Th b" using assms(2) unfolding owner_ok_def by blast+
  then show ?thesis using delete_join_self assms(2) by (auto simp: owner_ok_def)
next
  case (body_goes_on b i expired x pc)
  then show ?thesis using assms(2) body_after_frame(1) [OF body_goes_on(3)] by (auto simp: owner_ok_def)
qed (use assms(2) in \<open>auto simp: owner_ok_def valid_def split: if_splits\<close>)

text \<open>One caller works on one slot that has no thread, or on none.\<close>

lemma thread_ok_slot:
  assumes "thread_ok s" "i \<in> orphaned s \<or> (\<forall>b. runs s b \<noteq> Some i)"
    and "\<And>b. runs s' b = runs s b" "orphaned s \<subseteq> orphaned s'" "\<And>j. j \<noteq> i \<Longrightarrow> slots s' j = slots s j"
    and "callers s' = (callers s)(a := c)" "\<And>j. j \<noteq> i \<Longrightarrow> \<not> marks c j"
  shows "thread_ok s'"
  using assms unfolding thread_ok_def by (metis fun_upd_apply subsetD)

lemma thread_ok_same:
  assumes "thread_ok s" "\<And>b. runs s' b = runs s b" "orphaned s \<subseteq> orphaned s'"
    and "\<And>j. s_thread (slots s' j) = s_thread (slots s j) \<and> s_used (slots s' j) = s_used (slots s j)"
    and "callers s' = (callers s)(a := c)" "\<And>j. \<not> marks c j"
  shows "thread_ok s'"
  using assms unfolding thread_ok_def by (metis fun_upd_apply subsetD)

lemma thread_ok_runs:
  "thread_ok s \<Longrightarrow> (\<And>b. runs s' b = runs s b) \<Longrightarrow> orphaned s' = orphaned s \<Longrightarrow> callers s' = callers s \<Longrightarrow>
   slots s' = slots s \<Longrightarrow> thread_ok s'"
  by (simp add: thread_ok_def)

lemma no_thread: "thread_ok s \<Longrightarrow> marks (callers s a) i \<or> \<not> s_used (slots s i) \<Longrightarrow> i \<in> orphaned s \<or> (\<forall>b. runs s b \<noteq> Some i)"
  by (auto simp: thread_ok_def)

lemma thread_ok_step:
  assumes "timer_step s s'" "thread_ok s" "owner_ok s"
  shows "thread_ok s'"
  using assms
proof cases
  case (create_claim a e ev i)
  show ?thesis unfolding create_claim(1)
    by (rule thread_ok_slot [OF assms(2) no_thread [OF assms(2)]]) (use create_claims [OF create_claim(3)] in auto)
next
  case (create_no_timer a i ev)
  then have n: "i \<in> orphaned s \<or> (\<forall>b. runs s b \<noteq> Some i)" by (intro no_thread [OF assms(2), of a]) simp
  show ?thesis unfolding create_no_timer(1) by (rule thread_ok_slot [OF assms(2) n]) auto
next
  case (create_no_thread a i ev k)
  then have n: "i \<in> orphaned s \<or> (\<forall>b. runs s b \<noteq> Some i)" by (intro no_thread [OF assms(2), of a]) simp
  show ?thesis unfolding create_no_thread(1) by (rule thread_ok_slot [OF assms(2) n]) auto
next
  case (create_done a i ev k b)
  then have n: "i \<in> orphaned s \<or> (\<forall>b. runs s b \<noteq> Some i)" by (intro no_thread [OF assms(2), of a]) simp
  have "owns (callers s a) i" using create_done by simp
  then have u: "s_used (slots s i)" "\<And>a'. owns (callers s a') i \<Longrightarrow> a' = a" using assms(3) unfolding owner_ok_def by blast+
  then have m: "\<not> marks (callers s' a') i" for a' using marks_owns [of "callers s a'" i] unfolding create_done(1) by auto
  show ?thesis unfolding thread_ok_def
  proof (intro allI impI)
    fix c j assume c: "runs s' c = Some j" "j \<notin> orphaned s'"
    show "s_thread (slots s' j) = Some c \<and> s_used (slots s' j) \<and> (\<forall>a. \<not> marks (callers s' a) j)"
    proof (cases "c = b")
      case True
      then show ?thesis using c m u(1) unfolding create_done(1) by simp
    next
      case False
      then have r: "runs s c = Some j" "j \<notin> orphaned s" using c unfolding create_done(1) by simp_all
      then have "j \<noteq> i" using n by auto
      then show ?thesis using r assms(2) unfolding thread_ok_def create_done(1) by simp
    qed
  qed
next
  case (settime_enter a h i flags new)
  then show ?thesis by (intro thread_ok_same [OF assms(2)]) auto
next
  case (settime_lock a i flags new w)
  then show ?thesis by (intro thread_ok_same [OF assms(2)]) auto
next
  case (delete_stop a i w)
  then show ?thesis by (intro thread_ok_same [OF assms(2)]) auto
next
  case (delete_join a i b j)
  show ?thesis unfolding thread_ok_def
  proof (intro allI impI)
    fix c k assume c: "runs s' c = Some k" "k \<notin> orphaned s'"
    then have r: "c \<noteq> b" "runs s c = Some k" "k \<notin> orphaned s" unfolding delete_join(1) by (auto split: if_splits)
    then have t: "s_thread (slots s k) = Some c" "s_used (slots s k)" "\<forall>a. \<not> marks (callers s a) k"
      using assms(2) by (auto simp: thread_ok_def)
    then have "k \<noteq> i" using r(1) delete_join(3) by auto
    then show "s_thread (slots s' k) = Some c \<and> s_used (slots s' k) \<and> (\<forall>a. \<not> marks (callers s' a) k)"
      using t unfolding delete_join(1) by simp
  qed
next
  case (delete_join_self b i)
  then show ?thesis using assms(2) by (auto simp: thread_ok_def)
next
  case (delete_free a i)
  then have n: "i \<in> orphaned s \<or> (\<forall>b. runs s b \<noteq> Some i)" by (intro no_thread [OF assms(2), of a]) simp
  show ?thesis unfolding delete_free(1) by (rule thread_ok_slot [OF assms(2) n]) auto
next
  case (body_goes_on b i expired x pc)
  then have "runs s b = Some i" by (simp add: runs_def)
  then show ?thesis using assms(2) body_after_frame(1,5) [OF body_goes_on(3)] unfolding body_goes_on(1)
    by (auto simp: thread_ok_def)
qed (auto intro!: thread_ok_runs [OF assms(2)] simp: runs_at)

lemma under_ok_caller:
  assumes "under_ok s" "ktimers s' = ktimers s" "callers s' = (callers s)(a := c)"
    and "\<And>j. claims (callers s a) j \<Longrightarrow> claims c j \<or> \<not> s_used (slots s' j)"
    and "\<And>j. s_used (slots s' j) \<Longrightarrow> \<not> claims c j \<Longrightarrow> s_used (slots s j) \<and> s_under (slots s' j) = s_under (slots s j)"
  shows "under_ok s'"
proof -
  have "has_timer s j \<and> s_under (slots s' j) = s_under (slots s j)" if h: "has_timer s' j" for j
  proof -
    have u: "s_used (slots s' j)" and n: "\<not> claims (callers s' x) j" for x using h by (auto simp: has_timer_def)
    have c: "\<not> claims c j" using n [of a] assms(3) by simp
    have "\<not> claims (callers s x) j" for x using n [of x] assms(3) assms(4) [of j] c u by (cases "x = a") auto
    then show ?thesis using assms(5) [OF u c] by (simp add: has_timer_def)
  qed
  then show ?thesis using assms(1,2) unfolding under_ok_def by metis
qed

lemma under_ok_step:
  assumes "timer_step s s'" "under_ok s" "owner_ok s"
  shows "under_ok s'"
  using assms
proof cases
  case (create_done a i ev k b)
  then have "claims (callers s a) i" "\<And>j. has_timer s' j \<Longrightarrow> j \<noteq> i \<Longrightarrow> has_timer s j"
    by (auto simp: has_timer_def split: if_splits) (metis marks_simps(2))
  then show ?thesis using create_done assms(2) unfolding under_ok_def create_done(1) by auto
next
  case (delete_free a i)
  then have "has_timer s j \<and> j \<noteq> i" if "has_timer s' j" for j
    using that by (auto simp: has_timer_def split: if_splits) (metis marks_simps(5))
  moreover have "has_timer s i"
    using delete_free assms(3) marks_owns unfolding has_timer_def owner_ok_def by (metis marks_def marks_simps(5) owns_simps(5))
  ultimately show ?thesis using assms(2) unfolding under_ok_def delete_free(1) by auto
next
  case (body_goes_on b i expired x pc)
  then show ?thesis using assms(2) body_after_frame(1,2) [OF body_goes_on(3)]
    by (auto simp: under_ok_def has_timer_def)
next
  case (create_claim a e ev i)
  then show ?thesis by (intro under_ok_caller [OF assms(2)]) (auto simp: can_call_def)
next
  case (create_no_timer a i ev)
  then show ?thesis by (intro under_ok_caller [OF assms(2)]) auto
next
  case (create_no_thread a i ev k)
  then show ?thesis by (intro under_ok_caller [OF assms(2)]) (auto split: if_splits)
next
  case (settime_enter a h i flags new)
  then show ?thesis by (intro under_ok_caller [OF assms(2)]) (auto simp: can_call_def)
next
  case (settime_lock a i flags new w)
  then show ?thesis by (intro under_ok_caller [OF assms(2)]) (auto split: if_splits)
next
  case (delete_stop a i w)
  then show ?thesis by (intro under_ok_caller [OF assms(2)]) (auto simp: can_call_def split: if_splits)
next
  case (delete_join a i b j)
  then show ?thesis by (intro under_ok_caller [OF assms(2)]) auto
next
  case (delete_join_self b i)
  then show ?thesis by (intro under_ok_caller [OF assms(2)]) auto
qed (use assms(2) in \<open>auto simp: under_ok_def has_timer_def\<close>)

lemma call_ok_slot:
  assumes "call_ok s" "i \<in> orphaned s \<or> (\<forall>b. runs s b \<noteq> Some i)" "now s' = now s" "orphaned s' = orphaned s"
    and "\<And>b i f v d. calling s' b i f v d \<Longrightarrow> calling s b i f v d" "\<And>j. j \<noteq> i \<Longrightarrow> slots s' j = slots s j"
  shows "call_ok s'"
  unfolding call_ok_def
proof (intro allI impI)
  fix b j f v d assume "calling s' b j f v d"
  then have c: "calling s b j f v d" by (rule assms(5))
  then have ok: "\<not> before (now s) d" "j \<notin> orphaned s \<longrightarrow> f = s_fn (slots s j) \<and> v = s_val (slots s j)"
    using assms(1) unfolding call_ok_def by blast+
  have "j \<noteq> i" if "j \<notin> orphaned s" using that calling_runs [OF c] assms(2) by auto
  then show "\<not> before (now s') d \<and> (j \<notin> orphaned s' \<longrightarrow> f = s_fn (slots s' j) \<and> v = s_val (slots s' j))"
    using ok assms(3,4) assms(6) [of j] by auto
qed

lemma call_ok_step:
  assumes "timer_step s s'" "call_ok s" "thread_ok s"
  shows "call_ok s'"
  using assms
proof cases
  case (tick t)
  then show ?thesis using assms(2) before_trans [OF tick(2)] by (simp add: call_ok_def)
next
  case (create_no_thread a i ev k)
  then have n: "i \<in> orphaned s \<or> (\<forall>b. runs s b \<noteq> Some i)" by (intro no_thread [OF assms(3), of a]) simp
  show ?thesis unfolding create_no_thread(1) by (rule call_ok_slot [OF assms(2) n]) auto
next
  case (create_done a i ev k b)
  then have n: "i \<in> orphaned s \<or> (\<forall>b. runs s b \<noteq> Some i)" by (intro no_thread [OF assms(3), of a]) simp
  show ?thesis unfolding create_done(1) by (rule call_ok_slot [OF assms(2) n]) (auto split: if_splits)
next
  case (delete_free a i)
  then have n: "i \<in> orphaned s \<or> (\<forall>b. runs s b \<noteq> Some i)" by (intro no_thread [OF assms(3), of a]) simp
  show ?thesis unfolding delete_free(1) by (rule call_ok_slot [OF assms(2) n]) auto
next
  case (body_goes_on b i expired x pc)
  note f = body_after_frame [OF body_goes_on(3)]
  show ?thesis using assms(2) f unfolding body_goes_on(1) by (auto simp: call_ok_def split: if_splits)
qed (use assms(2) in \<open>auto simp: call_ok_def split: if_splits\<close>)

lemma timers_start: "owner_ok (timers_init t) \<and> thread_ok (timers_init t) \<and> under_ok (timers_init t) \<and> call_ok (timers_init t)"
  by (simp add: owner_ok_def thread_ok_def under_ok_def has_timer_def call_ok_def calling_def runs_def timers_init_def slot_init_def)

lemma timer_reach_ok: "timer_reach s \<Longrightarrow> owner_ok s \<and> thread_ok s \<and> under_ok s \<and> call_ok s"
proof (induction rule: timer_reach.induct)
  case (start t)
  show ?case by (rule timers_start)
next
  case (step s s')
  then show ?case using owner_ok_step thread_ok_step under_ok_step call_ok_step by blast
qed

section \<open>The property\<close>

text \<open>
  C35. The callbacks of timers, in every interleaving of any number of threads of the application, of
  callbacks that create, set and delete timers themselves, and of the slots' threads - signals lost
  on a wait that has timed out, waits that end for no reason or time out early, creations that fail,
  calls with handles of timers that are gone: while a callback runs, the deadline it was called for
  has come (the real-time clock is not set back), and unless the timer of its slot was at some time
  deleted by its own callback, it runs on the slot's one thread with the function and the value of a
  timer that is in use, its kernel timer is live, no \<open>timer_delete\<close> of it has got past its join and
  no \<open>timer_create\<close> has claimed the slot. It may be the callback of a timer disarmed meanwhile
  (\<open>disarmed_timer_fires\<close>).
\<close>

theorem callback_of_live_timer:
  assumes "timer_reach s" "bodies s b = Some (i, B_call f v d)"
  shows "\<not> before (now s) d \<and>
    (i \<notin> orphaned s \<longrightarrow>
       s_thread (slots s i) = Some b \<and> s_used (slots s i) \<and> f = s_fn (slots s i) \<and> v = s_val (slots s i) \<and>
       s_under (slots s i) \<in> ktimers s \<and> (\<forall>a. callers s a \<noteq> D_joined i \<and> (\<forall>ev. callers s a \<noteq> C_claimed i ev)))"
proof -
  have ok: "thread_ok s" "under_ok s" "call_ok s" using timer_reach_ok [OF assms(1)] by blast+
  have c: "calling s b i f v d" using assms(2) by (simp add: calling_def)
  then have "\<not> before (now s) d" "i \<notin> orphaned s \<longrightarrow> f = s_fn (slots s i) \<and> v = s_val (slots s i)"
    using ok(3) unfolding call_ok_def by blast+
  moreover have t: "s_thread (slots s i) = Some b \<and> s_used (slots s i) \<and> (\<forall>a. \<not> marks (callers s a) i)" if "i \<notin> orphaned s"
    using ok(1) that calling_runs [OF c] unfolding thread_ok_def by blast
  moreover have "s_under (slots s i) \<in> ktimers s" if "i \<notin> orphaned s"
    using ok(2) t [OF that] unfolding under_ok_def has_timer_def marks_def by blast
  moreover have "callers s a \<noteq> D_joined i \<and> (\<forall>ev. callers s a \<noteq> C_claimed i ev)" if "i \<notin> orphaned s" for a
    using t [OF that] by (metis marks_simps(7,10))
  ultimately show ?thesis by blast
qed

text \<open>A timer created and armed for the next second, whose wait has timed out at that second.\<close>

definition demo_ev :: sigevent where
  "demo_ev = \<lparr>sigev_notify = 2, sigev_signo = 0, sigev_value = 7, sigev_fn = 5\<rparr>"

definition demo_timer :: "bool \<Rightarrow> body_pc \<Rightarrow> timers" where
  "demo_timer armed pc = \<lparr>slots = (\<lambda>_. slot_init)(0 := \<lparr>s_used = True, s_under = 3, s_fn = 5, s_val = 7, s_thread = Some 0,
       s_armed = armed, s_stop = False, s_value = \<lparr>tv_sec = 1, tv_nsec = 0\<rparr>, s_interval = zero_ts\<rparr>),
     bodies = [0 \<mapsto> (0, pc)], callers = (\<lambda>_. Out), now = \<lparr>tv_sec = 1, tv_nsec = 0\<rparr>, fired = 0, ktimers = {3}, orphaned = {}\<rparr>"

lemmas timer_defs = timer_upd timers_init_def slot_init_def slot_create_def slot_settime_def isZero_def zero_ts_def
  body_head_def addTo_def s64_small before_def demo_ev_def demo_timer_def can_call_def slotOf_def kMaxTimers_def may_wake_def
  wake_def Let_def

lemma demo_expired: "timer_reach (demo_timer True (B_back True))"
proof -
  let ?new = "Some \<lparr>it_interval = zero_ts, it_value = \<lparr>tv_sec = 1, tv_nsec = 0\<rparr>\<rparr>"
  let ?s0 = "timers_init zero_ts"
  let ?s1 = "on_caller (App 0) (C_claimed 0 demo_ev) (on_slot 0 (\<lambda>x. x\<lparr>s_used := True\<rparr>) ?s0)"
  let ?s2 = "on_caller (App 0) Out (on_body 0 (Some (0, B_head))
      (on_slot 0 (\<lambda>x. (slot_create 3 demo_ev x)\<lparr>s_thread := Some 0\<rparr>) (?s1\<lparr>ktimers := insert 3 (ktimers ?s1)\<rparr>)))"
  let ?s3 = "on_caller (App 0) (S_setting 0 0 ?new) ?s2"
  let ?s4 = "on_caller (App 0) Out (wake None (on_slot 0 (slot_settime 0 ?new (now ?s3)) ?s3))"
  let ?s5 = "on_body 0 (Some (0, body_head (slots ?s4 0))) ?s4"
  let ?s6 = "?s5\<lparr>now := \<lparr>tv_sec = 1, tv_nsec = 0\<rparr>\<rparr>"
  let ?s7 = "on_body 0 (Some (0, B_back True)) ?s6"
  have "timer_create_kind None (Some demo_ev) ?s0 = Claim 0"
    by (simp add: timer_create_kind_def SIGEV_THREAD_def sigev_enabled_def first_free_def kMaxTimers_def
        upt_conv_Cons timers_init_def slot_init_def demo_ev_def)
  then have "timer_step ?s0 ?s1" by (intro create_claim) (simp_all add: timers_init_def can_call_def)
  then have r1: "timer_reach ?s1" by (rule timer_reach.step [OF timer_reach.start])
  have r2: "timer_reach ?s2"
    by (rule timer_reach.step [OF r1], rule create_done) (simp_all add: timer_defs)
  have r3: "timer_reach ?s3"
    by (rule timer_reach.step [OF r2], rule settime_enter [of _ _ "H_slot 0"]) (simp_all add: timer_defs)
  have r4: "timer_reach ?s4"
    by (rule timer_reach.step [OF r3], rule settime_lock) (simp_all add: timer_defs)
  have r5: "timer_reach ?s5"
    by (rule timer_reach.step [OF r4], rule body_runs) (simp add: timer_defs)
  have r6: "timer_reach ?s6"
    by (rule timer_reach.step [OF r5], rule tick) (simp add: timer_defs)
  have r7: "timer_reach ?s7"
    by (rule timer_reach.step [OF r6], rule body_times_out) (simp add: timer_defs)
  have "?s7 = demo_timer True (B_back True)" by (simp add: timer_defs fun_eq_iff)
  with r7 show ?thesis by simp
qed

lemma demo_calls: "timer_reach (demo_timer armed (B_back True)) \<Longrightarrow>
    timer_step (demo_timer armed (B_back True)) (demo_timer False (B_call 5 7 \<lparr>tv_sec = 1, tv_nsec = 0\<rparr>))"
proof -
  let ?s = "demo_timer armed (B_back True)"
  let ?a = "body_after True (now ?s) (slots ?s 0)"
  have "timer_step ?s (on_body 0 (Some (0, snd ?a)) (on_slot 0 (\<lambda>_. fst ?a) ?s))"
    by (rule body_goes_on) (simp_all add: timer_defs)
  moreover have "on_body 0 (Some (0, snd ?a)) (on_slot 0 (\<lambda>_. fst ?a) ?s) =
      demo_timer False (B_call 5 7 \<lparr>tv_sec = 1, tv_nsec = 0\<rparr>)"
    by (simp add: timer_defs body_after_def fun_eq_iff)
  ultimately show ?thesis by simp
qed

lemma callback_of_live_timer_witness:
  "\<exists>s d. timer_reach s \<and> bodies s 0 = Some (0, B_call 5 7 d) \<and> s_used (slots s 0) \<and> \<not> before (now s) d"
proof -
  let ?s = "demo_timer False (B_call 5 7 \<lparr>tv_sec = 1, tv_nsec = 0\<rparr>)"
  have r: "timer_reach ?s" by (rule timer_reach.step [OF demo_expired demo_calls [OF demo_expired]])
  have c: "bodies ?s 0 = Some (0, B_call 5 7 \<lparr>tv_sec = 1, tv_nsec = 0\<rparr>)" "orphaned ?s = {}"
    by (simp_all add: demo_timer_def)
  show ?thesis using callback_of_live_timer [OF r c(1)] r c by blast
qed

section \<open>What the code does not prevent\<close>

text \<open>The longest interval there is, behind any time after the first second: the deadline is in the past.\<close>

lemma addTo_wraps:
  assumes "normal t" "1 \<le> tv_sec t" "tv_sec t < 2 ^ 62"
  shows "before (addTo t \<lparr>tv_sec = 2 ^ 63 - 1, tv_nsec = 0\<rparr>) t"
proof -
  have "s64 (tv_sec t + (2 ^ 63 - 1)) = tv_sec t + (2 ^ 63 - 1) - 2 ^ 64" using assms(2,3) by (intro s64_over) simp_all
  then show ?thesis using assms by (simp add: addTo_def before_def normal_def s64_small)
qed

text \<open>
  The thread's wait has timed out and \<open>timer_settime\<close> disarms the timer before the thread has the
  lock again: the call has returned, and then the callback runs.
\<close>

lemma disarmed_timer_fires:
  "\<exists>s s' d. timer_reach s \<and> \<not> s_armed (slots s 0) \<and> (\<forall>a. callers s a = Out) \<and>
     timer_step s s' \<and> bodies s' 0 = Some (0, B_call 5 7 d)"
proof -
  let ?s = "demo_timer True (B_back True)" and ?t = "demo_timer False (B_back True)"
  let ?s1 = "on_caller (App 0) (S_setting 0 0 None) ?s"
  let ?s2 = "on_caller (App 0) Out (wake None (on_slot 0 (slot_settime 0 None (now ?s1)) ?s1))"
  have r1: "timer_reach ?s1"
    by (rule timer_reach.step [OF demo_expired], rule settime_enter [of _ _ "H_slot 0"]) (simp_all add: timer_defs)
  have r2: "timer_reach ?s2"
    by (rule timer_reach.step [OF r1], rule settime_lock) (simp_all add: timer_defs)
  have "?s2 = ?t" by (simp add: timer_defs fun_eq_iff)
  with r2 have r: "timer_reach ?t" by simp
  moreover have "\<not> s_armed (slots ?t 0)" "\<forall>a. callers ?t a = Out"
    "bodies (demo_timer False (B_call 5 7 \<lparr>tv_sec = 1, tv_nsec = 0\<rparr>)) 0 = Some (0, B_call 5 7 \<lparr>tv_sec = 1, tv_nsec = 0\<rparr>)"
    by (simp_all add: demo_timer_def)
  ultimately show ?thesis using demo_calls [OF r] by blast
qed

text \<open>
  A callback deletes its own timer: the join of its own thread fails, and the slot is free for
  another timer while the callback still runs on it.
\<close>

lemma self_delete_frees_running:
  "\<exists>s d. timer_reach s \<and> \<not> s_used (slots s 0) \<and> bodies s 0 = Some (0, B_call 5 7 d)"
proof -
  let ?s = "demo_timer False (B_call 5 7 \<lparr>tv_sec = 1, tv_nsec = 0\<rparr>)"
  let ?s1 = "on_caller (Th 0) (D_joining 0) (wake None (on_slot 0 slot_stop ?s))"
  let ?s2 = "on_caller (Th 0) (D_joined 0) (?s1\<lparr>orphaned := insert 0 (orphaned ?s1)\<rparr>)"
  let ?s3 = "on_caller (Th 0) Out (on_slot 0 slot_free (?s2\<lparr>ktimers := ktimers ?s2 - {s_under (slots ?s2 0)}\<rparr>))"
  have r: "timer_reach ?s" by (rule timer_reach.step [OF demo_expired demo_calls [OF demo_expired]])
  have r1: "timer_reach ?s1"
    by (rule timer_reach.step [OF r], rule delete_stop) (simp_all add: timer_defs valid_def)
  have r2: "timer_reach ?s2"
    by (rule timer_reach.step [OF r1], rule delete_join_self) (simp_all add: timer_defs slot_stop_def)
  have r3: "timer_reach ?s3"
    by (rule timer_reach.step [OF r2], rule delete_free) (simp add: timer_defs)
  have "\<not> s_used (slots ?s3 0)" "bodies ?s3 0 = Some (0, B_call 5 7 \<lparr>tv_sec = 1, tv_nsec = 0\<rparr>)"
    by (simp_all add: wake_def demo_timer_def)
  with r3 show ?thesis by blast
qed

end
