(* ===== verification/Thread.thy ===== *)
theory Thread
  imports Prelude
begin

text \<open>
  The \<open>pthread_create\<close> interposer of \<open>src/orbis_thread.cpp\<close>: the stack floor, the trampoline with its
  heap payload, the alternate signal stack and the counters. What the calls into libkernel answer
  during one call of the interposer is a record of answers; the payloads on the heap are a map from
  addresses, and the threads that were created are a list, each with what it was started with.
\<close>

unbundle bit_operations_syntax

definition powerOfTwo :: "u64 \<Rightarrow> bool" where
  "powerOfTwo n = (n \<noteq> 0 \<and> n AND (n - 1) = 0)"

text \<open>Constants of the file, \<open>PTHREAD_STACK_MIN\<close> as the console reports it, and the mark of a floor not resolved.\<close>

definition kAltStackSize :: nat where "kAltStackSize = 64 * 1024"
definition kAltStackMinThreadStack :: nat where "kAltStackMinThreadStack = 4 * kAltStackSize"
definition PTHREAD_STACK_MIN :: nat where "PTHREAD_STACK_MIN = 2048"
definition floor_unresolved :: nat where "floor_unresolved = 2 ^ 64 - 1"

text \<open>Attributes as far as the file copies them.\<close>

record attr_t =
  a_stack :: nat
  a_detach :: int
  a_guard :: nat

text \<open>What a new thread runs: the caller's routine, or the trampoline with its payload.\<close>

datatype entry = Direct u64 u64 | Trampoline nat

datatype thread_status = Created | Ran u64 u64

record thread_t =
  t_entry :: entry
  t_attr :: "attr_t option"
  t_status :: thread_status

text \<open>A report of \<open>reportPoolFailure\<close>: what failed, its code and the count.\<close>

type_synonym pool_report = "string \<times> int \<times> u64"

record thread_state =
  t_heap :: "nat \<Rightarrow> (u64 \<times> u64) option"
  t_next :: nat
  t_threads :: "thread_t list"
  g_floor :: nat
  g_created :: u64
  g_raised :: u64
  g_createFailed :: u64
  g_attrFailed :: u64
  g_altOk :: u64
  g_altFailed :: u64
  g_altSkipped :: u64
  g_altReported :: bool
  g_defaultStack :: nat
  t_reports :: "pool_report list"

definition thread_init :: thread_state where
  "thread_init = \<lparr>t_heap = (\<lambda>_. None), t_next = 0, t_threads = [], g_floor = floor_unresolved, g_created = 0,
     g_raised = 0, g_createFailed = 0, g_attrFailed = 0, g_altOk = 0, g_altFailed = 0, g_altSkipped = 0,
     g_altReported = False, g_defaultStack = 0, t_reports = []\<rparr>"

text \<open>
  The answers: whether \<open>malloc\<close> succeeds; for the calling thread's own attributes the codes of
  \<open>pthread_attr_init\<close>, \<open>pthread_attr_get_np\<close>, \<open>pthread_attr_getstacksize\<close> and the size; for the
  caller's attributes the codes of the three getters; the codes of \<open>pthread_attr_init\<close> and
  \<open>pthread_attr_setstacksize\<close> on the copy, what a fresh attribute holds; the code of
  \<open>scePthreadCreate\<close>; the code of installing the alternate stack; whether the log is enabled.
\<close>

record answers =
  r_malloc :: bool
  r_self_init :: int
  r_self_np :: int
  r_self_get :: int
  r_self_size :: nat
  r_getstack :: int
  r_getdetach :: int
  r_getguard :: int
  r_init :: int
  r_set :: int
  r_fresh :: attr_t
  r_create :: int
  r_altstack :: int
  r_log :: bool

definition reportPoolFailure :: "answers \<Rightarrow> string \<Rightarrow> int \<Rightarrow> u64 \<Rightarrow> thread_state \<Rightarrow> thread_state" where
  "reportPoolFailure r what rc n s =
     (if \<not> powerOfTwo n \<or> \<not> r_log r then s else s\<lparr>t_reports := t_reports s @ [(what, rc, n)]\<rparr>)"

definition attr_failed :: "answers \<Rightarrow> int \<Rightarrow> thread_state \<Rightarrow> thread_state" where
  "attr_failed r rc s =
     reportPoolFailure r ''pthread_attr_init'' rc (g_attrFailed s + 1) (s\<lparr>g_attrFailed := g_attrFailed s + 1\<rparr>)"

section \<open>The floor\<close>

text \<open>\<open>stackOfSelf\<close>: size and code.\<close>

definition stackOfSelf :: "answers \<Rightarrow> thread_state \<Rightarrow> nat \<times> int \<times> thread_state" where
  "stackOfSelf r s =
     (if r_self_init r \<noteq> 0 then (0, r_self_init r, attr_failed r (r_self_init r) s)
      else if r_self_np r = 0 then (if r_self_get r = 0 then r_self_size r else 0, r_self_get r, s)
      else (0, r_self_np r, s))"

definition mainThreadStack :: "answers \<Rightarrow> thread_state \<Rightarrow> nat \<times> thread_state" where
  "mainThreadStack r s = (let (sz, rc, s') = stackOfSelf r s in (if rc = 0 then sz else 0, s'))"

definition resolveFloor :: "answers \<Rightarrow> thread_state \<Rightarrow> nat \<times> thread_state" where
  "resolveFloor r s =
     (if g_floor s \<noteq> floor_unresolved then (g_floor s, s)
      else
        let (v, s') = mainThreadStack r s;
            v' = (if v \<noteq> 0 \<and> v < PTHREAD_STACK_MIN then 0 else v)
        in (v', s'\<lparr>g_floor := v'\<rparr>))"

section \<open>Creating\<close>

text \<open>\<open>createThread\<close>: \<open>sa\<close> is the payload's address.\<close>

definition createThread :: "answers \<Rightarrow> attr_t option \<Rightarrow> entry \<Rightarrow> nat option \<Rightarrow> thread_state \<Rightarrow> int \<times> thread_state" where
  "createThread r attr ent sa s =
     (let rc = r_create r in
      if rc \<noteq> 0 then
        let s1 = (case sa of None \<Rightarrow> s | Some a \<Rightarrow> s\<lparr>t_heap := (t_heap s)(a := None)\<rparr>);
            s2 = s1\<lparr>g_createFailed := g_createFailed s1 + 1\<rparr>
        in (rc, reportPoolFailure r ''scePthreadCreate'' rc (g_createFailed s2) s2)
      else (rc, s\<lparr>t_threads := t_threads s @ [\<lparr>t_entry = ent, t_attr = attr, t_status = Created\<rparr>]\<rparr>))"

text \<open>The copy of the attributes that is raised to the floor.\<close>

definition raised_attr :: "answers \<Rightarrow> attr_t option \<Rightarrow> nat \<Rightarrow> attr_t" where
  "raised_attr r attr fl =
     (case attr of
        None \<Rightarrow> (r_fresh r)\<lparr>a_stack := fl\<rparr>
      | Some a \<Rightarrow>
          (r_fresh r)\<lparr>a_stack := fl,
            a_detach := (if r_getdetach r = 0 then a_detach a else a_detach (r_fresh r)),
            a_guard := (if r_getguard r = 0 then a_guard a else a_guard (r_fresh r))\<rparr>)"

definition alloc_payload :: "answers \<Rightarrow> u64 \<Rightarrow> u64 \<Rightarrow> thread_state \<Rightarrow> entry \<times> nat option \<times> thread_state" where
  "alloc_payload r start arg s =
     (if r_malloc r
      then (Trampoline (t_next s), Some (t_next s),
            s\<lparr>t_heap := (t_heap s)(t_next s \<mapsto> (start, arg)), t_next := t_next s + 1\<rparr>)
      else (Direct start arg, None, s))"

definition pthread_create :: "answers \<Rightarrow> attr_t option \<Rightarrow> u64 \<Rightarrow> u64 \<Rightarrow> thread_state \<Rightarrow> int \<times> thread_state" where
  "pthread_create r attr start arg s =
     (let s0 = s\<lparr>g_created := g_created s + 1\<rparr>;
          (ent, sa, s1) = alloc_payload r start arg s0;
          (fl, s2) = resolveFloor r s1
      in if fl = 0 then createThread r attr ent sa s2
         else
           let want = (case attr of None \<Rightarrow> 0 | Some a \<Rightarrow> if r_getstack r = 0 then a_stack a else 0) in
           if want \<ge> fl then createThread r attr ent sa s2
           else if r_init r \<noteq> 0 then createThread r attr ent sa (attr_failed r (r_init r) s2)
           else
             let (rc, s3) = createThread r (if r_set r = 0 then Some (raised_attr r attr fl) else attr) ent sa s2
             in (rc, if r_set r = 0 \<and> rc = 0 then s3\<lparr>g_raised := g_raised s3 + 1\<rparr> else s3))"

section \<open>Running\<close>

text \<open>
  The bytes of its buffer \<open>runOnItsOwnAltStack\<close> stores to before it hands the buffer to the kernel,
  and the rest of it as far as it changes the file's state.
\<close>

definition altTouched :: "nat list" where
  "altTouched = map (\<lambda>k. k * (16 * 1024)) [0..<kAltStackSize div (16 * 1024)] @ [kAltStackSize - 1]"

definition runOnItsOwnAltStack :: "answers \<Rightarrow> thread_state \<Rightarrow> thread_state" where
  "runOnItsOwnAltStack r s =
     (let s' = (if r_altstack r = 0 then s\<lparr>g_altOk := g_altOk s + 1\<rparr> else s\<lparr>g_altFailed := g_altFailed s + 1\<rparr>)
      in s'\<lparr>g_altReported := True\<rparr>)"

text \<open>
  \<open>threadTrampoline\<close> with the payload at \<open>a\<close>: the routine and the argument it calls, \<open>None\<close> when the
  payload is not on the heap, which would be a use after free.
\<close>

definition threadTrampoline :: "answers \<Rightarrow> nat \<Rightarrow> thread_state \<Rightarrow> ((u64 \<times> u64) \<times> thread_state) option" where
  "threadTrampoline r a s =
     (case t_heap s a of None \<Rightarrow> None
      | Some (fn, arg) \<Rightarrow>
          let s1 = s\<lparr>t_heap := (t_heap s)(a := None)\<rparr>;
              (sz, rc, s2) = stackOfSelf r s1
          in Some ((fn, arg),
               if rc = 0 \<and> sz \<ge> kAltStackMinThreadStack then runOnItsOwnAltStack r s2
               else s2\<lparr>g_altSkipped := g_altSkipped s2 + 1\<rparr>))"

text \<open>The created thread \<open>i\<close> starts.\<close>

definition run_thread :: "answers \<Rightarrow> nat \<Rightarrow> thread_state \<Rightarrow> thread_state option" where
  "run_thread r i s =
     (if i < length (t_threads s) \<and> t_status (t_threads s ! i) = Created then
        (case t_entry (t_threads s ! i) of
           Direct fn arg \<Rightarrow> Some (s\<lparr>t_threads := (t_threads s)[i := (t_threads s ! i)\<lparr>t_status := Ran fn arg\<rparr>]\<rparr>)
         | Trampoline a \<Rightarrow>
             do { ((fn, arg), s') \<leftarrow> threadTrampoline r a s;
                  Some (s'\<lparr>t_threads := (t_threads s')[i := (t_threads s' ! i)\<lparr>t_status := Ran fn arg\<rparr>]\<rparr>) })
      else Some s)"

section \<open>Reports\<close>

definition threadCounts :: "thread_state \<Rightarrow> u64 \<times> u64" where
  "threadCounts s = (g_created s, g_raised s)"

definition threadFailures :: "thread_state \<Rightarrow> u64 \<times> u64" where
  "threadFailures s = (g_createFailed s, g_attrFailed s)"

definition threadAltStacks :: "thread_state \<Rightarrow> u64 \<times> u64 \<times> u64" where
  "threadAltStacks s = (g_altOk s, g_altFailed s, g_altSkipped s)"

definition threadAltStackSize :: nat where "threadAltStackSize = kAltStackSize"

definition threadDefaultStack :: "thread_state \<Rightarrow> nat" where "threadDefaultStack s = g_defaultStack s"

definition threadStackFloor :: "answers \<Rightarrow> thread_state \<Rightarrow> nat \<times> thread_state" where
  "threadStackFloor r s = resolveFloor r s"

text \<open>The verdict \<open>threadStackProbe\<close> reaches from the stack of a thread created without attributes.\<close>

datatype stack_verdict = Too_small | Raised | Inconclusive

definition stack_verdict :: "nat \<Rightarrow> stack_verdict" where
  "stack_verdict viaNull =
     (if viaNull \<noteq> 0 \<and> viaNull < 256 * 1024 then Too_small else if viaNull \<noteq> 0 then Raised else Inconclusive)"

end
