(* ===== verification/Thread_Props.thy ===== *)
theory Thread_Props
  imports Thread
begin

text \<open>
  Over any sequence of creations and thread starts: the payloads on the heap are exactly those of
  the threads still to start, every started thread ran what it was created for, and a created
  thread has the stack the file promises.
\<close>

section \<open>Frames\<close>

lemma report_frame [simp]:
  "t_heap (reportPoolFailure r w rc n s) = t_heap s" "t_next (reportPoolFailure r w rc n s) = t_next s"
  "t_threads (reportPoolFailure r w rc n s) = t_threads s"
  by (simp_all add: reportPoolFailure_def)

lemma attr_failed_frame [simp]:
  "t_heap (attr_failed r rc s) = t_heap s" "t_next (attr_failed r rc s) = t_next s"
  "t_threads (attr_failed r rc s) = t_threads s"
  by (simp_all add: attr_failed_def)

lemma stackOfSelf_frame:
  "stackOfSelf r s = (sz, rc, s') \<Longrightarrow> t_heap s' = t_heap s \<and> t_next s' = t_next s \<and> t_threads s' = t_threads s"
  by (auto simp: stackOfSelf_def split: if_splits)

lemma resolveFloor_frame:
  "resolveFloor r s = (fl, s') \<Longrightarrow> t_heap s' = t_heap s \<and> t_next s' = t_next s \<and> t_threads s' = t_threads s"
  by (auto simp: resolveFloor_def mainThreadStack_def Let_def dest: stackOfSelf_frame
      split: if_splits prod.splits)

text \<open>What the interposer does to heap and threads, whatever path it takes.\<close>

lemma pthread_create_effect:
  assumes "pthread_create r attr start arg s = (rc, s')"
  shows "rc = r_create r"
    and "\<exists>at. t_threads s' = (if rc \<noteq> 0 then t_threads s
           else t_threads s @ [\<lparr>t_entry = (if r_malloc r then Trampoline (t_next s) else Direct start arg),
                               t_attr = at, t_status = Created\<rparr>])"
    and "t_heap s' = (if r_malloc r then (t_heap s)(t_next s := (if rc \<noteq> 0 then None else Some (start, arg)))
           else t_heap s)"
    and "t_next s' = (if r_malloc r then t_next s + 1 else t_next s)"
proof -
  obtain ent sa s1 where p: "alloc_payload r start arg (s\<lparr>g_created := g_created s + 1\<rparr>) = (ent, sa, s1)"
    by (rule prod_cases3)
  obtain fl s2 where f: "resolveFloor r s1 = (fl, s2)" by (rule prod.exhaust)
  have made: "rc = r_create r \<and> (\<exists>at s3. t_heap s3 = t_heap s2 \<and> t_next s3 = t_next s2 \<and> t_threads s3 = t_threads s2 \<and>
      t_heap s' = t_heap (snd (createThread r at ent sa s3)) \<and> t_next s' = t_next (snd (createThread r at ent sa s3)) \<and>
      t_threads s' = t_threads (snd (createThread r at ent sa s3)))"
    using assms
    by (fastforce simp: pthread_create_def p f Let_def createThread_def split: if_splits prod.splits option.splits)
  have s2: "t_heap s2 = t_heap s1 \<and> t_next s2 = t_next s1 \<and> t_threads s2 = t_threads s1"
    by (rule resolveFloor_frame [OF f])
  have s1: "ent = (if r_malloc r then Trampoline (t_next s) else Direct start arg)"
    "sa = (if r_malloc r then Some (t_next s) else None)"
    "t_heap s1 = (if r_malloc r then (t_heap s)(t_next s \<mapsto> (start, arg)) else t_heap s)"
    "t_next s1 = (if r_malloc r then t_next s + 1 else t_next s)" "t_threads s1 = t_threads s"
    using p by (auto simp: alloc_payload_def split: if_splits)
  show "rc = r_create r" using made by blast
  show "\<exists>at. t_threads s' = (if rc \<noteq> 0 then t_threads s
           else t_threads s @ [\<lparr>t_entry = (if r_malloc r then Trampoline (t_next s) else Direct start arg),
                               t_attr = at, t_status = Created\<rparr>])"
    using made s1 s2 by (auto simp: createThread_def Let_def split: option.splits if_splits)
  show "t_heap s' = (if r_malloc r then (t_heap s)(t_next s := (if rc \<noteq> 0 then None else Some (start, arg)))
           else t_heap s)"
    using made s1 s2 by (auto simp: createThread_def Let_def split: option.splits if_splits)
  show "t_next s' = (if r_malloc r then t_next s + 1 else t_next s)"
    using made s1 s2 by (auto simp: createThread_def Let_def split: option.splits if_splits)
qed

section \<open>Runs\<close>

datatype thread_op = Create answers "attr_t option" u64 u64 | Start answers nat

primrec thread_run1 :: "thread_op \<Rightarrow> thread_state \<Rightarrow> thread_state option" where
  "thread_run1 (Create r at f a) s = Some (snd (pthread_create r at f a s))"
| "thread_run1 (Start r i) s = run_thread r i s"

primrec thread_run :: "thread_op list \<Rightarrow> thread_state \<Rightarrow> thread_state option" where
  "thread_run [] s = Some s"
| "thread_run (x # xs) s = do { s' \<leftarrow> thread_run1 x s; thread_run xs s' }"

text \<open>What the successful creations asked for, in order.\<close>

fun asked :: "thread_op list \<Rightarrow> (u64 \<times> u64) list" where
  "asked [] = []"
| "asked (Create r at f a # xs) = (if r_create r = 0 then (f, a) # asked xs else asked xs)"
| "asked (Start r i # xs) = asked xs"

text \<open>Thread \<open>i\<close> was created with the payload at \<open>p\<close>.\<close>

definition holds_payload :: "thread_t list \<Rightarrow> nat \<Rightarrow> nat \<Rightarrow> bool" where
  "holds_payload ths i p \<longleftrightarrow> i < length ths \<and> t_entry (ths ! i) = Trampoline p"

definition pending :: "thread_state \<Rightarrow> nat set" where
  "pending s = {p. \<exists>i. holds_payload (t_threads s) i p \<and> t_status (t_threads s ! i) = Created}"

text \<open>A thread against what it was created for; the addresses of the payloads are all different.\<close>

definition thread_ok :: "(nat \<Rightarrow> (u64 \<times> u64) option) \<Rightarrow> thread_t \<Rightarrow> u64 \<times> u64 \<Rightarrow> bool" where
  "thread_ok h th q \<longleftrightarrow>
     (case t_entry th of Direct f a \<Rightarrow> (f, a) = q | Trampoline p \<Rightarrow> t_status th = Created \<longrightarrow> h p = Some q) \<and>
     (t_status th = Created \<or> t_status th = Ran (fst q) (snd q))"

definition threads_ok :: "thread_state \<Rightarrow> (u64 \<times> u64) list \<Rightarrow> bool" where
  "threads_ok s qs \<longleftrightarrow> list_all2 (thread_ok (t_heap s)) (t_threads s) qs \<and> dom (t_heap s) = pending s \<and>
     (\<forall>i j p. holds_payload (t_threads s) i p \<longrightarrow> holds_payload (t_threads s) j p \<longrightarrow> i = j) \<and>
     (\<forall>i p. holds_payload (t_threads s) i p \<longrightarrow> p < t_next s)"

lemma thread_ok_other_heap:
  "thread_ok h th q \<Longrightarrow> (\<And>p. t_entry th = Trampoline p \<Longrightarrow> h' p = h p) \<Longrightarrow> thread_ok h' th q"
  by (auto simp: thread_ok_def split: entry.splits)

lemma threads_other_heap:
  assumes "list_all2 (thread_ok h) ths qs" "\<And>i p. holds_payload ths i p \<Longrightarrow> h' p = h p"
  shows "list_all2 (thread_ok h') ths qs"
  using assms unfolding list_all2_conv_all_nth holds_payload_def
  by (blast intro: thread_ok_other_heap)

lemma holds_append:
  "holds_payload (ths @ [th]) i p \<longleftrightarrow>
     holds_payload ths i p \<or> i = length ths \<and> t_entry th = Trampoline p"
  by (auto simp: holds_payload_def nth_append less_Suc_eq)

lemma holds_update:
  "t_entry th = t_entry (ths ! i) \<Longrightarrow> holds_payload (ths[i := th]) j p \<longleftrightarrow> holds_payload ths j p"
  by (cases "i < length ths") (auto simp: holds_payload_def nth_list_update)

lemma pending_append:
  assumes "t_threads s' = t_threads s @ [th]" "t_status th = Created"
  shows "pending s' = pending s \<union> {p. t_entry th = Trampoline p}"
proof -
  have "holds_payload (t_threads s @ [th]) i p \<and> t_status ((t_threads s @ [th]) ! i) = Created \<longleftrightarrow>
      holds_payload (t_threads s) i p \<and> t_status (t_threads s ! i) = Created \<or>
      i = length (t_threads s) \<and> t_entry th = Trampoline p" for i p
    using assms(2) by (auto simp: holds_payload_def nth_append less_Suc_eq split: if_splits)
  then show ?thesis unfolding pending_def assms(1) by blast
qed

lemma create_ok:
  assumes "threads_ok s qs"
  shows "threads_ok (snd (pthread_create r at f a s)) (qs @ (if r_create r = 0 then [(f, a)] else []))"
proof -
  obtain rc s' where c: "pthread_create r at f a s = (rc, s')" by (rule prod.exhaust)
  note eff = pthread_create_effect [OF c]
  have old: "\<And>i p. holds_payload (t_threads s) i p \<Longrightarrow> p < t_next s" and dom: "dom (t_heap s) = pending s"
    and uniq: "\<And>i j p. holds_payload (t_threads s) i p \<Longrightarrow> holds_payload (t_threads s) j p \<Longrightarrow> i = j"
    and all: "list_all2 (thread_ok (t_heap s)) (t_threads s) qs"
    using assms by (auto simp: threads_ok_def)
  have heap: "t_heap s' p = t_heap s p" if "holds_payload (t_threads s) i p" for i p
    using old [OF that] by (simp add: eff(3))
  have keep: "list_all2 (thread_ok (t_heap s')) (t_threads s) qs"
    by (rule threads_other_heap [OF all heap])
  have not_next: "\<not> holds_payload (t_threads s) i (t_next s)" for i using old by blast
  have "t_next s \<notin> pending s" using old by (auto simp: pending_def)
  then have next_free: "t_heap s (t_next s) = None" using dom by auto
  have less: "p < t_next s'" if "p < t_next s" for p using that by (simp add: eff(4))
  show ?thesis
  proof (cases "rc = 0")
    case True
    obtain th where th: "t_threads s' = t_threads s @ [th]" "t_status th = Created"
      "t_entry th = (if r_malloc r then Trampoline (t_next s) else Direct f a)"
      using eff(2) True by auto
    have new: "thread_ok (t_heap s') th (f, a)"
      using th(2,3) True by (simp add: thread_ok_def eff(3))
    have "dom (t_heap s') = dom (t_heap s) \<union> {p. t_entry th = Trampoline p}"
      using True th(3) by (auto simp: eff(3))
    then have d: "dom (t_heap s') = pending s'"
      using pending_append [OF th(1,2)] dom by simp
    have u: "i = j" if "holds_payload (t_threads s') i p" "holds_payload (t_threads s') j p" for i j p
      using that uniq not_next th(3) unfolding th(1) holds_append by (auto split: if_splits)
    have n: "p < t_next s'" if "holds_payload (t_threads s') i p" for i p
      using that less [OF old] th(3) eff(4) unfolding th(1) holds_append by (auto split: if_splits)
    show ?thesis
      using keep new d u n True eff(1) by (simp add: threads_ok_def c th(1) list_all2_appendI)
  next
    case False
    then have same: "t_heap s' = t_heap s" "t_threads s' = t_threads s"
      using eff(2,3) next_free by (auto simp: fun_upd_idem)
    then have "pending s' = pending s" by (simp add: pending_def)
    then show ?thesis using all dom uniq old less False eff(1)
      by (simp add: threads_ok_def c same)
  qed
qed

text \<open>A start: the payload is there, and the thread has run what was asked.\<close>

lemma start_ok:
  assumes "threads_ok s qs"
  shows "\<exists>s'. run_thread r i s = Some s' \<and> threads_ok s' qs"
proof (cases "i < length (t_threads s) \<and> t_status (t_threads s ! i) = Created")
  case True
  let ?th = "t_threads s ! i"
  have all: "list_all2 (thread_ok (t_heap s)) (t_threads s) qs" and dom: "dom (t_heap s) = pending s"
    and uniq: "\<And>i j p. holds_payload (t_threads s) i p \<Longrightarrow> holds_payload (t_threads s) j p \<Longrightarrow> i = j"
    and old: "\<And>i p. holds_payload (t_threads s) i p \<Longrightarrow> p < t_next s"
    using assms by (auto simp: threads_ok_def)
  obtain f a where q: "qs ! i = (f, a)" by (rule prod.exhaust)
  have ok: "thread_ok (t_heap s) ?th (f, a)" using all True q by (auto simp: list_all2_conv_all_nth)
  let ?ran = "(t_threads s)[i := ?th\<lparr>t_status := Ran f a\<rparr>]"
  have holds: "holds_payload ?ran j p = holds_payload (t_threads s) j p" for j p
    by (rule holds_update) simp
  have pend: "pending (s'\<lparr>t_threads := ?ran\<rparr>) = pending s - {p. t_entry ?th = Trampoline p}" for s' :: thread_state
  proof -
    have st: "t_status (?ran ! j) = (if j = i then Ran f a else t_status (t_threads s ! j))" for j
      using True by (simp add: nth_list_update)
    have "j \<noteq> i" if "holds_payload (t_threads s) j p" "t_entry ?th \<noteq> Trampoline p" for j p
      using that by (auto simp: holds_payload_def)
    moreover have "j = i" if "holds_payload (t_threads s) j p" "t_entry ?th = Trampoline p" for j p
      using that uniq [of j p i] True by (simp add: holds_payload_def)
    ultimately show ?thesis by (auto simp: pending_def holds st split: if_splits)
  qed
  have ran: "threads_ok (s'\<lparr>t_threads := ?ran\<rparr>) qs"
    if d: "\<And>p. p \<in> dom (t_heap s') \<longleftrightarrow> p \<in> dom (t_heap s) \<and> t_entry ?th \<noteq> Trampoline p"
      and h: "\<And>p. t_entry ?th \<noteq> Trampoline p \<Longrightarrow> t_heap s' p = t_heap s p" and n: "t_next s' = t_next s" for s' :: thread_state
  proof -
    have "thread_ok (t_heap s') (?ran ! j) (qs ! j)" if "j < length qs" for j
    proof (cases "j = i")
      case True
      then show ?thesis using ok q that \<open>i < _ \<and> _\<close> by (auto simp: thread_ok_def split: entry.splits)
    next
      case False
      have "thread_ok (t_heap s) (t_threads s ! j) (qs ! j)" and len: "j < length (t_threads s)"
        using all that by (auto simp: list_all2_conv_all_nth)
      moreover have "t_entry ?th \<noteq> Trampoline p" if "t_entry (t_threads s ! j) = Trampoline p" for p
        using that uniq [of j p i] False len \<open>i < _ \<and> _\<close> by (auto simp: holds_payload_def)
      ultimately have "thread_ok (t_heap s') (t_threads s ! j) (qs ! j)"
        using thread_ok_other_heap [of "t_heap s" "t_threads s ! j" "qs ! j" "t_heap s'"] h by blast
      then show ?thesis using False by simp
    qed
    moreover have "length qs = length (t_threads s)" using all by (simp add: list_all2_lengthD)
    ultimately have "list_all2 (thread_ok (t_heap s')) ?ran qs" by (simp add: list_all2_conv_all_nth)
    moreover have "dom (t_heap s') = pending (s'\<lparr>t_threads := ?ran\<rparr>)"
      unfolding pend using d dom by blast
    ultimately show ?thesis using uniq old n by (simp add: threads_ok_def holds)
  qed
  show ?thesis
  proof (cases "t_entry ?th")
    case (Direct g b)
    then have "(g, b) = (f, a)" using ok by (simp add: thread_ok_def)
    then show ?thesis using ran [of s] True Direct by (simp add: run_thread_def)
  next
    case (Trampoline p)
    have hp: "t_heap s p = Some (f, a)" using ok Trampoline True by (simp add: thread_ok_def)
    obtain sz rc s2 where st: "stackOfSelf r (s\<lparr>t_heap := (t_heap s)(p := None)\<rparr>) = (sz, rc, s2)" by (rule prod_cases3)
    have s2: "t_heap s2 = (t_heap s)(p := None) \<and> t_next s2 = t_next s \<and> t_threads s2 = t_threads s"
      using stackOfSelf_frame [OF st] by simp
    obtain s3 where tr: "threadTrampoline r p s = Some ((f, a), s3)"
      and s3: "t_heap s3 = (t_heap s)(p := None)" "t_next s3 = t_next s" "t_threads s3 = t_threads s"
      using hp st s2 by (simp add: threadTrampoline_def runOnItsOwnAltStack_def Let_def)
    have "threads_ok (s3\<lparr>t_threads := ?ran\<rparr>) qs"
      by (rule ran) (auto simp: s3 Trampoline)
    then show ?thesis using True Trampoline tr by (simp add: run_thread_def s3(3))
  qed
qed (use assms in \<open>auto simp: run_thread_def\<close>)

lemma thread_run_ok:
  "threads_ok s qs \<Longrightarrow> \<exists>s'. thread_run xs s = Some s' \<and> threads_ok s' (qs @ asked xs)"
proof (induction xs arbitrary: s qs)
  case (Cons x xs)
  show ?case
  proof (cases x)
    case (Create r at f a)
    show ?thesis
      using Cons.IH [OF create_ok [OF Cons.prems, of r at f a]] Create by auto
  next
    case (Start r i)
    then show ?thesis using start_ok [OF Cons.prems, of r i] Cons.IH by auto
  qed
qed simp

text \<open>
  C37. Over any sequence of creations and thread starts, whatever libkernel and \<open>malloc\<close> answer:
  no thread reads a freed payload, every thread that has started ran exactly the routine and
  argument its creation asked for, and the payloads on the heap are exactly those of the threads
  that were created and have not started, so each is freed once and a failed creation leaves none.
\<close>

theorem threads_run_what_was_asked:
  "\<exists>s. thread_run xs thread_init = Some s \<and>
     list_all2 (\<lambda>th (f, a). t_status th \<in> {Created, Ran f a}) (t_threads s) (asked xs) \<and>
     dom (t_heap s) = pending s"
proof -
  have "threads_ok thread_init []"
    by (simp add: threads_ok_def thread_init_def pending_def holds_payload_def)
  then obtain s where s: "thread_run xs thread_init = Some s" "threads_ok s (asked xs)"
    using thread_run_ok [of thread_init "[]" xs] by auto
  then show ?thesis
    by (auto simp: threads_ok_def thread_ok_def split: prod.splits elim!: list_all2_mono)
qed

section \<open>Stacks\<close>

text \<open>
  With a floor, an attribute object to raise and a size that libkernel accepts, the new thread's
  stack is the floor or more, and what the caller chose besides is kept.
\<close>

lemma create_stack_floor:
  assumes "resolveFloor r (snd (snd (alloc_payload r f a (s\<lparr>g_created := g_created s + 1\<rparr>)))) = (fl, s2)" "fl \<noteq> 0"
    and "pthread_create r (Some at) f a s = (0, s')"
    and "r_getstack r = 0" "r_getdetach r = 0" "r_getguard r = 0" "r_init r = 0" "r_set r = 0"
  shows "\<exists>at'. t_attr (last (t_threads s')) = Some at' \<and> fl \<le> a_stack at' \<and> a_stack at \<le> a_stack at' \<and>
           a_detach at' = a_detach at \<and> a_guard at' = a_guard at"
  using assms
  by (auto simp: pthread_create_def Let_def createThread_def raised_attr_def split: prod.splits if_splits)

section \<open>The signal stack of a worker thread\<close>

text \<open>
  Wherever the buffer lies, every 16 KiB page it reaches into has been stored to, so the kernel
  faults on none of them when it delivers a signal there.
\<close>

lemma alt_stack_resident:
  assumes "base \<le> x" "x < base + kAltStackSize"
  shows "\<exists>off \<in> set altTouched. off < kAltStackSize \<and> (base + off) div 0x4000 = x div 0x4000"
proof -
  define s where "s = x div 0x4000 * 0x4000"
  have s: "s \<le> x" "x < s + 0x4000" by (simp_all add: s_def div_times_less_eq_dividend)
  have page: "(base + off) div 0x4000 = x div 0x4000" if "s \<le> base + off" "base + off < s + 0x4000" for off
    using that by (intro div_nat_eqI) (simp_all add: s_def)
  have t: "set altTouched = {0, 0x4000, 0x8000, 0xc000, 0xffff}"
  proof -
    have "[0..<kAltStackSize div (16 * 1024)] = [0, 1, 2, 3]" by (simp add: kAltStackSize_def upt_rec)
    then show ?thesis by (auto simp: altTouched_def kAltStackSize_def)
  qed
  have "s \<le> base \<and> base < s + 0x4000 \<or> s \<le> base + 0x4000 \<and> base + 0x4000 < s + 0x4000 \<or>
      s \<le> base + 0x8000 \<and> base + 0x8000 < s + 0x4000 \<or> s \<le> base + 0xc000 \<and> base + 0xc000 < s + 0x4000 \<or>
      s \<le> base + 0xffff \<and> base + 0xffff < s + 0x4000"
    using s assms by (simp add: kAltStackSize_def) linarith
  then show ?thesis using page [of 0] page [of "0x4000"] page [of "0x8000"] page [of "0xc000"] page [of "0xffff"]
    by (auto simp: t kAltStackSize_def)
qed

end
