(* ===== verification/Clock.thy ===== *)
theory Clock
  imports Time
begin

text \<open>
  The clocks of \<open>src/orbis_clock.cpp\<close>. The process counter is the stream \<open>counter\<close> of its
  successive readings, of which the state remembers how many have been taken, and so is the process
  time; the counter's frequency and \<open>sceKernelGettimeofday\<close> (\<open>None\<close> when it fails, else seconds and
  microseconds) are arguments too. The 64-bit arithmetic of the counter is on words.
\<close>

record clock_env =
  freq :: u64
  counter :: "nat \<Rightarrow> u64"
  process_time :: "nat \<Rightarrow> u64"
  timeofday :: "(int \<times> int) option"

record clock_state =
  readings :: nat
  process_readings :: nat
  clock_base :: "(u64 \<times> u64) option"
  unknownId :: int
  unknownIdSeen :: bool
  clkMonotonic :: u64
  clkRealtime :: u64

definition clock_init :: clock_state where
  "clock_init = \<lparr>readings = 0, process_readings = 0, clock_base = None, unknownId = -1, unknownIdSeen = False,
     clkMonotonic = 0, clkRealtime = 0\<rparr>"

text \<open>One reading of either.\<close>

definition read_counter :: "clock_env \<Rightarrow> clock_state \<Rightarrow> u64 \<times> clock_state" where
  "read_counter e s = (counter e (readings s), s\<lparr>readings := readings s + 1\<rparr>)"

definition read_process_time :: "clock_env \<Rightarrow> clock_state \<Rightarrow> u64 \<times> clock_state" where
  "read_process_time e s = (process_time e (process_readings s), s\<lparr>process_readings := process_readings s + 1\<rparr>)"

text \<open>\<open>clockBase\<close>: frequency and origin, read at the first use.\<close>

definition clockBase :: "clock_env \<Rightarrow> clock_state \<Rightarrow> (u64 \<times> u64) \<times> clock_state" where
  "clockBase e s =
     (case clock_base s of
        Some b \<Rightarrow> (b, s)
      | None \<Rightarrow> let (origin, s') = read_counter e s; b = (freq e, origin) in (b, s'\<lparr>clock_base := Some b\<rparr>))"

definition counter_time :: "u64 \<Rightarrow> u64 \<Rightarrow> timespec" where
  "counter_time fr d =
     \<lparr>tv_sec = sint (d div fr), tv_nsec = sint ((d mod fr) * 1000000000 div fr)\<rparr>"

definition monotonicNow :: "clock_env \<Rightarrow> clock_state \<Rightarrow> timespec \<times> clock_state" where
  "monotonicNow e s =
     (let ((fr, origin), s1) = clockBase e s in
      if fr = 0 then
        let (us, s2) = read_process_time e s1 in
        (\<lparr>tv_sec = sint (us div 1000000), tv_nsec = sint (us mod 1000000 * 1000)\<rparr>, s2)
      else
        let (c, s2) = read_counter e s1 in (counter_time fr (c - origin), s2))"

definition realtimeNow :: "clock_env \<Rightarrow> timespec option" where
  "realtimeNow e = (case timeofday e of None \<Rightarrow> None | Some (sec, usec) \<Rightarrow> Some \<lparr>tv_sec = sec, tv_nsec = s64 (usec * 1000)\<rparr>)"

text \<open>
  \<open>clock_gettime\<close>: the result, the time when one was stored, the errno when one was set.
\<close>

definition clock_gettime :: "clock_env \<Rightarrow> int \<Rightarrow> bool \<Rightarrow> clock_state \<Rightarrow>
    int \<times> timespec option \<times> int option \<times> clock_state" where
  "clock_gettime e ident ts s =
     (if \<not> ts then (-1, None, Some EFAULT, s)
      else if ident \<in> {CLOCK_MONOTONIC, CLOCK_MONOTONIC_RAW, CLOCK_MONOTONIC_COARSE, CLOCK_BOOTTIME} then
        let (t, s') = monotonicNow e (s\<lparr>clkMonotonic := clkMonotonic s + 1\<rparr>) in (0, Some t, None, s')
      else if ident \<in> {CLOCK_REALTIME, CLOCK_REALTIME_COARSE} then
        let s' = s\<lparr>clkRealtime := clkRealtime s + 1\<rparr> in
        (case realtimeNow e of None \<Rightarrow> (-1, None, None, s') | Some t \<Rightarrow> (0, Some t, None, s'))
      else
        let s' = (if unknownIdSeen s then s else s\<lparr>unknownIdSeen := True, unknownId := ident\<rparr>);
            (t, s'') = monotonicNow e s' in (0, Some t, None, s''))"

definition orbis_clock_counts :: "clock_state \<Rightarrow> u64 \<times> u64" where
  "orbis_clock_counts s = (clkMonotonic s, clkRealtime s)"

section \<open>The counter's time\<close>

text \<open>
  Below a frequency of 18.4 GHz nothing wraps: the time is the elapsed count in nanoseconds, rounded
  down, with the nanoseconds below a second, and it never runs back.
\<close>

lemma sint_of_small: "unat (w :: u64) < 2 ^ 63 \<Longrightarrow> sint w = int (unat w)"
proof -
  assume "unat w < 2 ^ 63"
  then have "int (unat w) < 2 ^ 63" by (metis of_nat_less_numeral_power_cancel_iff)
  then have "uint w < 2 ^ 63" by (simp only: uint_nat)
  moreover have "- (2 ^ 63) \<le> uint w" by (rule order_trans [OF _ uint_ge_0]) simp
  ultimately have "signed_take_bit 63 (uint w) = uint w" by (intro signed_take_bit_int_eq_self)
  then show ?thesis by (simp add: sint_uint)
qed

lemma div_split: "0 < f \<Longrightarrow> d * c div f = d div f * c + d mod f * c div (f :: nat)"
proof -
  assume "0 < f"
  have "d * c = (d div f * f + d mod f) * c" by simp
  also have "\<dots> = d mod f * c + d div f * c * f" by (simp only: add_mult_distrib, simp only: ac_simps)
  finally show ?thesis using \<open>0 < f\<close> by simp
qed

lemma counter_time_value:
  assumes "0 < fr" "unat fr \<le> 18446744073" "unat d < 2 ^ 63"
  shows "normal (counter_time fr d) \<and>
         tns (counter_time fr d) = int (unat d * 1000000000 div unat fr)"
proof -
  let ?f = "unat fr" and ?d = "unat d"
  have f0: "0 < ?f" using assms(1) by (simp add: unat_gt_0 word_neq_0_conv)
  have small: "?d mod ?f * 1000000000 < 2 ^ 64"
  proof -
    have "?d mod ?f < ?f" using f0 by simp
    then have "?d mod ?f \<le> 18446744072" using assms(2) by linarith
    then show ?thesis by simp
  qed
  have rem: "unat ((d mod fr) * 1000000000) = ?d mod ?f * 1000000000"
    using small by (simp add: unat_word_ariths(2) unat_mod_distrib unat_mult_lem [THEN iffD1])
  have n: "?d mod ?f * 1000000000 div ?f < 1000000000"
    using f0 by (simp add: less_mult_imp_div_less)
  have ns: "unat ((d mod fr) * 1000000000 div fr) = ?d mod ?f * 1000000000 div ?f"
    by (simp add: unat_div_distrib rem)
  have sn: "sint ((d mod fr) * 1000000000 div fr) = int (?d mod ?f * 1000000000 div ?f)"
    using n ns by (simp add: sint_of_small)
  have q: "unat (d div fr) = ?d div ?f" by (simp add: unat_div_distrib)
  have "?d div ?f < 2 ^ 63" using assms(3) by (meson div_le_dividend le_less_trans)
  then have sq: "sint (d div fr) = int (?d div ?f)"
    using q by (simp add: sint_of_small)
  have "?d * 1000000000 div ?f = ?d div ?f * 1000000000 + ?d mod ?f * 1000000000 div ?f"
    by (rule div_split [OF f0])
  moreover have "tns (counter_time fr d) = int (?d div ?f) * 1000000000 + int (?d mod ?f * 1000000000 div ?f)"
    by (simp only: tns_def counter_time_def timespec.simps sq sn)
  moreover have "normal (counter_time fr d)"
    unfolding normal_def counter_time_def timespec.simps sn using n by simp
  ultimately show ?thesis by simp
qed

lemma counter_time_mono:
  assumes "0 < fr" "unat fr \<le> 18446744073" "d \<le> d'" "unat d' < 2 ^ 63"
  shows "tns (counter_time fr d) \<le> tns (counter_time fr d')"
proof -
  have "unat d \<le> unat d'" using assms(3) by (simp add: word_le_nat_alt)
  then show ?thesis
    using counter_time_value [OF assms(1,2,4)] counter_time_value [OF assms(1,2), of d] assms(4)
    by (simp add: div_le_mono)
qed

end
