(* ===== verification/Guard.thy ===== *)
theory Guard
  imports Prelude
begin

text \<open>
  The C++ static-initialization guard of \<open>src/orbis_cxa_guard.c\<close>: the guard's done and flag
  bytes, the owner table of 64 entries, and \<open>__cxa_guard_acquire\<close>, \<open>__cxa_guard_release\<close> and
  \<open>__cxa_guard_abort\<close> run by any number of threads. Everything between a lock and the
  matching unlock of the one mutex is one step; waiting on the condition variable, its
  failure, spurious wake-ups and the broadcast after the unlock are steps of their own.
\<close>

section \<open>Guard bytes and the owner table\<close>

definition FLAG_PENDING :: u8 where "FLAG_PENDING = 1"
definition FLAG_WAITING :: u8 where "FLAG_WAITING = 2"
definition OWNERS :: nat where "OWNERS = 64"

record guard =
  done_byte :: u8
  flag_byte :: u8

definition fresh_guard :: guard where
  "fresh_guard = \<lparr>done_byte = 0, flag_byte = 0\<rparr>"

text \<open>\<open>s_owners\<close>: guard address (0 is free) and the owner's thread anchor.\<close>

type_synonym owner_table = "(nat \<times> nat) list"

fun owner_set :: "nat \<Rightarrow> nat \<Rightarrow> owner_table \<Rightarrow> owner_table" where
  "owner_set g o' [] = []"
| "owner_set g o' ((g', p) # os) = (if g' = 0 then (g, o') # os else (g', p) # owner_set g o' os)"

fun owner_clear :: "nat \<Rightarrow> owner_table \<Rightarrow> owner_table" where
  "owner_clear g [] = []"
| "owner_clear g ((g', p) # os) = (if g' = g then (0, 0) # os else (g', p) # owner_clear g os)"

fun owner_find :: "nat \<Rightarrow> nat \<Rightarrow> owner_table \<Rightarrow> bool" where
  "owner_find g self [] = False"
| "owner_find g self ((g', p) # os) = (if g' = g then p = self else owner_find g self os)"

definition owner_is_self :: "nat \<Rightarrow> nat \<Rightarrow> owner_table \<Rightarrow> bool" where
  "owner_is_self g self os = (self \<noteq> 0 \<and> owner_find g self os)"

record guard_state =
  guards :: "nat \<Rightarrow> guard"
  owners :: owner_table

definition guard_init :: guard_state where
  "guard_init = \<lparr>guards = (\<lambda>_. fresh_guard), owners = replicate OWNERS (0, 0)\<rparr>"

section \<open>The critical sections\<close>

text \<open>How one pass of the loop in \<open>__cxa_guard_acquire\<close> ends.\<close>

datatype acquire_result = Already_done | Ours | Recursive | Must_wait

definition is_pending :: "guard \<Rightarrow> bool" where
  "is_pending gd = (flag_byte gd AND FLAG_PENDING \<noteq> 0)"

definition is_waiting :: "guard \<Rightarrow> bool" where
  "is_waiting gd = (flag_byte gd AND FLAG_WAITING \<noteq> 0)"

definition guard_acquire_pass :: "nat \<Rightarrow> nat \<Rightarrow> guard_state \<Rightarrow> acquire_result \<times> guard_state" where
  "guard_acquire_pass self g s =
     (let gd = guards s g in
      if done_byte gd \<noteq> 0 then (Already_done, s)
      else if \<not> is_pending gd then
        (Ours, s\<lparr>guards := (guards s)(g := gd\<lparr>flag_byte := flag_byte gd OR FLAG_PENDING\<rparr>),
                 owners := owner_set g self (owners s)\<rparr>)
      else if owner_is_self g self (owners s) then (Recursive, s)
      else (Must_wait, s\<lparr>guards := (guards s)(g := gd\<lparr>flag_byte := flag_byte gd OR FLAG_WAITING\<rparr>)\<rparr>))"

definition guard_release_section :: "nat \<Rightarrow> guard_state \<Rightarrow> bool \<times> guard_state" where
  "guard_release_section g s =
     (is_waiting (guards s g),
      s\<lparr>guards := (guards s)(g := (guards s g)\<lparr>done_byte := 1, flag_byte := 0\<rparr>), owners := owner_clear g (owners s)\<rparr>)"

definition guard_abort_section :: "nat \<Rightarrow> guard_state \<Rightarrow> bool \<times> guard_state" where
  "guard_abort_section g s =
     (is_waiting (guards s g),
      s\<lparr>guards := (guards s)(g := (guards s g)\<lparr>flag_byte := 0\<rparr>), owners := owner_clear g (owners s)\<rparr>)"

section \<open>Threads\<close>

text \<open>
  Where a thread is: outside the three functions, at the top of the acquire loop, parked on
  the condition variable, in the \<open>usleep\<close> fallback, about to broadcast, or in the abort for a
  recursive initializer.
\<close>

datatype thread_pc =
    Outside | Acquiring nat | Parked nat | Sleeping nat | Broadcasting | Recursion_abort nat

record guard_system =
  shared :: guard_state
  pc :: "nat \<Rightarrow> thread_pc"
  initializing :: "nat \<Rightarrow> nat list"

definition system_init :: guard_system where
  "system_init = \<lparr>shared = guard_init, pc = (\<lambda>_. Outside), initializing = (\<lambda>_. [])\<rparr>"

definition wake_all :: "(nat \<Rightarrow> thread_pc) \<Rightarrow> nat \<Rightarrow> thread_pc" where
  "wake_all p = (\<lambda>t. case p t of Parked g \<Rightarrow> Acquiring g | c \<Rightarrow> c)"

text \<open>
  \<open>self t\<close> is the anchor thread \<open>t\<close> reads from \<open>%fs:0\<close>. \<open>initializing t\<close> lists the guards
  whose initializer \<open>t\<close> is running, innermost first: acquire returned 1 for them and neither
  release nor abort has been called.
\<close>

inductive guard_step :: "(nat \<Rightarrow> nat) \<Rightarrow> guard_system \<Rightarrow> guard_system \<Rightarrow> bool" for self where
  call: "pc s t = Outside \<Longrightarrow> g \<noteq> 0 \<Longrightarrow>
    guard_step self s (s\<lparr>pc := (pc s)(t := Acquiring g)\<rparr>)"
| already: "pc s t = Acquiring g \<Longrightarrow> guard_acquire_pass (self t) g (shared s) = (Already_done, sh) \<Longrightarrow>
    guard_step self s (s\<lparr>shared := sh, pc := (pc s)(t := Outside)\<rparr>)"
| ours: "pc s t = Acquiring g \<Longrightarrow> guard_acquire_pass (self t) g (shared s) = (Ours, sh) \<Longrightarrow>
    guard_step self s (s\<lparr>shared := sh, pc := (pc s)(t := Outside),
      initializing := (initializing s)(t := g # initializing s t)\<rparr>)"
| recursive: "pc s t = Acquiring g \<Longrightarrow> guard_acquire_pass (self t) g (shared s) = (Recursive, sh) \<Longrightarrow>
    guard_step self s (s\<lparr>shared := sh, pc := (pc s)(t := Recursion_abort g)\<rparr>)"
| park: "pc s t = Acquiring g \<Longrightarrow> guard_acquire_pass (self t) g (shared s) = (Must_wait, sh) \<Longrightarrow>
    guard_step self s (s\<lparr>shared := sh, pc := (pc s)(t := Parked g)\<rparr>)"
| wait_refused: "pc s t = Acquiring g \<Longrightarrow> guard_acquire_pass (self t) g (shared s) = (Must_wait, sh) \<Longrightarrow>
    guard_step self s (s\<lparr>shared := sh, pc := (pc s)(t := Sleeping g)\<rparr>)"
| slept: "pc s t = Sleeping g \<Longrightarrow>
    guard_step self s (s\<lparr>pc := (pc s)(t := Acquiring g)\<rparr>)"
| spurious: "pc s t = Parked g \<Longrightarrow>
    guard_step self s (s\<lparr>pc := (pc s)(t := Acquiring g)\<rparr>)"
| release: "pc s t = Outside \<Longrightarrow> initializing s t = g # gs \<Longrightarrow>
    guard_release_section g (shared s) = (wake, sh) \<Longrightarrow>
    guard_step self s (s\<lparr>shared := sh, pc := (pc s)(t := if wake then Broadcasting else Outside),
      initializing := (initializing s)(t := gs)\<rparr>)"
| abort: "pc s t = Outside \<Longrightarrow> initializing s t = g # gs \<Longrightarrow>
    guard_abort_section g (shared s) = (wake, sh) \<Longrightarrow>
    guard_step self s (s\<lparr>shared := sh, pc := (pc s)(t := if wake then Broadcasting else Outside),
      initializing := (initializing s)(t := gs)\<rparr>)"
| broadcast: "pc s t = Broadcasting \<Longrightarrow>
    guard_step self s (s\<lparr>pc := wake_all ((pc s)(t := Outside))\<rparr>)"

inductive_cases guard_stepE: "guard_step self s s'"

inductive guard_reach :: "(nat \<Rightarrow> nat) \<Rightarrow> guard_system \<Rightarrow> bool" for self where
  start: "guard_reach self system_init"
| next_step: "guard_reach self s \<Longrightarrow> guard_step self s s' \<Longrightarrow> guard_reach self s'"

end
