(* ===== verification/Guard_Facts.thy ===== *)
theory Guard_Facts
  imports Guard
begin

text \<open>
  The invariant of the guard protocol and its proof: guard bytes, owner table and the threads'
  positions agree in every reachable state. The owner table enters through the interface
  \<open>owner_registry\<close>, which the table of 64 entries provides whether or not it is full.
\<close>

unbundle bit_operations_syntax

section \<open>The owner table\<close>

locale owner_registry =
  fixes recorded :: "'m \<Rightarrow> nat \<Rightarrow> nat list"
    and put :: "nat \<Rightarrow> nat \<Rightarrow> 'm \<Rightarrow> 'm"
    and clear :: "nat \<Rightarrow> 'm \<Rightarrow> 'm"
    and mine :: "nat \<Rightarrow> nat \<Rightarrow> 'm \<Rightarrow> bool"
  assumes put_other: "g \<noteq> 0 \<Longrightarrow> h \<noteq> 0 \<Longrightarrow> h \<noteq> g \<Longrightarrow> recorded (put g p m) h = recorded m h"
    and put_same: "g \<noteq> 0 \<Longrightarrow> recorded m g = [] \<Longrightarrow> recorded (put g p m) g \<in> {[], [p]}"
    and clear_other: "g \<noteq> 0 \<Longrightarrow> h \<noteq> 0 \<Longrightarrow> h \<noteq> g \<Longrightarrow> recorded (clear g m) h = recorded m h"
    and clear_same: "g \<noteq> 0 \<Longrightarrow> recorded (clear g m) g = tl (recorded m g)"
    and mine_iff: "g \<noteq> 0 \<Longrightarrow> mine g self m \<longleftrightarrow> self \<noteq> 0 \<and> (\<exists>ps. recorded m g = self # ps)"
begin

text \<open>Every recorded owner is the thread that is initializing the guard.\<close>

definition agrees :: "(nat \<Rightarrow> nat) \<Rightarrow> (nat \<Rightarrow> nat list) \<Rightarrow> 'm \<Rightarrow> bool" where
  "agrees self busy m \<longleftrightarrow>
     (\<forall>g. g \<noteq> 0 \<longrightarrow> recorded m g = [] \<or> (\<exists>t. g \<in> set (busy t) \<and> recorded m g = [self t]))"

lemma agreesD: "agrees self busy m \<Longrightarrow> g \<noteq> 0 \<Longrightarrow> recorded m g \<noteq> [] \<Longrightarrow>
    \<exists>t. g \<in> set (busy t) \<and> recorded m g = [self t]"
  unfolding agrees_def by blast

lemma agrees_move:
  assumes "agrees self busy m" "h \<noteq> 0" "recorded m' h = recorded m h"
    "\<And>u. h \<in> set (busy u) \<Longrightarrow> h \<in> set (busy' u)"
  shows "recorded m' h = [] \<or> (\<exists>u. h \<in> set (busy' u) \<and> recorded m' h = [self u])"
proof (cases "recorded m h = []")
  case False
  from agreesD [OF assms(1,2) False] assms(3,4) show ?thesis by auto
qed (simp add: assms(3))

lemma agrees_put:
  assumes "agrees self busy m" "g \<noteq> 0" "\<forall>t. g \<notin> set (busy t)"
  shows "agrees self (busy(t := g # busy t)) (put g (self t) m)"
  unfolding agrees_def
proof (intro allI impI)
  fix h :: nat assume h: "h \<noteq> 0"
  show "recorded (put g (self t) m) h = [] \<or>
    (\<exists>u. h \<in> set ((busy(t := g # busy t)) u) \<and> recorded (put g (self t) m) h = [self u])"
  proof (cases "h = g")
    case True
    have "recorded m g = []" using assms unfolding agrees_def by blast
    then show ?thesis using put_same [OF assms(2), of m "self t"] True by (auto intro: exI [of _ t])
  next
    case False
    show ?thesis
      by (rule agrees_move [OF assms(1) h put_other [OF assms(2) h False]]) auto
  qed
qed

lemma agrees_clear:
  assumes "agrees self busy m" "g \<noteq> 0" "busy t = g # gs"
  shows "agrees self (busy(t := gs)) (clear g m)"
  unfolding agrees_def
proof (intro allI impI)
  fix h :: nat assume h: "h \<noteq> 0"
  show "recorded (clear g m) h = [] \<or>
    (\<exists>u. h \<in> set ((busy(t := gs)) u) \<and> recorded (clear g m) h = [self u])"
  proof (cases "h = g")
    case True
    have "recorded m g = [] \<or> (\<exists>p. recorded m g = [p])" using assms unfolding agrees_def by blast
    then show ?thesis using clear_same [OF assms(2), of m] True by auto
  next
    case False
    show ?thesis
      by (rule agrees_move [OF assms(1) h clear_other [OF assms(2) h False]]) (use False assms(3) in auto)
  qed
qed

lemma agrees_mine:
  assumes "agrees self busy m" "g \<noteq> 0" "mine g (self t) m"
  shows "self t \<noteq> 0 \<and> (\<exists>u. g \<in> set (busy u) \<and> self u = self t)"
proof -
  from assms(3) mine_iff [OF assms(2)] obtain ps where "self t \<noteq> 0" "recorded m g = self t # ps" by blast
  with agreesD [OF assms(1,2)] show ?thesis by auto
qed

end

definition recorded_owners :: "owner_table \<Rightarrow> nat \<Rightarrow> nat list" where
  "recorded_owners os g = map snd (filter (\<lambda>e. fst e = g) os)"

lemma recorded_owners_simps [simp]:
  "recorded_owners [] g = []"
  "recorded_owners ((g', p) # os) g = (if g' = g then p # recorded_owners os g else recorded_owners os g)"
  by (simp_all add: recorded_owners_def)

lemma owner_set_other: "g \<noteq> 0 \<Longrightarrow> h \<noteq> 0 \<Longrightarrow> h \<noteq> g \<Longrightarrow>
    recorded_owners (owner_set g p os) h = recorded_owners os h"
  by (induction g p os rule: owner_set.induct) auto

lemma owner_set_same: "g \<noteq> 0 \<Longrightarrow> recorded_owners os g = [] \<Longrightarrow>
    recorded_owners (owner_set g p os) g = [] \<or> recorded_owners (owner_set g p os) g = [p]"
  by (induction g p os rule: owner_set.induct) (auto split: if_splits)

lemma owner_clear_other: "g \<noteq> 0 \<Longrightarrow> h \<noteq> 0 \<Longrightarrow> h \<noteq> g \<Longrightarrow>
    recorded_owners (owner_clear g os) h = recorded_owners os h"
  by (induction g os rule: owner_clear.induct) auto

lemma owner_clear_same: "g \<noteq> 0 \<Longrightarrow> recorded_owners (owner_clear g os) g = tl (recorded_owners os g)"
  by (induction g os rule: owner_clear.induct) auto

lemma owner_find_iff: "owner_find g self os \<longleftrightarrow> (\<exists>ps. recorded_owners os g = self # ps)"
  by (induction g self os rule: owner_find.induct) auto

interpretation owner_table: owner_registry recorded_owners owner_set owner_clear owner_is_self
  by unfold_locales
    (simp_all add: owner_set_other owner_set_same owner_clear_other owner_clear_same
      owner_is_self_def owner_find_iff)

section \<open>Guard bytes\<close>

lemma flag_or_pending [simp]:
  "is_pending (gd\<lparr>flag_byte := x OR FLAG_PENDING\<rparr>)"
  "is_waiting (gd\<lparr>flag_byte := x OR FLAG_PENDING\<rparr>) = (x AND FLAG_WAITING \<noteq> 0)"
  by (simp_all add: is_pending_def is_waiting_def FLAG_PENDING_def FLAG_WAITING_def bit.conj_disj_distrib2)

lemma flag_or_waiting [simp]:
  "is_waiting (gd\<lparr>flag_byte := x OR FLAG_WAITING\<rparr>)"
  "is_pending (gd\<lparr>flag_byte := x OR FLAG_WAITING\<rparr>) = (x AND FLAG_PENDING \<noteq> 0)"
  by (simp_all add: is_pending_def is_waiting_def FLAG_PENDING_def FLAG_WAITING_def bit.conj_disj_distrib2)

lemma flag_zero [simp]:
  "\<not> is_pending (gd\<lparr>flag_byte := 0\<rparr>)" "\<not> is_waiting (gd\<lparr>flag_byte := 0\<rparr>)"
  "\<not> is_pending \<lparr>done_byte = d, flag_byte = 0\<rparr>" "\<not> is_waiting \<lparr>done_byte = d, flag_byte = 0\<rparr>"
  by (simp_all add: is_pending_def is_waiting_def)

section \<open>The invariant\<close>

definition data_inv :: "(nat \<Rightarrow> nat) \<Rightarrow> (nat \<Rightarrow> nat list) \<Rightarrow> guard_state \<Rightarrow> bool" where
  "data_inv self busy s \<longleftrightarrow>
     (\<forall>t. distinct (busy t) \<and> 0 \<notin> set (busy t)) \<and>
     (\<forall>t u g. g \<in> set (busy t) \<longrightarrow> g \<in> set (busy u) \<longrightarrow> t = u) \<and>
     (\<forall>g. is_pending (guards s g) \<longleftrightarrow> (\<exists>t. g \<in> set (busy t))) \<and>
     (\<forall>g. done_byte (guards s g) \<noteq> 0 \<longrightarrow> \<not> is_pending (guards s g)) \<and>
     (\<forall>g. is_waiting (guards s g) \<longrightarrow> is_pending (guards s g)) \<and>
     owner_table.agrees self busy (owners s)"

lemma data_invD:
  assumes "data_inv self busy s"
  shows "distinct (busy t)" "0 \<notin> set (busy t)"
    "g \<in> set (busy t) \<Longrightarrow> g \<in> set (busy u) \<Longrightarrow> t = u"
    "is_pending (guards s g) \<longleftrightarrow> (\<exists>t. g \<in> set (busy t))"
    "done_byte (guards s g) \<noteq> 0 \<Longrightarrow> \<not> is_pending (guards s g)"
    "is_waiting (guards s g) \<Longrightarrow> is_pending (guards s g)"
    "owner_table.agrees self busy (owners s)"
  using assms unfolding data_inv_def by blast+

lemma data_inv_ours:
  assumes "data_inv self busy s" "g \<noteq> 0" "guard_acquire_pass (self t) g s = (Ours, s')"
  shows "data_inv self (busy(t := g # busy t)) s'" "done_byte (guards s g) = 0" "\<not> is_pending (guards s g)"
    "h \<noteq> g \<Longrightarrow> guards s' h = guards s h" "\<not> is_waiting (guards s g)"
proof -
  note d = data_invD [OF assms(1)]
  have np: "\<not> is_pending (guards s g)" and nd: "done_byte (guards s g) = 0"
    and s': "s' = s\<lparr>guards := (guards s)(g := (guards s g)\<lparr>flag_byte := flag_byte (guards s g) OR FLAG_PENDING\<rparr>),
                 owners := owner_set g (self t) (owners s)\<rparr>"
    using assms(3) by (auto simp: guard_acquire_pass_def Let_def split: if_splits)
  then show "done_byte (guards s g) = 0" "\<not> is_pending (guards s g)" "h \<noteq> g \<Longrightarrow> guards s' h = guards s h"
    by auto
  show nw: "\<not> is_waiting (guards s g)" using np d(6) by blast
  have free: "\<forall>u. g \<notin> set (busy u)" using np d(4) by blast
  have "owner_table.agrees self (busy(t := g # busy t)) (owners s')"
    using owner_table.agrees_put [OF d(7) assms(2) free] by (simp add: s')
  moreover have "is_pending (guards s' h) \<longleftrightarrow> (\<exists>u. h \<in> set ((busy(t := g # busy t)) u))" for h
    using d(4) [of h] by (auto simp: s')
  moreover have "is_waiting (guards s' h) \<longrightarrow> is_pending (guards s' h)"
    "done_byte (guards s' h) \<noteq> 0 \<longrightarrow> \<not> is_pending (guards s' h)" for h
    using d(5,6) [of h] nd by (auto simp: s')
  moreover have "distinct ((busy(t := g # busy t)) u) \<and> 0 \<notin> set ((busy(t := g # busy t)) u)" for u
    using d(1,2) [of u] assms(2) free by auto
  moreover have "h \<in> set ((busy(t := g # busy t)) u) \<Longrightarrow> h \<in> set ((busy(t := g # busy t)) v) \<Longrightarrow> u = v" for h u v
    using d(3) [of h u v] free by (auto split: if_splits dest: d(3))
  ultimately show "data_inv self (busy(t := g # busy t)) s'"
    unfolding data_inv_def by blast
qed

lemma data_inv_wait:
  assumes "data_inv self busy s" "guard_acquire_pass p g s = (Must_wait, s')"
  shows "data_inv self busy s'" "is_waiting (guards s' g)" "is_pending (guards s g)" "done_byte (guards s g) = 0"
    "is_waiting (guards s h) \<Longrightarrow> is_waiting (guards s' h)"
proof -
  note d = data_invD [OF assms(1)]
  have p: "is_pending (guards s g)" and nd: "done_byte (guards s g) = 0"
    and s': "s' = s\<lparr>guards := (guards s)(g := (guards s g)\<lparr>flag_byte := flag_byte (guards s g) OR FLAG_WAITING\<rparr>)\<rparr>"
    using assms(2) by (auto simp: guard_acquire_pass_def Let_def split: if_splits)
  then show "is_waiting (guards s' g)" "is_pending (guards s g)" "done_byte (guards s g) = 0"
    "is_waiting (guards s h) \<Longrightarrow> is_waiting (guards s' h)" by auto
  have pend: "is_pending (guards s' h) = is_pending (guards s h)" for h
    using p by (cases "h = g") (simp_all add: s', simp add: is_pending_def)
  have "is_waiting (guards s' h) \<longrightarrow> is_pending (guards s' h)" for h
    unfolding pend using d(6) [of h] p by (auto simp: s' split: if_splits)
  moreover have "done_byte (guards s' h) = done_byte (guards s h)" for h by (simp add: s')
  ultimately show "data_inv self busy s'"
    using d unfolding data_inv_def pend by (simp add: s')
qed

lemma data_inv_leave:
  assumes "data_inv self busy s" "busy t = g # gs"
    and s': "s' = s\<lparr>guards := (guards s)(g := (guards s g)\<lparr>done_byte := d, flag_byte := 0\<rparr>), owners := owner_clear g (owners s)\<rparr>"
  shows "data_inv self (busy(t := gs)) s'"
proof -
  note d = data_invD [OF assms(1)]
  have g: "g \<noteq> 0" "g \<notin> set gs" "g \<in> set (busy t)" using d(1,2) [of t] assms(2) by auto
  have only: "g \<in> set (busy u) \<Longrightarrow> u = t" for u using d(3) g(3) by blast
  have "owner_table.agrees self (busy(t := gs)) (owners s')"
    using owner_table.agrees_clear [OF d(7) g(1) assms(2)] by (simp add: s')
  moreover have "is_pending (guards s' h) \<longleftrightarrow> (\<exists>u. h \<in> set ((busy(t := gs)) u))" for h
  proof (cases "h = g")
    case True
    then show ?thesis using only g(2) by (auto simp: s' split: if_splits)
  next
    case False
    then have "h \<in> set ((busy(t := gs)) u) \<longleftrightarrow> h \<in> set (busy u)" for u using assms(2) by auto
    then show ?thesis using d(4) [of h] False by (simp add: s')
  qed
  moreover have "is_waiting (guards s' h) \<longrightarrow> is_pending (guards s' h)"
    "done_byte (guards s' h) \<noteq> 0 \<longrightarrow> \<not> is_pending (guards s' h)" for h
    using d(5,6) [of h] by (auto simp: s')
  moreover have "distinct ((busy(t := gs)) u) \<and> 0 \<notin> set ((busy(t := gs)) u)" for u
    using d(1,2) [of u] d(1,2) [of t] assms(2) by auto
  moreover have "h \<in> set ((busy(t := gs)) u) \<Longrightarrow> h \<in> set ((busy(t := gs)) v) \<Longrightarrow> u = v" for h u v
    using d(3) [of h u v] assms(2) by (auto split: if_splits dest: d(3))
  ultimately show ?thesis unfolding data_inv_def by blast
qed

lemma release_section:
  "guard_release_section g s = (wake, s') \<Longrightarrow> wake = is_waiting (guards s g) \<and>
   s' = s\<lparr>guards := (guards s)(g := (guards s g)\<lparr>done_byte := 1, flag_byte := 0\<rparr>), owners := owner_clear g (owners s)\<rparr>"
  by (auto simp: guard_release_section_def)

lemma abort_section:
  assumes "guard_abort_section g s = (wake, s')"
  shows "wake = is_waiting (guards s g) \<and>
   s' = s\<lparr>guards := (guards s)(g := (guards s g)\<lparr>done_byte := done_byte (guards s g), flag_byte := 0\<rparr>), owners := owner_clear g (owners s)\<rparr>"
  using assms by (auto simp: guard_abort_section_def)


definition pc_inv :: "(nat \<Rightarrow> nat list) \<Rightarrow> guard_state \<Rightarrow> (nat \<Rightarrow> thread_pc) \<Rightarrow> bool" where
  "pc_inv busy s p \<longleftrightarrow>
     (\<forall>t g. p t \<in> {Acquiring g, Parked g, Sleeping g} \<longrightarrow> g \<noteq> 0) \<and>
     (\<forall>t g. p t = Parked g \<longrightarrow> is_waiting (guards s g) \<or> (\<exists>u. p u = Broadcasting)) \<and>
     (\<forall>t g. p t = Recursion_abort g \<longrightarrow> g \<in> set (busy t))"

lemma pc_invD:
  assumes "pc_inv busy s p"
  shows "p t = Acquiring g \<Longrightarrow> g \<noteq> 0" "p t = Sleeping g \<Longrightarrow> g \<noteq> 0" "p t = Parked g \<Longrightarrow> g \<noteq> 0"
    "p t = Parked g \<Longrightarrow> is_waiting (guards s g) \<or> (\<exists>u. p u = Broadcasting)"
    "p t = Recursion_abort g \<Longrightarrow> g \<in> set (busy t)"
  using assms unfolding pc_inv_def by blast+

text \<open>
  A step of thread \<open>t\<close> to position \<open>c\<close> that keeps every waiting flag it does not broadcast for.
\<close>

lemma pc_inv_step:
  assumes "pc_inv busy s p" "p t \<noteq> Broadcasting"
    and "\<And>g. c \<in> {Acquiring g, Parked g, Sleeping g} \<Longrightarrow> g \<noteq> 0"
    and "\<And>g. c = Parked g \<Longrightarrow> is_waiting (guards s' g)"
    and "\<And>g. c = Recursion_abort g \<Longrightarrow> g \<in> set (busy' t)"
    and "\<And>g. is_waiting (guards s g) \<Longrightarrow> is_waiting (guards s' g) \<or> c = Broadcasting"
    and "\<And>u g. u \<noteq> t \<Longrightarrow> g \<in> set (busy u) \<Longrightarrow> g \<in> set (busy' u)"
  shows "pc_inv busy' s' (p(t := c))"
proof -
  note p = pc_invD [OF assms(1)]
  have "is_waiting (guards s' g) \<or> (\<exists>u. (p(t := c)) u = Broadcasting)" if "(p(t := c)) v = Parked g" for v g
  proof (cases "v = t")
    case True
    then show ?thesis using that assms(4) by auto
  next
    case False
    then have "is_waiting (guards s g) \<or> (\<exists>u. p u = Broadcasting)" using that p(4) by auto
    then show ?thesis
    proof
      assume "is_waiting (guards s g)"
      then show ?thesis using assms(6) by (metis fun_upd_same)
    next
      assume "\<exists>u. p u = Broadcasting"
      then obtain u where "p u = Broadcasting" "u \<noteq> t" using assms(2) by metis
      then show ?thesis by (auto intro!: exI [of _ u])
    qed
  qed
  moreover have "g \<noteq> 0" if "(p(t := c)) v \<in> {Acquiring g, Parked g, Sleeping g}" for v g
    using that assms(3) p(1-3) [of v g] by (auto split: if_splits)
  moreover have "g \<in> set (busy' v)" if "(p(t := c)) v = Recursion_abort g" for v g
    using that assms(5,7) p(5) [of v g] by (auto split: if_splits)
  ultimately show ?thesis unfolding pc_inv_def by blast
qed

definition guard_inv :: "(nat \<Rightarrow> nat) \<Rightarrow> guard_system \<Rightarrow> bool" where
  "guard_inv self s \<longleftrightarrow> data_inv self (initializing s) (shared s) \<and> pc_inv (initializing s) (shared s) (pc s)"

text \<open>Distinct threads that have an anchor have different ones.\<close>

definition anchors_ok :: "(nat \<Rightarrow> nat) \<Rightarrow> bool" where
  "anchors_ok self \<longleftrightarrow> (\<forall>t u. self t = self u \<longrightarrow> self t = 0 \<or> t = u)"

lemma guard_inv_init: "guard_inv self system_init"
proof -
  have "recorded_owners (replicate n (0, 0)) g = []" if "g \<noteq> 0" for n g
    using that by (induction n) auto
  then show ?thesis
    by (auto simp: guard_inv_def data_inv_def pc_inv_def system_init_def guard_init_def fresh_guard_def
      owner_table.agrees_def)
qed

lemma guard_inv_step:
  assumes "guard_step self s s'" "guard_inv self s" "anchors_ok self"
  shows "guard_inv self s'"
proof -
  have d: "data_inv self (initializing s) (shared s)" and p: "pc_inv (initializing s) (shared s) (pc s)"
    using assms(2) by (auto simp: guard_inv_def)
  note q = pc_invD [OF p]
  from assms(1) show ?thesis
  proof (cases rule: guard_step.cases)
    case (call t g)
    then show ?thesis using d pc_inv_step [OF p, of t "Acquiring g"] by (simp add: guard_inv_def)
  next
    case (already t g sh)
    then have "sh = shared s" by (auto simp: guard_acquire_pass_def Let_def split: if_splits)
    with already show ?thesis using d pc_inv_step [OF p, of t Outside] by (simp add: guard_inv_def)
  next
    case (ours t g sh)
    note o = data_inv_ours [OF d q(1) [OF ours(2)] ours(3)]
    have "is_waiting (guards sh h)" if "is_waiting (guards (shared s) h)" for h
      using that o(4) [of h] o(5) by (cases "h = g") auto
    then show ?thesis using ours o(1) pc_inv_step [OF p, of t Outside sh]
      by (simp add: guard_inv_def)
  next
    case (recursive t g sh)
    then have "sh = shared s" "owner_is_self g (self t) (owners (shared s))"
      by (auto simp: guard_acquire_pass_def Let_def split: if_splits)
    with owner_table.agrees_mine [OF data_invD(7) [OF d] q(1) [OF recursive(2)]] assms(3)
    have "g \<in> set (initializing s t)" by (fastforce simp: anchors_ok_def)
    with recursive \<open>sh = shared s\<close> show ?thesis
      using d pc_inv_step [OF p, of t "Recursion_abort g"] by (simp add: guard_inv_def)
  next
    case (park t g sh)
    note w = data_inv_wait [OF d park(3)]
    show ?thesis using park w(1,2,5) pc_inv_step [OF p, of t "Parked g" sh] q(1) by (simp add: guard_inv_def)
  next
    case (wait_refused t g sh)
    note w = data_inv_wait [OF d wait_refused(3)]
    show ?thesis using wait_refused w(1,5) pc_inv_step [OF p, of t "Sleeping g" sh] q(1)
      by (simp add: guard_inv_def)
  next
    case (slept t g)
    then show ?thesis using d pc_inv_step [OF p, of t "Acquiring g"] q(2) by (simp add: guard_inv_def)
  next
    case (spurious t g)
    then show ?thesis using d pc_inv_step [OF p, of t "Acquiring g"] q(3) by (simp add: guard_inv_def)
  next
    case (release t g gs wake sh)
    note r = release_section [OF release(4)]
    have "is_waiting (guards (shared s) h) \<Longrightarrow> is_waiting (guards sh h) \<or> wake" for h
      using r by (cases "h = g") auto
    then show ?thesis
      using release r data_inv_leave [OF d release(3) conjunct2 [OF r]]
        pc_inv_step [OF p, of t "if wake then Broadcasting else Outside" sh "(initializing s)(t := gs)"]
      by (auto simp: guard_inv_def split: if_splits)
  next
    case (abort t g gs wake sh)
    note r = abort_section [OF abort(4)]
    have "is_waiting (guards (shared s) h) \<Longrightarrow> is_waiting (guards sh h) \<or> wake" for h
      using r by (cases "h = g") auto
    then show ?thesis
      using abort r data_inv_leave [OF d abort(3) conjunct2 [OF r]]
        pc_inv_step [OF p, of t "if wake then Broadcasting else Outside" sh "(initializing s)(t := gs)"]
      by (auto simp: guard_inv_def split: if_splits)
  next
    case (broadcast t)
    have "pc_inv (initializing s) (shared s) (wake_all ((pc s)(t := Outside)))"
      using p unfolding pc_inv_def wake_all_def by (auto split: thread_pc.splits if_splits)
    then show ?thesis using broadcast d by (simp add: guard_inv_def)
  qed
qed

lemma guard_reach_inv: "guard_reach self s \<Longrightarrow> anchors_ok self \<Longrightarrow> guard_inv self s"
  by (induction rule: guard_reach.induct) (auto intro: guard_inv_init guard_inv_step)


end
