(* ===== verification/Guard_Props.thy ===== *)
theory Guard_Props
  imports Guard_Facts
begin

text \<open>
  What the static-initialization guards of \<open>src/orbis_cxa_guard.c\<close> guarantee, for any number
  of threads and guards and any interleaving of their steps.
\<close>

section \<open>A concrete run\<close>

text \<open>Thread 0 takes the guard at address 8; thread 1 asks for it and parks.\<close>

definition demo_taken :: guard_state where
  "demo_taken = snd (guard_acquire_pass 1 8 guard_init)"

definition demo_shared :: guard_state where
  "demo_shared = snd (guard_acquire_pass 2 8 demo_taken)"

definition demo_parked :: guard_system where
  "demo_parked = \<lparr>shared = demo_shared, pc = (\<lambda>_. Outside)(1 := Parked 8), initializing = (\<lambda>_. [])(0 := [8])\<rparr>"

lemma demo_results:
  "guard_acquire_pass 1 8 guard_init = (Ours, demo_taken)"
  "guard_acquire_pass 2 8 demo_taken = (Must_wait, demo_shared)"
proof -
  have t: "demo_taken = guard_init\<lparr>guards := (\<lambda>_. fresh_guard)(8 := fresh_guard\<lparr>flag_byte := 1\<rparr>),
      owners := (8, 1) # replicate 63 (0, 0)\<rparr>"
    by (simp add: demo_taken_def guard_acquire_pass_def guard_init_def fresh_guard_def is_pending_def
      FLAG_PENDING_def OWNERS_def numeral_eq_Suc)
  show "guard_acquire_pass 1 8 guard_init = (Ours, demo_taken)"
    by (simp add: demo_taken_def guard_acquire_pass_def guard_init_def fresh_guard_def is_pending_def)
  show "guard_acquire_pass 2 8 demo_taken = (Must_wait, demo_shared)"
    by (simp add: demo_shared_def t guard_acquire_pass_def guard_init_def fresh_guard_def is_pending_def
      FLAG_PENDING_def owner_is_self_def)
qed

lemma demo_reach: "guard_reach Suc demo_parked"
proof -
  let ?s0 = "system_init"
  let ?s1 = "?s0\<lparr>pc := (pc ?s0)(0 := Acquiring 8)\<rparr>"
  let ?s2 = "?s1\<lparr>shared := demo_taken, pc := (pc ?s1)(0 := Outside), initializing := (initializing ?s1)(0 := 8 # initializing ?s1 0)\<rparr>"
  let ?s3 = "?s2\<lparr>pc := (pc ?s2)(1 := Acquiring 8)\<rparr>"
  let ?s4 = "?s3\<lparr>shared := demo_shared, pc := (pc ?s3)(1 := Parked 8)\<rparr>"
  have "guard_reach Suc ?s0" by (rule guard_reach.start)
  moreover have "guard_step Suc ?s0 ?s1" by (rule guard_step.call) (simp_all add: system_init_def)
  moreover have "guard_step Suc ?s1 ?s2"
    by (rule guard_step.ours) (simp_all add: system_init_def demo_results [unfolded One_nat_def])
  moreover have "guard_step Suc ?s2 ?s3" by (rule guard_step.call) (simp_all add: system_init_def)
  moreover have "guard_step Suc ?s3 ?s4"
    by (rule guard_step.park) (simp_all add: system_init_def demo_results numeral_2_eq_2 [symmetric])
  ultimately have "guard_reach Suc ?s4" by (meson guard_reach.next_step)
  moreover have "?s4 = demo_parked"
    by (auto simp: demo_parked_def system_init_def fun_eq_iff)
  ultimately show ?thesis by simp
qed

text \<open>Thread 0 releases the guard and is about to broadcast.\<close>

definition demo_released :: guard_system where
  "demo_released = demo_parked\<lparr>shared := snd (guard_release_section 8 demo_shared),
     pc := (pc demo_parked)(0 := if fst (guard_release_section 8 demo_shared) then Broadcasting else Outside),
     initializing := (initializing demo_parked)(0 := [])\<rparr>"

lemma demo_release_step: "guard_step Suc demo_parked demo_released"
  unfolding demo_released_def by (rule guard_step.release [of _ _ 8]) (simp_all add: demo_parked_def)

lemma anchors_Suc: "anchors_ok Suc"
  by (simp add: anchors_ok_def)

section \<open>The guarantees\<close>

text \<open>
  C15. In every reachable state at most one thread is running the initializer of a guard, it
  entered it once, and nobody runs it once the guard is done.
\<close>

theorem guard_single_initializer:
  assumes "guard_reach self s" "anchors_ok self"
  shows "distinct (initializing s t) \<and>
    (g \<in> set (initializing s t) \<and> g \<in> set (initializing s u) \<longrightarrow> t = u) \<and>
    (done_byte (guards (shared s) g) \<noteq> 0 \<longrightarrow> g \<notin> set (initializing s t))"
proof -
  have d: "data_inv self (initializing s) (shared s)"
    using guard_reach_inv [OF assms] by (simp add: guard_inv_def)
  show ?thesis using data_invD(1) [OF d, of t] data_invD(3) [OF d, of g t u]
    data_invD(4,5) [OF d, of g] by blast
qed

theorem guard_single_initializer_witness:
  "distinct (initializing demo_parked 0) \<and> 8 \<notin> set (initializing demo_parked 1)"
  using guard_single_initializer [OF demo_reach anchors_Suc, of 0 8 1]
  by (simp add: demo_parked_def)

lemma done_step:
  assumes "guard_step self s s'" "guard_inv self s" "done_byte (guards (shared s) g) \<noteq> 0"
  shows "done_byte (guards (shared s') g) \<noteq> 0"
  using assms(1)
  by (cases rule: guard_step.cases)
    (use assms(3) in \<open>auto simp: guard_acquire_pass_def guard_release_section_def guard_abort_section_def Let_def
      split: if_splits\<close>)

text \<open>
  Initialization happens once: when a guard is done it stays done in every later state,
  and no thread ever enters its initializer again.
\<close>

theorem guard_initialized_once:
  assumes "guard_reach self s" "anchors_ok self" "done_byte (guards (shared s) g) \<noteq> 0"
    and "(guard_step self)\<^sup>*\<^sup>* s s'"
  shows "done_byte (guards (shared s') g) \<noteq> 0 \<and> (\<forall>t. g \<notin> set (initializing s' t))"
proof -
  have "guard_reach self s' \<and> done_byte (guards (shared s') g) \<noteq> 0"
    using assms(4)
  proof (induction rule: rtranclp_induct)
    case base then show ?case using assms by blast
  next
    case (step y z)
    then show ?case
      using guard_reach_inv [OF _ assms(2)] done_step guard_reach.next_step by blast
  qed
  moreover from this have d: "data_inv self (initializing s') (shared s')"
    using guard_reach_inv [OF _ assms(2)] by (auto simp: guard_inv_def)
  ultimately show ?thesis using data_invD(4,5) [OF d, of g] by blast
qed

theorem guard_initialized_once_witness:
  "done_byte (guards (shared demo_released) 8) \<noteq> 0 \<and> (\<forall>t. 8 \<notin> set (initializing demo_released t))"
  by (rule guard_initialized_once [OF guard_reach.next_step [OF demo_reach demo_release_step] anchors_Suc])
    (simp_all add: demo_released_def guard_release_section_def)

text \<open>
  C16. No wake-up is lost: a thread parked on a guard always has either a thread running that
  guard's initializer whose release or abort will find the waiting flag set, or a thread that
  is about to broadcast.
\<close>

theorem guard_no_lost_wakeup:
  assumes "guard_reach self s" "anchors_ok self" "pc s t = Parked g"
  shows "(is_waiting (guards (shared s) g) \<and> (\<exists>u. g \<in> set (initializing s u))) \<or>
    (\<exists>u. pc s u = Broadcasting)"
proof -
  have d: "data_inv self (initializing s) (shared s)" and p: "pc_inv (initializing s) (shared s) (pc s)"
    using guard_reach_inv [OF assms(1,2)] by (auto simp: guard_inv_def)
  show ?thesis using pc_invD(4) [OF p assms(3)] data_invD(4,6) [OF d, of g] by blast
qed

theorem guard_no_lost_wakeup_witness:
  "(is_waiting (guards (shared demo_parked) 8) \<and> (\<exists>u. 8 \<in> set (initializing demo_parked u))) \<or>
    (\<exists>u. pc demo_parked u = Broadcasting)"
  by (rule guard_no_lost_wakeup [OF demo_reach anchors_Suc, of 1]) (simp add: demo_parked_def)

text \<open>
  C17. Recursion detection: a thread reaches the recursion abort only for a guard whose
  initializer it is itself running, and a thread with an anchor that re-enters an initializer
  recorded in the owner table is always caught; without a record it waits instead.
\<close>

theorem guard_recursion_detection:
  assumes "guard_reach self s" "anchors_ok self"
  shows "(pc s t = Recursion_abort g \<longrightarrow> g \<in> set (initializing s t)) \<and>
    (g \<in> set (initializing s t) \<longrightarrow>
      fst (guard_acquire_pass (self t) g (shared s)) =
        (if self t \<noteq> 0 \<and> recorded_owners (owners (shared s)) g \<noteq> [] then Recursive else Must_wait))"
proof -
  have d: "data_inv self (initializing s) (shared s)" and p: "pc_inv (initializing s) (shared s) (pc s)"
    using guard_reach_inv [OF assms(1,2)] by (auto simp: guard_inv_def)
  have "fst (guard_acquire_pass (self t) g (shared s)) =
        (if self t \<noteq> 0 \<and> recorded_owners (owners (shared s)) g \<noteq> [] then Recursive else Must_wait)"
    if g: "g \<in> set (initializing s t)"
  proof -
    have "g \<noteq> 0" using data_invD(2) [OF d, of t] g by metis
    have pend: "is_pending (guards (shared s) g)" "done_byte (guards (shared s) g) = 0"
      using data_invD(4,5) [OF d, of g] g by blast+
    have "recorded_owners (owners (shared s)) g = [self t]" if "recorded_owners (owners (shared s)) g \<noteq> []"
      using owner_table.agreesD [OF data_invD(7) [OF d] \<open>g \<noteq> 0\<close> that] data_invD(3) [OF d g] by auto
    then have "owner_is_self g (self t) (owners (shared s)) \<longleftrightarrow>
        self t \<noteq> 0 \<and> recorded_owners (owners (shared s)) g \<noteq> []"
      using owner_table.mine_iff [OF \<open>g \<noteq> 0\<close>] by auto
    then show ?thesis using pend by (simp add: guard_acquire_pass_def Let_def)
  qed
  then show ?thesis using pc_invD(5) [OF p] by blast
qed

theorem guard_recursion_detection_witness:
  "fst (guard_acquire_pass (Suc 0) 8 (shared demo_parked)) =
    (if Suc 0 \<noteq> 0 \<and> recorded_owners (owners (shared demo_parked)) 8 \<noteq> [] then Recursive else Must_wait)"
  using guard_recursion_detection [OF demo_reach anchors_Suc, of 0 8] by (simp add: demo_parked_def)

end
