(* ===== verification/WString_Props.thy ===== *)
theory WString_Props
  imports WSearch
begin

text \<open>
  What the wide-string functions of \<open>src/orbis_wchar32.c\<close> guarantee. \<open>wstr s\<close> is the string a
  pointer denotes, the elements before the first null; \<open>0 \<in> set s\<close> says that there is one.
\<close>

unbundle bit_operations_syntax

declare wcsrchr_loop.simps [simp del] wcsncat_loop.simps [simp del]

definition wstr :: "w32 list \<Rightarrow> w32 list" where
  "wstr s = takeWhile (\<lambda>x. x \<noteq> 0) s"

lemma wstr_simps [simp]: "wstr [] = []" "wstr (x # s) = (if x = 0 then [] else x # wstr s)"
  by (simp_all add: wstr_def)

lemma wstr_nonzero: "0 \<notin> set (wstr s)"
  by (induction s) auto

lemma wstr_append: "0 \<notin> set xs \<Longrightarrow> wstr (xs @ ys) = xs @ wstr ys"
  by (induction xs) auto

lemma wstr_split: "0 \<in> set s \<Longrightarrow> s = wstr s @ 0 # drop (Suc (length (wstr s))) s"
  by (induction s) auto

lemma wcslen_eq: "wcslen s = (if 0 \<in> set s then Some (length (wstr s)) else None)"
  by (induction s) auto

lemma take_wcslen: "0 \<in> set s \<Longrightarrow> take (length (wstr s)) s = wstr s"
  by (induction s) auto

lemma wmemcpy_eq: "n \<le> length d \<Longrightarrow> n \<le> length s \<Longrightarrow> wmemcpy d s n = Some (take n s @ drop n d)"
  by (induction d s n rule: wmemcpy.induct) auto

lemma wmemset_eq: "n \<le> length d \<Longrightarrow> wmemset d c n = Some (replicate n c @ drop n d)"
  by (induction d c n rule: wmemset.induct) auto

lemma wcscpy_eq: "0 \<in> set s \<Longrightarrow> length (wstr s) < length d \<Longrightarrow>
    wcscpy d s = Some (wstr s @ 0 # drop (Suc (length (wstr s))) d)"
  by (induction d s rule: wcscpy.induct) auto

lemma wcsncpy_eq: "0 \<in> set s \<Longrightarrow> n \<le> length d \<Longrightarrow>
    wcsncpy d s n = Some (take n (wstr s) @ replicate (n - length (wstr s)) 0 @ drop n d)"
proof (induction d s n rule: wcsncpy.induct)
  case (3 d x s n)
  show ?case
  proof (cases "x = 0")
    case True
    then show ?thesis using 3(3) wmemset_eq [of "Suc n" d 0] by simp
  next
    case False
    then obtain y d' where "d = y # d'" using 3(3) by (cases d) auto
    then show ?thesis using 3 False by auto
  qed
qed auto

lemma wcschr_loop_eq: "c \<noteq> 0 \<Longrightarrow> 0 \<in> set s \<Longrightarrow>
    wcschr_loop s c = Some (if c \<in> set (wstr s) then Some (length (takeWhile (\<lambda>x. x \<noteq> c) s)) else None)"
  by (induction s) auto

section \<open>Overlapping moves\<close>

lemma wmemmove_up_eq:
  "d < s \<Longrightarrow> s + n \<le> length m \<Longrightarrow>
   wmemmove_up m d s n = Some (take d m @ take n (drop s m) @ drop (d + n) m)"
proof (induction n arbitrary: m d s)
  case (Suc n)
  let ?m = "m[d := m ! s]"
  have "wmemmove_up m d s (Suc n) = wmemmove_up ?m (d + 1) (s + 1) n" using Suc.prems by simp
  also have "\<dots> = Some (take (d + 1) ?m @ take n (drop (s + 1) ?m) @ drop (d + 1 + n) ?m)"
    using Suc.prems by (intro Suc.IH) auto
  also have "take (d + 1) ?m = take d m @ [m ! s]"
    using Suc.prems by (simp add: take_Suc_conv_app_nth)
  also have "take n (drop (s + 1) ?m) = take n (drop (Suc s) m)" using Suc.prems by simp
  also have "drop (d + 1 + n) ?m = drop (d + Suc n) m" using Suc.prems by simp
  finally show ?case using Suc.prems by (simp add: Cons_nth_drop_Suc [symmetric])
qed simp

lemma wmemmove_down_eq:
  "s < d \<Longrightarrow> d + n \<le> length m \<Longrightarrow>
   wmemmove_down m d s n = Some (take d m @ take n (drop s m) @ drop (d + n) m)"
proof (induction n arbitrary: m)
  case (Suc n)
  let ?m = "m[d + n := m ! (s + n)]"
  have "wmemmove_down m d s (Suc n) = wmemmove_down ?m d s n" using Suc.prems by simp
  also have "\<dots> = Some (take d ?m @ take n (drop s ?m) @ drop (d + n) ?m)"
    using Suc.prems by (intro Suc.IH) auto
  also have "take n (drop s ?m) = take n (drop s m)"
    using Suc.prems by (simp add: take_drop)
  also have "drop (d + n) ?m = m ! (s + n) # drop (d + Suc n) m"
    using Suc.prems by (simp add: Cons_nth_drop_Suc [symmetric])
  also have "take d ?m = take d m" by simp
  finally show ?case using Suc.prems by (simp add: take_Suc_conv_app_nth)
qed simp

lemma wmemmove_up_apart:
  "s + n \<le> d \<Longrightarrow> d + n \<le> length m \<Longrightarrow>
   wmemmove_up m d s n = Some (take d m @ take n (drop s m) @ drop (d + n) m)"
proof (induction n arbitrary: m d s)
  case (Suc n)
  let ?m = "m[d := m ! s]"
  have "wmemmove_up m d s (Suc n) = wmemmove_up ?m (d + 1) (s + 1) n" using Suc.prems by simp
  also have "\<dots> = Some (take (d + 1) ?m @ take n (drop (s + 1) ?m) @ drop (d + 1 + n) ?m)"
    using Suc.prems by (intro Suc.IH) auto
  also have "take (d + 1) ?m = take d m @ [m ! s]"
    using Suc.prems by (simp add: take_Suc_conv_app_nth)
  also have "take n (drop (s + 1) ?m) = take n (drop (Suc s) m)" using Suc.prems by (simp add: take_drop)
  also have "drop (d + 1 + n) ?m = drop (d + Suc n) m" using Suc.prems by simp
  finally show ?case using Suc.prems by (simp add: Cons_nth_drop_Suc [symmetric])
qed simp

text \<open>
  \<open>wmemmove\<close> moves the source elements to the destination and leaves everything else
  untouched, however the two ranges overlap inside the array: the unsigned distance test always
  picks a loop whose writes do not disturb its later reads.
\<close>

theorem wmemmove_overlap:
  assumes "d + n \<le> length m" "s + n \<le> length m" "length m * 4 < 2 ^ 64"
  shows "wmemmove m d s n = Some (take d m @ take n (drop s m) @ drop (d + n) m)"
proof -
  consider "d = s" | "s < d" "d - s < n" | "s < d" "n \<le> d - s" | "d < s" by linarith
  then show ?thesis
  proof cases
    case 1
    then show ?thesis using assms
      by (simp add: wmemmove_def) (metis append_take_drop_id drop_drop add.commute)
  next
    case 2
    then have "sub64 (d * 4) (s * 4) = d * 4 - s * 4" using assms by (intro sub64_small) auto
    moreover have "d * 4 - s * 4 < n * 4" using 2 by linarith
    ultimately show ?thesis using 2 assms wmemmove_down_eq [of s d n m] by (simp add: wmemmove_def)
  next
    case 3
    then have "sub64 (d * 4) (s * 4) = d * 4 - s * 4" using assms by (intro sub64_small) auto
    moreover have "\<not> d * 4 - s * 4 < n * 4" using 3 by linarith
    ultimately show ?thesis using 3 assms wmemmove_up_apart [of s n d m] by (simp add: wmemmove_def)
  next
    case 4
    then have "sub64 (d * 4) (s * 4) = 2 ^ 64 - (s - d) * 4"
      using assms by (simp add: sub64_def w64_def)
    then have "\<not> sub64 (d * 4) (s * 4) < n * 4" using assms 4 by simp
    then show ?thesis using 4 assms wmemmove_up_eq [of d s n m] by (simp add: wmemmove_def)
  qed
qed

theorem wmemmove_overlap_witness:
  "wmemmove [1, 2, 3, 4, 5, 6] 2 1 3 = Some [1, 2, 2, 3, 4, 6]"
  using wmemmove_overlap [of 2 3 "[1, 2, 3, 4, 5, 6]" 1] by simp

text \<open>
  \<open>wcscat\<close> into an array with room for both strings and the terminator leaves exactly the
  concatenation there, terminated, and the rest of the array as it was; \<open>wcslen\<close> of the result is
  the sum of the lengths.
\<close>

theorem wcscat_concatenates:
  assumes "0 \<in> set d" "0 \<in> set s" "length (wstr d) + length (wstr s) < length d"
  shows "\<exists>d'. wcscat d s = Some d' \<and> length d' = length d \<and> wstr d' = wstr d @ wstr s \<and>
    wcslen d' = Some (length (wstr d) + length (wstr s)) \<and>
    drop (Suc (length (wstr d) + length (wstr s))) d' = drop (Suc (length (wstr d) + length (wstr s))) d"
proof -
  let ?k = "length (wstr d)" and ?n = "length (wstr s)"
  define d' where "d' = wstr d @ wstr s @ 0 # drop (Suc (?k + ?n)) d"
  have c: "wcscat d s = Some d'"
    using wcscpy_eq [OF assms(2), of "drop ?k d"] assms
    by (simp add: wcscat_def wcslen_eq take_wcslen d'_def add.commute)
  have w: "wstr d' = wstr d @ wstr s"
    using wstr_nonzero [of d] wstr_nonzero [of s] by (simp add: d'_def wstr_append)
  moreover have "0 \<in> set d'" by (simp add: d'_def)
  ultimately show ?thesis using c assms(3) by (simp add: wcslen_eq) (simp add: d'_def)
qed

theorem wcscat_concatenates_witness:
  "\<exists>d'. wcscat [97, 0, 7, 7, 7] [98, 99, 0] = Some d' \<and> wstr d' = [97, 98, 99] \<and> wcslen d' = Some 3"
  using wcscat_concatenates [of "[97, 0, 7, 7, 7]" "[98, 99, 0]"] by auto


definition w32_less :: "(w32 \<times> w32) set" where
  "w32_less = {(a, b). a <s b}"

lemma w32_less_iff: "(a, b) \<in> w32_less \<longleftrightarrow> a <s b" by (simp add: w32_less_def)

lemma sless_linear: "a = b \<or> a <s b \<or> b <s (a :: u32)"
proof -
  have "sint a = sint b \<Longrightarrow> a = b" by (rule signed_word_eqI)
  then show ?thesis unfolding word_sless_alt using linorder_less_linear [of "sint a" "sint b"] by blast
qed

lemma sless_asym: "a <s b \<Longrightarrow> \<not> b <s (a :: u32)" "\<not> a <s (a :: u32)"
  by (simp_all add: word_sless_alt)

lemma wcscmp_cases:
  assumes "0 \<in> set l" "0 \<in> set r"
  shows "\<exists>c. wcscmp l r = Some c \<and> (c = 0 \<longleftrightarrow> wstr l = wstr r) \<and>
    (c < 0 \<longleftrightarrow> (wstr l @ [0], wstr r @ [0]) \<in> lexord w32_less) \<and>
    (c > 0 \<longleftrightarrow> (wstr r @ [0], wstr l @ [0]) \<in> lexord w32_less)"
  using assms
proof (induction l r rule: wcscmp.induct)
  case (1 x l y r)
  show ?case
  proof (cases "x = y \<and> x \<noteq> 0")
    case True
    with 1 show ?thesis by (auto simp: w32_less_iff sless_asym)
  next
    case False
    then have w: "wcscmp (x # l) (y # r) = Some (w32_order x y)" by auto
    show ?thesis
    proof (cases "x = y")
      case True
      with False w show ?thesis by (simp add: w32_order_def sless_asym w32_less_iff)
    next
      case ne: False
      then show ?thesis
        using w sless_linear [of x y] sless_asym(1) [of x y] sless_asym(1) [of y x]
        by (auto simp: w32_order_def w32_less_iff)
    qed
  qed
qed auto

text \<open>
  C18. \<open>wcscmp\<close> is the lexicographic order of the two terminated strings over signed characters
  (the terminator takes part, so a negative character sorts before the end of a string), and 0
  exactly for equal strings.
\<close>

theorem wcscmp_lexicographic:
  assumes "0 \<in> set l" "0 \<in> set r"
  shows "\<exists>c. wcscmp l r = Some c \<and> (c = 0 \<longleftrightarrow> wstr l = wstr r) \<and>
    (c < 0 \<longleftrightarrow> (wstr l @ [0], wstr r @ [0]) \<in> lexord w32_less) \<and>
    (c > 0 \<longleftrightarrow> (wstr r @ [0], wstr l @ [0]) \<in> lexord w32_less)"
  by (rule wcscmp_cases [OF assms])

theorem wcscmp_lexicographic_witness:
  "\<exists>c. wcscmp [97, 98, 0] [97, 99, 0] = Some c \<and> (c < 0 \<longleftrightarrow> ([97, 98, 0], [97, 99, 0]) \<in> lexord w32_less)"
  using wcscmp_lexicographic [of "[97, 98, 0]" "[97, 99, 0]"] by auto

lemma width_bit_defined:
  assumes "list_all (\<lambda>b. 0 \<le> b \<and> b * 32 + 31 < int (length t)) (take 512 t)" "512 \<le> length t"
    and "unat wc < 0x20000"
  shows "\<exists>b. width_bit t wc = Some b"
proof -
  have "unat (drop_bit 8 wc) = unat wc div 256" by (simp add: drop_bit_eq_div unat_div)
  then have i: "unat (drop_bit 8 wc) < 512" using assms(3) by (simp add: div_less_iff_less_mult)
  define b where "b = t ! unat (drop_bit 8 wc)"
  have "b = take 512 t ! unat (drop_bit 8 wc)" using i by (simp add: b_def)
  then have b: "0 \<le> b" "b * 32 + 31 < int (length t)"
    using assms(1) i assms(2) by (simp_all add: list_all_length)
  have "unat (drop_bit 3 (wc AND 255)) < 32"
  proof -
    have "wc AND 255 = take_bit 8 wc" by (simp add: take_bit_eq_mask mask_eq_exp_minus_1)
    then have "unat (wc AND 255) = take_bit 8 (unat wc)" by (simp only: unsigned_take_bit_eq)
    then have "unat (wc AND 255) < 256" by (simp add: take_bit_eq_mod)
    then show ?thesis by (simp add: drop_bit_eq_div unat_div div_less_iff_less_mult)
  qed
  then have "nat (b * 32) + unat (drop_bit 3 (wc AND 255)) < length t" using b by linarith
  then show ?thesis using i assms(2) by (simp add: width_bit_def b_def)
qed

lemma nonspacing_lengths:
  "length w32_nonspacing_table = 2784" "take 512 w32_nonspacing_table = w32_nonspacing_0 @ w32_nonspacing_1"
  by (simp_all add: w32_nonspacing_table_def
    w32_nonspacing_0_def
    w32_nonspacing_1_def
    w32_nonspacing_2_def
    w32_nonspacing_3_def
    w32_nonspacing_4_def
    w32_nonspacing_5_def
    w32_nonspacing_6_def
    w32_nonspacing_7_def
    w32_nonspacing_8_def
    w32_nonspacing_9_def
    w32_nonspacing_10_def)

lemma nonspacing_blocks:
  "list_all (\<lambda>b. 0 \<le> b \<and> b * 32 + 31 < int (length w32_nonspacing_table)) (take 512 w32_nonspacing_table)"
  by (simp add: nonspacing_lengths w32_nonspacing_0_def w32_nonspacing_1_def)

lemma wide_lengths:
  "length w32_wide_table = 1600" "take 512 w32_wide_table = w32_wide_0 @ w32_wide_1"
  by (simp_all add: w32_wide_table_def
    w32_wide_0_def
    w32_wide_1_def
    w32_wide_2_def
    w32_wide_3_def
    w32_wide_4_def
    w32_wide_5_def
    w32_wide_6_def)

lemma wide_blocks:
  "list_all (\<lambda>b. 0 \<le> b \<and> b * 32 + 31 < int (length w32_wide_table)) (take 512 w32_wide_table)"
  by (simp add: wide_lengths w32_wide_0_def w32_wide_1_def)

text \<open>
  C19. \<open>wcwidth\<close> never reads outside its two tables, for any of the 2^32 values, and answers
  -1, 0, 1 or 2.
\<close>

theorem wcwidth_in_bounds: "\<exists>k. wcwidth wc = Some k \<and> k \<in> {-1, 0, 1, 2}"
proof (cases "wc AND 0xfffeffff < 0xfffe")
  case True
  define a b where "a = wc AND 0xfffeffff" and "b = wc AND NOT 0xfffeffff"
  have "a AND b = 0" "a OR b = wc"
    unfolding a_def b_def by (rule bit_word_eqI; auto simp: bit_simps)+
  then have "wc = a + b" by (simp add: disjunctive_add_eq_or)
  then have "unat wc \<le> unat a + unat b" by (simp add: unat_word_ariths)
  moreover have "unat a < 0xfffe" using True by (simp add: a_def word_less_nat_alt)
  moreover have "b \<le> NOT 0xfffeffff" unfolding b_def by (rule word_and_le1)
  then have "unat b \<le> 0x10000" by (simp add: word_le_nat_alt)
  ultimately have "unat wc < 0x20000" by linarith
  from width_bit_defined [OF nonspacing_blocks _ this] width_bit_defined [OF wide_blocks _ this]
  show ?thesis by (auto simp: wcwidth_def nonspacing_lengths wide_lengths)
next
  case False
  then show ?thesis by (simp add: wcwidth_def)
qed

end
