(* ===== verification/Endian.thy ===== *)
theory Endian
  imports Prelude
begin

text \<open>
  The unaligned loads and stores of \<open>include/sys/endian.h\<close> over the bytes of an object, at an
  offset; \<open>None\<close> is an access outside it. Every store is read back by its load and changes no
  other byte.
\<close>

unbundle bit_operations_syntax

section \<open>Loads\<close>

definition be16dec :: "u8 list \<Rightarrow> nat \<Rightarrow> u16 option" where
  "be16dec c i = do { c0 \<leftarrow> rd c i; c1 \<leftarrow> rd c (i + 1); Some (push_bit 8 (ucast c0) OR ucast c1) }"

definition be32dec :: "u8 list \<Rightarrow> nat \<Rightarrow> u32 option" where
  "be32dec c i =
     do { c0 \<leftarrow> rd c i; c1 \<leftarrow> rd c (i + 1); c2 \<leftarrow> rd c (i + 2); c3 \<leftarrow> rd c (i + 3);
          Some (push_bit 24 (ucast c0) OR push_bit 16 (ucast c1) OR push_bit 8 (ucast c2) OR ucast c3) }"

definition be64dec :: "u8 list \<Rightarrow> nat \<Rightarrow> u64 option" where
  "be64dec c i = do { h \<leftarrow> be32dec c i; l \<leftarrow> be32dec c (i + 4); Some (push_bit 32 (ucast h) OR ucast l) }"

definition le16dec :: "u8 list \<Rightarrow> nat \<Rightarrow> u16 option" where
  "le16dec c i = do { c1 \<leftarrow> rd c (i + 1); c0 \<leftarrow> rd c i; Some (push_bit 8 (ucast c1) OR ucast c0) }"

definition le32dec :: "u8 list \<Rightarrow> nat \<Rightarrow> u32 option" where
  "le32dec c i =
     do { c3 \<leftarrow> rd c (i + 3); c2 \<leftarrow> rd c (i + 2); c1 \<leftarrow> rd c (i + 1); c0 \<leftarrow> rd c i;
          Some (push_bit 24 (ucast c3) OR push_bit 16 (ucast c2) OR push_bit 8 (ucast c1) OR ucast c0) }"

definition le64dec :: "u8 list \<Rightarrow> nat \<Rightarrow> u64 option" where
  "le64dec c i = do { h \<leftarrow> le32dec c (i + 4); l \<leftarrow> le32dec c i; Some (push_bit 32 (ucast h) OR ucast l) }"

section \<open>Stores\<close>

definition byte_of :: "'a::len word \<Rightarrow> nat \<Rightarrow> u8" where
  "byte_of v n = ucast (drop_bit n v AND 0xff)"

definition be16enc :: "u8 list \<Rightarrow> nat \<Rightarrow> u16 \<Rightarrow> u8 list option" where
  "be16enc c i v = do { c \<leftarrow> wr c i (byte_of v 8); wr c (i + 1) (byte_of v 0) }"

definition be32enc :: "u8 list \<Rightarrow> nat \<Rightarrow> u32 \<Rightarrow> u8 list option" where
  "be32enc c i v =
     do { c \<leftarrow> wr c i (byte_of v 24); c \<leftarrow> wr c (i + 1) (byte_of v 16); c \<leftarrow> wr c (i + 2) (byte_of v 8);
          wr c (i + 3) (byte_of v 0) }"

definition be64enc :: "u8 list \<Rightarrow> nat \<Rightarrow> u64 \<Rightarrow> u8 list option" where
  "be64enc c i v =
     do { c \<leftarrow> be32enc c i (ucast (drop_bit 32 v)); be32enc c (i + 4) (ucast (v AND 0xffffffff)) }"

definition le16enc :: "u8 list \<Rightarrow> nat \<Rightarrow> u16 \<Rightarrow> u8 list option" where
  "le16enc c i v = do { c \<leftarrow> wr c i (byte_of v 0); wr c (i + 1) (byte_of v 8) }"

definition le32enc :: "u8 list \<Rightarrow> nat \<Rightarrow> u32 \<Rightarrow> u8 list option" where
  "le32enc c i v =
     do { c \<leftarrow> wr c i (byte_of v 0); c \<leftarrow> wr c (i + 1) (byte_of v 8); c \<leftarrow> wr c (i + 2) (byte_of v 16);
          wr c (i + 3) (byte_of v 24) }"

definition le64enc :: "u8 list \<Rightarrow> nat \<Rightarrow> u64 \<Rightarrow> u8 list option" where
  "le64enc c i v =
     do { c \<leftarrow> le32enc c i (ucast (v AND 0xffffffff)); le32enc c (i + 4) (ucast (drop_bit 32 v)) }"

section \<open>Round trips\<close>

lemma byte_of_bits: "bit (byte_of v n) k \<longleftrightarrow> k < 8 \<and> bit v (n + k)"
proof -
  have "drop_bit n v AND 0xff = take_bit 8 (drop_bit n v)"
    by (simp add: take_bit_eq_mask mask_eq_exp_minus_1)
  then show ?thesis
    unfolding byte_of_def by (auto simp: bit_simps dest: bit_imp_le_length)
qed

lemma join16: "push_bit 8 (ucast (byte_of v 8)) OR ucast (byte_of v 0) = (v :: u16)"
  by (rule bit_word_eqI) (auto simp: bit_simps byte_of_bits)

lemma join32:
  "push_bit 24 (ucast (byte_of v 24)) OR push_bit 16 (ucast (byte_of v 16)) OR
   push_bit 8 (ucast (byte_of v 8)) OR ucast (byte_of v 0) = (v :: u32)"
proof (rule bit_word_eqI)
  fix n assume "n < LENGTH(32)"
  then consider "n < 8" | "8 \<le> n" "n < 16" | "16 \<le> n" "n < 24" | "24 \<le> n" "n < 32" by force
  then show "bit (push_bit 24 (ucast (byte_of v 24)) OR push_bit 16 (ucast (byte_of v 16)) OR
      push_bit 8 (ucast (byte_of v 8)) OR ucast (byte_of v 0) :: u32) n = bit v n"
    by cases (auto simp: bit_simps byte_of_bits)
qed

lemma join64: "push_bit 32 (ucast (ucast (drop_bit 32 v) :: u32)) OR ucast (ucast (v AND 0xffffffff) :: u32) = (v :: u64)"
proof -
  have "v AND 0xffffffff = take_bit 32 v" by (simp add: take_bit_eq_mask mask_eq_exp_minus_1)
  then show ?thesis by (intro bit_word_eqI) (auto simp: bit_simps)
qed

text \<open>What a store leaves: the bytes of its value, and the object around them.\<close>

lemma be32enc_eq:
  "i + 4 \<le> length c \<Longrightarrow>
   be32enc c i v = Some (c[i := byte_of v 24, i + 1 := byte_of v 16, i + 2 := byte_of v 8, i + 3 := byte_of v 0])"
  by (simp add: be32enc_def)

lemma le32enc_eq:
  "i + 4 \<le> length c \<Longrightarrow>
   le32enc c i v = Some (c[i := byte_of v 0, i + 1 := byte_of v 8, i + 2 := byte_of v 16, i + 3 := byte_of v 24])"
  by (simp add: le32enc_def)

lemma enc16_dec16:
  assumes "i + 2 \<le> length c"
  shows "do { c' \<leftarrow> be16enc c i v; be16dec c' i } = Some v"
    and "do { c' \<leftarrow> le16enc c i v; le16dec c' i } = Some v"
  using assms by (simp_all add: be16enc_def be16dec_def le16enc_def le16dec_def join16)

lemma enc32_dec32:
  assumes "i + 4 \<le> length c"
  shows "do { c' \<leftarrow> be32enc c i v; be32dec c' i } = Some v"
    and "do { c' \<leftarrow> le32enc c i v; le32dec c' i } = Some v"
  using assms by (simp_all add: be32enc_eq be32dec_def le32enc_eq le32dec_def join32)

lemma enc64_dec64:
  assumes "i + 8 \<le> length c"
  shows "do { c' \<leftarrow> be64enc c i v; be64dec c' i } = Some v"
    and "do { c' \<leftarrow> le64enc c i v; le64dec c' i } = Some v"
  using assms
  by (simp_all add: be64enc_def be64dec_def le64enc_def le64dec_def be32enc_eq be32dec_def le32enc_eq
      le32dec_def join32 join64)

text \<open>Big- and little-endian stores are each other's bytes reversed.\<close>

lemma be_le_reversed:
  "be32enc [0, 0, 0, 0] 0 v = map_option rev (le32enc [0, 0, 0, 0] 0 v)"
  by (simp add: be32enc_def le32enc_def)

end
