(* ===== verification/Backtrace.thy ===== *)
theory Backtrace
  imports Prelude
begin

text \<open>
  \<open>src/orbis_backtrace.c\<close>: the step given to the unwinder, the frames it collects, and their
  texts. \<open>_Unwind_Backtrace\<close> calls the step for each frame's instruction pointer in order until it
  answers end of stack or the frames end.
\<close>

unbundle bit_operations_syntax

record unwind_state =
  ub_buffer :: "u64 list"
  ub_size :: int
  ub_count :: int
  ub_skip :: int

datatype unwind_reason = NO_REASON | END_OF_STACK

definition orbis_unwind_step :: "u64 \<Rightarrow> unwind_state \<Rightarrow> unwind_reason \<times> unwind_state" where
  "orbis_unwind_step ip st =
     (if ub_skip st > 0 then (NO_REASON, st\<lparr>ub_skip := ub_skip st - 1\<rparr>)
      else if ub_count st \<ge> ub_size st then (END_OF_STACK, st)
      else if ip = 0 then (END_OF_STACK, st)
      else (NO_REASON, st\<lparr>ub_buffer := (ub_buffer st)[nat (ub_count st) := ip], ub_count := ub_count st + 1\<rparr>))"

fun unwind :: "u64 list \<Rightarrow> unwind_state \<Rightarrow> unwind_state" where
  "unwind [] st = st"
| "unwind (ip # ips) st =
     (case orbis_unwind_step ip st of (NO_REASON, st') \<Rightarrow> unwind ips st' | (END_OF_STACK, st') \<Rightarrow> st')"

text \<open>The count and the buffer; a null buffer is \<open>None\<close>.\<close>

definition orbis_unwind_collect :: "u64 list \<Rightarrow> u64 list option \<Rightarrow> int \<Rightarrow> int \<Rightarrow> int \<times> u64 list option" where
  "orbis_unwind_collect frames buffer n skip =
     (case buffer of None \<Rightarrow> (0, None)
      | Some b \<Rightarrow>
          if n \<le> 0 then (0, Some b)
          else let st = unwind frames \<lparr>ub_buffer = b, ub_size = n, ub_count = 0, ub_skip = skip\<rparr>
               in (ub_count st, Some (ub_buffer st)))"

definition backtrace :: "u64 list \<Rightarrow> u64 list option \<Rightarrow> int \<Rightarrow> int \<times> u64 list option" where
  "backtrace frames buffer n = orbis_unwind_collect frames buffer n 1"

section \<open>Texts\<close>

definition hex_digit :: "nat \<Rightarrow> char" where
  "hex_digit n = ''0123456789abcdef'' ! n"

text \<open>The loop of \<open>orbis_write_hex\<close> over the shifts 60, 56, ..., 0.\<close>

fun hex_loop :: "nat list \<Rightarrow> bool \<Rightarrow> u64 \<Rightarrow> string" where
  "hex_loop [] started v = []"
| "hex_loop (sh # shs) started v =
     (let nibble = unat (drop_bit sh v AND 0xF) in
      if nibble \<noteq> 0 \<or> started \<or> sh = 0 then hex_digit nibble # hex_loop shs True v
      else hex_loop shs started v)"

definition hex_shifts :: "nat list" where
  "hex_shifts = [60, 56, 52, 48, 44, 40, 36, 32, 28, 24, 20, 16, 12, 8, 4, 0]"

definition orbis_write_hex :: "u64 \<Rightarrow> string" where
  "orbis_write_hex v = ''0x'' @ hex_loop hex_shifts False v @ [CHR 0x0A]"

text \<open>
  The first \<open>size\<close> entries of a buffer. \<open>None\<close> is a read behind its end.
\<close>

definition entries :: "u64 list \<Rightarrow> int \<Rightarrow> u64 list option" where
  "entries b n = (if nat n \<le> length b then Some (take (nat n) b) else None)"

text \<open>
  The lines \<open>backtrace_symbols_fd\<close> writes, and what \<open>backtrace_symbols\<close> returns: the strings or
  (the inner \<open>None\<close>) a null pointer. \<open>malloc_ok\<close> says whether the allocation succeeds.
\<close>

definition backtrace_symbols_fd :: "u64 list option \<Rightarrow> int \<Rightarrow> string list option" where
  "backtrace_symbols_fd buffer n =
     (case buffer of None \<Rightarrow> Some []
      | Some b \<Rightarrow> do { ips \<leftarrow> entries b n; Some (map orbis_write_hex ips) })"

definition backtrace_symbols :: "bool \<Rightarrow> u64 list option \<Rightarrow> int \<Rightarrow> string list option option" where
  "backtrace_symbols malloc_ok buffer n =
     (case buffer of None \<Rightarrow> Some None
      | Some b \<Rightarrow>
          if n \<le> 0 then Some None
          else if \<not> malloc_ok then Some None
          else do { ips \<leftarrow> entries b n; Some (Some (map (\<lambda>ip. butlast (orbis_write_hex ip)) ips)) })"

section \<open>The collected frames\<close>

text \<open>
  The frames behind the skipped ones, up to a zero pointer and to the size of the buffer; the
  rest of the buffer is untouched.
\<close>

lemma unwind_collects:
  "ub_skip st \<le> 0 \<Longrightarrow> 0 \<le> ub_count st \<Longrightarrow> ub_count st \<le> ub_size st \<Longrightarrow> nat (ub_size st) \<le> length (ub_buffer st) \<Longrightarrow>
   let fs = take (nat (ub_size st - ub_count st)) (takeWhile (\<lambda>ip. ip \<noteq> 0) ips); k = nat (ub_count st) in
   ub_count (unwind ips st) = ub_count st + int (length fs) \<and>
   ub_buffer (unwind ips st) = take k (ub_buffer st) @ fs @ drop (k + length fs) (ub_buffer st)"
proof (induction ips arbitrary: st)
  case (Cons ip ips)
  show ?case
  proof (cases "ub_count st \<ge> ub_size st \<or> ip = 0")
    case True
    then show ?thesis using Cons.prems by (auto simp: orbis_unwind_step_def)
  next
    case False
    let ?st = "st\<lparr>ub_buffer := (ub_buffer st)[nat (ub_count st) := ip], ub_count := ub_count st + 1\<rparr>"
    have step: "unwind (ip # ips) st = unwind ips ?st"
      using False Cons.prems(1) by (simp add: orbis_unwind_step_def)
    have k: "nat (ub_count st) < length (ub_buffer st)" "nat (ub_count st + 1) = Suc (nat (ub_count st))"
      "nat (ub_size st - ub_count st) = Suc (nat (ub_size st - (ub_count st + 1)))"
      using False Cons.prems by auto
    have "take (Suc (nat (ub_count st))) ((ub_buffer st)[nat (ub_count st) := ip]) =
        take (nat (ub_count st)) (ub_buffer st) @ [ip]"
      using k(1) by (simp add: take_Suc_conv_app_nth)
    then show ?thesis
      using Cons.IH [of ?st] Cons.prems False k by (simp add: step Let_def del: unwind.simps)
  qed
qed simp

lemma unwind_skips:
  "unwind ips (st\<lparr>ub_skip := int n\<rparr>) = unwind (drop n ips) (st\<lparr>ub_skip := (if length ips < n then int (n - length ips) else 0)\<rparr>)"
proof (induction n arbitrary: ips)
  case (Suc n)
  then show ?case by (cases ips) (simp_all add: orbis_unwind_step_def)
qed simp

text \<open>A text has at most 16 digits, so the lines of both callers fit.\<close>

lemma hex_loop_length: "length (hex_loop shs b v) \<le> length shs"
  by (induction shs b v rule: hex_loop.induct) (auto simp: Let_def le_SucI)

lemma orbis_write_hex_length: "length (orbis_write_hex v) \<le> 2 + 8 * 2 + 2"
  using hex_loop_length [of hex_shifts False v] by (simp add: orbis_write_hex_def hex_shifts_def)

end
