(* ===== verification/Thread_Atexit.thy ===== *)
theory Thread_Atexit
  imports Prelude
begin

text \<open>
  \<open>src/orbis_thread_atexit.c\<close>: the destructors of a thread's objects, kept as a list under a
  thread-specific key and run from its head when the thread ends. The list is the value of the key
  (\<open>[]\<close> for NULL); whether \<open>pthread_once\<close>, \<open>malloc\<close> and \<open>pthread_setspecific\<close> succeed are
  arguments, and so is what a destructor does to the thread.
\<close>

type_synonym ('f, 'a) orbis_thread_dtor = "'f \<times> 'a"

record ('f, 'a) dtor_state =
  dtor_head :: "('f, 'a) orbis_thread_dtor list"
  live_nodes :: nat
  called :: "('f, 'a) orbis_thread_dtor list"

text \<open>\<open>live_nodes\<close> counts the entries allocated and not freed; \<open>called\<close> are the calls made so far.\<close>

definition cxa_thread_atexit_impl :: "bool \<Rightarrow> bool \<Rightarrow> bool \<Rightarrow> 'f \<Rightarrow> 'a \<Rightarrow> ('f, 'a) dtor_state \<Rightarrow> int \<times> ('f, 'a) dtor_state" where
  "cxa_thread_atexit_impl once_ok malloc_ok setspecific_ok f a st =
     (if \<not> once_ok then (-1, st)
      else if \<not> malloc_ok then (-1, st)
      else
        let st = st\<lparr>live_nodes := live_nodes st + 1\<rparr>; d = (f, a) # dtor_head st
        in if \<not> setspecific_ok then (-1, st\<lparr>live_nodes := live_nodes st - 1\<rparr>)
           else (0, st\<lparr>dtor_head := d\<rparr>))"

text \<open>\<open>orbis_thread_dtor_run\<close>: each entry is called and then freed.\<close>

fun orbis_thread_dtor_run ::
  "('f \<Rightarrow> 'a \<Rightarrow> ('f, 'a) dtor_state \<Rightarrow> ('f, 'a) dtor_state) \<Rightarrow> ('f, 'a) orbis_thread_dtor list \<Rightarrow>
   ('f, 'a) dtor_state \<Rightarrow> ('f, 'a) dtor_state" where
  "orbis_thread_dtor_run body [] st = st"
| "orbis_thread_dtor_run body ((f, a) # ds) st =
     (let st = body f a (st\<lparr>called := called st @ [(f, a)]\<rparr>)
      in orbis_thread_dtor_run body ds (st\<lparr>live_nodes := live_nodes st - 1\<rparr>))"

text \<open>
  The end of a thread: while the key has a value and for at most \<open>rounds\<close> iterations, the value is
  cleared and handed to the key's destructor.
\<close>

fun thread_end ::
  "nat \<Rightarrow> ('f \<Rightarrow> 'a \<Rightarrow> ('f, 'a) dtor_state \<Rightarrow> ('f, 'a) dtor_state) \<Rightarrow> ('f, 'a) dtor_state \<Rightarrow> ('f, 'a) dtor_state" where
  "thread_end 0 body st = st"
| "thread_end (Suc n) body st =
     (if dtor_head st = [] then st
      else thread_end n body (orbis_thread_dtor_run body (dtor_head st) (st\<lparr>dtor_head := []\<rparr>)))"

lemma register_cases:
  "cxa_thread_atexit_impl o_ok m_ok s_ok f a st =
   (if o_ok \<and> m_ok \<and> s_ok then (0, st\<lparr>dtor_head := (f, a) # dtor_head st, live_nodes := live_nodes st + 1\<rparr>)
    else (-1, st))"
  by (simp add: cxa_thread_atexit_impl_def Let_def)

text \<open>Registrations that succeed are stacked.\<close>

definition register_all :: "('f \<times> 'a) list \<Rightarrow> ('f, 'a) dtor_state \<Rightarrow> ('f, 'a) dtor_state" where
  "register_all ds st = fold (\<lambda>(f, a) st. snd (cxa_thread_atexit_impl True True True f a st)) ds st"

lemma register_all_eq:
  "register_all ds st = st\<lparr>dtor_head := rev ds @ dtor_head st, live_nodes := live_nodes st + length ds\<rparr>"
  by (induction ds arbitrary: st) (auto simp: register_all_def register_cases)

lemma run_quiet:
  assumes "\<And>f a st. body f a st = st"
  shows "length ds \<le> live_nodes st \<Longrightarrow> orbis_thread_dtor_run body ds st =
    st\<lparr>called := called st @ ds, live_nodes := live_nodes st - length ds\<rparr>"
  by (induction ds arbitrary: st) (auto simp: assms Let_def)

text \<open>
  Destructors that register nothing run once each, the last registered first, and every entry is
  freed.
\<close>

lemma thread_end_reverses:
  assumes "\<And>f a st. body f a st = st" and "0 < n"
  shows "thread_end n body (register_all ds \<lparr>dtor_head = [], live_nodes = 0, called = []\<rparr>) =
    \<lparr>dtor_head = [], live_nodes = 0, called = rev ds\<rparr>"
  using assms(2) run_quiet [OF assms(1), of "rev ds" "\<lparr>dtor_head = [], live_nodes = length ds, called = []\<rparr>"]
  by (cases n; cases "n - 1") (auto simp: register_all_eq)

end
