(* ===== verification/Heap.thy ===== *)
theory Heap
  imports Mmap Thread "HOL-Library.Signed_Division"
begin

text \<open>
  \<open>src/orbis_mem.cpp\<close>: the two pools' queries, the census and the replaceable \<open>operator new\<close>s.
  \<open>malloc\<close> and \<open>posix_memalign\<close> are functions from the request to an address (0 for null), and the
  kernel's two pools are the answers of its queries. Addresses and sizes are \<open>nat\<close>s below
  \<open>2 ^ 64\<close>.
\<close>

record pools =
  flexible :: "int \<times> nat"  \<comment> \<open>\<open>sceKernelAvailableFlexibleMemorySize\<close>: its answer and the size\<close>
  direct :: "int \<times> nat"    \<comment> \<open>\<open>sceKernelAvailableDirectMemorySize\<close>\<close>
  direct_total :: nat      \<comment> \<open>\<open>sceKernelGetDirectMemorySize\<close>\<close>

record mem_state =
  flexBoot :: nat
  flexLow :: nat
  biggestRequest :: nat
  flexQueryErr :: int
  oomAnnounced :: "32 word"

definition mem_init :: mem_state where
  "mem_init = \<lparr>flexBoot = 0, flexLow = 2 ^ 64 - 1, biggestRequest = 0, flexQueryErr = 0, oomAnnounced = 0\<rparr>"

definition flexAvailable :: "pools \<Rightarrow> mem_state \<Rightarrow> nat \<times> mem_state" where
  "flexAvailable q st =
     (let (rc, v) = flexible q; st = st\<lparr>flexQueryErr := rc\<rparr> in
      if rc \<noteq> 0 then (0, st) else (v, if v < flexLow st then st\<lparr>flexLow := v\<rparr> else st))"

definition directAvailable :: "pools \<Rightarrow> int \<times> nat" where
  "directAvailable q = (let (rc, sz) = direct q in (rc, if rc = 0 then sz else 0))"

text \<open>A size read as \<open>int64_t\<close>.\<close>

definition int64 :: "nat \<Rightarrow> int" where
  "int64 n = (if n < 2 ^ 63 then int n else int n - 2 ^ 64)"

text \<open>
  The lines of a census at the phase \<open>wh\<close>, with the numbers printed in them; the figures of the
  mapping interposer (\<open>mmapDirectReport\<close>) follow the two pools'.
\<close>

datatype census_line =
    Flexible_Failed string int
  | Flexible string nat nat nat int
  | Direct_Unread string nat int
  | Direct_Pool string nat nat
  | Interposer string "nat list"
  | Threads string u64 u64 nat nat u64 u64 u64 nat

definition report :: "pools \<Rightarrow> 'k mm_state \<Rightarrow> string \<Rightarrow> mem_state \<Rightarrow> census_line list \<times> mem_state" where
  "report q mm wh st =
     (let (flex, st) = flexAvailable q st; flexRc = flexQueryErr st; (dRc, dAvail) = directAvailable q in
      ([if flexRc \<noteq> 0 then Flexible_Failed wh flexRc
        else Flexible wh (flex div 1024) (flexBoot st div 1024) (flexLow st div 1024)
               ((int64 (flexBoot st) - int64 flex) sdiv 1024),
        if dRc \<noteq> 0 then Direct_Unread wh (direct_total q div 1024) dRc
        else Direct_Pool wh (direct_total q div 1024) (dAvail div 1024),
        Interposer wh (mmapDirectReport mm)], st))"

text \<open>The part of \<open>memCensusBaseline\<close> before the probes: the baseline and its census.\<close>

definition baseline_census :: "pools \<Rightarrow> 'k mm_state \<Rightarrow> mem_state \<Rightarrow> census_line list \<times> mem_state" where
  "baseline_census q mm st =
     (let (rc, v) = flexible q; st = st\<lparr>flexQueryErr := rc\<rparr>;
          st = (if rc = 0 then st\<lparr>flexBoot := v, flexLow := v\<rparr> else st)
      in report q mm ''boot'' st)"

definition memCensus :: "pools \<Rightarrow> 'k mm_state \<Rightarrow> string \<Rightarrow> mem_state \<Rightarrow> census_line list \<times> mem_state" where
  "memCensus q mm wh st = report q mm wh st"

text \<open>
  \<open>memCensusThreads\<close> over the counters of the thread interposer, whose floor it resolves with the
  answers \<open>r\<close>; the products are \<open>size_t\<close>.
\<close>

definition memCensusThreads :: "answers \<Rightarrow> string \<Rightarrow> thread_state \<Rightarrow> census_line \<times> thread_state" where
  "memCensusThreads r wh s =
     (let (created, raised) = threadCounts s; (altOk, altFailed, altSkipped) = threadAltStacks s;
          (fl, s') = threadStackFloor r s
      in (Threads wh created raised (fl div 1024)
            (w64 (unat raised * (if fl > 65536 then fl - 65536 else 0)) div 1024)
            altOk altFailed altSkipped (w64 (unat altOk * threadAltStackSize) div 1024), s'))"

text \<open>The lines of a refusal.\<close>

datatype oom_line =
    Refused nat nat
  | Oom_Flexible nat int nat nat
  | Oom_Direct nat nat int
  | Oom_Largest nat

definition announceOom :: "pools \<Rightarrow> nat \<Rightarrow> nat \<Rightarrow> mem_state \<Rightarrow> oom_line list \<times> mem_state" where
  "announceOom q want align st =
     (let old = oomAnnounced st; st = st\<lparr>oomAnnounced := old + 1\<rparr> in
      if sint old \<ge> 8 then ([], st)
      else
        let (flex, st) = flexAvailable q st; flexRc = flexQueryErr st; (dRc, dAvail) = directAvailable q
        in ([Refused want align,
             Oom_Flexible (flex div 1024) flexRc (flexBoot st div 1024) (flexLow st div 1024),
             Oom_Direct (direct_total q div 1024) (dAvail div 1024) dRc,
             Oom_Largest (biggestRequest st)], st))"

definition noteRequest :: "nat \<Rightarrow> mem_state \<Rightarrow> mem_state" where
  "noteRequest n st = (if n > biggestRequest st then st\<lparr>biggestRequest := n\<rparr> else st)"

definition allocPlain :: "(nat \<Rightarrow> nat) \<Rightarrow> nat \<Rightarrow> mem_state \<Rightarrow> nat \<times> mem_state" where
  "allocPlain malloc n st = (malloc (if n \<noteq> 0 then n else 1), noteRequest n st)"

text \<open>\<open>posix_memalign align n\<close> is its answer and the pointer it stores.\<close>

definition allocAligned :: "(nat \<Rightarrow> nat \<Rightarrow> int \<times> nat) \<Rightarrow> nat \<Rightarrow> nat \<Rightarrow> mem_state \<Rightarrow> nat \<times> mem_state" where
  "allocAligned posix_memalign n align st =
     (let st = noteRequest n st; align = (if align < 8 then 8 else align);
          (rc, p) = posix_memalign align (if n \<noteq> 0 then n else 1)
      in (if rc \<noteq> 0 then 0 else p, st))"

section \<open>The internal pool's probe\<close>

text \<open>
  What the kernel leaves in the first word of the scratch and what it returns; \<open>None\<close> for an
  unresolved symbol.
\<close>

definition internalFree :: "(nat \<times> nat) option \<Rightarrow> nat" where
  "internalFree answer =
     (case answer of None \<Rightarrow> 0 | Some (scratch0, ret) \<Rightarrow> if scratch0 \<noteq> 0 then scratch0 else ret)"

section \<open>\<open>operator new\<close>\<close>

text \<open>What an allocation ends in, its lines, and the state.\<close>

datatype new_result = Ptr nat | Bad_alloc

definition operator_new :: "(nat \<Rightarrow> nat) \<Rightarrow> pools \<Rightarrow> nat \<Rightarrow> mem_state \<Rightarrow> new_result \<times> oom_line list \<times> mem_state" where
  "operator_new malloc q n st =
     (let (p, st) = allocPlain malloc n st in
      if p \<noteq> 0 then (Ptr p, [], st) else let (out, st) = announceOom q n 0 st in (Bad_alloc, out, st))"

definition operator_new_array :: "(nat \<Rightarrow> nat) \<Rightarrow> pools \<Rightarrow> nat \<Rightarrow> mem_state \<Rightarrow> new_result \<times> oom_line list \<times> mem_state" where
  "operator_new_array malloc q n st =
     (let (p, st) = allocPlain malloc n st in
      if p \<noteq> 0 then (Ptr p, [], st) else let (out, st) = announceOom q n 0 st in (Bad_alloc, out, st))"

definition operator_new_aligned ::
  "(nat \<Rightarrow> nat \<Rightarrow> int \<times> nat) \<Rightarrow> pools \<Rightarrow> nat \<Rightarrow> nat \<Rightarrow> mem_state \<Rightarrow> new_result \<times> oom_line list \<times> mem_state" where
  "operator_new_aligned posix_memalign q n a st =
     (let (p, st) = allocAligned posix_memalign n a st in
      if p \<noteq> 0 then (Ptr p, [], st) else let (out, st) = announceOom q n a st in (Bad_alloc, out, st))"

definition operator_new_array_aligned ::
  "(nat \<Rightarrow> nat \<Rightarrow> int \<times> nat) \<Rightarrow> pools \<Rightarrow> nat \<Rightarrow> nat \<Rightarrow> mem_state \<Rightarrow> new_result \<times> oom_line list \<times> mem_state" where
  "operator_new_array_aligned posix_memalign q n a st =
     (let (p, st) = allocAligned posix_memalign n a st in
      if p \<noteq> 0 then (Ptr p, [], st) else let (out, st) = announceOom q n a st in (Bad_alloc, out, st))"

definition operator_new_nothrow :: "(nat \<Rightarrow> nat) \<Rightarrow> pools \<Rightarrow> nat \<Rightarrow> mem_state \<Rightarrow> new_result \<times> oom_line list \<times> mem_state" where
  "operator_new_nothrow malloc q n st =
     (let (p, st) = allocPlain malloc n st;
          (out, st) = (if p = 0 then announceOom q n 0 st else ([], st))
      in (Ptr p, out, st))"

definition operator_new_array_nothrow :: "(nat \<Rightarrow> nat) \<Rightarrow> pools \<Rightarrow> nat \<Rightarrow> mem_state \<Rightarrow> new_result \<times> oom_line list \<times> mem_state" where
  "operator_new_array_nothrow malloc q n st =
     (let (p, st) = allocPlain malloc n st;
          (out, st) = (if p = 0 then announceOom q n 0 st else ([], st))
      in (Ptr p, out, st))"

definition operator_new_aligned_nothrow ::
  "(nat \<Rightarrow> nat \<Rightarrow> int \<times> nat) \<Rightarrow> pools \<Rightarrow> nat \<Rightarrow> nat \<Rightarrow> mem_state \<Rightarrow> new_result \<times> oom_line list \<times> mem_state" where
  "operator_new_aligned_nothrow posix_memalign q n a st =
     (let (p, st) = allocAligned posix_memalign n a st;
          (out, st) = (if p = 0 then announceOom q n a st else ([], st))
      in (Ptr p, out, st))"

definition operator_new_array_aligned_nothrow ::
  "(nat \<Rightarrow> nat \<Rightarrow> int \<times> nat) \<Rightarrow> pools \<Rightarrow> nat \<Rightarrow> nat \<Rightarrow> mem_state \<Rightarrow> new_result \<times> oom_line list \<times> mem_state" where
  "operator_new_array_aligned_nothrow posix_memalign q n a st =
     (let (p, st) = allocAligned posix_memalign n a st;
          (out, st) = (if p = 0 then announceOom q n a st else ([], st))
      in (Ptr p, out, st))"

lemmas operator_new_defs = operator_new_def operator_new_array_def operator_new_aligned_def
  operator_new_array_aligned_def operator_new_nothrow_def operator_new_array_nothrow_def
  operator_new_aligned_nothrow_def operator_new_array_aligned_nothrow_def

section \<open>Properties\<close>

text \<open>The watermarks only move one way, and a failed query moves neither.\<close>

lemma flexAvailable_low: "flexLow (snd (flexAvailable q st)) \<le> flexLow st"
  by (auto simp: flexAvailable_def Let_def split: prod.splits)

lemma flexAvailable_failed:
  "fst (flexible q) \<noteq> 0 \<Longrightarrow> flexAvailable q st = (0, st\<lparr>flexQueryErr := fst (flexible q)\<rparr>)"
  by (auto simp: flexAvailable_def Let_def split: prod.splits)

lemma flexAvailable_keeps:
  "flexBoot (snd (flexAvailable q st)) = flexBoot st"
  "biggestRequest (snd (flexAvailable q st)) = biggestRequest st"
  "oomAnnounced (snd (flexAvailable q st)) = oomAnnounced st"
  by (auto simp: flexAvailable_def Let_def split: prod.splits)

lemma flexAvailable_ok:
  "flexible q = (0, v) \<Longrightarrow> fst (flexAvailable q st) = v \<and> flexLow (snd (flexAvailable q st)) = min v (flexLow st)"
  by (simp add: flexAvailable_def Let_def min_def)

lemma noteRequest_max: "biggestRequest (noteRequest n st) = max n (biggestRequest st)"
  by (simp add: noteRequest_def max_def)

lemma report_low: "fst (flexible q) = 0 \<Longrightarrow> flexLow (snd (report q mm wh st)) = min (snd (flexible q)) (flexLow st)"
  by (auto simp: report_def flexAvailable_def directAvailable_def Let_def min_def split: prod.splits)

text \<open>The low-water mark is the least of the sizes seen since the baseline.\<close>

lemma census_low_water:
  assumes "flexible q0 = (0, v)" and "\<forall>(q, mm, wh) \<in> set cs. fst (flexible q) = 0"
  shows "flexLow (fold (\<lambda>(q, mm, wh) st. snd (memCensus q mm wh st)) cs (snd (baseline_census q0 mm0 st))) =
    Min (insert v (snd ` flexible ` fst ` set cs))"
proof -
  have "flexLow (fold (\<lambda>(q, mm, wh) st. snd (memCensus q mm wh st)) cs s) =
      Min (insert (flexLow s) (snd ` flexible ` fst ` set cs))" for s
    using assms(2)
  proof (induction cs arbitrary: s)
    case (Cons c cs)
    obtain q mm wh where c: "c = (q, mm, wh)" by (cases c)
    have "Min (insert (flexLow s) (snd ` flexible ` fst ` set (c # cs))) =
        Min (insert (min (snd (flexible q)) (flexLow s)) (snd ` flexible ` fst ` set cs))"
      by (cases "cs = []") (auto simp: c insert_commute min.assoc min.left_commute)
    with Cons show ?case by (simp add: c memCensus_def report_low)
  qed (simp add: memCensus_def)
  moreover have "flexLow (snd (baseline_census q0 mm0 st)) = v"
    using assms(1) by (auto simp: baseline_census_def report_def flexAvailable_def directAvailable_def Let_def
        split: prod.splits)
  ultimately show ?thesis by simp
qed

text \<open>A request is never for zero bytes nor for less than a pointer's alignment.\<close>

lemma allocations_ask:
  "fst (allocPlain malloc n st) = malloc (max n 1)"
  "fst (allocAligned memalign n a st) =
    (if fst (memalign (max a 8) (max n 1)) \<noteq> 0 then 0 else snd (memalign (max a 8) (max n 1)))"
proof -
  have m: "max n 1 = (if n \<noteq> 0 then n else 1)" "max a 8 = (if a < 8 then 8 else a)" by auto
  show "fst (allocPlain malloc n st) = malloc (max n 1)"
    unfolding m by (simp add: allocPlain_def)
  show "fst (allocAligned memalign n a st) =
      (if fst (memalign (max a 8) (max n 1)) \<noteq> 0 then 0 else snd (memalign (max a 8) (max n 1)))"
    unfolding m by (simp add: allocAligned_def Let_def case_prod_unfold)
qed

text \<open>
  A null pointer is thrown by the throwing operators and returned by the others, each time with its
  announcement, and nothing is announced for an allocation that succeeds.
\<close>

lemma operator_new_outcome:
  assumes "p = fst (allocPlain malloc n st)"
  shows "operator_new malloc q n st =
      (if p \<noteq> 0 then (Ptr p, [], noteRequest n st)
       else (Bad_alloc, fst (announceOom q n 0 (noteRequest n st)), snd (announceOom q n 0 (noteRequest n st))))"
    and "operator_new_nothrow malloc q n st =
      (Ptr p, if p \<noteq> 0 then ([], noteRequest n st) else announceOom q n 0 (noteRequest n st))"
  using assms by (auto simp: operator_new_def operator_new_nothrow_def allocPlain_def Let_def split: prod.splits)

lemma operator_new_arrays:
  "operator_new_array = operator_new" "operator_new_array_aligned = operator_new_aligned"
  "operator_new_array_nothrow = operator_new_nothrow"
  "operator_new_array_aligned_nothrow = operator_new_aligned_nothrow"
  by (intro ext; simp add: operator_new_defs)+

lemma operator_new_not_null: "fst (operator_new malloc q n st) \<noteq> Ptr 0" "fst (operator_new_aligned memalign q n a st) \<noteq> Ptr 0"
  by (auto simp: operator_new_defs Let_def split: prod.splits)

text \<open>
  Eight refusals are announced, each with four lines, until the counter has gone through
  \<open>2 ^ 31\<close> refusals and its \<open>int\<close> turns negative.
\<close>

lemma announceOom_bounded:
  assumes "oomAnnounced st = of_nat k" and "k < 2 ^ 31"
  shows "length (fst (announceOom q want align st)) = (if k < 8 then 4 else 0)"
    and "oomAnnounced (snd (announceOom q want align st)) = of_nat (k + 1)"
proof -
  have s: "sint (of_nat k :: 32 word) = int k"
    using assms(2) signed_take_bit_int_eq_self [of 31 "int k"] by (simp add: signed_of_nat)
  show "length (fst (announceOom q want align st)) = (if k < 8 then 4 else 0)"
    using assms(1) s by (auto simp: announceOom_def Let_def split: prod.splits)
  show "oomAnnounced (snd (announceOom q want align st)) = of_nat (k + 1)"
    using assms(1) flexAvailable_keeps(3) [of q "st\<lparr>oomAnnounced := of_nat k + 1\<rparr>"]
    by (auto simp: announceOom_def Let_def split: prod.splits)
qed

end
