(* ===== verification/Report.thy ===== *)
theory Report
  imports Prelude
begin

text \<open>
  The text channels: C string buffers and \<open>vsnprintf\<close>, the logging hooks of \<open>src/orbis_log.c\<close>
  and the abort report of \<open>src/orbis_abort_report.c\<close>. A formatted text is the string the format
  and its arguments stand for, without a NUL in it; a buffer is the list of its characters.
\<close>

section \<open>C string buffers\<close>

abbreviation NUL :: char where "NUL \<equiv> CHR 0x00"

text \<open>The string a buffer holds.\<close>

definition c_string :: "string \<Rightarrow> string" where
  "c_string buf = takeWhile (\<lambda>c. c \<noteq> NUL) buf"

text \<open>
  \<open>vsnprintf(buf, n, ...)\<close> of the text \<open>s\<close>: at most \<open>n - 1\<close> of its characters and a NUL. The
  number returned is \<open>length s\<close>. \<open>None\<close> is a write outside the buffer.
\<close>

definition vsnprintf :: "string \<Rightarrow> nat \<Rightarrow> string \<Rightarrow> string option" where
  "vsnprintf buf n s =
     (if n = 0 then Some buf
      else let t = take (n - 1) s @ [NUL]
           in if length t \<le> length buf then Some (t @ drop (length t) buf) else None)"

lemma vsnprintf_Some:
  "n \<le> length buf \<Longrightarrow> 0 < n \<Longrightarrow>
   vsnprintf buf n s = Some (take (n - 1) s @ NUL # drop (Suc (min (length s) (n - 1))) buf)"
  by (auto simp: vsnprintf_def Let_def min_def)

lemma c_string_append_NUL: "NUL \<notin> set s \<Longrightarrow> c_string (s @ NUL # t) = s"
  by (induction s) (auto simp: c_string_def)

lemma NUL_notin_take: "NUL \<notin> set s \<Longrightarrow> NUL \<notin> set (take n s)"
  by (auto dest: in_set_takeD)

lemma vsnprintf_string:
  assumes "vsnprintf buf n s = Some buf'" and "0 < n" and "NUL \<notin> set s"
  shows "c_string buf' = take (n - 1) s" and "length buf' = length buf"
  using assms by (auto simp: vsnprintf_def Let_def c_string_append_NUL NUL_notin_take split: if_splits)

section \<open>The logging hooks\<close>

text \<open>\<open>'h\<close> is a registered handler.\<close>

record 'h log_state =
  orbis_logger :: "'h option"
  orbis_logger_fatal :: "'h option"
  orbis_fatal_fn :: "'h option"

definition log_init :: "'h log_state" where
  "log_init = \<lparr>orbis_logger = None, orbis_logger_fatal = None, orbis_fatal_fn = None\<rparr>"

definition orbis_set_log :: "'h option \<Rightarrow> 'h log_state \<Rightarrow> 'h log_state" where
  "orbis_set_log f st = st\<lparr>orbis_logger := f\<rparr>"

definition orbis_log_enabled :: "'h log_state \<Rightarrow> bool" where
  "orbis_log_enabled st = (orbis_logger st \<noteq> None)"

text \<open>The handler a call reaches with its text, if it reaches one.\<close>

definition orbis_log :: "string \<Rightarrow> 'h log_state \<Rightarrow> ('h \<times> string) option" where
  "orbis_log s st = (case orbis_logger st of None \<Rightarrow> None | Some f \<Rightarrow> Some (f, s))"

definition orbis_set_log_fatal :: "'h option \<Rightarrow> 'h log_state \<Rightarrow> 'h log_state" where
  "orbis_set_log_fatal f st = st\<lparr>orbis_logger_fatal := f\<rparr>"

definition orbis_log_fatal :: "string \<Rightarrow> 'h log_state \<Rightarrow> ('h \<times> string) option" where
  "orbis_log_fatal s st =
     (case (if orbis_logger_fatal st \<noteq> None then orbis_logger_fatal st else orbis_logger st) of
        None \<Rightarrow> None | Some f \<Rightarrow> Some (f, s))"

definition orbis_set_fatal_action :: "'h option \<Rightarrow> 'h log_state \<Rightarrow> 'h log_state" where
  "orbis_set_fatal_action f st = st\<lparr>orbis_fatal_fn := f\<rparr>"

definition orbis_fatal_action :: "string \<Rightarrow> 'h log_state \<Rightarrow> ('h \<times> string) option" where
  "orbis_fatal_action what st = (case orbis_fatal_fn st of None \<Rightarrow> None | Some f \<Rightarrow> Some (f, what))"

lemma fatal_falls_back:
  "orbis_log_fatal s (orbis_set_log_fatal None st) = orbis_log s st"
  "orbis_log_fatal s (orbis_set_log_fatal (Some f) st) = Some (f, s)"
  "orbis_log_fatal s st = None \<longleftrightarrow> orbis_logger_fatal st = None \<and> \<not> orbis_log_enabled st"
  by (auto simp: orbis_log_fatal_def orbis_log_def orbis_set_log_fatal_def orbis_log_enabled_def
      split: option.splits)

section \<open>The abort report\<close>

definition line_size :: nat where "line_size = 1024"

text \<open>
  The line of \<open>orbis_report\<close>: the prefix, the text cut to what is left less two, and the newline
  and the NUL written behind it.
\<close>

definition report_head :: "string \<Rightarrow> string" where
  "report_head tag = ''[orbis] '' @ tag @ '': ''"

definition report_line :: "string \<Rightarrow> string \<Rightarrow> string \<Rightarrow> string option" where
  "report_line line tag s =
     (let head = report_head tag; n = length head in
      do { line \<leftarrow> vsnprintf line line_size head;
           rest \<leftarrow> vsnprintf (drop n line) (line_size - n - 2) s;
           line \<leftarrow> Some (take n line @ rest);
           n \<leftarrow> Some (length (c_string line));
           line \<leftarrow> wr line n (CHR 0x0A);
           wr line (n + 1) NUL })"

datatype channel = Klog | Net | File string

definition ORBIS_ABORT_LOG_DEFAULT :: string where
  "ORBIS_ABORT_LOG_DEFAULT = ''/data/orbis-abort.log''"

text \<open>
  Where the line goes, in order: the kernel's log, and the file unless a report is already being
  written (\<open>s_in_report\<close>, which the outer call clears) or it does not open. \<open>env\<close> is what
  \<open>orbis_env_get\<close> answers.
\<close>

definition orbis_report :: "(string \<Rightarrow> string option) \<Rightarrow> (string \<Rightarrow> bool) \<Rightarrow> bool \<Rightarrow> string \<Rightarrow> (channel \<times> string) list \<times> bool" where
  "orbis_report env fopen_ok s_in_report text =
     (let logpath = (case env ''ORBIS_ABORT_LOG'' of
                       None \<Rightarrow> ORBIS_ABORT_LOG_DEFAULT
                     | Some p \<Rightarrow> if p = [] then ORBIS_ABORT_LOG_DEFAULT else p)
      in if \<not> s_in_report
         then ((Klog, text) # (if fopen_ok logpath then [(File logpath, text)] else []), False)
         else ([(Klog, text)], True))"

text \<open>Decimal digits, as \<open>%d\<close> and \<open>%u\<close> print them.\<close>

fun nat_dec :: "nat \<Rightarrow> string" where
  "nat_dec n = (if n < 10 then [char_of (48 + n)] else nat_dec (n div 10) @ [char_of (48 + n mod 10)])"

declare nat_dec.simps [simp del]

definition int_dec :: "int \<Rightarrow> string" where
  "int_dec n = (if n < 0 then ''-'' @ nat_dec (nat (- n)) else nat_dec (nat n))"

text \<open>
  The reports (tag and text) of the three ways into the file; \<open>called_from\<close> is the text of \<open>abort\<close>'s
  two addresses. Each ends in \<open>abort\<close>, which reports itself.
\<close>

definition abort_report :: "string \<Rightarrow> (string \<times> string) list" where
  "abort_report called_from = [(''abort'', take 511 called_from)]"

definition abort_message :: "string \<Rightarrow> string \<Rightarrow> (string \<times> string) list" where
  "abort_message text called_from = (''libc++abi'', take 959 text) # abort_report called_from"

definition assert_fail ::
  "string option \<Rightarrow> string option \<Rightarrow> int \<Rightarrow> string option \<Rightarrow> string \<Rightarrow> (string \<times> string) list" where
  "assert_fail expr file line func called_from =
     (let or_q = (\<lambda>s. case s of None \<Rightarrow> ''?'' | Some t \<Rightarrow> t) in
      (''assert'', take 959 (or_q file @ '':'' @ int_dec line @ '': '' @ or_q func @ '': assertion failed: '' @ or_q expr)) #
      abort_report called_from)"

text \<open>
  With a tag that leaves room, the line is the whole text or a cut of it, always ends in a newline
  and is written inside the buffer.
\<close>

lemma report_line_ends:
  assumes len: "length line = line_size" and tag: "length tag < 1000"
    and nul: "NUL \<notin> set tag" "NUL \<notin> set s"
  shows "\<exists>line'. report_line line tag s = Some line' \<and>
    c_string line' = report_head tag @ take (line_size - length tag - 13) s @ [CHR 0x0A]"
proof -
  define h where "h = report_head tag"
  have h: "length h = length tag + 10" "NUL \<notin> set h" using nul by (auto simp: h_def report_head_def)
  define k where "k = line_size - length h - 2"
  have k: "0 < k" "length h + k + 2 = line_size" "k - 1 = line_size - length tag - 13"
    using h(1) tag by (simp_all add: k_def line_size_def)
  define l1 where "l1 = h @ NUL # drop (Suc (length h)) line"
  have v1: "vsnprintf line line_size h = Some l1"
    using len k by (simp add: vsnprintf_Some l1_def min_def)
  have l1: "length l1 = line_size" "take (length h) l1 = h" "length (drop (length h) l1) = k + 2"
    using len k by (simp_all add: l1_def)
  define d where "d = drop (Suc (min (length s) (k - 1))) (drop (length h) l1)"
  have v2: "vsnprintf (drop (length h) l1) k s = Some (take (k - 1) s @ NUL # d)"
    using vsnprintf_Some [of k "drop (length h) l1" s] l1(3) k(1) by (simp add: d_def)
  have "0 < length d" using l1(3) by (simp add: d_def)
  then obtain x d' where d': "d = x # d'" by (cases d) auto
  define t where "t = h @ take (k - 1) s"
  have nt: "NUL \<notin> set t" using h(2) nul(2) by (auto simp: t_def dest: in_set_takeD)
  have "report_line line tag s = do { l \<leftarrow> wr (t @ NUL # d) (length t) (CHR 0x0A); wr l (length t + 1) NUL }"
    using v1 v2 l1(2) nt unfolding report_line_def Let_def h_def [symmetric] k_def [symmetric]
    by (simp add: c_string_append_NUL t_def flip: append_assoc)
  also have "\<dots> = Some (t @ CHR 0x0A # NUL # d')"
    by (simp add: d' list_update_append)
  finally show ?thesis
    using c_string_append_NUL [of "t @ [CHR 0x0A]" d'] nt k(3) by (simp add: t_def h_def)
qed

text \<open>The messages of the three ways in fit their line, so the report does not cut them again.\<close>

lemma reports_not_cut:
  assumes "length line = line_size" and "NUL \<notin> set text" and "NUL \<notin> set called_from"
    and "(tag, s) \<in> set (abort_message text called_from)"
  shows "\<exists>line'. report_line line tag s = Some line' \<and> c_string line' = report_head tag @ s @ [CHR 0x0A]"
proof -
  have "length tag < 1000" "NUL \<notin> set tag" "NUL \<notin> set s" "length s \<le> line_size - length tag - 13"
    using assms(2-4) by (auto simp: abort_message_def abort_report_def line_size_def dest: in_set_takeD)
  then show ?thesis using report_line_ends [OF assms(1), of tag s] by simp
qed

lemma report_not_reentered:
  "fst (orbis_report env ok True text) = [(Klog, text)]"
  "hd (fst (orbis_report env ok b text)) = (Klog, text)"
  "snd (orbis_report env ok b text) = b"
  by (simp_all add: orbis_report_def Let_def)

end
