(* ===== verification/App.thy ===== *)
theory App
  imports Report
begin

text \<open>
  \<open>optional/ps4_app.cpp\<close> and the text of a datagram in \<open>optional/orbis_netlog.cpp\<close>: the run
  configuration, the lines with their tag, and the channels a line takes. The kernel's answers
  (what \<open>open\<close>, \<open>read\<close> and the socket return) are arguments.
\<close>

section \<open>The run configuration\<close>

text \<open>What \<open>s_runCfgNote\<close> says.\<close>

datatype run_note = Not_Read_Yet | No_File int | Config_Read nat bool bool

record run_config =
  s_autoexit :: bool
  s_frameKlog :: bool
  s_runCfgNote :: run_note

definition run_config_init :: run_config where
  "run_config_init = \<lparr>s_autoexit = False, s_frameKlog = False, s_runCfgNote = Not_Read_Yet\<rparr>"

definition cfg_blank :: "char \<Rightarrow> bool" where
  "cfg_blank c = (c = CHR '' '' \<or> c = CHR 0x09)"

definition trim :: "string \<Rightarrow> string" where
  "trim s = rev (dropWhile (\<lambda>c. cfg_blank c \<or> c = CHR 0x0D) (rev (takeWhile (\<lambda>c. c \<noteq> CHR ''#'') s)))"

definition applyOption :: "string \<Rightarrow> run_config \<Rightarrow> run_config" where
  "applyOption line st =
     (let line = trim (dropWhile cfg_blank line) in
      if line = [] then st
      else case dropWhile (\<lambda>c. c \<noteq> CHR ''='') line of
        [] \<Rightarrow> st
      | _ # val \<Rightarrow>
          let key = takeWhile (\<lambda>c. c \<noteq> CHR ''='') line; on = (val = ''1'') in
          if key = ''autoexit'' then st\<lparr>s_autoexit := on\<rparr>
          else if key = ''frame-klog'' then st\<lparr>s_frameKlog := on\<rparr>
          else st)"

text \<open>The loop over the lines of the text.\<close>

function config_lines :: "string \<Rightarrow> run_config \<Rightarrow> run_config" where
  "config_lines p st =
     (if p = [] then st
      else
        let st = applyOption (takeWhile (\<lambda>c. c \<noteq> CHR 0x0A) p) st
        in case dropWhile (\<lambda>c. c \<noteq> CHR 0x0A) p of [] \<Rightarrow> st | _ # rest \<Rightarrow> config_lines rest st)"
  by pat_completeness auto
termination
proof (relation "measure (length \<circ> fst)")
  fix p st x x2 y z
  assume "p \<noteq> []" "dropWhile (\<lambda>c. c \<noteq> CHR 0x0A) p = y # z"
  then show "((z, x), p, st) \<in> measure (length \<circ> fst)"
    using length_dropWhile_le [of "\<lambda>c. c \<noteq> CHR 0x0A" p] by simp
qed simp

declare config_lines.simps [simp del]

definition buf_size :: nat where "buf_size = 512"

text \<open>
  \<open>fd\<close> is what \<open>sceKernelOpen\<close> returns, \<open>bytes\<close> what the file holds and \<open>got\<close> what
  \<open>sceKernelRead\<close> returns, a huge number for an error.
\<close>

definition readRunConfig :: "int \<Rightarrow> string \<Rightarrow> nat \<Rightarrow> run_config \<Rightarrow> run_config" where
  "readRunConfig fd bytes got st =
     (if fd < 0 then st\<lparr>s_runCfgNote := No_File fd\<rparr>
      else
        let len = (if got < buf_size then got else 0);
            st = config_lines (c_string (take len bytes)) st
        in st\<lparr>s_runCfgNote := Config_Read len (s_autoexit st) (s_frameKlog st)\<rparr>)"

section \<open>Lines\<close>

text \<open>
  \<open>formatLine\<close> into a buffer of size \<open>sz\<close>; \<open>None\<close> for the text is a negative answer of
  \<open>vsnprintf\<close>, which is taken to leave the buffer alone.
\<close>

definition formatLine :: "string \<Rightarrow> nat \<Rightarrow> string option \<Rightarrow> string option" where
  "formatLine buf sz text =
     do { buf \<leftarrow> (case text of None \<Rightarrow> Some buf | Some s \<Rightarrow> vsnprintf buf (sz - 2) s);
          len \<leftarrow> Some (case text of None \<Rightarrow> 0 | Some s \<Rightarrow> length s);
          len \<leftarrow> Some (if len > sz - 2 then sz - 2 else len);
          ends \<leftarrow> (if len = 0 then Some False else do { c \<leftarrow> rd buf (len - 1); Some (c = CHR 0x0A) });
          if ends then wr buf len NUL
          else do { buf \<leftarrow> wr buf len (CHR 0x0A); wr buf (len + 1) NUL } }"

definition tagLine :: "string \<Rightarrow> string \<Rightarrow> nat \<Rightarrow> string option \<Rightarrow> string option" where
  "tagLine s_app buf sz text =
     (let head = ''['' @ s_app @ ''] ''; off = (if length head \<ge> sz - 2 then 0 else length head) in
      do { buf \<leftarrow> vsnprintf buf sz head;
           rest \<leftarrow> formatLine (drop off buf) (sz - off) text;
           Some (take off buf @ rest) })"

section \<open>Channels\<close>

definition klogWanted :: "run_config \<Rightarrow> bool \<Rightarrow> bool" where
  "klogWanted st netlog_ready = (s_frameKlog st \<or> \<not> netlog_ready)"

definition ps4_vlog :: "run_config \<Rightarrow> bool \<Rightarrow> string \<Rightarrow> (channel \<times> string) list" where
  "ps4_vlog st netlog_ready buf = (Net, buf) # (if klogWanted st netlog_ready then [(Klog, buf)] else [])"

definition ps4_log_frame :: "run_config \<Rightarrow> bool \<Rightarrow> string \<Rightarrow> (channel \<times> string) list" where
  "ps4_log_frame st netlog_ready buf = (Net, buf) # (if klogWanted st netlog_ready then [(Klog, buf)] else [])"

definition ps4_log_net_line :: "run_config \<Rightarrow> bool \<Rightarrow> string \<Rightarrow> (channel \<times> string) list" where
  "ps4_log_net_line st netlog_ready line = (Net, line) # (if klogWanted st netlog_ready then [(Klog, line)] else [])"

definition ps4_vlog_fatal :: "string \<Rightarrow> (channel \<times> string) list" where
  "ps4_vlog_fatal buf = [(Klog, buf), (Net, buf)]"

text \<open>The bytes of the datagram \<open>orbis_netlog\<close> sends, \<open>None\<close> for none; \<open>buf\<close> is its buffer.\<close>

definition orbis_netlog :: "int \<Rightarrow> string \<Rightarrow> string option \<Rightarrow> string option" where
  "orbis_netlog s_sock buf text =
     (if s_sock < 0 then None
      else case text of None \<Rightarrow> None
        | Some s \<Rightarrow>
            do { buf \<leftarrow> vsnprintf buf buf_size s;
                 Some (take (if length s > buf_size then buf_size else length s) buf) })"

text \<open>
  \<open>orbis_netlog_init\<close> from the socket's number, what \<open>sceNetSocket\<close> and \<open>sceNetInetPton\<close> answer:
  the number afterwards and the sockets closed.
\<close>

definition orbis_netlog_init :: "int \<Rightarrow> int \<Rightarrow> int \<Rightarrow> int \<times> int list" where
  "orbis_netlog_init s_sock sock pton =
     (if s_sock \<ge> 0 then (s_sock, [])
      else if sock < 0 then (-1, [])
      else if pton \<noteq> 1 then (-1, [sock])
      else (sock, []))"

definition orbis_netlog_ready :: "int \<Rightarrow> bool" where
  "orbis_netlog_ready s_sock = (s_sock \<ge> 0)"

definition orbis_netlog_close :: "int \<Rightarrow> int \<times> int list" where
  "orbis_netlog_close s_sock = (if s_sock < 0 then (s_sock, []) else (-1, [s_sock]))"

section \<open>Start and end\<close>

definition ps4_run_autoexit :: "run_config \<Rightarrow> int" where
  "ps4_run_autoexit st = of_bool (s_autoexit st)"

definition ps4_run_frame_klog :: "run_config \<Rightarrow> int" where
  "ps4_run_frame_klog st = of_bool (s_frameKlog st)"

definition ps4_app_set_tag :: "string option \<Rightarrow> string \<Rightarrow> string" where
  "ps4_app_set_tag app s_app = (case app of None \<Rightarrow> s_app | Some a \<Rightarrow> a)"

text \<open>
  \<open>ps4_app_init\<close>: the lines it writes, in order, the configuration and the socket. \<open>note_text\<close> is
  the formatted note, \<open>fd\<close>, \<open>bytes\<close> and \<open>got\<close> are the file's, \<open>sock\<close> and \<open>pton\<close> the network's.
\<close>

definition ps4_app_init ::
  "(run_note \<Rightarrow> string) \<Rightarrow> string \<Rightarrow> string \<Rightarrow> int \<Rightarrow> string \<Rightarrow> nat \<Rightarrow> int \<Rightarrow> int \<Rightarrow> run_config \<Rightarrow> int \<Rightarrow>
   ((channel \<times> string) list \<times> run_config \<times> int) option" where
  "ps4_app_init note_text app stamp fd bytes got sock pton st s_sock =
     (let buf = take 255 (''['' @ app @ ''] alive - main() entered, built '' @ stamp @ [CHR 0x0A]);
          st = readRunConfig fd bytes got st;
          s_sock = fst (orbis_netlog_init s_sock sock pton)
      in do { line \<leftarrow> tagLine app (replicate buf_size NUL) buf_size (Some (take 127 (note_text (s_runCfgNote st))));
              Some ([(Klog, buf), (Net, buf)] @ ps4_vlog st (orbis_netlog_ready s_sock) (c_string line), st, s_sock) })"

text \<open>
  \<open>ps4_idle_forever\<close> after \<open>naps\<close> turns of its loop: the texts it has logged, and whether it has
  returned.
\<close>

definition ps4_idle_forever :: "run_config \<Rightarrow> string \<Rightarrow> nat \<Rightarrow> string list \<times> bool" where
  "ps4_idle_forever st what naps =
     (if s_autoexit st then ([what @ '' - returning from main (run-cfg autoexit=1)''], True)
      else ((what @ '' - idle, close the title with the PS button'') #
            map (\<lambda>k. ''idle '' @ nat_dec (5 * (k + 1) mod 2 ^ 32) @ ''s'') [0..<naps], False))"

section \<open>Properties\<close>

text \<open>It returns only when the configuration asked for it.\<close>

lemma idle_returns: "snd (ps4_idle_forever st what naps) \<longleftrightarrow> ps4_run_autoexit st = 1"
  by (simp add: ps4_idle_forever_def ps4_run_autoexit_def)

text \<open>No socket is lost: one that was opened is the one kept or has been closed.\<close>

lemma netlog_no_leak:
  assumes "orbis_netlog_init (-1) sock pton = (s, closed)" and "sock \<ge> 0"
  shows "(s = sock \<and> closed = []) \<or> (s = -1 \<and> closed = [sock])"
    and "orbis_netlog_ready s \<longleftrightarrow> pton = 1"
  using assms by (auto simp: orbis_netlog_init_def orbis_netlog_ready_def split: if_splits)

lemma netlog_close_closes:
  "orbis_netlog_ready s \<Longrightarrow> orbis_netlog_close s = (-1, [s])"
  "\<not> orbis_netlog_ready (fst (orbis_netlog_close s))"
  "fst (orbis_netlog_close (fst (orbis_netlog_close s))) = fst (orbis_netlog_close s)"
  by (auto simp: orbis_netlog_ready_def orbis_netlog_close_def)

text \<open>An assignment a line makes.\<close>

definition assignment :: "string \<Rightarrow> (string \<times> string) option" where
  "assignment line =
     (let line = trim (dropWhile cfg_blank line) in
      case dropWhile (\<lambda>c. c \<noteq> CHR ''='') line of
        [] \<Rightarrow> None | _ # v \<Rightarrow> Some (takeWhile (\<lambda>c. c \<noteq> CHR ''='') line, v))"

lemma applyOption_eq:
  "applyOption line st =
   (case assignment line of
      Some (k, v) \<Rightarrow> st\<lparr>s_autoexit := (if k = ''autoexit'' then v = ''1'' else s_autoexit st),
                       s_frameKlog := (if k = ''frame-klog'' then v = ''1'' else s_frameKlog st)\<rparr>
    | None \<Rightarrow> st)"
proof -
  define l where "l = trim (dropWhile cfg_blank line)"
  define k where "k = takeWhile (\<lambda>c. c \<noteq> CHR ''='') l"
  show ?thesis
    unfolding applyOption_def assignment_def Let_def l_def [symmetric] k_def [symmetric]
    by (cases "dropWhile (\<lambda>c. c \<noteq> CHR ''='') l") (auto simp del: dropWhile_eq_Nil_conv)
qed

function split_lines :: "string \<Rightarrow> string list" where
  "split_lines p =
     (if p = [] then []
      else takeWhile (\<lambda>c. c \<noteq> CHR 0x0A) p #
           (case dropWhile (\<lambda>c. c \<noteq> CHR 0x0A) p of [] \<Rightarrow> [] | _ # rest \<Rightarrow> split_lines rest))"
  by pat_completeness auto
termination
proof (relation "measure length")
  fix p y z
  assume "p \<noteq> []" "dropWhile (\<lambda>c. c \<noteq> CHR 0x0A) p = y # z"
  then show "(z, p) \<in> measure length"
    using length_dropWhile_le [of "\<lambda>c. c \<noteq> CHR 0x0A" p] by simp
qed simp

declare split_lines.simps [simp del]

lemma config_lines_fold: "config_lines p st = fold applyOption (split_lines p) st"
proof (induction p st rule: config_lines.induct)
  case (1 p st)
  show ?case
  proof (cases "dropWhile (\<lambda>c. c \<noteq> CHR 0x0A) p")
    case Nil
    then show ?thesis
      by (simp add: config_lines.simps [of p] split_lines.simps [of p] del: dropWhile_eq_Nil_conv)
  next
    case (Cons c rest)
    then have "p \<noteq> []" by auto
    with Cons 1 show ?thesis by (simp add: config_lines.simps [of p] split_lines.simps [of p])
  qed
qed

text \<open>An option is the last assignment to it, and what it was when there is none.\<close>

definition last_on :: "string \<Rightarrow> string list \<Rightarrow> bool \<Rightarrow> bool" where
  "last_on k ls old =
     (let vs = [v. l \<leftarrow> ls, Some (k', v) \<leftarrow> [assignment l], k' = k] in if vs = [] then old else last vs = ''1'')"

lemma last_on_Nil: "last_on k [] old = old"
  by (simp add: last_on_def)

lemma last_on_Cons:
  "last_on k (l # ls) old =
   last_on k ls (case assignment l of Some (k', v) \<Rightarrow> if k' = k then v = ''1'' else old | None \<Rightarrow> old)"
  by (auto simp: last_on_def Let_def split: option.splits prod.splits)

lemma fold_applyOption:
  "s_autoexit (fold applyOption ls st) = last_on ''autoexit'' ls (s_autoexit st)"
  "s_frameKlog (fold applyOption ls st) = last_on ''frame-klog'' ls (s_frameKlog st)"
  by (induction ls arbitrary: st)
    (auto simp: last_on_Nil last_on_Cons applyOption_eq split: option.splits prod.splits)

lemma readRunConfig_options:
  assumes "0 \<le> fd" and "got < buf_size"
  shows "s_autoexit (readRunConfig fd bytes got st) =
      last_on ''autoexit'' (split_lines (c_string (take got bytes))) (s_autoexit st)"
    and "s_frameKlog (readRunConfig fd bytes got st) =
      last_on ''frame-klog'' (split_lines (c_string (take got bytes))) (s_frameKlog st)"
  using assms by (simp_all add: readRunConfig_def Let_def config_lines_fold fold_applyOption)

text \<open>A missing file, a failed read and an empty one leave the console's behaviour.\<close>

lemma readRunConfig_defaults:
  assumes "fd < 0 \<or> buf_size \<le> got \<or> bytes = []"
  shows "\<not> s_autoexit (readRunConfig fd bytes got run_config_init)"
    and "\<not> s_frameKlog (readRunConfig fd bytes got run_config_init)"
  using assms
  by (auto simp: readRunConfig_def Let_def run_config_init_def c_string_def config_lines.simps)

text \<open>A text that fits is the line, with a newline when it has none.\<close>

lemma formatLine_fits:
  assumes "sz \<le> length buf" and "length s + 2 < sz" and "NUL \<notin> set s"
  shows "\<exists>b. formatLine buf sz (Some s) = Some b \<and>
    c_string b = (if s \<noteq> [] \<and> last s = CHR 0x0A then s else s @ [CHR 0x0A])"
proof -
  have "vsnprintf buf (sz - 2) s = Some (s @ NUL # drop (Suc (length s)) buf)"
    using assms by (subst vsnprintf_Some) (auto simp: min_def)
  moreover obtain x d where d: "drop (Suc (length s)) buf = x # d"
    using assms by (cases "drop (Suc (length s)) buf") auto
  moreover have "s \<noteq> [] \<Longrightarrow> (s @ NUL # x # d) ! (length s - 1) = last s"
    by (simp add: nth_append last_conv_nth)
  ultimately show ?thesis
    using assms c_string_append_NUL [of s "x # d"] c_string_append_NUL [of "s @ [CHR 0x0A]" d]
    by (auto simp: formatLine_def list_update_append)
qed

text \<open>
  A text that does not fit is cut, and the newline meant for its end is written behind the NUL of
  \<open>vsnprintf\<close>, so that the line has none.
\<close>

lemma formatLine_cut:
  assumes "sz \<le> length buf" and "2 < sz" and "sz \<le> length s + 2" and "NUL \<notin> set s"
  shows "\<exists>b. formatLine buf sz (Some s) = Some b \<and> c_string b = take (sz - 3) s"
proof -
  have "vsnprintf buf (sz - 2) s = Some (take (sz - 3) s @ NUL # drop (sz - 2) buf)"
  proof -
    have "min (length s) (sz - 2 - 1) = sz - 3" "Suc (sz - 3) = sz - 2" "sz - 2 - 1 = sz - 3"
      using assms by auto
    then show ?thesis using vsnprintf_Some [of "sz - 2" buf s] assms by simp
  qed
  moreover obtain x y d where d: "drop (sz - 2) buf = x # y # d"
  proof -
    have "2 \<le> length (drop (sz - 2) buf)" using assms by simp
    then show ?thesis using that by (cases "drop (sz - 2) buf"; cases "tl (drop (sz - 2) buf)") auto
  qed
  moreover have l: "length (take (sz - 3) s) = sz - 3" using assms by simp
  moreover have "(if length s > sz - 2 then sz - 2 else length s) = Suc (sz - 3)" using assms by auto
  ultimately have "formatLine buf sz (Some s) = Some (take (sz - 3) s @ NUL # CHR 0x0A # NUL # d)"
    using assms by (simp add: formatLine_def list_update_append rd_def wr_def nth_append)
  then show ?thesis using assms(4) by (simp add: c_string_append_NUL NUL_notin_take)
qed

text \<open>Every line reaches a channel that carries it; a fatal one the kernel's log first.\<close>

lemma some_channel:
  "netlog_ready \<or> (Klog, buf) \<in> set (ps4_vlog st netlog_ready buf)"
  "ps4_log_frame st netlog_ready buf = ps4_vlog st netlog_ready buf"
  "hd (ps4_vlog_fatal buf) = (Klog, buf)"
  by (auto simp: ps4_vlog_def ps4_log_frame_def klogWanted_def ps4_vlog_fatal_def)

text \<open>A datagram is the text when it fits; a longer one is cut to the buffer, its NUL included.\<close>

lemma orbis_netlog_sends:
  assumes "length buf = buf_size" and "0 \<le> s_sock"
  shows "orbis_netlog s_sock buf (Some s) =
    Some (if length s < buf_size then s else take (buf_size - 1) s @ [NUL])"
  using assms by (auto simp: orbis_netlog_def vsnprintf_Some buf_size_def min_def)

text \<open>The first line reaches the kernel's log before anything else can fail.\<close>

lemma ps4_app_init_first:
  "ps4_app_init nt app stamp fd bytes got sock pton st s = Some (out, st', s') \<Longrightarrow> fst (hd out) = Klog"
  by (auto simp: ps4_app_init_def Let_def bind_eq_Some_conv)

text \<open>
  C38. \<open>formatLine\<close> writes inside its buffer whatever the text. A text that fits becomes a line: itself
  when it ends in a newline, with one added when it does not. A text that is cut loses its newline,
  which is written behind the NUL \<open>vsnprintf\<close> has put after the first \<open>sz - 3\<close> characters.
\<close>

theorem formatLine_result:
  assumes "2 < sz" and "sz \<le> length buf" and "NUL \<notin> set s"
  shows "\<exists>b. formatLine buf sz (Some s) = Some b \<and>
    c_string b =
      (if length s + 2 < sz then (if s \<noteq> [] \<and> last s = CHR 0x0A then s else s @ [CHR 0x0A])
       else take (sz - 3) s)"
  using formatLine_fits [of sz buf s] formatLine_cut [of sz buf s] assms by (cases "length s + 2 < sz") auto

theorem formatLine_result_witness:
  "\<exists>b. formatLine (replicate 8 NUL) 8 (Some ''abcdefgh'') = Some b \<and> c_string b = ''abcde''"
  using formatLine_result [of 8 "replicate 8 NUL" "''abcdefgh''"] by (simp add: eval_nat_numeral)

end
