(* ===== verification/Shims.thy ===== *)
theory Shims
  imports Prelude
begin

text \<open>
  The headers under \<open>include/\<close> that carry code: \<open>sys/sysctl.h\<close> with \<open>src/orbis_sysconf.cpp\<close>,
  the \<open>sigaltstack\<close> translation of \<open>signal.h\<close>, the processor sets of \<open>sys/cpuset.h\<close> and the
  request numbers of \<open>sys/ioccom.h\<close> and \<open>sys/ioctl.h\<close>.
\<close>

unbundle bit_operations_syntax

section \<open>The number of processors\<close>

text \<open>
  \<open>atoi\<close>: leading white space, a sign and the digits that follow. \<open>None\<close> is a value outside
  \<open>int\<close>, for which C defines no result.
\<close>

definition c_space :: "char \<Rightarrow> bool" where
  "c_space c = (c = CHR '' '' \<or> c \<in> {CHR 0x09, CHR 0x0A, CHR 0x0B, CHR 0x0C, CHR 0x0D})"

definition c_digit :: "char \<Rightarrow> bool" where
  "c_digit c = (48 \<le> (of_char c :: nat) \<and> (of_char c :: nat) \<le> 57)"

definition digits_value :: "string \<Rightarrow> int" where
  "digits_value s = foldl (\<lambda>n c. 10 * n + (int (of_char c) - 48)) 0 (takeWhile c_digit s)"

definition atoi :: "string \<Rightarrow> int option" where
  "atoi s =
     (let s = dropWhile c_space s;
          n = (case s of
                 [] \<Rightarrow> 0
               | c # cs \<Rightarrow> if c = CHR ''-'' then - digits_value cs
                            else if c = CHR ''+'' then digits_value cs else digits_value s)
      in if - (2 ^ 31) \<le> n \<and> n < 2 ^ 31 then Some n else None)"

text \<open>\<open>env\<close> is what \<open>orbis_env_get\<close> answers.\<close>

definition orbis_hw_ncpu :: "(string \<Rightarrow> string option) \<Rightarrow> int option" where
  "orbis_hw_ncpu env =
     (case env ''ORBIS_NCPU'' of
        None \<Rightarrow> Some 6
      | Some e \<Rightarrow>
          if e \<noteq> [] then do { n \<leftarrow> atoi e; Some (if n > 0 then n else 6) } else Some 6)"

text \<open>
  \<open>orbis_sysctl_ncpu\<close> on the object \<open>old\<close> and the number at \<open>oldlen\<close> (\<open>None\<close> for null pointers):
  its answer, the object and the number afterwards. The result \<open>None\<close> is a write outside \<open>old\<close>.
\<close>

type_synonym sysctl_result = "int \<times> nat list option \<times> nat option"

definition orbis_sysctl_ncpu :: "(string \<Rightarrow> string option) \<Rightarrow> nat list option \<Rightarrow> nat option \<Rightarrow> sysctl_result option" where
  "orbis_sysctl_ncpu env old oldlen =
     (case (old, oldlen) of
        (Some ob, Some len) \<Rightarrow>
          if len < 4 then Some (-1, old, oldlen)
          else do { n \<leftarrow> orbis_hw_ncpu env;
                    if 4 \<le> length ob then Some (0, Some (le_bytes 4 (nat n) @ drop 4 ob), Some 4) else None }
      | _ \<Rightarrow> Some (-1, old, oldlen))"

definition CTL_HW :: int where "CTL_HW = 6"
definition HW_NCPU :: int where "HW_NCPU = 3"

definition sysctl ::
  "(string \<Rightarrow> string option) \<Rightarrow> int list option \<Rightarrow> nat \<Rightarrow> nat list option \<Rightarrow> nat option \<Rightarrow> sysctl_result option" where
  "sysctl env name namelen old oldlen =
     (case name of
        None \<Rightarrow> Some (-1, old, oldlen)
      | Some mib \<Rightarrow>
          if namelen \<ge> 2 then
            do { a \<leftarrow> rd mib 0;
                 b \<leftarrow> (if a = CTL_HW then rd mib 1 else Some 0);
                 if a = CTL_HW \<and> b = HW_NCPU then orbis_sysctl_ncpu env old oldlen
                 else Some (-1, old, oldlen) }
          else Some (-1, old, oldlen))"

definition sysctlbyname ::
  "(string \<Rightarrow> string option) \<Rightarrow> string option \<Rightarrow> nat list option \<Rightarrow> nat option \<Rightarrow> sysctl_result option" where
  "sysctlbyname env name old oldlen =
     (if name = Some ''hw.ncpu'' then orbis_sysctl_ncpu env old oldlen else Some (-1, old, oldlen))"

text \<open>The two names \<open>orbis_sysconf\<close> answers itself; \<open>sysconf\<close> is libc's.\<close>

datatype sc_name = SC_NPROCESSORS_ONLN | SC_NPROCESSORS_CONF | SC_Other int

text \<open>The bytes of an \<open>int\<close>.\<close>

definition int32_of :: "nat list \<Rightarrow> int" where
  "int32_of bs = (let v = le_value (take 4 bs) in if v < 2 ^ 31 then int v else int v - 2 ^ 32)"

definition orbis_sysconf :: "(string \<Rightarrow> string option) \<Rightarrow> (int \<Rightarrow> int) \<Rightarrow> sc_name \<Rightarrow> int option" where
  "orbis_sysconf env sysconf name =
     (case name of
        SC_Other k \<Rightarrow> Some (sysconf k)
      | _ \<Rightarrow> do { (rc, old, len) \<leftarrow> sysctlbyname env (Some ''hw.ncpu'') (Some (le_bytes 4 0)) (Some 4);
                  ob \<leftarrow> old;
                  let n = int32_of ob in Some (if rc = 0 \<and> n > 0 then n else 1) })"

lemma atoi_range: "atoi s = Some n \<Longrightarrow> - (2 ^ 31) \<le> n \<and> n < 2 ^ 31"
proof -
  assume "atoi s = Some n"
  then obtain m where "(if - (2 ^ 31) \<le> m \<and> m < 2 ^ 31 then Some m else None) = Some n"
    unfolding atoi_def Let_def by blast
  then show ?thesis by (simp split: if_splits)
qed

lemma ncpu_range: "orbis_hw_ncpu env = Some n \<Longrightarrow> 0 < n \<and> n < 2 ^ 31"
  by (auto simp: orbis_hw_ncpu_def bind_eq_Some_conv dest!: atoi_range split: option.splits if_splits)

lemma ncpu_default:
  "env ''ORBIS_NCPU'' = None \<Longrightarrow> orbis_hw_ncpu env = Some 6"
  "env ''ORBIS_NCPU'' = Some e \<Longrightarrow> atoi e = Some n \<Longrightarrow> n \<le> 0 \<Longrightarrow> orbis_hw_ncpu env = Some 6"
  by (simp_all add: orbis_hw_ncpu_def)

lemma int32_of_le_bytes: "n < 2 ^ 31 \<Longrightarrow> int32_of (le_bytes 4 n @ bs) = int n"
  by (simp add: int32_of_def le_value_bytes)

text \<open>Every question for the number of processors has the one answer of \<open>orbis_hw_ncpu\<close>.\<close>

lemma sysconf_is_ncpu:
  "orbis_sysconf env f SC_NPROCESSORS_ONLN = orbis_hw_ncpu env"
  "orbis_sysconf env f SC_NPROCESSORS_CONF = orbis_hw_ncpu env"
proof -
  have "do { (rc, old, len) \<leftarrow> orbis_sysctl_ncpu env (Some (le_bytes 4 0)) (Some 4);
             ob \<leftarrow> old; let n = int32_of ob in Some (if rc = 0 \<and> n > 0 then n else 1) } = orbis_hw_ncpu env"
  proof (cases "orbis_hw_ncpu env")
    case (Some n)
    then have "0 < n" "nat n < 2 ^ 31" using ncpu_range [OF Some] by (simp_all add: nat_less_iff)
    with int32_of_le_bytes [of "nat n" "[]"] have "0 < n" "int32_of (le_bytes 4 (nat n)) = n" by simp_all
    with Some show ?thesis by (simp add: orbis_sysctl_ncpu_def)
  qed (simp add: orbis_sysctl_ncpu_def)
  then show "orbis_sysconf env f SC_NPROCESSORS_ONLN = orbis_hw_ncpu env"
    "orbis_sysconf env f SC_NPROCESSORS_CONF = orbis_hw_ncpu env"
    by (simp_all add: orbis_sysconf_def sysctlbyname_def)
qed

lemma sysctl_spellings_agree:
  "sysctl env (Some [CTL_HW, HW_NCPU]) 2 old len = sysctlbyname env (Some ''hw.ncpu'') old len"
  by (simp add: sysctl_def sysctlbyname_def rd_def)

text \<open>Any other question fails and writes nothing.\<close>

lemma sysctl_others_fail:
  "name \<noteq> Some ''hw.ncpu'' \<Longrightarrow> sysctlbyname env name old len = Some (-1, old, len)"
  "namelen < 2 \<Longrightarrow> sysctl env mib namelen old len = Some (-1, old, len)"
  by (auto simp: sysctlbyname_def sysctl_def split: option.splits)

section \<open>\<open>sigaltstack\<close>\<close>

text \<open>
  The SDK's \<open>stack_t\<close> and the kernel's structure. \<open>kern ss oss\<close> is \<open>__orbis_sigaltstack_kernel\<close>:
  its answer and what it stores through \<open>oss\<close>, if it stores.
\<close>

record stack_sdk =
  ss_sp :: u64
  ss_flags :: u32
  ss_size :: u64

record stack_bsd =
  bsd_sp :: u64
  bsd_size :: u64
  bsd_flags :: u32
  bsd_pad :: u32

type_synonym altstack_kernel = "stack_bsd option \<Rightarrow> stack_bsd option \<Rightarrow> int \<times> stack_bsd option"

definition stack_bsd_zero :: stack_bsd where
  "stack_bsd_zero = \<lparr>bsd_sp = 0, bsd_size = 0, bsd_flags = 0, bsd_pad = 0\<rparr>"

definition orbis_sigaltstack :: "altstack_kernel \<Rightarrow> stack_sdk option \<Rightarrow> stack_sdk option \<Rightarrow> int \<times> stack_sdk option" where
  "orbis_sigaltstack kern ss oss =
     (let inn = (case ss of None \<Rightarrow> stack_bsd_zero
                 | Some s \<Rightarrow> stack_bsd_zero\<lparr>bsd_sp := ss_sp s, bsd_size := ss_size s, bsd_flags := ss_flags s\<rparr>);
          (rc, out) = kern (if ss \<noteq> None then Some inn else None)
                             (if oss \<noteq> None then Some stack_bsd_zero else None)
      in (rc, case oss of
                None \<Rightarrow> None
              | Some oo \<Rightarrow>
                  let b = (case out of None \<Rightarrow> stack_bsd_zero | Some b \<Rightarrow> b)
                  in Some (oo\<lparr>ss_sp := bsd_sp b, ss_size := bsd_size b, ss_flags := bsd_flags b\<rparr>)))"

text \<open>The three eight-byte words of either structure, the padding as \<open>pad\<close>.\<close>

definition sdk_words :: "u32 \<Rightarrow> stack_sdk \<Rightarrow> u64 list" where
  "sdk_words pad s = [ss_sp s, ucast (ss_flags s) OR push_bit 32 (ucast pad), ss_size s]"

definition bsd_words :: "stack_bsd \<Rightarrow> u64 list" where
  "bsd_words b = [bsd_sp b, bsd_size b, ucast (bsd_flags b) OR push_bit 32 (ucast (bsd_pad b))]"

definition bsd_of_words :: "u64 list \<Rightarrow> stack_bsd" where
  "bsd_of_words ws = \<lparr>bsd_sp = ws ! 0, bsd_size = ws ! 1, bsd_flags = ucast (ws ! 2), bsd_pad = ucast (drop_bit 32 (ws ! 2))\<rparr>"

lemma split_join_word:
  "ucast (ucast a OR push_bit 32 (ucast b) :: u64) = (a :: u32)"
  "ucast (drop_bit 32 (ucast a OR push_bit 32 (ucast b) :: u64)) = (b :: u32)"
  by (rule bit_word_eqI; auto simp: bit_simps dest: bit_imp_le_length)+

lemma bsd_words_roundtrip: "bsd_of_words (bsd_words b) = b"
  by (simp add: bsd_of_words_def bsd_words_def split_join_word(1) split_join_word(2) [simplified])

text \<open>
  The kernel sees the caller's three values under their own names and its answer comes back under
  them. Handed over unchanged, the SDK's structure would be read with the size for the flags.
\<close>

lemma sigaltstack_passes:
  assumes "kern = (\<lambda>ss oss. (rc ss, map_option (\<lambda>_. out ss) oss))"
  shows "orbis_sigaltstack kern (Some s) (Some old) =
    (let b = \<lparr>bsd_sp = ss_sp s, bsd_size = ss_size s, bsd_flags = ss_flags s, bsd_pad = 0\<rparr>
     in (rc (Some b), Some (old\<lparr>ss_sp := bsd_sp (out (Some b)), ss_size := bsd_size (out (Some b)),
                                ss_flags := bsd_flags (out (Some b))\<rparr>)))"
    and "orbis_sigaltstack kern None (Some old) =
    (rc None, Some (old\<lparr>ss_sp := bsd_sp (out None), ss_size := bsd_size (out None), ss_flags := bsd_flags (out None)\<rparr>))"
  using assms by (simp_all add: orbis_sigaltstack_def stack_bsd_zero_def Let_def)

lemma sdk_layout_misread:
  "bsd_of_words (sdk_words 0 s) =
   \<lparr>bsd_sp = ss_sp s, bsd_size = ucast (ss_flags s), bsd_flags = ucast (ss_size s),
    bsd_pad = ucast (drop_bit 32 (ss_size s))\<rparr>"
  by (simp add: bsd_of_words_def sdk_words_def)

section \<open>Processor sets\<close>

definition CPU_SETSIZE :: nat where "CPU_SETSIZE = 1024"

type_synonym cpu_set = "u64 list"

definition CPU_BITS :: "nat \<Rightarrow> nat" where "CPU_BITS i = i div 64"
definition CPU_MASK :: "nat \<Rightarrow> u64" where "CPU_MASK i = push_bit (i mod 64) 1"

definition CPU_ZERO :: "cpu_set \<Rightarrow> cpu_set" where
  "CPU_ZERO s = map (\<lambda>_. 0) s"

definition CPU_SET :: "nat \<Rightarrow> cpu_set \<Rightarrow> cpu_set option" where
  "CPU_SET i s = do { w \<leftarrow> rd s (CPU_BITS i); wr s (CPU_BITS i) (w OR CPU_MASK i) }"

definition CPU_CLR :: "nat \<Rightarrow> cpu_set \<Rightarrow> cpu_set option" where
  "CPU_CLR i s = do { w \<leftarrow> rd s (CPU_BITS i); wr s (CPU_BITS i) (w AND NOT (CPU_MASK i)) }"

definition CPU_ISSET :: "nat \<Rightarrow> cpu_set \<Rightarrow> bool option" where
  "CPU_ISSET i s = do { w \<leftarrow> rd s (CPU_BITS i); Some (w AND CPU_MASK i \<noteq> 0) }"

definition cpu_set_wf :: "cpu_set \<Rightarrow> bool" where
  "cpu_set_wf s = (length s * 64 = CPU_SETSIZE)"

lemma CPU_MASK_bit: "bit (CPU_MASK i) n \<longleftrightarrow> n = i mod 64"
proof -
  have "i mod 64 < 64" by simp
  then show ?thesis by (auto simp: CPU_MASK_def bit_simps)
qed

lemma CPU_MASK_test: "w AND CPU_MASK i \<noteq> 0 \<longleftrightarrow> bit w (i mod 64)"
proof -
  have "w AND CPU_MASK i = (if bit w (i mod 64) then CPU_MASK i else 0)"
    by (rule bit_word_eqI) (auto simp: bit_and_iff CPU_MASK_bit)
  moreover have "CPU_MASK i \<noteq> 0" using CPU_MASK_bit [of i "i mod 64"] by auto
  ultimately show ?thesis by simp
qed

lemma CPU_word: "cpu_set_wf s \<Longrightarrow> i < CPU_SETSIZE \<Longrightarrow> CPU_BITS i < length s"
  by (auto simp: cpu_set_wf_def CPU_SETSIZE_def CPU_BITS_def)

lemma CPU_ISSET_bit:
  "cpu_set_wf s \<Longrightarrow> i < CPU_SETSIZE \<Longrightarrow> CPU_ISSET i s = Some (bit (s ! CPU_BITS i) (i mod 64))"
  by (simp add: CPU_ISSET_def CPU_word CPU_MASK_test)

lemma CPU_same: "CPU_BITS i = CPU_BITS j \<and> i mod 64 = j mod 64 \<longleftrightarrow> i = j"
  by (metis CPU_BITS_def div_mult_mod_eq)

lemma CPU_ZERO_empty:
  assumes "cpu_set_wf s" and "i < CPU_SETSIZE"
  shows "CPU_ISSET i (CPU_ZERO s) = Some False"
proof -
  have "cpu_set_wf (CPU_ZERO s)" using assms(1) by (simp add: cpu_set_wf_def CPU_ZERO_def)
  then show ?thesis using CPU_word [OF assms] by (simp add: CPU_ISSET_bit assms(2) CPU_ZERO_def)
qed

text \<open>A set after an operation: the one processor is changed and no other.\<close>

lemma CPU_SET_ISSET:
  assumes wf: "cpu_set_wf s" and i: "i < CPU_SETSIZE" and j: "j < CPU_SETSIZE"
  shows "do { s' \<leftarrow> CPU_SET i s; CPU_ISSET j s' } = (if j = i then Some True else CPU_ISSET j s)"
    and "do { s' \<leftarrow> CPU_CLR i s; CPU_ISSET j s' } = (if j = i then Some False else CPU_ISSET j s)"
proof -
  have l: "CPU_BITS i < length s" using wf i by (rule CPU_word)
  have wf': "cpu_set_wf (s[CPU_BITS i := w])" for w using wf by (simp add: cpu_set_wf_def)
  show "do { s' \<leftarrow> CPU_SET i s; CPU_ISSET j s' } = (if j = i then Some True else CPU_ISSET j s)"
    using l CPU_same [of i j] by (auto simp: CPU_SET_def CPU_ISSET_bit wf' wf j nth_list_update bit_or_iff CPU_MASK_bit)
  show "do { s' \<leftarrow> CPU_CLR i s; CPU_ISSET j s' } = (if j = i then Some False else CPU_ISSET j s)"
    using l CPU_same [of i j]
    by (auto simp: CPU_CLR_def CPU_ISSET_bit wf' wf j nth_list_update bit_and_iff bit_not_iff CPU_MASK_bit)
qed

section \<open>Request numbers\<close>

definition IOCPARM_SHIFT :: nat where "IOCPARM_SHIFT = 13"
definition IOCPARM_MASK :: u64 where "IOCPARM_MASK = push_bit IOCPARM_SHIFT 1 - 1"
definition IOCPARM_LEN :: "u64 \<Rightarrow> u64" where "IOCPARM_LEN x = drop_bit 16 x AND IOCPARM_MASK"
definition IOCBASECMD :: "u64 \<Rightarrow> u64" where "IOCBASECMD x = x AND NOT (push_bit 16 IOCPARM_MASK)"
definition IOCGROUP :: "u64 \<Rightarrow> u64" where "IOCGROUP x = drop_bit 8 x AND 0xff"
definition IOC_VOID :: u64 where "IOC_VOID = 0x20000000"
definition IOC_OUT :: u64 where "IOC_OUT = 0x40000000"
definition IOC_IN :: u64 where "IOC_IN = 0x80000000"
definition IOC_INOUT :: u64 where "IOC_INOUT = IOC_IN OR IOC_OUT"
definition IOC_DIRMASK :: u64 where "IOC_DIRMASK = IOC_VOID OR IOC_OUT OR IOC_IN"

definition IOC :: "u64 \<Rightarrow> u64 \<Rightarrow> u64 \<Rightarrow> u64 \<Rightarrow> u64" where
  "IOC inout grp num len = inout OR push_bit 16 (len AND IOCPARM_MASK) OR push_bit 8 grp OR num"

definition IO :: "u64 \<Rightarrow> u64 \<Rightarrow> u64" where "IO g n = IOC IOC_VOID g n 0"
definition IOR :: "u64 \<Rightarrow> u64 \<Rightarrow> u64 \<Rightarrow> u64" where "IOR g n sz = IOC IOC_OUT g n sz"
definition IOW :: "u64 \<Rightarrow> u64 \<Rightarrow> u64 \<Rightarrow> u64" where "IOW g n sz = IOC IOC_IN g n sz"
definition IOWR :: "u64 \<Rightarrow> u64 \<Rightarrow> u64 \<Rightarrow> u64" where "IOWR g n sz = IOC IOC_INOUT g n sz"

text \<open>\<open>'f'\<close> is 102 and \<open>sizeof(int)\<close> is 4.\<close>

definition FIONREAD :: u64 where "FIONREAD = IOR 102 127 4"
definition FIONBIO :: u64 where "FIONBIO = IOW 102 126 4"
definition FIOASYNC :: u64 where "FIOASYNC = IOW 102 125 4"

lemmas ioc_dirs = IOC_VOID_def IOC_OUT_def IOC_IN_def IOC_INOUT_def IOC_DIRMASK_def

lemma ioctl_numbers: "FIONREAD = 0x4004667f" "FIONBIO = 0x8004667e" "FIOASYNC = 0x8004667d"
  by (simp_all add: FIONREAD_def FIONBIO_def FIOASYNC_def IOR_def IOW_def IOC_def ioc_dirs IOCPARM_MASK_def
      IOCPARM_SHIFT_def push_bit_eq_mult)

lemma IOCPARM_MASK_mask: "IOCPARM_MASK = mask 13"
  by (simp add: IOCPARM_MASK_def IOCPARM_SHIFT_def mask_eq_exp_minus_1 push_bit_eq_mult)

text \<open>What is put into a request is read out of it.\<close>

lemma IOC_decode:
  assumes d: "inout AND mask 29 = 0" and g: "grp AND mask 8 = grp" and n: "num AND mask 8 = num"
  shows "IOCPARM_LEN (IOC inout grp num len) = len AND IOCPARM_MASK"
    and "IOCGROUP (IOC inout grp num len) = grp"
proof -
  have d': "\<not> bit inout k" if "k < 29" for k
    using that arg_cong [OF d, of "\<lambda>w. bit w k"] by (auto simp: bit_simps)
  have g': "\<not> bit grp k" if "8 \<le> k" for k
    using that arg_cong [OF g, of "\<lambda>w. bit w k"] by (auto simp: bit_simps)
  have n': "\<not> bit num k" if "8 \<le> k" for k
    using that arg_cong [OF n, of "\<lambda>w. bit w k"] by (auto simp: bit_simps)
  have g2: "bit grp k \<Longrightarrow> k < 8" for k using g' not_less by blast
  have ff: "(0xff :: u64) = mask 8" by (simp add: mask_eq_exp_minus_1)
  show "IOCPARM_LEN (IOC inout grp num len) = len AND IOCPARM_MASK"
    unfolding IOCPARM_LEN_def IOC_def IOCPARM_MASK_mask
    by (rule bit_word_eqI) (auto simp: bit_simps d' g' n')
  show "IOCGROUP (IOC inout grp num len) = grp"
    unfolding IOCGROUP_def IOC_def IOCPARM_MASK_mask ff
    by (rule bit_word_eqI) (auto simp: bit_simps d' n' dest: g2)
qed

end
