(* ===== verification/Condvar.thy ===== *)
theory Condvar
  imports Prelude
begin

text \<open>
  \<open>src/orbis_cv_fix.cpp\<close>: \<open>std::condition_variable\<close> over the platform's. Times are numbers of
  nanoseconds in \<open>int64_t\<close>, and what \<open>__libcpp_condvar_wait\<close> and \<open>__libcpp_condvar_timedwait\<close>
  answer is an argument.
\<close>

text \<open>A call returns, or \<open>__throw_system_error\<close> leaves it (and, as it is \<open>noexcept\<close>, ends the process).\<close>

datatype cv_result = Cv_returns | Cv_throws int

definition cv_clamp :: int where "cv_clamp = 0x59682F000000E941"
definition ts_sec_max :: int where "ts_sec_max = 2 ^ 63 - 1"

text \<open>\<open>duration_cast\<close> to seconds, which truncates towards 0.\<close>

definition seconds_of :: "int \<Rightarrow> int" where
  "seconds_of d = (if d < 0 then - (- d div 1000000000) else d div 1000000000)"

text \<open>The seconds and nanoseconds of the \<open>timespec\<close> built for a deadline.\<close>

definition cv_timespec :: "int \<Rightarrow> int \<times> int" where
  "cv_timespec tp =
     (let d = (if tp > cv_clamp then cv_clamp else tp); s = seconds_of d in
      if s < ts_sec_max then (s, d - s * 1000000000) else (ts_sec_max, 999999999))"

definition cv_wait :: "bool \<Rightarrow> int \<Rightarrow> cv_result" where
  "cv_wait owns_lock ec =
     (if \<not> owns_lock then Cv_throws EPERM else if ec \<noteq> 0 then Cv_throws ec else Cv_returns)"

definition do_timed_wait :: "bool \<Rightarrow> (int \<times> int \<Rightarrow> int) \<Rightarrow> int \<Rightarrow> cv_result" where
  "do_timed_wait owns_lock timedwait tp =
     (if \<not> owns_lock then Cv_throws EPERM
      else
        let ec = timedwait (cv_timespec tp)
        in if ec \<noteq> 0 \<and> ec \<noteq> ETIMEDOUT then Cv_throws ec else Cv_returns)"

lemma seconds_of_bounds: "0 \<le> d \<Longrightarrow> seconds_of d = d div 1000000000 \<and> 0 \<le> seconds_of d"
  by (auto simp: seconds_of_def pos_imp_zdiv_nonneg_iff)

lemma seconds_of_max: "d \<le> cv_clamp \<Longrightarrow> seconds_of d < ts_sec_max"
proof -
  assume "d \<le> cv_clamp"
  then have "0 \<le> d \<Longrightarrow> d div 1000000000 \<le> cv_clamp div 1000000000" by (intro zdiv_mono1) auto
  then show ?thesis
    by (cases "d < 0") (auto simp: seconds_of_def cv_clamp_def ts_sec_max_def div_minus_minus pos_imp_zdiv_neg_iff
        intro: order.strict_trans1 [of _ 0])
qed

text \<open>
  The deadline handed to the platform is the caller's up to the clamp, to the nanosecond, and the
  other branch is never taken.
\<close>

lemma cv_timespec_exact:
  "fst (cv_timespec tp) * 1000000000 + snd (cv_timespec tp) = min tp cv_clamp"
  "fst (cv_timespec tp) = seconds_of (min tp cv_clamp)"
proof -
  have "seconds_of (min tp cv_clamp) < ts_sec_max" by (rule seconds_of_max) simp
  moreover have "(if tp > cv_clamp then cv_clamp else tp) = min tp cv_clamp" by (auto simp: min_def)
  ultimately show "fst (cv_timespec tp) * 1000000000 + snd (cv_timespec tp) = min tp cv_clamp"
    "fst (cv_timespec tp) = seconds_of (min tp cv_clamp)"
    by (simp_all add: cv_timespec_def Let_def)
qed

lemma cv_timespec_normal:
  assumes "0 \<le> tp"
  shows "0 \<le> fst (cv_timespec tp)" and "0 \<le> snd (cv_timespec tp)" and "snd (cv_timespec tp) < 1000000000"
proof -
  let ?d = "min tp cv_clamp"
  have "0 \<le> ?d" using assms by (simp add: cv_clamp_def)
  moreover have "snd (cv_timespec tp) = ?d - seconds_of ?d * 1000000000"
    using cv_timespec_exact [of tp] by linarith
  moreover have "0 \<le> ?d mod 1000000000" "?d mod 1000000000 < 1000000000" by simp_all
  moreover have "?d - ?d div 1000000000 * 1000000000 = ?d mod 1000000000" by (simp add: minus_div_mult_eq_mod)
  ultimately show "0 \<le> fst (cv_timespec tp)" "0 \<le> snd (cv_timespec tp)" "snd (cv_timespec tp) < 1000000000"
    using seconds_of_bounds [of ?d] cv_timespec_exact(2) [of tp] by auto
qed

text \<open>A wait that holds its lock and is signalled or times out returns; Linux's 110 would not.\<close>

lemma do_timed_wait_returns:
  "do_timed_wait True w tp = Cv_returns \<longleftrightarrow> w (cv_timespec tp) \<in> {0, ETIMEDOUT}"
  "do_timed_wait False w tp = Cv_throws EPERM"
  "do_timed_wait True (\<lambda>_. 110) tp = Cv_throws 110"
  by (auto simp: do_timed_wait_def Let_def errno_defs)

end
