(* ===== verification/Crash.thy ===== *)
theory Crash
  imports Mmap Report Shims
begin

text \<open>
  The crash handlers of \<open>src/orbis_boot.cpp\<close>: what the terminate handler says, what the signal
  handler finds in the context the kernel passes, how it describes an address and which bytes of
  code it prints, and the installation of the alternate stack. The lines are a datatype with the
  values printed in them; \<open>sceKernelVirtualQuery\<close>, the memory and the frames of the backtrace are
  arguments, the carve-outs those of the mapping interposer.
\<close>

unbundle bit_operations_syntax

section \<open>Uncaught exceptions\<close>

text \<open>The exception in flight, with its \<open>what()\<close>, as the handler's clauses tell them apart.\<close>

datatype exn =
    No_exception
  | System_error string
  | Runtime_error string
  | Logic_error string
  | Bad_alloc_exn string
  | Std_exception string
  | Non_std

text \<open>\<open>snprintf\<close> into \<open>n\<close> bytes.\<close>

definition cut :: "nat \<Rightarrow> string \<Rightarrow> string" where
  "cut n s = take (n - 1) s"

definition terminate_message :: "exn \<Rightarrow> string" where
  "terminate_message e =
     (case e of
        No_exception \<Rightarrow> ''std::terminate with no active exception''
      | System_error w \<Rightarrow> cut 512 (''std::system_error('' @ w @ '')'')
      | Runtime_error w \<Rightarrow> cut 512 (''std::runtime_error('' @ w @ '')'')
      | Logic_error w \<Rightarrow> cut 512 (''std::logic_error('' @ w @ '')'')
      | Bad_alloc_exn w \<Rightarrow> cut 512 (''std::bad_alloc('' @ w @ '')'')
      | Std_exception w \<Rightarrow>
          let msg = cut 512 ''std::exception('' in msg @ cut (512 - length msg) (w @ '')'')
      | Non_std \<Rightarrow> cut 512 ''a non-std exception'')"

text \<open>
  \<open>ps4TerminateHandler\<close>: the fatal line and the host's action, each with the handler it reaches, and
  the code the process ends with if that action returns.
\<close>

definition ps4TerminateHandler :: "exn \<Rightarrow> 'h log_state \<Rightarrow> ('h \<times> string) option \<times> ('h \<times> string) option \<times> int" where
  "ps4TerminateHandler e st =
     (orbis_log_fatal (''fatal: unhandled exception - '' @ terminate_message e) st,
      orbis_fatal_action ''terminate'' st, 1)"

lemma terminate_message_fits: "length (terminate_message e) < 512"
  by (cases e) (simp_all add: terminate_message_def cut_def)

lemma terminate_message_short:
  "length w < 480 \<Longrightarrow> terminate_message (Std_exception w) = ''std::exception('' @ w @ '')''"
  "length w < 480 \<Longrightarrow> terminate_message (Bad_alloc_exn w) = ''std::bad_alloc('' @ w @ '')''"
  by (simp_all add: terminate_message_def cut_def)

section \<open>Names\<close>

datatype sig = SIGSEGV | SIGBUS | SIGFPE | SIGILL | SIGABRT | Sig int

definition signalName :: "sig \<Rightarrow> string" where
  "signalName s =
     (case s of
        SIGSEGV \<Rightarrow> ''SIGSEGV (bad address)''
      | SIGBUS \<Rightarrow> ''SIGBUS (unaligned or unmapped)''
      | SIGFPE \<Rightarrow> ''SIGFPE''
      | SIGILL \<Rightarrow> ''SIGILL (illegal instruction)''
      | SIGABRT \<Rightarrow> ''SIGABRT''
      | Sig _ \<Rightarrow> ''?'')"

definition bsdErrnoName :: "int \<Rightarrow> string" where
  "bsdErrnoName e =
     (if e = 0 then ''no error''
      else if e = 1 then ''EPERM - already running on the alternate stack''
      else if e = 12 then ''ENOMEM - ss_size below MINSIGSTKSZ''
      else if e = 14 then ''EFAULT - the kernel could not read the stack_t we passed''
      else if e = 22 then ''EINVAL - a bit set in ss_flags that is not SS_DISABLE''
      else if e = 78 then ''ENOSYS - the kernel does not implement this call at all''
      else ''not in this file's table - decode against FreeBSD's errno.h, NOT Linux's'')"

section \<open>Addresses\<close>

text \<open>What \<open>sceKernelVirtualQuery\<close> fills in.\<close>

record vquery =
  v_start :: nat
  v_end :: nat
  v_prot :: u32
  v_direct :: bool
  v_flexible :: bool
  v_pooled :: bool
  v_stack :: bool
  v_committed :: bool
  v_name :: string

datatype fatal_line =
    Signal string int nat
  | No_siginfo string nat
  | Frame_row nat "u64 list"
  | No_frames
  | Registers u64 u64 u64
  | Trap u64 u64 u64 int
  | Not_mapped string nat
  | Mapping string nat nat nat u32 string string bool string
  | In_carve string mmap_span
  | Code nat bool "nat list"
  | No_selectors
  | Address_mismatch int u64
  | Raw_row nat "u64 list"

definition rwx_of :: "u32 \<Rightarrow> string" where
  "rwx_of prot =
     [if prot AND 1 \<noteq> 0 then CHR ''r'' else CHR ''-'',
      if prot AND 2 \<noteq> 0 then CHR ''w'' else CHR ''-'',
      if prot AND 4 \<noteq> 0 then CHR ''x'' else CHR ''-'']"

definition pool_of :: "vquery \<Rightarrow> string" where
  "pool_of q =
     (if v_direct q then ''direct'' else if v_flexible q then ''flexible'' else if v_pooled q then ''pooled''
      else if v_stack q then ''stack'' else ''other'')"

definition describeAddress :: "(nat \<Rightarrow> vquery option) \<Rightarrow> 'k mm_state \<Rightarrow> string \<Rightarrow> nat \<Rightarrow> fatal_line list" where
  "describeAddress vq mm what p =
     (case vq p of
        None \<Rightarrow> [Not_mapped what p]
      | Some q \<Rightarrow>
          Mapping what p (v_start q) (v_end q) (v_prot q) (rwx_of (v_prot q)) (pool_of q) (v_committed q)
            (c_string (v_name q)) #
          (case mmapDirectDescribe p mm of None \<Rightarrow> [] | Some sp \<Rightarrow> [In_carve what sp]))"

section \<open>Code at an address\<close>

function code_rows :: "memory \<Rightarrow> nat \<Rightarrow> nat \<Rightarrow> nat \<Rightarrow> fatal_line list" where
  "code_rows mem rip row hi =
     (if row < hi
      then Code row (rip \<ge> row \<and> rip < row + 16) (map mem [row..<min hi (row + 16)]) # code_rows mem rip (row + 16) hi
      else [])"
  by pat_completeness auto
termination by (relation "measure (\<lambda>(mem, rip, row, hi). hi - row)") auto

declare code_rows.simps [simp del]

definition dumpCodeAt :: "(nat \<Rightarrow> vquery option) \<Rightarrow> memory \<Rightarrow> nat \<Rightarrow> fatal_line list" where
  "dumpCodeAt vq mem p =
     (case vq p of
        None \<Rightarrow> []
      | Some q \<Rightarrow>
          if \<not> v_committed q \<or> v_prot q AND 1 = 0 then []
          else if p < v_start q \<or> p \<ge> v_end q then []
          else code_rows mem p (if p - v_start q \<ge> 16 then p - 16 else v_start q)
                 (if v_end q - p > 16 then p + 16 else v_end q))"

text \<open>The text of a row: three characters for each byte, the last one overwritten by the NUL.\<close>

definition code_text_length :: "nat list \<Rightarrow> nat" where
  "code_text_length bs = (if bs = [] then 0 else 3 * length bs - 1)"

section \<open>The context\<close>

definition context_words :: nat where "context_words = 96"

text \<open>The words of FreeBSD's \<open>mcontext_t\<close> the handler names.\<close>

definition MC_TRAPNO :: nat where "MC_TRAPNO = 16"
definition MC_ADDR :: nat where "MC_ADDR = 17"
definition MC_ERR :: nat where "MC_ERR = 19"
definition MC_RIP :: nat where "MC_RIP = 20"
definition MC_CS :: nat where "MC_CS = 21"
definition MC_RFLAGS :: nat where "MC_RFLAGS = 22"
definition MC_RSP :: nat where "MC_RSP = 23"
definition MC_SS :: nat where "MC_SS = 24"

lemmas mc_words = context_words_def MC_TRAPNO_def MC_ADDR_def MC_ERR_def MC_RIP_def MC_CS_def MC_RFLAGS_def
  MC_RSP_def MC_SS_def

text \<open>The loop that looks for the selectors; \<open>None\<close> is a read outside the context.\<close>

function find_mc_from :: "nat \<Rightarrow> u64 list \<Rightarrow> int option" where
  "find_mc_from i w =
     (if i + (MC_SS - MC_CS) < context_words then
        do { a \<leftarrow> rd w i;
             b \<leftarrow> (if a = 0x43 then rd w (i + (MC_SS - MC_CS)) else Some 0);
             if a = 0x43 \<and> b = 0x3b then Some (int i - int MC_CS) else find_mc_from (i + 1) w }
      else Some (-1))"
  by pat_completeness auto
termination by (relation "measure (\<lambda>(i, w). context_words - i)") (auto simp: mc_words)

declare find_mc_from.simps [simp del]

definition find_mc :: "u64 list \<Rightarrow> int option" where
  "find_mc w = find_mc_from MC_CS w"

definition raw_rows :: "u64 list \<Rightarrow> fatal_line list option" where
  "raw_rows w =
     (if length w < 64 then None
      else Some (map (\<lambda>b. Raw_row b [w ! b, w ! (b + 1), w ! (b + 2), w ! (b + 3)]) (map (\<lambda>k. 4 * k) [0..<16])))"

text \<open>\<open>si_addr\<close> is \<open>None\<close> when the second argument is no pointer.\<close>

definition context_lines ::
  "(nat \<Rightarrow> vquery option) \<Rightarrow> 'k mm_state \<Rightarrow> memory \<Rightarrow> u64 list \<Rightarrow> u64 option \<Rightarrow> fatal_line list option" where
  "context_lines vq mm mem w si_addr =
     do { mc \<leftarrow> find_mc w;
          addr_agrees \<leftarrow>
            (if mc \<ge> 0 \<and> si_addr \<noteq> None then do { a \<leftarrow> rd w (nat mc + MC_ADDR); Some (Some a = si_addr) } else Some False);
          if mc \<ge> 0 \<and> (addr_agrees \<or> si_addr = None) then
            do { rip \<leftarrow> rd w (nat mc + MC_RIP); rsp \<leftarrow> rd w (nat mc + MC_RSP); addr \<leftarrow> rd w (nat mc + MC_ADDR);
                 trapno \<leftarrow> rd w (nat mc + MC_TRAPNO); err \<leftarrow> rd w (nat mc + MC_ERR);
                 rflags \<leftarrow> rd w (nat mc + MC_RFLAGS);
                 Some ([Registers rip rsp addr, Trap (trapno AND 0xffffffff) err rflags mc] @
                   describeAddress vq mm ''rip'' (unat rip) @
                   (if addr \<noteq> 0 then describeAddress vq mm ''addr'' (unat addr) else []) @
                   dumpCodeAt vq mem (unat rip)) }
          else
            do { head \<leftarrow> (if mc < 0 then Some No_selectors
                          else do { a \<leftarrow> rd w (nat mc + MC_ADDR); Some (Address_mismatch mc a) });
                 rows \<leftarrow> raw_rows w;
                 Some (head # rows) } }"

section \<open>The handler\<close>

text \<open>Four frames to a line, zeros for those that are missing.\<close>

function frame_rows :: "nat \<Rightarrow> u64 list \<Rightarrow> fatal_line list" where
  "frame_rows i fs =
     (if fs = [] then []
      else Frame_row i (take 4 (fs @ [0, 0, 0])) # frame_rows (i + 4) (drop 4 fs))"
  by pat_completeness auto
termination by (relation "measure (\<lambda>(i, fs). length fs)") auto

declare frame_rows.simps [simp del]

text \<open>
  \<open>info\<close> is the address in the second argument and \<open>si\<close> the code and the address it holds; \<open>uctx\<close>
  is \<open>None\<close> for a null context. The lines and the code the process ends with, after the flag; a
  second entry says nothing. The result \<open>None\<close> is a read outside the context.
\<close>

definition ps4SignalAction ::
  "bool \<Rightarrow> sig \<Rightarrow> nat \<Rightarrow> int \<times> u64 \<Rightarrow> u64 list option \<Rightarrow> u64 list \<Rightarrow> (nat \<Rightarrow> vquery option) \<Rightarrow> 'k mm_state \<Rightarrow> memory \<Rightarrow>
   (fatal_line list \<times> bool \<times> int) option" where
  "ps4SignalAction reentered s info si uctx frames vq mm mem =
     (if reentered then Some ([], reentered, 2)
      else
        let is_ptr = (info \<ge> 0x4000);
            first = (if is_ptr then Signal (signalName s) (fst si) (unat (snd si)) else No_siginfo (signalName s) info);
            bt = (if frames \<noteq> [] then frame_rows 0 frames else [No_frames])
        in do { ctx \<leftarrow> (case uctx of None \<Rightarrow> Some [] | Some w \<Rightarrow> context_lines vq mm mem w (if is_ptr then Some (snd si) else None));
                Some (first # bt @ ctx, True, 2) })"

section \<open>Installation\<close>

datatype stack_order = All_zero | Bsd_order | Linux_order | Neither

definition stack_order :: "u64 list \<Rightarrow> stack_order" where
  "stack_order w =
     (let bsd = (w ! 2 \<le> 7 \<and> (w ! 1 = 0 \<or> w ! 1 = 64 * 1024));
          lin = (w ! 1 \<le> 7 \<and> (w ! 2 = 0 \<or> w ! 2 = 64 * 1024))
      in if w ! 0 = 0 \<and> w ! 1 = 0 \<and> w ! 2 = 0 then All_zero
         else if bsd \<and> \<not> lin then Bsd_order
         else if lin \<and> \<not> bsd then Linux_order
         else Neither)"

text \<open>
  The three calls about the alternate stack with the buffer at \<open>buf\<close>: the answers of the corrected
  call, of the one in the SDK's order, which is only made when the first is refused, and of the
  readback, and the structure read back.
\<close>

definition install_altstack :: "altstack_kernel \<Rightarrow> u64 \<Rightarrow> int \<times> int \<times> int \<times> stack_bsd" where
  "install_altstack kern buf =
     (let alt = \<lparr>ss_sp = buf, ss_flags = 0, ss_size = 64 * 1024\<rparr>;
          altRc = fst (orbis_sigaltstack kern (Some alt) None);
          legacyRc = (if altRc \<noteq> 0 then fst (kern (Some (bsd_of_words (sdk_words 0 alt))) None) else 0);
          (backRc, back) = kern None (Some stack_bsd_zero)
      in (altRc, legacyRc, backRc, case back of None \<Rightarrow> stack_bsd_zero | Some b \<Rightarrow> b))"

text \<open>The flags of \<open>sigaction\<close> as this kernel reads them.\<close>

definition SA_ONSTACK :: u32 where "SA_ONSTACK = 0x0001"
definition SA_RESTART :: u32 where "SA_RESTART = 0x0002"
definition SA_RESETHAND :: u32 where "SA_RESETHAND = 0x0004"
definition SA_NOCLDSTOP :: u32 where "SA_NOCLDSTOP = 0x0008"
definition SA_NODEFER :: u32 where "SA_NODEFER = 0x0010"
definition SA_NOCLDWAIT :: u32 where "SA_NOCLDWAIT = 0x0020"
definition SA_SIGINFO :: u32 where "SA_SIGINFO = 0x0040"

text \<open>
  What the process has installed: the terminate handler, and for each signal the flags its handler
  \<open>ps4SignalAction\<close> was installed with.
\<close>

record dispositions =
  on_terminate :: bool
  on_signal :: "sig \<Rightarrow> u32 option"

definition install_action :: "(sig \<Rightarrow> int) \<Rightarrow> u32 \<Rightarrow> sig \<Rightarrow> dispositions \<Rightarrow> dispositions" where
  "install_action sigaction flags s d =
     (if sigaction s = 0 then d\<lparr>on_signal := (on_signal d)(s \<mapsto> flags)\<rparr> else d)"

text \<open>The lines: answers, errnos, their names, the words read back and the verdict on them.\<close>

datatype install_line =
    Handlers_installed int int int string bool
  | Readback int int "u64 list" stack_bsd stack_order
  | Legacy_probe int int string

text \<open>
  \<open>installCrashHandlers\<close>: \<open>sigaction\<close> is the answer for each signal, \<open>errs\<close> the errno after each of
  the three calls about the stack, which the code clears before them.
\<close>

definition installCrashHandlers ::
  "altstack_kernel \<Rightarrow> (sig \<Rightarrow> int) \<Rightarrow> u64 \<Rightarrow> int \<times> int \<times> int \<Rightarrow> dispositions \<Rightarrow> install_line list \<times> dispositions" where
  "installCrashHandlers kern sigaction buf errs d =
     (let (altErr, legacyErr, backErr) = errs;
          d = d\<lparr>on_terminate := True\<rparr>;
          (altRc, legacyRc, backRc, back) = install_altstack kern buf;
          flags = SA_SIGINFO OR SA_ONSTACK;
          segvRc = sigaction SIGSEGV;
          d = fold (install_action sigaction flags) [SIGSEGV, SIGBUS, SIGFPE, SIGILL, SIGABRT] d
      in ([Handlers_installed segvRc altRc altErr (bsdErrnoName altErr) (altRc = 0),
           Readback backRc backErr (bsd_words back) back (stack_order (bsd_words back))] @
          (if altRc \<noteq> 0 then [Legacy_probe legacyRc legacyErr (bsdErrnoName legacyErr)] else []),
          d))"

text \<open>\<open>probeCtype\<close>: the verdict on the four conversions.\<close>

definition probeCtype :: "(int \<Rightarrow> int) \<Rightarrow> (int \<Rightarrow> int) \<Rightarrow> bool" where
  "probeCtype tolower toupper = (tolower 65 = 97 \<and> tolower 90 = 122 \<and> toupper 97 = 65 \<and> toupper 122 = 90)"

end
