(* ===== verification/Crash_Props.thy ===== *)
theory Crash_Props
  imports Crash
begin

text \<open>
  What the crash report relies on: the code window stays inside a readable mapping and its rows fit
  their line, the search for the context stays inside it and finds the first pair of selectors, the
  handler runs once, and the two field orders of an alternate stack cannot be taken for each other.
\<close>

unbundle bit_operations_syntax

text \<open>Intervals are kept as they are.\<close>

declare upt_rec_numeral [simp del]

section \<open>The code window\<close>

fun line_bytes :: "fatal_line \<Rightarrow> nat list" where
  "line_bytes (Code a here bs) = bs"
| "line_bytes _ = []"

lemma upt_split_min: "row < hi \<Longrightarrow> [row..<min hi (row + 16)] @ [row + 16..<hi] = [row..<hi::nat]"
  using upt_add_eq_append [of row "row + 16" "hi - (row + 16)"] by (cases "row + 16 \<le> hi") (auto simp: min_def)

lemma code_rows_bytes: "concat (map line_bytes (code_rows mem rip row hi)) = map mem [row..<hi]"
proof (induction mem rip row hi rule: code_rows.induct)
  case (1 mem rip row hi)
  show ?case
  proof (cases "row < hi")
    case True
    have "map mem [row..<min hi (row + 16)] @ map mem [row + 16..<hi] = map mem [row..<hi]"
      using upt_split_min [OF True] by (metis map_append)
    with 1 True show ?thesis by (simp add: code_rows.simps [of mem rip row hi])
  qed (simp add: code_rows.simps [of mem rip row hi])
qed

lemma code_rows_fit:
  "Code a here bs \<in> set (code_rows mem rip row hi) \<Longrightarrow> code_text_length bs + 1 \<le> 3 * 16 + 1"
proof (induction mem rip row hi rule: code_rows.induct)
  case (1 mem rip row hi)
  then show ?case
    by (subst (asm) (2) code_rows.simps) (auto simp: code_text_length_def split: if_splits)
qed

text \<open>
  Every byte printed lies in the mapping, which is committed and readable, the address itself among
  them, and there are at most 32.
\<close>

lemma dumpCodeAt_window:
  assumes "dumpCodeAt vq mem p \<noteq> []"
  obtains q lo hi where "vq p = Some q" "v_committed q" "v_prot q AND 1 \<noteq> 0" "v_start q \<le> lo" "lo \<le> p" "p < hi"
    "hi \<le> v_end q" "hi - lo \<le> 32" "concat (map line_bytes (dumpCodeAt vq mem p)) = map mem [lo..<hi]"
proof -
  from assms obtain q where q: "vq p = Some q" "v_committed q" "v_prot q AND 1 \<noteq> 0" "v_start q \<le> p" "p < v_end q"
    by (auto simp: dumpCodeAt_def split: option.splits if_splits)
  let ?lo = "if p - v_start q \<ge> 16 then p - 16 else v_start q"
  let ?hi = "if v_end q - p > 16 then p + 16 else v_end q"
  have "dumpCodeAt vq mem p = code_rows mem p ?lo ?hi" using q by (simp add: dumpCodeAt_def)
  then have "concat (map line_bytes (dumpCodeAt vq mem p)) = map mem [?lo..<?hi]" by (simp only: code_rows_bytes)
  moreover have "v_start q \<le> ?lo" "?lo \<le> p" "p < ?hi" "?hi \<le> v_end q" "?hi - ?lo \<le> 32" using q by auto
  ultimately show ?thesis using that [of q ?lo ?hi] q by blast
qed

section \<open>The context\<close>

lemma find_mc_from_find:
  "context_words \<le> length w \<Longrightarrow>
   find_mc_from i w =
    (case find (\<lambda>k. w ! k = 0x43 \<and> w ! (k + 3) = 0x3b) [i..<context_words - 3] of
       None \<Rightarrow> Some (-1) | Some k \<Rightarrow> Some (int k - int MC_CS))"
proof (induction i w rule: find_mc_from.induct)
  case (1 i w)
  show ?case
  proof (cases "i + 3 < context_words")
    case True
    then have "i < length w" "i + 3 < length w" "[i..<context_words - 3] = i # [i + 1..<context_words - 3]"
      using 1(2) by (auto simp: upt_conv_Cons)
    with True 1 show ?thesis
      by (simp add: find_mc_from.simps [of i w] mc_words)
  qed (simp add: find_mc_from.simps [of i w] mc_words)
qed

text \<open>
  With a context of 96 words the search reads nothing outside it. It finds the first position whose
  words are the two selectors, from which every named field is inside the context, or none.
\<close>

lemma find_mc_first:
  assumes "context_words \<le> length w"
  shows "(\<exists>mc. find_mc w = Some (int mc) \<and> mc + MC_SS < context_words \<and> w ! (mc + MC_CS) = 0x43 \<and>
             w ! (mc + MC_SS) = 0x3b \<and> (\<forall>k<mc. \<not> (w ! (k + MC_CS) = 0x43 \<and> w ! (k + MC_SS) = 0x3b))) \<or>
         (find_mc w = Some (-1) \<and> (\<forall>k. k + MC_SS < context_words \<longrightarrow> \<not> (w ! (k + MC_CS) = 0x43 \<and> w ! (k + MC_SS) = 0x3b)))"
proof (cases "find (\<lambda>k. w ! k = 0x43 \<and> w ! (k + 3) = 0x3b) [MC_CS..<context_words - 3]")
  case None
  then have "find_mc w = Some (-1)" using find_mc_from_find [OF assms] by (simp add: find_mc_def)
  moreover have "\<not> (w ! (k + MC_CS) = 0x43 \<and> w ! (k + MC_SS) = 0x3b)" if "k + MC_SS < context_words" for k
  proof -
    have "\<forall>x\<in>set [MC_CS..<context_words - 3]. \<not> (w ! x = 0x43 \<and> w ! (x + 3) = 0x3b)"
      using None by (simp only: find_None_iff) blast
    moreover have "k + MC_CS \<in> set [MC_CS..<context_words - 3]" "k + MC_CS + 3 = k + MC_SS"
      using that by (auto simp: mc_words)
    ultimately show ?thesis by metis
  qed
  ultimately show ?thesis by blast
next
  case (Some k)
  then obtain j where j: "j < length [MC_CS..<context_words - 3]" "k = [MC_CS..<context_words - 3] ! j"
      "w ! k = 0x43" "w ! (k + 3) = 0x3b"
      "\<And>j'. j' < j \<Longrightarrow> \<not> (w ! ([MC_CS..<context_words - 3] ! j') = 0x43 \<and> w ! ([MC_CS..<context_words - 3] ! j' + 3) = 0x3b)"
    by (auto simp: find_Some_iff)
  have k: "k = MC_CS + j" using j(1,2) by simp
  have "find_mc w = Some (int j)"
    using find_mc_from_find [OF assms, of MC_CS] Some k by (simp add: find_mc_def)
  moreover have "\<not> (w ! (i + MC_CS) = 0x43 \<and> w ! (i + MC_SS) = 0x3b)" if "i < j" for i
    using j(5) [OF that] j(1) that by (simp add: mc_words add.commute)
  ultimately show ?thesis using j(1,3,4) k by (auto simp: mc_words add.commute)
qed

lemma context_lines_defined:
  assumes "context_words \<le> length w"
  shows "\<exists>ls. context_lines vq mm mem w sa = Some ls"
proof -
  have fields: "rd w (mc + n) = Some (w ! (mc + n))" if "mc + MC_SS < context_words" "n \<le> MC_SS" for mc n
    using that assms by simp
  have rows: "raw_rows w \<noteq> None" using assms by (simp add: raw_rows_def mc_words)
  show ?thesis
    using find_mc_first [OF assms]
  proof (elim disjE exE conjE)
    fix mc assume mc: "find_mc w = Some (int mc)" "mc + MC_SS < context_words"
    have rds: "rd w (mc + MC_ADDR) \<noteq> None" "rd w (mc + MC_RIP) \<noteq> None" "rd w (mc + MC_RSP) \<noteq> None"
      "rd w (mc + MC_TRAPNO) \<noteq> None" "rd w (mc + MC_ERR) \<noteq> None" "rd w (mc + MC_RFLAGS) \<noteq> None"
      using fields [OF mc(2)] by (simp_all add: mc_words)
    then show ?thesis using mc(1) rows by (auto simp: context_lines_def)
  qed (use rows in \<open>auto simp: context_lines_def\<close>)
qed

text \<open>The first place where the two selectors stand three words apart.\<close>

definition first_selectors :: "u64 list \<Rightarrow> nat \<Rightarrow> bool" where
  "first_selectors w mc \<longleftrightarrow> mc + MC_SS < context_words \<and> w ! (mc + MC_CS) = 0x43 \<and> w ! (mc + MC_SS) = 0x3b \<and>
     (\<forall>k<mc. \<not> (w ! (k + MC_CS) = 0x43 \<and> w ! (k + MC_SS) = 0x3b))"

lemma find_mc_selectors:
  assumes "context_words \<le> length w"
  shows "find_mc w = Some (int mc) \<longleftrightarrow> first_selectors w mc"
proof
  assume "find_mc w = Some (int mc)"
  then show "first_selectors w mc" using find_mc_first [OF assms] by (auto simp: first_selectors_def)
next
  assume f: "first_selectors w mc"
  from find_mc_first [OF assms] show "find_mc w = Some (int mc)"
  proof (elim disjE exE conjE)
    fix m assume m: "find_mc w = Some (int m)" "w ! (m + MC_CS) = 0x43" "w ! (m + MC_SS) = 0x3b"
      "\<forall>k<m. \<not> (w ! (k + MC_CS) = 0x43 \<and> w ! (k + MC_SS) = 0x3b)"
    then have "m = mc" using f unfolding first_selectors_def by (meson nat_neq_iff)
    then show ?thesis using m(1) by simp
  qed (use f in \<open>auto simp: first_selectors_def\<close>)
qed

text \<open>
  The registers are printed under their names exactly when the selectors are found and the word at
  the fault address's place is the address of \<open>siginfo\<close>, if there is one.
\<close>

lemma registers_iff:
  assumes "context_lines vq mm mem w sa = Some ls" "context_words \<le> length w"
  shows "Registers rip rsp addr \<in> set ls \<longleftrightarrow>
    (\<exists>mc. first_selectors w mc \<and> rip = w ! (mc + MC_RIP) \<and> rsp = w ! (mc + MC_RSP) \<and> addr = w ! (mc + MC_ADDR) \<and>
      (sa = None \<or> sa = Some addr))"
proof -
  have raw: "Registers rip rsp addr \<notin> set rs" if "raw_rows w = Some rs" for rs
  proof -
    have "rs = map (\<lambda>b. Raw_row b [w ! b, w ! (b + 1), w ! (b + 2), w ! (b + 3)]) (map (\<lambda>k. 4 * k) [0..<16])"
      using that by (simp add: raw_rows_def split: if_splits)
    then show ?thesis by auto
  qed
  have d: "Registers rip rsp addr \<notin> set (describeAddress vq mm s p)" for s p
    by (auto simp: describeAddress_def split: option.splits)
  have c: "Registers rip rsp addr \<notin> set (code_rows mem r lo hi)" for r lo hi
  proof (induction mem r lo hi rule: code_rows.induct)
    case (1 mem r lo hi)
    then show ?case by (simp add: code_rows.simps [of mem r lo hi])
  qed
  have dc: "Registers rip rsp addr \<notin> set (dumpCodeAt vq mem p)" for p
    using c by (auto simp: dumpCodeAt_def split: option.splits)
  show ?thesis
  proof (cases "\<exists>mc. first_selectors w mc")
    case True
    then obtain mc where mc: "find_mc w = Some (int mc)" "first_selectors w mc" "mc + MC_SS < context_words"
      using find_mc_selectors [OF assms(2)] by (auto simp: first_selectors_def)
    have uniq: "first_selectors w m \<longleftrightarrow> m = mc" for m using mc(1) find_mc_selectors [OF assms(2), of m] by auto
    have r: "rd w (mc + n) = Some (w ! (mc + n))" if "n \<le> MC_SS" for n using that mc(3) assms(2) by simp
    have rs: "rd w (mc + MC_ADDR) = Some (w ! (mc + MC_ADDR))" "rd w (mc + MC_RIP) = Some (w ! (mc + MC_RIP))"
      "rd w (mc + MC_RSP) = Some (w ! (mc + MC_RSP))" by (rule r; simp add: mc_words)+
    show ?thesis
    proof (cases "sa = None \<or> sa = Some (w ! (mc + MC_ADDR))")
      case True
      then show ?thesis using assms(1) rs d dc unfolding uniq
        by (auto simp: context_lines_def bind_eq_Some_conv mc(1))
    next
      case False
      then show ?thesis using assms(1) rs raw unfolding uniq
        by (auto simp: context_lines_def bind_eq_Some_conv mc(1))
    qed
  next
    case False
    then have "find_mc w = Some (-1)"
      using find_mc_first [OF assms(2)] find_mc_selectors [OF assms(2)] by blast
    then show ?thesis using assms(1) raw False by (auto simp: context_lines_def bind_eq_Some_conv)
  qed
qed

section \<open>The handler\<close>

lemma frame_rows_Nil [simp]: "frame_rows i [] = []"
  by (subst frame_rows.simps) simp

lemma frame_rows_step:
  "fs \<noteq> [] \<Longrightarrow> frame_rows i fs = Frame_row i (take 4 (fs @ [0, 0, 0])) # frame_rows (i + 4) (drop 4 fs)"
  by (subst frame_rows.simps) simp

lemma frame_rows_frames:
  "concat (map (\<lambda>l. case l of Frame_row i ws \<Rightarrow> ws | _ \<Rightarrow> []) (frame_rows i fs)) =
   fs @ take ((4 - length fs mod 4) mod 4) [0, 0, 0]"
proof (induction i fs rule: frame_rows.induct)
  case (1 i fs)
  show ?case
  proof (cases "length fs < 4")
    case True
    then consider "fs = []" | a where "fs = [a]" | a b where "fs = [a, b]" | a b c where "fs = [a, b, c]"
    proof -
      from True have "length fs = 0 \<or> length fs = 1 \<or> length fs = 2 \<or> length fs = 3" by linarith
      then show ?thesis using that by (auto simp: length_Suc_conv numeral_2_eq_2 numeral_3_eq_3)
    qed
    then show ?thesis
    proof cases
      case (2 a)
      then show ?thesis using frame_rows_step [of "[a]" i] by simp
    next
      case (3 a b)
      then show ?thesis using frame_rows_step [of "[a, b]" i] by simp
    next
      case (4 a b c)
      then show ?thesis using frame_rows_step [of "[a, b, c]" i] by simp
    qed simp
  next
    case False
    then have "fs \<noteq> []" "length (drop 4 fs) mod 4 = length fs mod 4" by (auto simp: le_mod_geq)
    with 1 False show ?thesis by (simp add: frame_rows_step [of fs i])
  qed
qed

text \<open>The handler says something once, and a fault inside it ends the process without another line.\<close>

lemma handler_once:
  assumes "uctx = None \<or> (\<exists>w. uctx = Some w \<and> context_words \<le> length w)"
  shows "\<exists>ls. ps4SignalAction False s info si uctx frames vq mm mem = Some (ls, True, 2) \<and> ls \<noteq> []"
    and "ps4SignalAction True s info si uctx frames vq mm mem = Some ([], True, 2)"
proof -
  have "\<exists>ls. (case uctx of None \<Rightarrow> Some [] | Some w \<Rightarrow> context_lines vq mm mem w sa) = Some ls" for sa
    using assms context_lines_defined by (auto split: option.splits)
  then obtain ls where "(case uctx of None \<Rightarrow> Some []
      | Some w \<Rightarrow> context_lines vq mm mem w (if info \<ge> 0x4000 then Some (snd si) else None)) = Some ls" by blast
  then show "\<exists>ls. ps4SignalAction False s info si uctx frames vq mm mem = Some (ls, True, 2) \<and> ls \<noteq> []"
    by (simp add: ps4SignalAction_def Let_def)
  show "ps4SignalAction True s info si uctx frames vq mm mem = Some ([], True, 2)"
    by (simp add: ps4SignalAction_def)
qed

section \<open>The alternate stack\<close>

text \<open>An installed stack is recognised in either order, whatever its buffer, and so is none at all.\<close>

lemma stack_order_installed:
  assumes "bf \<noteq> 0" and "fl \<le> 7"
  shows "stack_order [bf, 64 * 1024, fl] = Bsd_order" and "stack_order [bf, fl, 64 * 1024] = Linux_order"
  using assms by (auto simp: stack_order_def Let_def word_le_nat_alt)

lemma stack_order_disabled:
  "stack_order [0, 0, 4] = Bsd_order" "stack_order [0, 2, 0] = Linux_order" "stack_order [0, 0, 0] = All_zero"
  by (simp_all add: stack_order_def)

text \<open>
  A kernel that refuses unknown flags refuses the SDK's order, whose size it reads as the flags; so
  when the probe in that order is made and accepted, the order was the right one.
\<close>

lemma legacy_refused:
  assumes "\<And>b. bsd_flags b AND NOT 4 \<noteq> 0 \<Longrightarrow> fst (kern (Some b) None) \<noteq> 0"
    and "install_altstack kern buf = (altRc, legacyRc, rest)" and "altRc \<noteq> 0"
  shows "legacyRc \<noteq> 0"
proof -
  have "fst (kern (Some (bsd_of_words (sdk_words 0 \<lparr>ss_sp = buf, ss_flags = 0, ss_size = 64 * 1024\<rparr>))) None) \<noteq> 0"
    by (rule assms(1)) (simp add: sdk_layout_misread)
  with assms(2,3) show ?thesis by (auto simp: install_altstack_def Let_def split: prod.splits)
qed

text \<open>
  Where the kernel accepts them, all five signals get the handler with its three-argument form on
  the alternate stack, flags that do not reset it; a refusal leaves the signal's disposition alone.
\<close>

lemma installed_everywhere:
  assumes "\<And>s. s \<in> {SIGSEGV, SIGBUS, SIGFPE, SIGILL, SIGABRT} \<Longrightarrow> sigaction s = 0"
  shows "on_terminate (snd (installCrashHandlers kern sigaction buf errs d))"
    and "on_signal (snd (installCrashHandlers kern sigaction buf errs d)) =
      (\<lambda>s. if s \<in> {SIGSEGV, SIGBUS, SIGFPE, SIGILL, SIGABRT} then Some 0x41 else on_signal d s)"
  using assms
  by (auto simp: installCrashHandlers_def install_action_def SA_SIGINFO_def SA_ONSTACK_def Let_def fun_eq_iff split: prod.splits)

lemma refused_keeps:
  assumes "sigaction s \<noteq> 0"
  shows "on_signal (snd (installCrashHandlers kern sigaction buf errs d)) s = on_signal d s"
  using assms by (auto simp: installCrashHandlers_def install_action_def Let_def split: prod.splits)

lemma legacy_probed:
  "length (fst (installCrashHandlers kern sigaction buf errs d)) =
    (if fst (install_altstack kern buf) \<noteq> 0 then 3 else 2)"
  by (auto simp: installCrashHandlers_def Let_def split: prod.splits)

section \<open>The report\<close>

lemma code_rows_inside:
  "Code a here bs \<in> set (code_rows mem rip row hi) \<Longrightarrow>
   row \<le> a \<and> a + length bs \<le> hi \<and> bs = map mem [a..<a + length bs] \<and> length bs \<le> 16"
proof (induction mem rip row hi rule: code_rows.induct)
  case (1 mem rip row hi)
  show ?case
  proof (cases "row < hi \<and> Code a here bs \<in> set (code_rows mem rip (row + 16) hi)")
    case True
    then show ?thesis using 1(1) by auto
  next
    case False
    then have "row < hi" "a = row" "bs = map mem [row..<min hi (row + 16)]"
      using 1(2) by (auto simp: code_rows.simps [of mem rip row hi] split: if_splits)
    then show ?thesis by (auto simp: min_def)
  qed
qed

definition readable :: "(nat \<Rightarrow> vquery option) \<Rightarrow> nat \<Rightarrow> nat \<Rightarrow> bool" where
  "readable vq lo hi = (\<exists>p q. vq p = Some q \<and> v_committed q \<and> v_prot q AND 1 \<noteq> 0 \<and> v_start q \<le> lo \<and> hi \<le> v_end q)"

lemma dumpCodeAt_inside:
  assumes "Code a here bs \<in> set (dumpCodeAt vq mem p)"
  shows "readable vq a (a + length bs) \<and> bs = map mem [a..<a + length bs]"
proof -
  have "dumpCodeAt vq mem p \<noteq> []" using assms by auto
  then obtain q lo hi where w: "vq p = Some q" "v_committed q" "v_prot q AND 1 \<noteq> 0" "v_start q \<le> lo" "lo \<le> p" "p < hi"
    "hi \<le> v_end q" by (rule dumpCodeAt_window)
  then have q: "vq p = Some q" "v_committed q" "v_prot q AND 1 \<noteq> 0" "v_start q \<le> p" "p < v_end q" by auto
  let ?lo = "if p - v_start q \<ge> 16 then p - 16 else v_start q"
  let ?hi = "if v_end q - p > 16 then p + 16 else v_end q"
  have c: "Code a here bs \<in> set (code_rows mem p ?lo ?hi)" using assms q by (simp add: dumpCodeAt_def)
  have "v_start q \<le> ?lo" "?hi \<le> v_end q" using q by auto
  then show ?thesis using code_rows_inside [OF c] q unfolding readable_def by (meson order_trans)
qed

lemma context_code:
  assumes "context_lines vq mm mem w sa = Some ls" and "Code a here bs \<in> set ls"
  shows "readable vq a (a + length bs) \<and> bs = map mem [a..<a + length bs]"
proof -
  have raw: "Code a here bs \<notin> set rs" if "raw_rows w = Some rs" for rs
  proof -
    have "rs = map (\<lambda>b. Raw_row b [w ! b, w ! (b + 1), w ! (b + 2), w ! (b + 3)]) (map (\<lambda>k. 4 * k) [0..<16])"
      using that by (simp add: raw_rows_def split: if_splits)
    then show ?thesis by auto
  qed
  have d: "Code a here bs \<notin> set (describeAddress vq mm s p)" for s p
    by (auto simp: describeAddress_def split: option.splits)
  have "\<exists>p. Code a here bs \<in> set (dumpCodeAt vq mem p)"
    using assms raw d by (auto simp: context_lines_def bind_eq_Some_conv split: if_splits)
  then show ?thesis using dumpCodeAt_inside by blast
qed

lemma frame_rows_only: "l \<in> set (frame_rows i fs) \<Longrightarrow> \<exists>k ws. l = Frame_row k ws"
proof (induction i fs rule: frame_rows.induct)
  case (1 i fs)
  then show ?case by (cases "fs = []") (auto simp: frame_rows_step [of fs i])
qed

text \<open>
  C39. The crash report of a signal with a context of 96 words is always produced and the process then
  ends with code 2. Every byte of code in it was read inside a mapping the kernel calls committed
  and readable and is the byte of memory at the address printed. Registers are printed under their
  names exactly when the two selectors stand in the context at their distance, with the words at
  their places behind the first such pair, and - when the handler was given a \<open>siginfo\<close> - the fault
  address among them is the one of \<open>siginfo\<close>; without a \<open>siginfo\<close> the selectors alone decide. A
  second fault while reporting ends the process without another read.
\<close>

theorem crash_report_reads_inside:
  assumes "context_words \<le> length w"
  shows "\<exists>ls. ps4SignalAction False s info si (Some w) frames vq mm mem = Some (ls, True, 2) \<and> ls \<noteq> [] \<and>
      (\<forall>a here bs. Code a here bs \<in> set ls \<longrightarrow> readable vq a (a + length bs) \<and> bs = map mem [a..<a + length bs]) \<and>
      (\<forall>rip rsp addr. Registers rip rsp addr \<in> set ls \<longleftrightarrow>
         (\<exists>mc. first_selectors w mc \<and> rip = w ! (mc + MC_RIP) \<and> rsp = w ! (mc + MC_RSP) \<and> addr = w ! (mc + MC_ADDR) \<and>
           (info < 0x4000 \<or> addr = snd si))) \<and>
      ps4SignalAction True s info si (Some w) frames vq mm mem = Some ([], True, 2)"
proof -
  let ?sa = "if info \<ge> 0x4000 then Some (snd si) else None"
  obtain ctx where ctx: "context_lines vq mm mem w ?sa = Some ctx" using context_lines_defined [OF assms] by blast
  let ?first = "if info \<ge> 0x4000 then Signal (signalName s) (fst si) (unat (snd si)) else No_siginfo (signalName s) info"
  let ?bt = "if frames \<noteq> [] then frame_rows 0 frames else [No_frames]"
  have bt: "(\<exists>k ws. l = Frame_row k ws) \<or> l = No_frames" if "l \<in> set ?bt" for l
    using that frame_rows_only [of l 0 frames] by (auto split: if_splits)
  show ?thesis
  proof (intro exI [of _ "?first # ?bt @ ctx"] conjI allI impI)
    show "ps4SignalAction False s info si (Some w) frames vq mm mem = Some (?first # ?bt @ ctx, True, 2)"
      using ctx by (simp add: ps4SignalAction_def Let_def)
    show "ps4SignalAction True s info si (Some w) frames vq mm mem = Some ([], True, 2)"
      by (simp add: ps4SignalAction_def)
    fix a here bs assume "Code a here bs \<in> set (?first # ?bt @ ctx)"
    then have "Code a here bs \<in> set ctx" using bt [of "Code a here bs"] by (auto split: if_splits)
    then show "readable vq a (a + length bs)" "bs = map mem [a..<a + length bs]" using context_code [OF ctx] by blast+
  next
    fix rip rsp addr
    have "Registers rip rsp addr \<in> set (?first # ?bt @ ctx) \<longleftrightarrow> Registers rip rsp addr \<in> set ctx"
      using bt [of "Registers rip rsp addr"] by (auto split: if_splits)
    then show "Registers rip rsp addr \<in> set (?first # ?bt @ ctx) \<longleftrightarrow>
        (\<exists>mc. first_selectors w mc \<and> rip = w ! (mc + MC_RIP) \<and> rsp = w ! (mc + MC_RSP) \<and> addr = w ! (mc + MC_ADDR) \<and>
          (info < 0x4000 \<or> addr = snd si))"
      using registers_iff [OF ctx assms, of rip rsp addr] by (auto split: if_splits)
  qed simp
qed

definition demo_context :: "u64 list" where
  "demo_context = (replicate 96 0)[25 := 0x1000, 28 := 0x2000, 29 := 0x43, 32 := 0x3b]"

theorem crash_report_reads_inside_witness:
  "\<exists>ls. ps4SignalAction False SIGSEGV 0x8000 (1, 0x1000) (Some demo_context) [1, 2, 3, 4, 5] (\<lambda>_. None) (mm_init (\<lambda>_. 0) ()) (\<lambda>_. 0) =
     Some (ls, True, 2) \<and> Registers 0x2000 0 0x1000 \<in> set ls"
proof -
  let ?w = demo_context
  have "first_selectors ?w 8"
    unfolding first_selectors_def by (auto simp: demo_context_def mc_words nth_list_update)
  moreover have "context_words \<le> length ?w" "?w ! (8 + MC_RIP) = 0x2000" "?w ! (8 + MC_RSP) = 0" "?w ! (8 + MC_ADDR) = 0x1000"
    by (simp_all add: demo_context_def mc_words)
  ultimately show ?thesis
    using crash_report_reads_inside [where w = ?w and s = SIGSEGV and info = "0x8000" and si = "(1, 0x1000)" and
      frames = "[1, 2, 3, 4, 5]" and vq = "\<lambda>_. None" and mm = "mm_init (\<lambda>_. 0) ()" and mem = "\<lambda>_. 0"]
    by (metis snd_conv)
qed

end
