(* ===== verification/Crt.thy ===== *)
theory Crt
  imports Prelude
begin

text \<open>
  The start files: the parameter blocks of \<open>crt/orbis_sce_params.h\<close> that \<open>crt/orbis_crt1.c\<close> and
  \<open>crt/orbis_crtlib.c\<close> fill in, as the bytes the loader reads, the entry point, and the walk over
  the initialisers of a module. A pointer is the address it holds.
\<close>

type_synonym ptr = nat

record libc_param =
  lp_size :: nat
  lp_unknown_08 :: nat
  lp_unknown_0c :: nat
  lp_heap_size :: ptr
  lp_unknown_18 :: ptr
  lp_heap_extended_alloc :: ptr
  lp_unknown_28 :: ptr
  lp_malloc_replace :: ptr
  lp_new_replace :: ptr
  lp_unknown_40 :: "ptr list"
  lp_malloc_replace_for_tls :: ptr
  lp_unknown_68 :: "ptr list"

text \<open>The three replacement tables have one shape and differ in the number of entries.\<close>

record replace_table =
  rt_size :: nat
  rt_version :: nat
  rt_entry :: "ptr list"

record kernel_mem_param =
  km_size :: nat
  km_unknown_08 :: "ptr list"

record kernel_fs_param =
  kf_size :: nat
  kf_unknown_08 :: ptr

record process_param =
  pp_size :: nat
  pp_magic :: nat
  pp_entry_count :: nat
  pp_sdk_version :: nat
  pp_unknown_14 :: nat
  pp_unknown_18 :: "ptr list"
  pp_libc_param :: ptr
  pp_kernel_mem_param :: ptr
  pp_kernel_fs_param :: ptr

record module_param =
  mp_size :: nat
  mp_magic :: nat
  mp_sdk_version :: nat

section \<open>Bytes\<close>

abbreviation u32_bytes :: "nat \<Rightarrow> nat list" where "u32_bytes \<equiv> le_bytes 4"
abbreviation u64_bytes :: "nat \<Rightarrow> nat list" where "u64_bytes \<equiv> le_bytes 8"

definition ptrs_bytes :: "ptr list \<Rightarrow> nat list" where
  "ptrs_bytes ps = concat (map u64_bytes ps)"

definition libc_param_bytes :: "libc_param \<Rightarrow> nat list" where
  "libc_param_bytes p =
     u64_bytes (lp_size p) @ u32_bytes (lp_unknown_08 p) @ u32_bytes (lp_unknown_0c p) @
     u64_bytes (lp_heap_size p) @ u64_bytes (lp_unknown_18 p) @ u64_bytes (lp_heap_extended_alloc p) @
     u64_bytes (lp_unknown_28 p) @ u64_bytes (lp_malloc_replace p) @ u64_bytes (lp_new_replace p) @
     ptrs_bytes (lp_unknown_40 p) @ u64_bytes (lp_malloc_replace_for_tls p) @ ptrs_bytes (lp_unknown_68 p)"

definition replace_table_bytes :: "replace_table \<Rightarrow> nat list" where
  "replace_table_bytes t = u64_bytes (rt_size t) @ u64_bytes (rt_version t) @ ptrs_bytes (rt_entry t)"

definition kernel_mem_param_bytes :: "kernel_mem_param \<Rightarrow> nat list" where
  "kernel_mem_param_bytes p = u64_bytes (km_size p) @ ptrs_bytes (km_unknown_08 p)"

definition kernel_fs_param_bytes :: "kernel_fs_param \<Rightarrow> nat list" where
  "kernel_fs_param_bytes p = u64_bytes (kf_size p) @ u64_bytes (kf_unknown_08 p)"

definition process_param_bytes :: "process_param \<Rightarrow> nat list" where
  "process_param_bytes p =
     u64_bytes (pp_size p) @ u32_bytes (pp_magic p) @ u32_bytes (pp_entry_count p) @
     u32_bytes (pp_sdk_version p) @ u32_bytes (pp_unknown_14 p) @ ptrs_bytes (pp_unknown_18 p) @
     u64_bytes (pp_libc_param p) @ u64_bytes (pp_kernel_mem_param p) @ u64_bytes (pp_kernel_fs_param p)"

definition module_param_bytes :: "module_param \<Rightarrow> nat list" where
  "module_param_bytes p = u64_bytes (mp_size p) @ u64_bytes (mp_magic p) @ u64_bytes (mp_sdk_version p)"

section \<open>The blocks of an executable and of a module\<close>

definition ORBIS_PROCESS_PARAM_MAGIC :: nat where "ORBIS_PROCESS_PARAM_MAGIC = 0x4942524f"
definition ORBIS_MODULE_PARAM_MAGIC :: nat where "ORBIS_MODULE_PARAM_MAGIC = 0x13c13f4bf"

definition sceLibcMallocReplace :: replace_table where
  "sceLibcMallocReplace = \<lparr>rt_size = 0x70, rt_version = 1, rt_entry = replicate 12 0\<rparr>"

definition sceLibcNewReplace :: replace_table where
  "sceLibcNewReplace = \<lparr>rt_size = 0x70, rt_version = 2, rt_entry = replicate 12 0\<rparr>"

definition sceLibcMallocReplaceForTls :: replace_table where
  "sceLibcMallocReplaceForTls = \<lparr>rt_size = 0x38, rt_version = 1, rt_entry = replicate 5 0\<rparr>"

definition sceKernelMemParam :: kernel_mem_param where
  "sceKernelMemParam = \<lparr>km_size = 0x30, km_unknown_08 = replicate 5 0\<rparr>"

definition sceKernelFsParam :: kernel_fs_param where
  "sceKernelFsParam = \<lparr>kf_size = 0x10, kf_unknown_08 = 0\<rparr>"

text \<open>The addresses the linker gives the objects the blocks point at.\<close>

record crt_layout =
  at_heap_size :: ptr
  at_heap_extended :: ptr
  at_malloc_replace :: ptr
  at_new_replace :: ptr
  at_replace_tls :: ptr
  at_libc_param :: ptr
  at_mem_param :: ptr
  at_fs_param :: ptr

definition sceLibcParam :: "crt_layout \<Rightarrow> libc_param" where
  "sceLibcParam l =
     \<lparr>lp_size = 0x90, lp_unknown_08 = 0xc, lp_unknown_0c = 1, lp_heap_size = at_heap_size l, lp_unknown_18 = 0,
      lp_heap_extended_alloc = at_heap_extended l, lp_unknown_28 = 0, lp_malloc_replace = at_malloc_replace l,
      lp_new_replace = at_new_replace l, lp_unknown_40 = replicate 4 0,
      lp_malloc_replace_for_tls = at_replace_tls l, lp_unknown_68 = replicate 5 0\<rparr>"

definition sceProcessParam :: "crt_layout \<Rightarrow> process_param" where
  "sceProcessParam l =
     \<lparr>pp_size = 0x50, pp_magic = ORBIS_PROCESS_PARAM_MAGIC, pp_entry_count = 3, pp_sdk_version = 0x04508101,
      pp_unknown_14 = 0, pp_unknown_18 = replicate 4 0, pp_libc_param = at_libc_param l,
      pp_kernel_mem_param = at_mem_param l, pp_kernel_fs_param = at_fs_param l\<rparr>"

definition sceModuleParam :: module_param where
  "sceModuleParam = \<lparr>mp_size = 0x18, mp_magic = ORBIS_MODULE_PARAM_MAGIC, mp_sdk_version = 0x1000051\<rparr>"

text \<open>The two heap objects: any size, extended on demand.\<close>

definition sceLibcHeapExtendedAlloc :: nat where "sceLibcHeapExtendedAlloc = 1"
definition sceLibcHeapSize :: nat where "sceLibcHeapSize = 2 ^ 64 - 1"

section \<open>Entry points\<close>

text \<open>
  \<open>_start_ps4_c\<close> on the words of the loader's block, at their addresses: what \<open>__libc_start_main\<close>
  is given of it, the count (an \<open>int\<close>) and the address of the arguments.
\<close>

definition start_ps4_c :: "(ptr \<Rightarrow> nat) \<Rightarrow> ptr \<Rightarrow> int \<times> ptr" where
  "start_ps4_c word entry =
     (let n = word entry mod 2 ^ 32 in (if n < 2 ^ 31 then int n else int n - 2 ^ 32, entry + 8))"

text \<open>
  \<open>module_start\<close>: the initialisers from \<open>__init_array_start\<close> to \<open>__init_array_end\<close>, each applied to
  the state in turn. The pointers are eight bytes wide; with bounds that do not meet the walk would
  not end, which is \<open>None\<close>.
\<close>

function init_walk :: "(ptr \<Rightarrow> 's \<Rightarrow> 's) \<Rightarrow> ptr \<Rightarrow> ptr \<Rightarrow> 's \<Rightarrow> 's option" where
  "init_walk call fn stop st =
     (if fn = stop then Some st else if fn > stop then None else init_walk call (fn + 8) stop (call fn st))"
  by pat_completeness auto
termination by (relation "measure (\<lambda>(call, fn, stop, st). stop - fn)") auto

declare init_walk.simps [simp del]

definition module_start :: "(ptr \<Rightarrow> 's \<Rightarrow> 's) \<Rightarrow> ptr \<Rightarrow> ptr \<Rightarrow> 's \<Rightarrow> (int \<times> 's) option" where
  "module_start call init_start init_end st = map_option (\<lambda>s. (0, s)) (init_walk call init_start init_end st)"

definition module_stop :: "'s \<Rightarrow> int \<times> 's" where
  "module_stop st = (0, st)"

section \<open>Properties\<close>

text \<open>Every block is as long as its first field says and as its section is.\<close>

lemma length_ptrs_bytes [simp]: "length (ptrs_bytes ps) = 8 * length ps"
  by (induction ps) (simp_all add: ptrs_bytes_def)

lemma block_sizes:
  "length (libc_param_bytes (sceLibcParam l)) = lp_size (sceLibcParam l)"
  "length (replace_table_bytes sceLibcMallocReplace) = rt_size sceLibcMallocReplace"
  "length (replace_table_bytes sceLibcNewReplace) = rt_size sceLibcNewReplace"
  "length (replace_table_bytes sceLibcMallocReplaceForTls) = rt_size sceLibcMallocReplaceForTls"
  "length (kernel_mem_param_bytes sceKernelMemParam) = km_size sceKernelMemParam"
  "length (kernel_fs_param_bytes sceKernelFsParam) = kf_size sceKernelFsParam"
  "length (process_param_bytes (sceProcessParam l)) = pp_size (sceProcessParam l)"
  "length (module_param_bytes sceModuleParam) = mp_size sceModuleParam"
  by (simp_all add: libc_param_bytes_def sceLibcParam_def replace_table_bytes_def sceLibcMallocReplace_def
      sceLibcNewReplace_def sceLibcMallocReplaceForTls_def kernel_mem_param_bytes_def sceKernelMemParam_def
      kernel_fs_param_bytes_def sceKernelFsParam_def process_param_bytes_def sceProcessParam_def
      module_param_bytes_def sceModuleParam_def)

text \<open>The fields are where the loader looks for them.\<close>

definition field :: "nat \<Rightarrow> nat \<Rightarrow> nat list \<Rightarrow> nat" where
  "field off n bs = le_value (take n (drop off bs))"

lemma take_le_bytes [simp]: "take k (le_bytes k n @ bs) = le_bytes k n"
  by simp

lemma process_param_offsets:
  assumes "length (pp_unknown_18 p) = 4"
  shows "field 0x00 8 (process_param_bytes p) = pp_size p mod 2 ^ 64"
    and "field 0x08 4 (process_param_bytes p) = pp_magic p mod 2 ^ 32"
    and "field 0x0c 4 (process_param_bytes p) = pp_entry_count p mod 2 ^ 32"
    and "field 0x10 4 (process_param_bytes p) = pp_sdk_version p mod 2 ^ 32"
    and "field 0x38 8 (process_param_bytes p) = pp_libc_param p mod 2 ^ 64"
    and "field 0x40 8 (process_param_bytes p) = pp_kernel_mem_param p mod 2 ^ 64"
    and "field 0x48 8 (process_param_bytes p) = pp_kernel_fs_param p mod 2 ^ 64"
  using assms by (simp_all add: field_def process_param_bytes_def le_value_bytes)

lemma libc_param_offsets:
  assumes "length (lp_unknown_40 p) = 4"
  shows "field 0x10 8 (libc_param_bytes p) = lp_heap_size p mod 2 ^ 64"
    and "field 0x20 8 (libc_param_bytes p) = lp_heap_extended_alloc p mod 2 ^ 64"
    and "field 0x30 8 (libc_param_bytes p) = lp_malloc_replace p mod 2 ^ 64"
    and "field 0x38 8 (libc_param_bytes p) = lp_new_replace p mod 2 ^ 64"
    and "field 0x60 8 (libc_param_bytes p) = lp_malloc_replace_for_tls p mod 2 ^ 64"
  using assms by (simp_all add: field_def libc_param_bytes_def le_value_bytes)

text \<open>The bytes the SDK's own module block has.\<close>

lemma le_bytes_8:
  "le_bytes 8 n =
   [n mod 256, n div 256 mod 256, n div 256 div 256 mod 256, n div 256 div 256 div 256 mod 256,
    n div 256 div 256 div 256 div 256 mod 256, n div 256 div 256 div 256 div 256 div 256 mod 256,
    n div 256 div 256 div 256 div 256 div 256 div 256 mod 256,
    n div 256 div 256 div 256 div 256 div 256 div 256 div 256 mod 256]"
proof -
  have "(8::nat) = Suc (Suc (Suc (Suc (Suc (Suc (Suc (Suc 0)))))))" by simp
  then show ?thesis by (simp only: le_bytes.simps)
qed

lemma module_param_image:
  "module_param_bytes sceModuleParam =
   [0x18, 0, 0, 0, 0, 0, 0, 0, 0xbf, 0xf4, 0x13, 0x3c, 0x01, 0, 0, 0, 0x51, 0, 0, 0x01, 0, 0, 0, 0]"
  by (simp add: module_param_bytes_def sceModuleParam_def ORBIS_MODULE_PARAM_MAGIC_def le_bytes_8)

text \<open>Every initialiser is called once, in order, and a module without any has none called.\<close>

lemma init_walk_all:
  "init_walk call a (a + 8 * n) st = Some (fold call (map (\<lambda>k. a + 8 * k) [0..<n]) st)"
proof (induction n arbitrary: a st)
  case (Suc n)
  have "map (\<lambda>k. a + 8 * k) [0..<Suc n] = a # map (\<lambda>k. a + 8 + 8 * k) [0..<n]"
    by (simp only: upt_conv_Cons map_Suc_upt [symmetric]) (simp add: upt_conv_Cons map_Suc_upt [symmetric] comp_def)
  with Suc [of "a + 8" "call a st"] show ?case
    by (simp add: init_walk.simps [of call a] algebra_simps)
qed (simp add: init_walk.simps)

lemma module_start_all:
  "module_start call a (a + 8 * n) st = Some (0, fold call (map (\<lambda>k. a + 8 * k) [0..<n]) st)"
  by (simp add: module_start_def init_walk_all)

end
