(* ===== verification/Umtx_Init.thy ===== *)
theory Umtx_Init
  imports Umtx
begin

text \<open>
  The initialisation of \<open>include/sys/umtx.h\<close>: \<open>pthread_once\<close> runs the probe of the condition
  variables' clock, and both readers of its result force it first. The clock readings the probe
  makes are arguments.
\<close>

record umtx_setup =
  once_done :: bool
  cond_clock :: int
  probe_ms :: int
  probes_run :: nat
  buckets_ready :: nat

text \<open>\<open>probes_run\<close> counts the probes, \<open>buckets_ready\<close> the buckets initialised.\<close>

definition umtx_setup_init :: umtx_setup where
  "umtx_setup_init =
     \<lparr>once_done = False, cond_clock = CLOCK_REALTIME, probe_ms = 0, probes_run = 0, buckets_ready = 0\<rparr>"

definition umtx_probe_cond_clock :: "timespec \<times> timespec \<Rightarrow> umtx_setup \<Rightarrow> umtx_setup" where
  "umtx_probe_cond_clock ts st =
     (let (clock, ms) = probe_verdict (fst ts) (snd ts)
      in st\<lparr>cond_clock := clock, probe_ms := ms, probes_run := probes_run st + 1\<rparr>)"

definition umtx_init_once :: "timespec \<times> timespec \<Rightarrow> umtx_setup \<Rightarrow> umtx_setup" where
  "umtx_init_once ts st = umtx_probe_cond_clock ts (st\<lparr>buckets_ready := UMTX_BUCKETS\<rparr>)"

definition umtx_once :: "timespec \<times> timespec \<Rightarrow> umtx_setup \<Rightarrow> umtx_setup" where
  "umtx_once ts st = (if once_done st then st else (umtx_init_once ts st)\<lparr>once_done := True\<rparr>)"

definition umtx_cond_clock_id :: "timespec \<times> timespec \<Rightarrow> umtx_setup \<Rightarrow> int \<times> umtx_setup" where
  "umtx_cond_clock_id ts st = (let st = umtx_once ts st in (cond_clock st, st))"

definition umtx_cond_clock_probed :: "timespec \<times> timespec \<Rightarrow> umtx_setup \<Rightarrow> int \<times> umtx_setup" where
  "umtx_cond_clock_probed ts st = umtx_cond_clock_id ts st"

definition umtx_cond_probe_ms :: "timespec \<times> timespec \<Rightarrow> umtx_setup \<Rightarrow> int \<times> umtx_setup" where
  "umtx_cond_probe_ms ts st = (let st = umtx_once ts st in (probe_ms st, st))"

text \<open>However often they are called, there is one probe and every answer is its answer.\<close>

lemma umtx_once_idem: "once_done st \<Longrightarrow> umtx_once ts st = st"
  by (simp add: umtx_once_def)

lemma umtx_once_first:
  "umtx_once ts umtx_setup_init =
   \<lparr>once_done = True, cond_clock = fst (probe_verdict (fst ts) (snd ts)), probe_ms = snd (probe_verdict (fst ts) (snd ts)),
    probes_run = 1, buckets_ready = UMTX_BUCKETS\<rparr>"
  by (simp add: umtx_once_def umtx_init_once_def umtx_probe_cond_clock_def umtx_setup_init_def case_prod_unfold Let_def)

lemma umtx_one_probe:
  "fold (\<lambda>ts st. umtx_once ts st) (ts # tss) umtx_setup_init = umtx_once ts umtx_setup_init"
proof -
  have "fold (\<lambda>ts st. umtx_once ts st) tss st = st" if "once_done st" for st
    using that by (induction tss) (simp_all add: umtx_once_idem)
  then show ?thesis by (simp add: umtx_once_first)
qed

lemma umtx_readers_agree:
  assumes "once_done st"
  shows "umtx_cond_clock_id ts st = (cond_clock st, st)" "umtx_cond_clock_probed ts st = (cond_clock st, st)"
    "umtx_cond_probe_ms ts st = (probe_ms st, st)"
  using assms by (simp_all add: umtx_cond_clock_id_def umtx_cond_clock_probed_def umtx_cond_probe_ms_def umtx_once_idem)

text \<open>A wait of at least ten milliseconds, and no other, says the deadline was monotonic.\<close>

lemma probe_verdict_clock:
  "fst (probe_verdict t0 t1) = (if snd (probe_verdict t0 t1) \<ge> 10 then CLOCK_MONOTONIC else CLOCK_REALTIME)"
  by (simp add: probe_verdict_def Let_def)

lemma sdiv_bounds: "b > 0 \<Longrightarrow> a \<ge> 0 \<Longrightarrow> a sdiv b = a div (b :: int)"
  by (auto simp: signed_divide_int_def sgn_if)

lemma probe_waited_20ms:
  assumes "tv_nsec t0 < 1000000000" "0 \<le> tv_nsec t0" "0 \<le> tv_sec t0" "tv_sec t0 < 2 ^ 62"
    and "tv_nsec t1 = tv_nsec (probe_deadline t0)" "tv_sec t1 = tv_sec (probe_deadline t0)"
  shows "probe_verdict t0 t1 = (CLOCK_MONOTONIC, 20)"
  using assms by (auto simp: probe_verdict_def probe_deadline_def carry_ns_def signed_divide_int_def s64_small Let_def split: if_splits)

end
