(* ===== verification/Thread_Probe.thy ===== *)
theory Thread_Probe
  imports Thread
begin

text \<open>
  \<open>threadStackProbe\<close> of \<open>src/orbis_thread.cpp\<close> over the operations of the interposer: the probe
  threads are created, run and joined, and each of the probe's calls into libkernel has its own
  record of answers.
\<close>

text \<open>The routine of a probe thread, and the result it leaves: the stack's size and the code.\<close>

definition probe_start :: u64 where "probe_start = 1"

definition probeBody :: "answers \<Rightarrow> thread_state \<Rightarrow> (nat \<times> int) \<times> thread_state" where
  "probeBody r s = (let (sz, rc, s') = stackOfSelf r s in ((sz, rc), s'))"

text \<open>
  \<open>rc\<close> are the answers at the creation, \<open>rt\<close> in the trampoline and \<open>rb\<close> in the body. \<open>None\<close> is a
  trampoline without its payload.
\<close>

definition stackOfNewThread ::
  "answers \<Rightarrow> answers \<Rightarrow> answers \<Rightarrow> attr_t option \<Rightarrow> thread_state \<Rightarrow> (nat \<times> int \<times> thread_state) option" where
  "stackOfNewThread r_at rt rb attr s =
     (let (rcCreate, s1) = pthread_create r_at attr probe_start 0 s in
      if rcCreate \<noteq> 0 then Some (0, rcCreate, s1)
      else do { s2 \<leftarrow> run_thread rt (length (t_threads s1) - 1) s1;
                let ((sz, rc), s3) = probeBody rb s2 in Some (sz, rc, s3) })"

text \<open>What the probe reports: the sizes and codes of its three lines, and the verdict.\<close>

record stack_report =
  p_claimed :: "nat \<times> int \<times> int"
  p_self :: "nat \<times> int"
  p_null :: "nat \<times> int"
  p_attr :: "nat \<times> int"
  p_floor :: nat
  p_verdict :: stack_verdict

text \<open>
  The answers the probe gets: on the fresh attributes, for the calling thread, for each of the two
  probe threads, and for the floor.
\<close>

record probe_answers =
  a_init :: int
  a_claim :: "int \<times> nat"
  a_self :: answers
  a_null :: "answers \<times> answers \<times> answers"
  a_attr :: "answers \<times> answers \<times> answers"
  a_floor :: answers

definition threadStackProbe :: "bool \<Rightarrow> probe_answers \<Rightarrow> thread_state \<Rightarrow> (stack_report option \<times> thread_state) option" where
  "threadStackProbe log_enabled a s =
     (if \<not> log_enabled then Some (None, s)
      else
        let rcFresh = a_init a;
            rcClaim = (if rcFresh = 0 then fst (a_claim a) else rcFresh);
            claimed = (if rcFresh = 0 \<and> rcClaim = 0 then snd (a_claim a) else 0);
            (self, rcSelf, s1) = stackOfSelf (a_self a) s;
            (c1, t1, b1) = a_null a; (c2, t2, b2) = a_attr a
        in do { (viaNull, rcNull, s2) \<leftarrow> stackOfNewThread c1 t1 b1 None s1;
                (viaAttr, rcAttr, s3) \<leftarrow>
                  (if rcFresh = 0 then stackOfNewThread c2 t2 b2 (Some (r_fresh c2)) s2 else Some (0, 0, s2));
                let s4 = s3\<lparr>g_defaultStack := viaNull\<rparr>; (fl, s5) = resolveFloor (a_floor a) s4
                in Some (Some \<lparr>p_claimed = (claimed, rcFresh, rcClaim), p_self = (self, rcSelf),
                               p_null = (viaNull, rcNull), p_attr = (viaAttr, rcAttr), p_floor = fl,
                               p_verdict = stack_verdict viaNull\<rparr>, s5) })"

section \<open>The callers of a failure report\<close>

text \<open>
  The loop of \<open>reportPoolFailure\<close> over the texts of the frames' addresses, into 201 bytes: it stops
  at the first text that does not fit.
\<close>

definition callers_size :: nat where "callers_size = 10 * 20 + 1"

fun callers_text :: "bool \<Rightarrow> nat \<Rightarrow> string list \<Rightarrow> string" where
  "callers_text i at [] = []"
| "callers_text i at (f # fs) =
     (let t = (if i then '' '' else '''') @ f in
      if length t \<ge> callers_size - at then take (callers_size - at - 1) t
      else t @ callers_text True (at + length t) fs)"

text \<open>Ten addresses of at most 18 characters (\<open>0x\<close> and 16 digits) all fit.\<close>

lemma callers_text_all:
  "\<forall>f\<in>set fs. length f \<le> 18 \<Longrightarrow> at + 19 * length fs < callers_size \<Longrightarrow>
   callers_text True at fs = concat (map ((#) (CHR '' '')) fs)"
proof (induction fs arbitrary: at)
  case (Cons f fs)
  have "length f + 1 < callers_size - at" "at + (length f + 1) + 19 * length fs < callers_size"
    using Cons.prems by (auto simp: callers_size_def)
  then show ?case using Cons.IH [of "at + (length f + 1)"] Cons.prems(1) by (simp add: Let_def)
qed simp

lemma callers_text_fits:
  assumes "\<forall>f\<in>set fs. length f \<le> 18" and "length fs \<le> 10"
  shows "callers_text False 0 fs = concat (case fs of [] \<Rightarrow> [] | f # gs \<Rightarrow> f # map ((#) (CHR '' '')) gs)"
proof (cases fs)
  case (Cons f gs)
  have "callers_text True (length f) gs = concat (map ((#) (CHR '' '')) gs)"
    by (rule callers_text_all) (use assms Cons in \<open>auto simp: callers_size_def\<close>)
  then show ?thesis using assms Cons by (auto simp: Let_def callers_size_def)
qed simp

section \<open>Properties of the probe\<close>

text \<open>Without a log nothing is probed; a probe leaves the size it measured for a default thread.\<close>

lemma threadStackProbe_off: "threadStackProbe False a s = Some (None, s)"
  by (simp add: threadStackProbe_def)

lemma resolveFloor_default: "g_defaultStack (snd (resolveFloor r s)) = g_defaultStack s"
  by (auto simp: resolveFloor_def mainThreadStack_def stackOfSelf_def attr_failed_def reportPoolFailure_def
      Let_def split: prod.splits if_splits)

lemma threadStackProbe_default:
  assumes "threadStackProbe True a s = Some (Some rep, s')"
  shows "threadDefaultStack s' = fst (p_null rep)" and "p_verdict rep = stack_verdict (fst (p_null rep))"
  using assms
  by (auto simp: threadStackProbe_def Let_def bind_eq_Some_conv threadDefaultStack_def case_prod_unfold
      resolveFloor_default)

end
