(* ===== verification/Timer_Probe.thy ===== *)
theory Timer_Probe
  imports Time "HOL-Library.Signed_Division"
begin

text \<open>
  \<open>src/orbis_timer.cpp\<close>: the three questions of the timer probe. What \<open>timer_create\<close>,
  \<open>timer_settime\<close>, \<open>timer_gettime\<close> and \<open>timer_getoverrun\<close> answer is an argument, and so are the
  readings of the counter \<open>g_fired\<close>; the lines are values.
\<close>

definition sleepMs :: "int \<Rightarrow> timespec" where
  "sleepMs ms = \<lparr>tv_sec = ms sdiv 1000, tv_nsec = (ms smod 1000) * 1000000\<rparr>"

text \<open>\<open>timer_create clock\<close> is 0 or the errno; the code returned and the clock that answered.\<close>

datatype timer_clock = On_monotonic | On_realtime | On_neither

definition createOn :: "(int \<Rightarrow> int) \<Rightarrow> int \<times> timer_clock" where
  "createOn timer_create =
     (if timer_create CLOCK_MONOTONIC = 0 then (0, On_monotonic)
      else
        let e1 = timer_create CLOCK_MONOTONIC in
        if timer_create CLOCK_REALTIME = 0 then (0, On_realtime) else (e1, On_neither))"

datatype timer_line =
    Create_failed int
  | Countdown timer_clock int int timespec int
  | Runs
  | Does_not_run
  | Notify timer_clock int int int
  | Delivers_once
  | Silent
  | Interval int int int
  | Repeats
  | Fires_once
  | Carried nat nat

definition probeCountdown :: "(int \<Rightarrow> int) \<Rightarrow> int \<Rightarrow> int \<Rightarrow> timespec \<Rightarrow> int \<Rightarrow> timer_line list" where
  "probeCountdown timer_create rcSet rcGet left over =
     (let (rc, clock) = createOn timer_create in
      if rc \<noteq> 0 then [Create_failed rc]
      else [Countdown clock rcSet rcGet left over,
            if rcGet = 0 \<and> tv_sec left = 0 \<and> tv_nsec left = 0 then Runs else Does_not_run])"

text \<open>
  The naps of \<open>probeThreadNotify\<close>: \<open>fired k\<close> is what the counter reads after \<open>k\<close> of them. The
  number of naps and the milliseconds.
\<close>

function nap_loop :: "(nat \<Rightarrow> int) \<Rightarrow> nat \<Rightarrow> int \<Rightarrow> nat \<times> int" where
  "nap_loop fired k waited =
     (if fired k = 0 \<and> waited < 1000 then nap_loop fired (k + 1) (waited + 50) else (k, waited))"
  by pat_completeness auto
termination by (relation "measure (\<lambda>(fired, k, waited). nat (1000 - waited))") auto

declare nap_loop.simps [simp del]

definition probeThreadNotify :: "(int \<Rightarrow> int) \<Rightarrow> int \<Rightarrow> (nat \<Rightarrow> int) \<Rightarrow> timer_line list" where
  "probeThreadNotify timer_create rcSet reading =
     (let (rc, clock) = createOn timer_create in
      if rc \<noteq> 0 then [Create_failed rc]
      else
        let (k, waited) = nap_loop reading 0 0; fired = reading k
        in [Notify clock rcSet fired waited, if fired > 0 then Delivers_once else Silent])"

definition probeInterval :: "(int \<Rightarrow> int) \<Rightarrow> int \<Rightarrow> int \<Rightarrow> int \<Rightarrow> timer_line list" where
  "probeInterval timer_create rcSet fired over =
     (let (rc, clock) = createOn timer_create in
      if rc \<noteq> 0 then [Create_failed rc]
      else [Interval rcSet fired over, if fired \<ge> 2 then Repeats else Fires_once])"

text \<open>The answers of one run.\<close>

record timer_answers =
  ta_create :: "int \<Rightarrow> int"
  ta_set :: int
  ta_get :: int
  ta_left :: timespec
  ta_over :: int
  ta_reading :: "nat \<Rightarrow> int"
  ta_interval_fired :: int
  ta_live :: nat
  ta_fired :: nat

definition timerProbe :: "bool \<Rightarrow> timer_answers \<Rightarrow> timer_line list" where
  "timerProbe log_enabled a =
     (if \<not> log_enabled then []
      else probeCountdown (ta_create a) (ta_set a) (ta_get a) (ta_left a) (ta_over a) @
           probeThreadNotify (ta_create a) (ta_set a) (ta_reading a) @
           probeInterval (ta_create a) (ta_set a) (ta_interval_fired a) (ta_over a) @
           [Carried (ta_live a) (ta_fired a)])"

section \<open>Properties\<close>

lemma createOn_fails:
  "fst (createOn tc) = 0 \<longleftrightarrow> tc CLOCK_MONOTONIC = 0 \<or> tc CLOCK_REALTIME = 0"
  "snd (createOn tc) = On_realtime \<longleftrightarrow> tc CLOCK_MONOTONIC \<noteq> 0 \<and> tc CLOCK_REALTIME = 0"
  by (auto simp: createOn_def Let_def)

text \<open>
  The wait ends within a second: at the first reading that is not 0, or after twenty naps of
  fifty milliseconds.
\<close>

lemma nap_loop_steps:
  "(\<And>j. k \<le> j \<Longrightarrow> j < k + n \<Longrightarrow> fired j = 0) \<Longrightarrow> waited + 50 * int n \<le> 1000 \<Longrightarrow>
   nap_loop fired k waited = nap_loop fired (k + n) (waited + 50 * int n)"
proof (induction n arbitrary: k waited)
  case (Suc n)
  have "nap_loop fired k waited = nap_loop fired (k + 1) (waited + 50)"
    using Suc.prems by (simp add: nap_loop.simps [of fired k waited])
  also have "\<dots> = nap_loop fired (k + 1 + n) (waited + 50 + 50 * int n)"
    by (rule Suc.IH) (use Suc.prems in auto)
  finally show ?case by (simp add: algebra_simps)
qed simp

lemma nap_loop_fires:
  assumes "\<And>j. j < n \<Longrightarrow> fired j = 0" and "fired n \<noteq> 0" and "n \<le> 20"
  shows "nap_loop fired 0 0 = (n, 50 * int n)"
  using nap_loop_steps [of 0 n fired 0] assms nap_loop.simps [of fired n "50 * int n"] by simp

lemma nap_loop_silent:
  assumes "\<And>j. j < 20 \<Longrightarrow> fired j = 0"
  shows "nap_loop fired 0 0 = (20, 1000)"
  using nap_loop_steps [of 0 20 fired 0] assms nap_loop.simps [of fired 20 1000] by simp

lemma probeThreadNotify_verdict:
  assumes "fst (createOn tc) = 0" and "\<And>j. 0 \<le> reading j" and "\<And>j. reading j \<le> reading (Suc j)"
  shows "last (probeThreadNotify tc rc reading) = (if reading 20 > 0 then Delivers_once else Silent)"
proof (cases "\<exists>n\<le>20. reading n \<noteq> 0")
  case True
  define n where "n = (LEAST n. reading n \<noteq> 0)"
  have n: "reading n \<noteq> 0" "\<And>j. j < n \<Longrightarrow> reading j = 0"
    using True unfolding n_def by (metis (mono_tags, lifting) LeastI) (meson not_less_Least)
  have "n \<le> 20" using True unfolding n_def by (meson Least_le order_trans)
  moreover have "reading n \<le> reading 20" using lift_Suc_mono_le [of reading, OF assms(3)] \<open>n \<le> 20\<close> by blast
  moreover have "0 < reading n" using n(1) assms(2) [of n] by linarith
  ultimately show ?thesis
    using nap_loop_fires [of n reading] n assms(1) by (simp add: probeThreadNotify_def case_prod_unfold Let_def)
next
  case False
  then have "nap_loop reading 0 0 = (20, 1000)" by (intro nap_loop_silent) auto
  with False assms(1) show ?thesis by (simp add: probeThreadNotify_def case_prod_unfold Let_def)
qed

end
