(* ===== verification/Strto.thy ===== *)
theory Strto
  imports WPrintf Report
begin

text \<open>
  \<open>wcstol\<close> and the other integer parsers of \<open>src/orbis_wchar32.c\<close> over C's narrow functions:
  \<open>strtol\<close>, \<open>strtoll\<close>, \<open>strtoul\<close> and \<open>strtoull\<close> on the bytes of a string, \<open>long\<close> and \<open>long long\<close>
  having 64 bits.
\<close>

section \<open>The narrow functions\<close>

definition byte_space :: "u8 \<Rightarrow> bool" where
  "byte_space c = (c = 32 \<or> (9 \<le> c \<and> c \<le> 13))"

text \<open>The value of a digit; 36 for a character that is none.\<close>

definition digit_value :: "u8 \<Rightarrow> nat" where
  "digit_value c =
     (let n = unat c in
      if 48 \<le> n \<and> n \<le> 57 then n - 48 else if 97 \<le> n \<and> n \<le> 122 then n - 87
      else if 65 \<le> n \<and> n \<le> 90 then n - 55 else 36)"

definition digits_number :: "nat \<Rightarrow> u8 list \<Rightarrow> nat" where
  "digits_number base ds = foldl (\<lambda>n c. n * base + digit_value c) 0 ds"

text \<open>The sign, the magnitude and the offset of the end pointer.\<close>

definition c_strto :: "u8 list \<Rightarrow> int \<Rightarrow> bool \<times> nat \<times> nat" where
  "c_strto b base =
     (let skip = length (takeWhile byte_space b); s = drop skip b;
          neg = (s \<noteq> [] \<and> hd s = 45); sg = (if neg \<or> (s \<noteq> [] \<and> hd s = 43) then 1 else 0); s = drop sg s;
          hex = ((base = 0 \<or> base = 16) \<and> length s \<ge> 3 \<and> s ! 0 = 48 \<and> (s ! 1 = 120 \<or> s ! 1 = 88) \<and>
                 digit_value (s ! 2) < 16);
          pre = (if hex then 2 else 0);
          bs = (if hex then 16 else if base = 0 then (if s \<noteq> [] \<and> hd s = 48 then 8 else 10) else nat base);
          ds = takeWhile (\<lambda>c. digit_value c < bs) (drop pre s)
      in if base < 0 \<or> base = 1 \<or> base > 36 \<or> ds = [] then (False, 0, 0)
         else (neg, digits_number bs ds, skip + sg + pre + length ds))"

definition long_max :: int where "long_max = 2 ^ 63 - 1"
definition long_min :: int where "long_min = - (2 ^ 63)"
definition ulong_max :: int where "ulong_max = 2 ^ 64 - 1"

definition strtol :: "u8 list \<Rightarrow> int \<Rightarrow> int \<times> nat" where
  "strtol b base =
     (let (neg, n, e) = c_strto b base; v = (if neg then - int n else int n)
      in (if v > long_max then long_max else if v < long_min then long_min else v, e))"

definition strtoul :: "u8 list \<Rightarrow> int \<Rightarrow> int \<times> nat" where
  "strtoul b base =
     (let (neg, n, e) = c_strto b base
      in (if int n > ulong_max then ulong_max else (if neg then - int n else int n) mod 2 ^ 64, e))"

section \<open>The wide functions\<close>

definition wcstol :: "(nat \<Rightarrow> bool) \<Rightarrow> u32 list \<Rightarrow> int \<Rightarrow> (int \<times> nat) option" where
  "wcstol malloc_ok s base = w32_strto_int malloc_ok strtol s base"

definition wcstoll :: "(nat \<Rightarrow> bool) \<Rightarrow> u32 list \<Rightarrow> int \<Rightarrow> (int \<times> nat) option" where
  "wcstoll malloc_ok s base = w32_strto_int malloc_ok strtol s base"

definition wcstoul :: "(nat \<Rightarrow> bool) \<Rightarrow> u32 list \<Rightarrow> int \<Rightarrow> (int \<times> nat) option" where
  "wcstoul malloc_ok s base = w32_strto_int malloc_ok strtoul s base"

definition wcstoull :: "(nat \<Rightarrow> bool) \<Rightarrow> u32 list \<Rightarrow> int \<Rightarrow> (int \<times> nat) option" where
  "wcstoull malloc_ok s base = w32_strto_int malloc_ok strtoul s base"

text \<open>The floating-point parsers over the narrow ones, whose value and end offset are an argument.\<close>

definition wcstof :: "(nat \<Rightarrow> bool) \<Rightarrow> (u8 list \<Rightarrow> 'f \<times> nat) \<Rightarrow> u32 list \<Rightarrow> ('f \<times> nat) option" where
  "wcstof malloc_ok strtof s = w32_strto_flt malloc_ok strtof s"

definition wcstod :: "(nat \<Rightarrow> bool) \<Rightarrow> (u8 list \<Rightarrow> 'd \<times> nat) \<Rightarrow> u32 list \<Rightarrow> ('d \<times> nat) option" where
  "wcstod malloc_ok strtod s = w32_strto_flt malloc_ok strtod s"

definition wcstold :: "(nat \<Rightarrow> bool) \<Rightarrow> (u8 list \<Rightarrow> 'l \<times> nat) \<Rightarrow> u32 list \<Rightarrow> ('l \<times> nat) option" where
  "wcstold malloc_ok strtold s = w32_strto_flt malloc_ok strtold s"

definition wcstoimax :: "(nat \<Rightarrow> bool) \<Rightarrow> u32 list \<Rightarrow> int \<Rightarrow> (int \<times> nat) option" where
  "wcstoimax malloc_ok s base = wcstoll malloc_ok s base"

definition wcstoumax :: "(nat \<Rightarrow> bool) \<Rightarrow> u32 list \<Rightarrow> int \<Rightarrow> (int \<times> nat) option" where
  "wcstoumax malloc_ok s base = wcstoull malloc_ok s base"

section \<open>Decimal texts\<close>

abbreviation digit_byte :: "u8 \<Rightarrow> bool" where "digit_byte c \<equiv> digit_value c < 10"

lemma digit_byte_iff: "digit_byte c \<longleftrightarrow> 48 \<le> unat c \<and> unat c \<le> 57"
  by (auto simp: digit_value_def Let_def)

lemma ch8_char: "m < 256 \<Longrightarrow> ch8 (char_of (m :: nat)) = word_of_nat m"
proof -
  assume "m < 256"
  then have "word_of_nat (of_char (char_of m)) = (word_of_nat m :: u8)" by (subst of_char_of) simp
  then show ?thesis by (simp only: of_nat_of_char)
qed

lemma digit_value_char: "d < 10 \<Longrightarrow> digit_value (ch8 (char_of (48 + d :: nat))) = d"
proof -
  assume "d < 10"
  then have "unat (word_of_nat (48 + d) :: u8) = 48 + d"
    by (simp only: unsigned_of_nat of_nat_id) (simp add: take_bit_nat_eq_self)
  with \<open>d < 10\<close> show ?thesis
    using ch8_char [of "48 + d"] unfolding digit_value_def Let_def by (simp only:) simp
qed

lemma nat_dec_digits: "set (nat_dec n) \<subseteq> (\<lambda>d. char_of (48 + d :: nat)) ` {..<10}"
proof (induction n rule: nat_dec.induct)
  case (1 n)
  have d: "char_of (48 + m) \<in> (\<lambda>d. char_of (48 + d :: nat)) ` {..<10}" if "m < 10" for m :: nat
    using that by (intro imageI) simp
  show ?case
  proof (cases "n < 10")
    case True
    then show ?thesis using d [of n] by (subst nat_dec.simps) (simp del: char_of_mod_256)
  next
    case False
    then show ?thesis using 1 d [of "n mod 10"] by (subst nat_dec.simps) (simp del: char_of_mod_256)
  qed
qed

lemma nat_dec_not_Nil: "nat_dec n \<noteq> []"
  by (subst nat_dec.simps) simp

lemma nat_dec_value: "digits_number 10 (map ch8 (nat_dec n)) = n"
proof (induction n rule: nat_dec.induct)
  case (1 n)
  show ?case
  proof (cases "n < 10")
    case True
    then show ?thesis by (subst nat_dec.simps) (simp add: digits_number_def digit_value_char)
  next
    case False
    have "n mod 10 < 10" by simp
    with 1 False show ?thesis
      by (subst nat_dec.simps) (simp add: digits_number_def digit_value_char)
  qed
qed

end
