(* ===== verification/Strto_Props.thy ===== *)
theory Strto_Props
  imports Strto
begin

text \<open>
  The integer parsers on decimal texts: any integer's text is read back, saturated at the limits of
  the type, and the end pointer is behind its last digit.
\<close>

section \<open>The narrow parser\<close>

lemma nat_dec_bytes: "\<forall>c\<in>set (map ch8 (nat_dec n)). digit_byte c"
proof
  fix c assume "c \<in> set (map ch8 (nat_dec n))"
  then obtain d where "d < 10" "c = ch8 (char_of (48 + d :: nat))" using nat_dec_digits [of n] by fastforce
  then show "digit_byte c" using digit_value_char [of d] by (simp del: char_of_mod_256)
qed

lemma digit_not_space: "digit_byte c \<Longrightarrow> \<not> byte_space c \<and> c \<noteq> 45 \<and> c \<noteq> 43"
  by (auto simp: digit_byte_iff byte_space_def word_le_nat_alt)

lemma ch8_minus: "ch8 (CHR ''-'') = 45"
  by simp

lemma takeWhile_digits:
  "\<forall>c\<in>set ds. digit_byte c \<Longrightarrow> \<not> digit_byte x \<Longrightarrow> takeWhile digit_byte (ds @ x # t) = ds"
  by (simp add: takeWhile_append2)

lemma c_strto_digits:
  assumes "\<forall>c\<in>set ds. digit_byte c" "ds \<noteq> []" "\<not> digit_byte x"
  shows "c_strto (ds @ x # t) 10 = (False, digits_number 10 ds, length ds)"
    and "c_strto (45 # ds @ x # t) 10 = (True, digits_number 10 ds, Suc (length ds))"
proof -
  obtain d es where d: "ds = d # es" using assms(2) by (cases ds) auto
  have db: "digit_byte d" "\<not> byte_space d" "d \<noteq> 45" "d \<noteq> 43"
    using assms(1) digit_not_space [of d] unfolding d by auto
  have tw: "takeWhile digit_byte (d # es @ x # t) = d # es"
    using takeWhile_digits [of "d # es" x t] assms(1,3) unfolding d by simp
  show "c_strto (ds @ x # t) 10 = (False, digits_number 10 ds, length ds)"
    using db tw unfolding d c_strto_def Let_def by simp
  have "\<not> byte_space 45" by (simp add: byte_space_def word_le_nat_alt)
  then show "c_strto (45 # ds @ x # t) 10 = (True, digits_number 10 ds, Suc (length ds))"
    using db tw unfolding d c_strto_def Let_def by simp
qed

definition clamp_long :: "int \<Rightarrow> int" where
  "clamp_long n = max long_min (min long_max n)"

lemma strtol_digits:
  assumes "\<forall>c\<in>set ds. digit_byte c" "ds \<noteq> []" "\<not> digit_byte x"
  shows "strtol (ds @ x # t) 10 = (clamp_long (int (digits_number 10 ds)), length ds)"
    and "strtol (45 # ds @ x # t) 10 = (clamp_long (- int (digits_number 10 ds)), Suc (length ds))"
  unfolding strtol_def c_strto_digits [OF assms] Let_def prod.case
  by (auto simp: clamp_long_def long_max_def long_min_def)

lemma strtol_decimal:
  assumes "\<not> digit_byte x"
  shows "strtol (map ch8 (int_dec n) @ x # t) 10 = (clamp_long n, length (int_dec n))"
  using strtol_digits [OF nat_dec_bytes _ assms, of "nat \<bar>n\<bar>" t] nat_dec_not_Nil [of "nat \<bar>n\<bar>"] nat_dec_value [of "nat \<bar>n\<bar>"]
  by (cases "n < 0") (simp_all add: int_dec_def)

section \<open>Cut decimal texts\<close>

lemma digits_number_append:
  "digits_number b (xs @ ys) = digits_number b xs * b ^ length ys + digits_number b ys"
proof (induction ys rule: rev_induct)
  case (snoc y ys)
  have "digits_number b (zs @ [y]) = digits_number b zs * b + digit_value y" for zs by (simp add: digits_number_def)
  from this [of "xs @ ys"] this [of ys] snoc show ?case by (simp add: algebra_simps)
qed (simp add: digits_number_def)

lemma digits_number_less: "\<forall>c\<in>set ds. digit_byte c \<Longrightarrow> digits_number 10 ds < 10 ^ length ds"
proof (induction ds rule: rev_induct)
  case (snoc d ds)
  then have "digits_number 10 ds + 1 \<le> 10 ^ length ds" "digit_value d < 10" by auto
  then have "digits_number 10 ds * 10 + digit_value d < 10 ^ length ds * 10" by linarith
  moreover have "digits_number 10 (ds @ [d]) = digits_number 10 ds * 10 + digit_value d" by (simp add: digits_number_def)
  ultimately show ?case by simp
qed (simp add: digits_number_def)

lemma nat_dec_ge: "0 < n \<Longrightarrow> 10 ^ (length (nat_dec n) - 1) \<le> n"
proof (induction n rule: nat_dec.induct)
  case (1 n)
  show ?case
  proof (cases "n < 10")
    case True
    then show ?thesis using 1(2) by (subst nat_dec.simps) simp
  next
    case False
    let ?m = "n div 10"
    have "10 ^ (length (nat_dec ?m) - 1) \<le> ?m" using 1(1) False by simp
    moreover have "length (nat_dec n) = Suc (length (nat_dec ?m))" using False by (subst nat_dec.simps) simp
    moreover obtain l where "length (nat_dec ?m) = Suc l" using nat_dec_not_Nil [of ?m] by (cases "nat_dec ?m") auto
    ultimately show ?thesis by simp
  qed
qed

text \<open>The first digits of a long decimal text are a large number.\<close>

lemma dec_prefix_large:
  assumes "0 < n" "0 < k" "k \<le> length (nat_dec n)"
  shows "10 ^ (k - 1) \<le> digits_number 10 (map ch8 (take k (nat_dec n)))"
proof -
  let ?p = "map ch8 (take k (nat_dec n))" and ?q = "map ch8 (drop k (nat_dec n))" and ?r = "length (nat_dec n) - k"
  have "\<forall>c\<in>set ?q. digit_byte c" using nat_dec_bytes [of n] by (auto dest: in_set_dropD)
  then have q: "digits_number 10 ?q < 10 ^ ?r" using digits_number_less [of ?q] by simp
  have "digits_number 10 (?p @ ?q) = n" using nat_dec_value [of n] by (simp flip: map_append)
  then have n: "n = digits_number 10 ?p * 10 ^ ?r + digits_number 10 ?q" by (simp add: digits_number_append)
  have "(10 :: nat) ^ (k - 1) * 10 ^ ?r = 10 ^ (length (nat_dec n) - 1)"
    using assms(2,3) by (simp flip: power_add)
  also have "\<dots> \<le> n" by (rule nat_dec_ge [OF assms(1)])
  also have "\<dots> < (digits_number 10 ?p + 1) * 10 ^ ?r" using n q by (simp only: add_mult_distrib mult_1)
  finally have "(10 :: nat) ^ (k - 1) < digits_number 10 ?p + 1" by (simp only: mult_less_cancel2)
  then show ?thesis by simp
qed

lemma long_small: "126 \<le> k \<Longrightarrow> long_max < int (10 ^ (k - 1)) \<and> - int (10 ^ (k - 1)) < long_min"
proof -
  assume "126 \<le> k"
  then have "(10 :: nat) ^ 20 \<le> 10 ^ (k - 1)" by (intro power_increasing) simp_all
  then have "int (10 ^ 20) \<le> int (10 ^ (k - 1))" by (rule of_nat_mono)
  then show ?thesis by (simp add: long_max_def long_min_def)
qed

lemma clamp_same:
  assumes "p \<le> a" "p \<le> b" "long_max < p \<and> - p < long_min"
  shows "clamp_long a = clamp_long b" and "clamp_long (- a) = clamp_long (- b)"
  using assms by (auto simp: clamp_long_def long_max_def long_min_def)

text \<open>A text too long for 127 characters is out of range, and so are its first 127 characters.\<close>

lemma strtol_cut:
  assumes "128 \<le> length (int_dec n)"
  shows "strtol (map ch8 (take 127 (int_dec n)) @ [0]) 10 = (clamp_long n, 127)"
proof -
  let ?n = "nat \<bar>n\<bar>"
  define k where "k = (if n < 0 then 126 else 127 :: nat)"
  have k: "126 \<le> k" "k + 1 \<le> length (nat_dec ?n)" using assms by (auto simp: int_dec_def k_def)
  have n0: "0 < ?n"
  proof (rule ccontr)
    assume "\<not> 0 < ?n"
    then show False using k by (simp add: nat_dec.simps)
  qed
  let ?ds = "map ch8 (take k (nat_dec ?n))"
  have big: "10 ^ (k - 1) \<le> digits_number 10 ?ds" "10 ^ (k - 1) \<le> ?n"
  proof -
    show "10 ^ (k - 1) \<le> digits_number 10 ?ds" using dec_prefix_large [OF n0, of k] k by simp
    have "(10 :: nat) ^ (k - 1) \<le> 10 ^ (length (nat_dec ?n) - 1)" using k by (intro power_increasing) simp_all
    then show "10 ^ (k - 1) \<le> ?n" using nat_dec_ge [OF n0] by linarith
  qed
  then have bigi: "int (10 ^ (k - 1)) \<le> int (digits_number 10 ?ds)" "int (10 ^ (k - 1)) \<le> \<bar>n\<bar>"
    using of_nat_mono [OF big(1), where 'a = int] of_nat_mono [OF big(2), where 'a = int] by simp_all
  have db: "\<forall>c\<in>set ?ds. digit_byte c" "?ds \<noteq> []" "\<not> digit_byte 0" "length ?ds = k"
    using nat_dec_bytes [of ?n] nat_dec_not_Nil [of ?n] k by (auto simp: digit_byte_iff dest: in_set_takeD)
  note st = strtol_digits [OF db(1-3), of "[]"]
  show ?thesis
  proof (cases "n < 0")
    case True
    then have "map ch8 (take 127 (int_dec n)) @ [0] = 45 # ?ds @ [0]" by (simp add: int_dec_def k_def)
    then show ?thesis using st(2) db(4) clamp_same(2) [OF bigi long_small [OF k(1)]] True by (simp add: k_def)
  next
    case False
    then have "map ch8 (take 127 (int_dec n)) @ [0] = ?ds @ [0]" by (simp add: int_dec_def k_def)
    then show ?thesis using st(1) db(4) clamp_same(1) [OF bigi long_small [OF k(1)]] False by (simp add: k_def)
  qed
qed

section \<open>The wide parser\<close>

lemma skip_space_prefix:
  "\<forall>w\<in>set ws. iswspace w \<Longrightarrow> \<not> iswspace c \<Longrightarrow> w32_skip_space (ws @ c # t) = Some (length ws)"
  by (induction ws) auto

lemma ch_range: "c \<in> set (int_dec n) \<Longrightarrow> \<exists>m\<in>insert 45 {48..<58}. c = char_of (m :: nat)"
proof -
  assume c: "c \<in> set (int_dec n)"
  have "c = CHR ''-'' \<or> (\<exists>d<10. c = char_of (48 + d :: nat))"
    using c nat_dec_digits by (fastforce simp: int_dec_def split: if_splits)
  moreover have "CHR ''-'' = char_of (45 :: nat)" by code_simp
  ultimately show ?thesis by fastforce
qed

lemma not_space_dec: "m \<in> insert 45 {48..<58} \<Longrightarrow> \<not> iswspace (word_of_nat m)"
proof -
  assume "m \<in> insert 45 {48..<58}"
  then have "m = 45 \<or> 48 \<le> m \<and> m \<le> 57" by auto
  then have "m = 45 \<or> m = 48 \<or> m = 49 \<or> m = 50 \<or> m = 51 \<or> m = 52 \<or> m = 53 \<or> m = 54 \<or> m = 55 \<or> m = 56 \<or> m = 57"
    by presburger
  then show ?thesis by (elim disjE; simp only:; code_simp)
qed

lemma ch_char: "m < 256 \<Longrightarrow> ch (char_of (m :: nat)) = word_of_nat m"
proof -
  assume "m < 256"
  then have "word_of_nat (of_char (char_of m)) = (word_of_nat m :: u32)" by (subst of_char_of) simp
  then show ?thesis by (simp only: of_nat_of_char)
qed

lemma dec_char:
  assumes "c \<in> set (int_dec n)"
  shows "\<not> iswspace (ch c)" and "0 <s ch c \<and> ch c <s 0x80" and "ucast (ch c) = ch8 c"
proof -
  obtain m where m: "m \<in> insert 45 {48..<58}" "c = char_of (m :: nat)" using ch_range [OF assms] by blast
  then have c: "ch c = word_of_nat m" "ch8 c = word_of_nat m" "m < 128" using ch_char [of m] ch8_char [of m] by auto
  show "\<not> iswspace (ch c)" using not_space_dec [OF m(1)] by (simp only: c(1) not_False_eq_True)
  show "ucast (ch c) = ch8 c"
    unfolding c by (rule bit_word_eqI) (auto simp: bit_simps)
  show "0 <s ch c \<and> ch c <s 0x80"
    using m(1) c(3) unfolding c(1)
    by (auto simp: word_sless_alt signed_of_nat signed_take_bit_int_eq_self)
qed

lemma dec_words:
  "\<forall>w\<in>set (map ch (int_dec n)). \<not> iswspace w \<and> 0 <s w \<and> w <s 0x80"
  "map (ucast :: u32 \<Rightarrow> u8) (map ch (int_dec n)) = map ch8 (int_dec n)"
  using dec_char by auto

lemma int_dec_not_Nil: "int_dec n \<noteq> []"
  by (simp add: int_dec_def nat_dec_not_Nil)

text \<open>The ASCII run of a terminated string is inside it.\<close>

lemma ascii_count_inside: "0 \<in> set t \<Longrightarrow> \<exists>k<length t. ascii_count t = Some k \<and> (\<forall>i<k. 0 <s t ! i \<and> t ! i <s 0x80)"
proof (induction t)
  case (Cons c t)
  show ?case
  proof (cases "0 <s c \<and> c <s 0x80")
    case True
    then have "0 \<in> set t" using Cons.prems by auto
    then obtain k where "k < length t" "ascii_count t = Some k" "\<forall>i<k. 0 <s t ! i \<and> t ! i <s 0x80" using Cons.IH by blast
    then show ?thesis using True by (intro exI [of _ "Suc k"]) (auto simp: nth_Cons split: nat.splits)
  next
    case False
    then show ?thesis by auto
  qed
qed simp

lemma ascii_count_append:
  "\<forall>w\<in>set ws. 0 <s w \<and> w <s 0x80 \<Longrightarrow> ascii_count (ws @ t) = map_option ((+) (length ws)) (ascii_count t)"
  by (cases "ascii_count t"; induction ws) auto

text \<open>Of an ASCII character the narrow byte is a digit exactly if the character is.\<close>

definition wide_digit :: "u32 \<Rightarrow> bool" where
  "wide_digit w = (48 \<le> w \<and> w \<le> 57)"

lemma sint_negative: "2 ^ 31 \<le> unat (w :: u32) \<Longrightarrow> sint w < 0"
proof -
  assume "2 ^ 31 \<le> unat w"
  then have "uint w div 2 ^ 31 = 1"
  proof -
    have "unat w < 2 ^ 32" using unsigned_less [of w, where 'a = nat] by simp
    with \<open>2 ^ 31 \<le> unat w\<close> have "unat w div 2 ^ 31 = 1" by (intro div_nat_eqI) simp_all
    then have "int (unat w div 2 ^ 31) = 1" by simp
    then show ?thesis by (simp add: of_nat_div)
  qed
  then have "bit (uint w) 31" by (simp add: bit_iff_odd)
  then show ?thesis by (simp add: sint_uint signed_take_bit_negative_iff)
qed

lemma ascii_unat: "0 <s w \<Longrightarrow> w <s 0x80 \<Longrightarrow> unat (w :: u32) < 128"
proof -
  assume a: "0 <s w" "w <s 0x80"
  then have "unat w < 2 ^ 31" using sint_negative [of w] by (force simp: word_sless_alt not_less)
  then have "sint w = int (unat w)" by (rule sint_small)
  moreover have "sint w < 128" using a(2) by (simp add: word_sless_alt)
  ultimately show "unat w < 128" by linarith
qed

lemma narrow_digit: "0 <s w \<Longrightarrow> w <s 0x80 \<Longrightarrow> digit_byte (ucast w) \<longleftrightarrow> wide_digit (w :: u32)"
proof -
  assume "0 <s w" "w <s 0x80"
  then have "unat w < 128" by (rule ascii_unat)
  then have "unat (ucast w :: u8) = unat w" by (simp add: unsigned_ucast_eq take_bit_nat_eq_self)
  then show ?thesis by (simp add: digit_byte_iff wide_digit_def word_le_nat_alt)
qed

definition ascii_span :: "u32 list \<Rightarrow> nat" where
  "ascii_span t = length (takeWhile (\<lambda>w. 0 <s w \<and> w <s 0x80) t)"

lemma ascii_count_run: "ascii_count t = Some k \<Longrightarrow> k = ascii_span t"
  by (induction t arbitrary: k) (auto simp: ascii_span_def split: if_splits)

text \<open>What the narrow parser is given: as much of the run as there is room for.\<close>

lemma ascii_prefix_shape:
  fixes malloc_ok :: "nat \<Rightarrow> bool"
  assumes ds: "\<forall>w\<in>set ds. 0 <s w \<and> w <s 0x80" and c: "\<not> wide_digit c" and nul: "0 \<in> set (c # rest)"
  defines "room \<equiv> length ds < 128 \<or> malloc_ok (ascii_span (ds @ c # rest) + 1)"
  shows "\<exists>x t heap. w32_ascii_prefix malloc_ok (ds @ c # rest) 128 =
      Some (if room then map ucast ds @ x # t else map ucast (take 127 ds) @ [0], heap) \<and> \<not> digit_byte x"
proof -
  obtain k where k: "ascii_count (c # rest) = Some k" "\<forall>i<k. 0 <s (c # rest) ! i \<and> (c # rest) ! i <s 0x80"
    using ascii_count_inside [OF nul] by blast
  have n: "ascii_count (ds @ c # rest) = Some (length ds + k)"
    using ascii_count_append [OF ds, of "c # rest"] k(1) by simp
  have run: "ascii_span (ds @ c # rest) = length ds + k" using ascii_count_run [OF n] by simp
  show ?thesis
  proof (cases room)
    case False
    then show ?thesis
      by (intro exI [of _ 0] exI [of _ "[]"] exI [of _ False])
        (auto simp: w32_ascii_prefix_def n room_def run digit_byte_iff)
  next
    case True
    obtain j heap where j: "length ds \<le> j" "j \<le> length ds + k"
      "w32_ascii_prefix malloc_ok (ds @ c # rest) 128 = Some (map ucast (take j (ds @ c # rest)) @ [0], heap)"
    proof (cases "128 \<le> length ds + k \<and> \<not> malloc_ok (length ds + k + 1)")
      case no: True
      then show ?thesis using that [of 127 False] True by (simp add: w32_ascii_prefix_def n room_def run)
    next
      case False
      then show ?thesis
        using that [of "length ds + k" "128 \<le> length ds + k"] by (auto simp: w32_ascii_prefix_def n)
    qed
    show ?thesis
    proof (cases "j = length ds")
      case eq: True
      then show ?thesis using j(3) True by (intro exI [of _ 0] exI [of _ "[]"] exI [of _ heap]) (simp add: digit_byte_iff)
    next
      case False
      then obtain m where m: "j = length ds + Suc m" using j(1) by (metis add_Suc_right le_neq_implies_less less_iff_Suc_add)
      then have "0 <s c" "c <s 0x80" using k(2) j(2) by auto
      then have "\<not> digit_byte (ucast c)" using narrow_digit c by blast
      then show ?thesis using j(3) m True
        by (intro exI [of _ "ucast c"] exI [of _ "map ucast (take m rest) @ [0]"] exI [of _ heap]) simp
    qed
  qed
qed

text \<open>
  C40. \<open>wcstol\<close> reads back the decimal text of any integer, whatever white space stands before it and
  whatever follows it that is no digit: the value is the integer, saturated at the limits of
  \<open>long\<close>, also where an allocation fails, and the end pointer is behind the last digit, except that a
  text of 128 characters or more is only read to its 127th character when the allocation for the
  ASCII run fails.
\<close>

theorem wcstol_decimal:
  assumes ws: "\<forall>w\<in>set ws. iswspace w" and c: "\<not> wide_digit c" and nul: "0 \<in> set (c # rest)"
  shows "wcstol malloc_ok (ws @ map ch (int_dec n) @ c # rest) 10 =
    Some (max long_min (min long_max n),
          length ws +
          (if length (int_dec n) < 128 \<or> malloc_ok (ascii_span (map ch (int_dec n) @ c # rest) + 1)
           then length (int_dec n) else 127))"
proof -
  let ?room = "length (int_dec n) < 128 \<or> malloc_ok (ascii_span (map ch (int_dec n) @ c # rest) + 1)"
  have "\<forall>w\<in>set (map ch (int_dec n)). 0 <s w \<and> w <s 0x80" using dec_words(1) by blast
  from ascii_prefix_shape [OF this c nul, of malloc_ok]
  obtain x t heap where p: "w32_ascii_prefix malloc_ok (map ch (int_dec n) @ c # rest) 128 =
      Some (if ?room then map ch8 (int_dec n) @ x # t else map ch8 (take 127 (int_dec n)) @ [0], heap)" "\<not> digit_byte x"
    unfolding length_map take_map [symmetric] dec_words(2) by blast
  obtain d ds where d: "map ch (int_dec n) = d # ds" using int_dec_not_Nil [of n] by (cases "int_dec n") auto
  have "\<not> iswspace d" using dec_words(1) [of n] unfolding d by simp
  then have sk: "w32_skip_space (ws @ map ch (int_dec n) @ c # rest) = Some (length ws)"
    using skip_space_prefix [OF ws] unfolding d by simp
  show ?thesis
  proof (cases ?room)
    case True
    then show ?thesis
      using sk p strtol_decimal [OF p(2), of n t] int_dec_not_Nil [of n]
      by (simp add: wcstol_def w32_strto_int_def clamp_long_def)
  next
    case False
    then show ?thesis
      using sk p strtol_cut [of n] by (simp add: wcstol_def w32_strto_int_def clamp_long_def)
  qed
qed

lemma white_words: "\<forall>w\<in>set [32, 9 :: u32]. iswspace w" "\<not> wide_digit 0x20ac"
  by (simp, intro conjI; code_simp) (simp add: wide_digit_def)

theorem wcstol_decimal_witness:
  "wcstol (\<lambda>_. False) ([32, 9] @ map ch (int_dec (-42)) @ 0x20ac # [0]) 10 = Some (-42, 5)"
proof -
  have "int_dec (-42) = ''-42''" by (simp add: int_dec_def nat_dec.simps char_of_def bit_iff_odd)
  then show ?thesis
    using wcstol_decimal [of "[32, 9]" "0x20ac" "[0]" "\<lambda>_. False" "-42"] white_words
    by (simp add: long_max_def long_min_def)
qed

end
