(* ===== verification/Clock_Probe.thy ===== *)
theory Clock_Probe
  imports Clock "HOL-Library.Log_Nat" "HOL-Library.Signed_Division"
begin

text \<open>
  \<open>clockProbe\<close> of \<open>src/orbis_clock.cpp\<close>: two windows, one spun against the counter and one slept,
  each measured with the counter, the process time and libc++'s two clocks, which both read
  \<open>clock_gettime\<close> here. The ratios are C doubles: the quotient of two 64-bit integers converted to
  double, rounded to 53 bits with ties to even. Their range is far from the exponents' limits, so a
  double is the rational it stands for.
\<close>

section \<open>Doubles\<close>

text \<open>
  A number rounded to its leading 53 bits; \<open>sticky\<close> tells that something was cut off below its
  last bit.
\<close>

definition round53 :: "bool \<Rightarrow> nat \<Rightarrow> nat" where
  "round53 sticky q =
     (let e = floorlog 2 q - 53; m = q div 2 ^ e; r = q mod 2 ^ e; half = 2 ^ e div 2 in
      if e = 0 then q
      else if r > half \<or> r = half \<and> (sticky \<or> odd m) then (m + 1) * 2 ^ e else m * 2 ^ e)"

definition dbl_nat :: "nat \<Rightarrow> nat" where
  "dbl_nat n = round53 False n"

text \<open>The quotient of two integers, in units of \<open>2 ^ -128\<close>, which leaves more than 53 bits of it.\<close>

definition dbl_quot :: "nat \<Rightarrow> nat \<Rightarrow> rat" where
  "dbl_quot p r = of_nat (round53 (p * 2 ^ 128 mod r \<noteq> 0) (p * 2 ^ 128 div r)) / 2 ^ 128"

definition dbl_ratio :: "int \<Rightarrow> int \<Rightarrow> rat" where
  "dbl_ratio p r =
     (if r > 0 then (if p < 0 then - dbl_quot (dbl_nat (nat (- p))) (dbl_nat (nat r))
                     else dbl_quot (dbl_nat (nat p)) (dbl_nat (nat r)))
      else 0)"

text \<open>The literals \<open>0.9\<close> and \<open>0.1\<close>.\<close>

definition dbl_0_9 :: rat where "dbl_0_9 = 8106479329266893 / 2 ^ 53"
definition dbl_0_1 :: rat where "dbl_0_1 = 7205759403792794 / 2 ^ 56"

lemma cut_bounds:
  fixes q a b c R :: nat
  assumes "R = a \<or> R = a + c" "q = a + b" "b < c" "2 ^ 52 * c \<le> q"
  shows "2 ^ 52 * R \<le> (2 ^ 52 + 1) * q" "(2 ^ 52 - 1) * q \<le> 2 ^ 52 * R"
  using assms by auto

lemma round53_bounds:
  "2 ^ 52 * round53 st q \<le> (2 ^ 52 + 1) * q" "(2 ^ 52 - 1) * q \<le> 2 ^ 52 * round53 st q"
proof -
  have "2 ^ 52 * round53 st q \<le> (2 ^ 52 + 1) * q \<and> (2 ^ 52 - 1) * q \<le> 2 ^ 52 * round53 st q"
  proof (cases "floorlog 2 q - 53 = 0")
    case True then show ?thesis by (simp add: round53_def)
  next
    case False
    define e where "e = floorlog 2 q - 53"
    have q0: "q \<noteq> 0" using False by (cases q) (simp_all add: floorlog_def)
    have "2 ^ (floorlog 2 q - 1) \<le> q" using floorlog_bounds [of q 2] q0 by simp
    moreover have "floorlog 2 q - 1 = e + 52" using False by (simp add: e_def)
    ultimately have le: "2 ^ 52 * 2 ^ e \<le> q" by (simp add: power_add mult.commute)
    have d: "q = q div 2 ^ e * 2 ^ e + q mod 2 ^ e" by (rule div_mult_mod_eq [symmetric])
    have m: "q mod 2 ^ e < 2 ^ e" by simp
    have r: "round53 st q = q div 2 ^ e * 2 ^ e \<or> round53 st q = q div 2 ^ e * 2 ^ e + 2 ^ e"
      using False by (auto simp: round53_def Let_def e_def algebra_simps)
    from cut_bounds [OF r d m le] show ?thesis by blast
  qed
  then show "2 ^ 52 * round53 st q \<le> (2 ^ 52 + 1) * q" "(2 ^ 52 - 1) * q \<le> 2 ^ 52 * round53 st q" by blast+
qed

lemma round53_small: "n < 2 ^ 53 \<Longrightarrow> round53 st n = n"
proof -
  assume "n < 2 ^ 53"
  then have "floorlog 2 n \<le> 53" by (simp add: floorlog_le_iff)
  then show ?thesis by (simp add: round53_def)
qed

text \<open>
  Below \<open>2 ^ 40\<close> microseconds the comparisons with \<open>0.9\<close> and \<open>0.1\<close> are exact: a quotient that is
  not the threshold is further from it than the rounding reaches, and the threshold itself is
  rounded to its literal.
\<close>

lemma quot_bounds:
  fixes p r :: nat
  assumes "0 < r"
  defines "R \<equiv> round53 (p * 2 ^ 128 mod r \<noteq> 0) (p * 2 ^ 128 div r)"
  shows "2 ^ 52 * (r * R) \<le> (2 ^ 52 + 1) * (p * 2 ^ 128)"
    and "(2 ^ 52 - 1) * (p * 2 ^ 128) \<le> 2 ^ 52 * (r * R) + (2 ^ 52 - 1) * r"
proof -
  define q where "q = p * 2 ^ 128 div r"
  have q: "p * 2 ^ 128 = r * q + p * 2 ^ 128 mod r" "p * 2 ^ 128 mod r < r"
    using assms(1) by (simp_all add: q_def)
  then have rq: "r * q \<le> p * 2 ^ 128" "p * 2 ^ 128 \<le> r * q + r" by linarith+
  define Y Z where "Y = r * R" and "Z = r * q"
  have b: "2 ^ 52 * (r * R) \<le> (2 ^ 52 + 1) * (r * q)" "(2 ^ 52 - 1) * (r * q) \<le> 2 ^ 52 * (r * R)"
    using round53_bounds [where st = "p * 2 ^ 128 mod r \<noteq> 0" and q = q, THEN mult_le_mono2, of r]
    unfolding R_def q_def [symmetric] by (simp_all only: mult.left_commute)
  note b = b [folded Y_def Z_def] and rq = rq [folded Z_def]
  show "2 ^ 52 * (r * R) \<le> (2 ^ 52 + 1) * (p * 2 ^ 128)" using b(1) rq(1) by (simp flip: Y_def)
  show "(2 ^ 52 - 1) * (p * 2 ^ 128) \<le> 2 ^ 52 * (r * R) + (2 ^ 52 - 1) * r" using b(2) rq(2) by (simp flip: Y_def)
qed

lemma quot_literal:
  "of_nat a / 2 ^ k < (of_nat R / 2 ^ 128 :: rat) \<longleftrightarrow> 2 ^ 128 * a < R * 2 ^ k"
  "(of_nat R / 2 ^ 128 :: rat) < of_nat a / 2 ^ k \<longleftrightarrow> R * 2 ^ k < 2 ^ 128 * a"
proof -
  have "of_nat a / 2 ^ k < (of_nat R / 2 ^ 128 :: rat) \<longleftrightarrow> (of_nat (2 ^ 128 * a) :: rat) < of_nat (R * 2 ^ k)"
    by (simp add: field_simps)
  then show "of_nat a / 2 ^ k < (of_nat R / 2 ^ 128 :: rat) \<longleftrightarrow> 2 ^ 128 * a < R * 2 ^ k"
    by (simp only: of_nat_less_iff)
  have "(of_nat R / 2 ^ 128 :: rat) < of_nat a / 2 ^ k \<longleftrightarrow> (of_nat (R * 2 ^ k) :: rat) < of_nat (2 ^ 128 * a)"
    by (simp add: field_simps)
  then show "(of_nat R / 2 ^ 128 :: rat) < of_nat a / 2 ^ k \<longleftrightarrow> R * 2 ^ k < 2 ^ 128 * a"
    by (simp only: of_nat_less_iff)
qed

text \<open>The quotient of a fraction of two small numbers, whatever terms it is given in.\<close>

lemma quot_at:
  fixes p r k :: nat
  assumes "0 < r" "10 * p = k * r" "k < 10" "0 < k"
  shows "p * 2 ^ 128 div r = k * 2 ^ 128 div 10" "p * 2 ^ 128 mod r \<noteq> 0 \<longleftrightarrow> k * 2 ^ 128 mod 10 \<noteq> 0"
proof -
  have e: "10 * (p * 2 ^ 128) = r * (k * 2 ^ 128)" using assms(2) by simp
  have "p * 2 ^ 128 div r = 10 * (p * 2 ^ 128) div (10 * r)" by (simp only: div_mult_mult1 zero_neq_numeral)
  also have "\<dots> = r * (k * 2 ^ 128) div (r * 10)" by (simp only: e mult.commute)
  also have "\<dots> = k * 2 ^ 128 div 10" using assms(1) by (simp only: div_mult_mult1 neq0_conv)
  finally show "p * 2 ^ 128 div r = k * 2 ^ 128 div 10" .
  have "10 * (p * 2 ^ 128 mod r) = 10 * (p * 2 ^ 128) mod (10 * r)" by (simp only: mult_mod_right)
  also have "\<dots> = r * (k * 2 ^ 128) mod (r * 10)" by (simp only: e mult.commute)
  also have "\<dots> = r * (k * 2 ^ 128 mod 10)" by (simp only: mult_mod_right)
  finally show "p * 2 ^ 128 mod r \<noteq> 0 \<longleftrightarrow> k * 2 ^ 128 mod 10 \<noteq> 0" using assms(1)
    by (metis mult_is_0 not_gr_zero zero_neq_numeral)
qed

lemma round53_tenths:
  "round53 True (9 * 2 ^ 128 div 10) = 8106479329266893 * 2 ^ 75"
  "round53 True (1 * 2 ^ 128 div 10) = 7205759403792794 * 2 ^ 72"
proof -
  have "floorlog 2 (9 * 2 ^ 128 div 10) = 128" "floorlog 2 (1 * 2 ^ 128 div 10) = 125"
    by (rule antisym; simp add: floorlog_le_iff floorlog_geI)+
  then show "round53 True (9 * 2 ^ 128 div 10) = 8106479329266893 * 2 ^ 75"
    "round53 True (1 * 2 ^ 128 div 10) = 7205759403792794 * 2 ^ 72"
    by (simp_all add: round53_def)
qed

lemma ratio_thresholds:
  fixes p r :: nat
  assumes "0 < r" "r < 2 ^ 40"
  shows "dbl_0_9 < dbl_quot p r \<longleftrightarrow> 9 * r < 10 * p" and "dbl_quot p r < dbl_0_1 \<longleftrightarrow> 10 * p < r"
proof -
  define R where "R = round53 (p * 2 ^ 128 mod r \<noteq> 0) (p * 2 ^ 128 div r)"
  define X where "X = r * R"
  have b: "2 ^ 52 * X \<le> (2 ^ 52 + 1) * (p * 2 ^ 128)"
      "(2 ^ 52 - 1) * (p * 2 ^ 128) \<le> 2 ^ 52 * X + (2 ^ 52 - 1) * r"
    unfolding X_def R_def by (rule quot_bounds [OF assms(1)])+
  have lt: "2 ^ 128 * a < R * c \<longleftrightarrow> 2 ^ 128 * a * r < X * c" "R * c < 2 ^ 128 * a \<longleftrightarrow> X * c < 2 ^ 128 * a * r" for a c
    using assms(1) by (simp_all add: X_def mult.assoc mult.left_commute [of r] mult.commute [of r])
  have "2 ^ 128 * 8106479329266893 < R * 2 ^ 53 \<longleftrightarrow> 9 * r < 10 * p"
  proof (cases "10 * p = 9 * r")
    case True
    then have "R = 8106479329266893 * 2 ^ 75"
      using quot_at [OF assms(1) True] round53_tenths(1) unfolding R_def by simp
    then show ?thesis using True by simp
  next
    case False
    then have "10 * p \<le> 9 * r - 1 \<and> 0 < r \<or> 10 * p \<ge> 9 * r + 1" using assms(1) by linarith
    then show ?thesis unfolding lt using b assms by auto
  qed
  then show "dbl_0_9 < dbl_quot p r \<longleftrightarrow> 9 * r < 10 * p"
    using quot_literal(1) [of 8106479329266893 53 R] by (simp add: dbl_0_9_def dbl_quot_def R_def)
  have "R * 2 ^ 56 < 2 ^ 128 * 7205759403792794 \<longleftrightarrow> 10 * p < r"
  proof (cases "10 * p = r")
    case True
    then have "R = 7205759403792794 * 2 ^ 72"
      using quot_at [OF assms(1), of p 1] round53_tenths(2) unfolding R_def by simp
    then show ?thesis using True by simp
  next
    case False
    then have "10 * p + 1 \<le> r \<or> 10 * p \<ge> r + 1" by linarith
    then show ?thesis unfolding lt using b assms by auto
  qed
  then show "dbl_quot p r < dbl_0_1 \<longleftrightarrow> 10 * p < r"
    using quot_literal(2) [of R 7205759403792794 56] by (simp add: dbl_0_1_def dbl_quot_def R_def)
qed

section \<open>The probe\<close>

text \<open>
  \<open>steady_clock::now\<close>, in nanoseconds; \<open>high_resolution_clock\<close> is the same clock in libc++. Both
  call the \<open>clock_gettime\<close> of this executable.
\<close>

definition steady_now :: "clock_env \<Rightarrow> clock_state \<Rightarrow> int \<times> clock_state" where
  "steady_now e s =
     (case clock_gettime e CLOCK_MONOTONIC True s of (_, t, _, s') \<Rightarrow>
        (case t of None \<Rightarrow> 0 | Some t \<Rightarrow> tns t, s'))"

text \<open>The busy window: the counter is read until it has advanced by \<open>want\<close>.\<close>

partial_function (option) spin :: "clock_env \<Rightarrow> u64 \<Rightarrow> u64 \<Rightarrow> clock_state \<Rightarrow> clock_state option" where
  "spin e c0 want s =
     (let (c, s') = read_counter e s in if c - c0 < want then spin e c0 want s' else Some s')"

record clock_window =
  realUs :: int
  procUs :: int
  steadyUs :: int
  hiresUs :: int

definition measure_window :: "clock_env \<Rightarrow> nat \<Rightarrow> clock_state \<Rightarrow> (clock_window \<times> clock_state) option" where
  "measure_window e k s =
     (let (c0, s) = read_counter e s; (p0, s) = read_process_time e s;
          (s0, s) = steady_now e s; (h0, s) = steady_now e s
      in do { s \<leftarrow> (if k = 0 then
                      let want = (if freq e \<noteq> 0 then freq e div 50 else 0)
                      in if want \<noteq> 0 then spin e c0 want s else Some s
                    else Some s);
              let (c1, s) = read_counter e s; (p1, s) = read_process_time e s;
                  (s1, s) = steady_now e s; (h1, s) = steady_now e s
              in Some (\<lparr>realUs = (if freq e \<noteq> 0 then sint ((c1 - c0) * 1000000 div freq e) else 0),
                        procUs = sint (p1 - p0), steadyUs = (s1 - s0) sdiv 1000, hiresUs = (h1 - h0) sdiv 1000\<rparr>, s) })"

definition procRatio :: "clock_window \<Rightarrow> rat" where
  "procRatio w = (if realUs w > 0 then dbl_ratio (procUs w) (realUs w) else 0)"

definition steadyRatio :: "clock_window \<Rightarrow> rat" where
  "steadyRatio w = (if realUs w > 0 then dbl_ratio (steadyUs w) (realUs w) else 0)"

definition hiresRatio :: "clock_window \<Rightarrow> rat" where
  "hiresRatio w = (if realUs w > 0 then dbl_ratio (hiresUs w) (realUs w) else 0)"

datatype clock_verdict = Not_in_this_binary | Wall_time | Unclear

definition clock_verdict :: "clock_window \<Rightarrow> clock_window \<Rightarrow> clock_verdict" where
  "clock_verdict busy asleep =
     (if steadyRatio busy > dbl_0_9 \<and> steadyRatio asleep < dbl_0_1 then Not_in_this_binary
      else if steadyRatio busy > dbl_0_9 \<and> steadyRatio asleep > dbl_0_9 then Wall_time
      else Unclear)"

text \<open>The lines, with the numbers printed in them.\<close>

datatype clock_line =
    Served_from_counter u64
  | Falls_back
  | Window string clock_window
  | Ratios string rat rat rat
  | Verdict clock_verdict
  | Unknown_id int

text \<open>
  \<open>clockProbe\<close> runs once, and only with a log; the first component of the state is its \<open>done\<close>.
  \<open>None\<close> is a probe that does not return because the counter stands still.
\<close>

definition clockProbe :: "bool \<Rightarrow> clock_env \<Rightarrow> bool \<times> clock_state \<Rightarrow> (clock_line list \<times> bool \<times> clock_state) option" where
  "clockProbe log_enabled e st =
     (let (done, s) = st in
      if done \<or> \<not> log_enabled then Some ([], done, s)
      else
        let ((fr, _), s) = clockBase e s in
        do { (busy, s) \<leftarrow> measure_window e 0 s;
             (asleep, s) \<leftarrow> measure_window e 1 s;
             Some ([if fr \<noteq> 0 then Served_from_counter fr else Falls_back,
                    Window ''busy'' busy, Window ''asleep'' asleep,
                    Ratios ''busy'' (procRatio busy) (steadyRatio busy) (hiresRatio busy),
                    Ratios ''asleep'' (procRatio asleep) (steadyRatio asleep) (hiresRatio asleep),
                    Verdict (clock_verdict busy asleep)] @
                   (if unknownIdSeen s then [Unknown_id (unknownId s)] else []), True, s) })"

lemma sdiv_nonneg: "0 \<le> a \<Longrightarrow> 0 < b \<Longrightarrow> a sdiv b = a div (b :: int)"
  by (cases "a = 0") (simp_all add: signed_divide_int_def)

lemma div_add1_le: "x div f + y div f \<le> (x + y) div (f :: nat)"
  by (subst div_add1_eq) (rule le_add1)

section \<open>What the probe answers\<close>

text \<open>The verdict as a comparison of microseconds.\<close>

lemma steady_ratio_exact:
  assumes "0 < realUs w" "realUs w < 2 ^ 40" "\<bar>steadyUs w\<bar> < 2 ^ 53"
  shows "steadyRatio w > dbl_0_9 \<longleftrightarrow> 10 * steadyUs w > 9 * realUs w"
    and "steadyRatio w < dbl_0_1 \<longleftrightarrow> 10 * steadyUs w < realUs w"
proof -
  have r: "nat (realUs w) < 2 ^ 40" "0 < nat (realUs w)" using assms(1,2) by simp_all
  have d: "dbl_nat (nat (realUs w)) = nat (realUs w)"
    unfolding dbl_nat_def using r(1) by (intro round53_small) simp
  have n: "dbl_nat (nat \<bar>steadyUs w\<bar>) = nat \<bar>steadyUs w\<bar>"
    unfolding dbl_nat_def using assms(3) by (intro round53_small) simp
  have nonneg: "0 \<le> dbl_quot p q" for p q by (simp add: dbl_quot_def)
  have lits: "0 < dbl_0_9" "0 < dbl_0_1" by (simp_all add: dbl_0_9_def dbl_0_1_def)
  show "steadyRatio w > dbl_0_9 \<longleftrightarrow> 10 * steadyUs w > 9 * realUs w"
  proof (cases "steadyUs w < 0")
    case True
    have "\<not> dbl_0_9 < - dbl_quot p q" for p q using nonneg [of p q] lits by linarith
    with True assms(1) show ?thesis by (simp add: steadyRatio_def dbl_ratio_def)
  next
    case False
    then show ?thesis
      using assms(1) n d ratio_thresholds(1) [OF r(2,1), of "nat (steadyUs w)"]
      by (auto simp: steadyRatio_def dbl_ratio_def)
  qed
  show "steadyRatio w < dbl_0_1 \<longleftrightarrow> 10 * steadyUs w < realUs w"
  proof (cases "steadyUs w < 0")
    case True
    have "- dbl_quot p q < dbl_0_1" for p q using nonneg [of p q] lits by linarith
    with True assms(1) show ?thesis by (simp add: steadyRatio_def dbl_ratio_def)
  next
    case False
    then show ?thesis
      using assms(1) n d ratio_thresholds(2) [OF r(2,1), of "nat (steadyUs w)"]
      by (auto simp: steadyRatio_def dbl_ratio_def)
  qed
qed

text \<open>The busy window ends at the first reading that is far enough, if there is one.\<close>

lemma spin_step:
  "spin e c0 want s =
    (if counter e (readings s) - c0 < want then spin e c0 want (s\<lparr>readings := readings s + 1\<rparr>)
     else Some (s\<lparr>readings := readings s + 1\<rparr>))"
  by (subst spin.simps) (simp add: read_counter_def)

lemma spin_returns:
  "(\<And>i. i < j \<Longrightarrow> counter e (readings s + i) - c0 < want) \<Longrightarrow> \<not> counter e (readings s + j) - c0 < want \<Longrightarrow>
   spin e c0 want s = Some (s\<lparr>readings := readings s + j + 1\<rparr>)"
proof (induction j arbitrary: s)
  case 0 then show ?case by (subst spin_step) simp
next
  case (Suc j)
  have "counter e (readings s) - c0 < want" using Suc.prems(1) [of 0] by simp
  then have "spin e c0 want s = spin e c0 want (s\<lparr>readings := readings s + 1\<rparr>)" by (subst spin_step) simp
  also have "\<dots> = Some (s\<lparr>readings := readings s + Suc j + 1\<rparr>)"
    using Suc.IH [of "s\<lparr>readings := readings s + 1\<rparr>"] Suc.prems(1) [of "Suc _"] Suc.prems(2) by simp
  finally show ?case .
qed

lemma spin_after:
  "spin e c0 want s = Some s' \<Longrightarrow> readings s < readings s' \<and> clock_base s' = clock_base s \<and> process_readings s' = process_readings s"
proof (erule spin.raw_induct [rotated])
  fix go :: "clock_env \<Rightarrow> u64 \<Rightarrow> u64 \<Rightarrow> clock_state \<Rightarrow> clock_state option" and e c0 want s s'
  assume IH: "\<And>e c0 want s s'. go e c0 want s = Some s' \<Longrightarrow>
      readings s < readings s' \<and> clock_base s' = clock_base s \<and> process_readings s' = process_readings s"
    and body: "(let (c, s1) = read_counter e s in if c - c0 < want then go e c0 want s1 else Some s1) = Some s'"
  from body show "readings s < readings s' \<and> clock_base s' = clock_base s \<and> process_readings s' = process_readings s"
    by (auto simp: read_counter_def split: if_splits dest!: IH)
qed

lemma steady_now_counter:
  "clock_base s = Some (fr, orig) \<Longrightarrow> fr \<noteq> 0 \<Longrightarrow>
   steady_now e s = (tns (counter_time fr (counter e (readings s) - orig)),
     s\<lparr>clkMonotonic := clkMonotonic s + 1, readings := readings s + 1\<rparr>)"
  by (simp add: steady_now_def clock_gettime_def monotonicNow_def clockBase_def read_counter_def clock_ids Let_def)

lemma measure_window_readings:
  assumes "measure_window e k s = Some (w, s')" "clock_base s = Some (freq e, orig)" "freq e \<noteq> 0"
  shows "\<exists>m. readings s + 3 \<le> m \<and> readings s' = m + 3 \<and> clock_base s' = clock_base s \<and>
    realUs w = sint ((counter e m - counter e (readings s)) * 1000000 div freq e) \<and>
    steadyUs w = (tns (counter_time (freq e) (counter e (m + 1) - orig)) -
                  tns (counter_time (freq e) (counter e (readings s + 1) - orig))) sdiv 1000"
proof -
  define b where "b = s\<lparr>process_readings := Suc (process_readings s), clkMonotonic := 2 + clkMonotonic s,
    readings := Suc (Suc (Suc (readings s)))\<rparr>"
  have b: "clock_base b = Some (freq e, orig)" "readings b = readings s + 3" using assms(2) by (simp_all add: b_def)
  define mid where "mid = (if k = 0 then
        let want = (if freq e \<noteq> 0 then freq e div 50 else 0)
        in if want \<noteq> 0 then spin e (counter e (readings s)) want b else Some b
      else Some b)"
  obtain m where m: "mid = Some m" "readings s + 3 \<le> readings m" "clock_base m = Some (freq e, orig)"
  proof (cases "mid = Some b")
    case True then show ?thesis using that b by simp
  next
    case False
    then have sp: "mid = spin e (counter e (readings s)) (freq e div 50) b"
      using assms(3) by (auto simp: mid_def Let_def split: if_splits)
    have "mid \<noteq> None"
      using assms by (auto simp: measure_window_def read_counter_def read_process_time_def steady_now_counter b_def mid_def
          Let_def bind_eq_Some_conv split: if_splits)
    then obtain m where m: "mid = Some m" by blast
    from spin_after [OF m [unfolded sp]] b show ?thesis by (intro that [OF m]) auto
  qed
  show ?thesis
    using assms(1,3) m assms(2)
    by (intro exI [of _ "readings m"])
      (auto simp: measure_window_def read_counter_def read_process_time_def steady_now_counter mid_def b_def Let_def
        split: if_splits)
qed

text \<open>
  With the counter in place of libc's clock both windows agree with it: if the frequency is one the
  arithmetic holds for, the counter does not run back, the readings do not overflow, and the first
  read of the clock is no more than a twentieth of the window late, the ratio of a window of a
  hundred microseconds or more is above nine tenths.
\<close>

lemma window_tracks_counter:
  assumes w: "measure_window e k s = Some (w, s')" "clock_base s = Some (freq e, of_nat orig)"
    and f: "0 < freq e" "unat (freq e) \<le> 18446744073"
    and c: "\<And>j. counter e j = of_nat (cn j)" "mono cn" "orig \<le> cn 0"
    and top: "cn (readings s') < 2 ^ 63 + orig" "(cn (readings s' - 3) - cn (readings s)) * 1000000 < 2 ^ 63"
    and late: "20 * (cn (readings s + 1) - cn (readings s)) \<le> cn (readings s' - 3) - cn (readings s)"
    and real: "100 \<le> realUs w"
  shows "9 * realUs w < 10 * steadyUs w"
proof -
  let ?f = "unat (freq e)" and ?i = "readings s"
  have f0: "freq e \<noteq> 0" "0 < ?f" using f(1) by (auto simp: unat_gt_0)
  obtain m where m: "?i + 3 \<le> m" "readings s' = m + 3"
    and rw: "realUs w = sint ((counter e m - counter e ?i) * 1000000 div freq e)"
    and sw: "steadyUs w = (tns (counter_time (freq e) (counter e (m + 1) - of_nat orig)) -
        tns (counter_time (freq e) (counter e (?i + 1) - of_nat orig))) sdiv 1000"
    using measure_window_readings [OF w f0(1)] by blast
  have mono: "cn i \<le> cn j" if "i \<le> j" for i j using c(2) that by (simp add: mono_def)
  define ns where "ns j = (cn j - orig) * 1000000000 div ?f" for j
  have t: "tns (counter_time (freq e) (counter e j - of_nat orig)) = int (ns j)" if "j \<le> m + 3" for j
  proof -
    have le: "orig \<le> cn j" "cn j - orig < 2 ^ 63"
      using c(3) mono [of 0 j] mono [OF that] top(1) m(2) by simp_all
    then have "counter e j - of_nat orig = of_nat (cn j - orig)" by (simp add: c(1) of_nat_diff)
    moreover have "unat (of_nat (cn j - orig) :: u64) = cn j - orig"
      using le(2) by (simp add: unsigned_of_nat take_bit_nat_eq_self)
    ultimately show ?thesis using counter_time_value [OF f, of "of_nat (cn j - orig)"] le(2) by (simp add: ns_def)
  qed
  define D where "D = cn m - cn ?i"
  define E where "E = cn (?i + 1) - cn ?i"
  have D: "D * 1000000 < 2 ^ 63" "20 * E \<le> D" using top(2) late m(2) by (simp_all add: D_def E_def)
  have r: "realUs w = int (D * 1000000 div ?f)"
  proof -
    have "counter e m - counter e ?i = of_nat D" using mono [of ?i m] m(1) by (simp add: c(1) D_def of_nat_diff)
    moreover have "(of_nat D * 1000000 :: u64) = of_nat (D * 1000000)" by simp
    moreover have "unat (of_nat (D * 1000000) :: u64) = D * 1000000" using D(1) by (simp only: unsigned_of_nat) (simp add: take_bit_nat_eq_self)
    ultimately have u: "unat ((counter e m - counter e ?i) * 1000000 div freq e) = D * 1000000 div ?f"
      by (simp add: unat_div_distrib)
    moreover have "D * 1000000 div ?f < 2 ^ 63" using D(1) by (meson div_le_dividend le_less_trans)
    ultimately show ?thesis unfolding rw by (simp add: sint_of_small)
  qed
  define S where "S = (D - E) * 1000000000 div ?f"
  define R where "R = D * 1000000 div ?f"
  have le: "ns (?i + 1) + S \<le> ns (m + 1)"
  proof -
    have "orig \<le> cn (?i + 1)" "cn (?i + 1) \<le> cn m" "cn m \<le> cn (m + 1)" "cn ?i \<le> cn (?i + 1)"
      using c(3) mono [of 0 "?i + 1"] mono [of "?i + 1" m] mono [of m "m + 1"] mono [of ?i "?i + 1"] m(1) by simp_all
    then have "(cn (?i + 1) - orig) + (D - E) \<le> cn (m + 1) - orig" by (simp add: D_def E_def)
    then have "(cn (?i + 1) - orig) * 1000000000 + (D - E) * 1000000000 \<le> (cn (m + 1) - orig) * 1000000000"
      by (simp only: add_mult_distrib [symmetric] mult_le_mono1)
    then have "((cn (?i + 1) - orig) * 1000000000 + (D - E) * 1000000000) div ?f \<le> ns (m + 1)"
      unfolding ns_def by (rule div_le_mono)
    with div_add1_le [of "(cn (?i + 1) - orig) * 1000000000" ?f "(D - E) * 1000000000"]
    show ?thesis unfolding ns_def S_def by (rule order_trans)
  qed
  have "950 * R < S + 1"
  proof -
    have "R * ?f \<le> D * 1000000" "(D - E) * 1000000000 < (S + 1) * ?f"
      unfolding R_def S_def using f0(2) by (simp_all add: dividend_less_div_times)
    then have "950 * R * ?f < (S + 1) * ?f" using D(2) by linarith
    then show ?thesis using mult_less_cancel2 by blast
  qed
  moreover have "steadyUs w = (int (ns (m + 1)) - int (ns (?i + 1))) sdiv 1000"
    using sw t [of "m + 1"] t [of "?i + 1"] m(1) by simp
  moreover have "(int (ns (m + 1)) - int (ns (?i + 1))) sdiv 1000 = (int (ns (m + 1)) - int (ns (?i + 1))) div 1000"
    using le by (intro sdiv_nonneg) simp_all
  moreover have "int S \<le> int (ns (m + 1)) - int (ns (?i + 1))" using le by linarith
  ultimately show ?thesis using real r unfolding R_def [symmetric] by linarith
qed

definition short_window :: "clock_window \<Rightarrow> bool" where
  "short_window w \<longleftrightarrow> 0 < realUs w \<and> realUs w < 2 ^ 40 \<and> \<bar>steadyUs w\<bar> < 2 ^ 53"

lemma clock_verdict_exact:
  assumes "short_window busy" "short_window asleep"
  shows "clock_verdict busy asleep =
    (if 9 * realUs busy < 10 * steadyUs busy \<and> 10 * steadyUs asleep < realUs asleep then Not_in_this_binary
     else if 9 * realUs busy < 10 * steadyUs busy \<and> 9 * realUs asleep < 10 * steadyUs asleep then Wall_time
     else Unclear)"
  using assms by (simp add: short_window_def clock_verdict_def steady_ratio_exact)

text \<open>The probe runs once, and says nothing without a log.\<close>

lemma clockProbe_once: "clockProbe le e (True, s) = Some ([], True, s)" "clockProbe False e (d, s) = Some ([], d, s)"
  by (simp_all add: clockProbe_def)

end
