(* ===== verification/Mmap_Pair.thy ===== *)
theory Mmap_Pair
  imports Mmap_Props
begin

text \<open>
  A mapping and its release through the interposer of \<open>src/orbis_mmap.cpp\<close>. The blocks in use
  determine the block list of a carve-out, since the free blocks are the gaps between them, each in
  one piece; so releasing what was just handed out gives back the very table the mapping started
  from.
\<close>

section \<open>The blocks in use determine the list\<close>

lemma coalesced_tail: "coalesced (b # bs) \<Longrightarrow> coalesced bs"
  by (cases bs) auto

lemma tiles_head_notin: "tiles a (x # xs) e \<Longrightarrow> x \<notin> set xs"
  using tiles_mem by fastforce

lemma coalesced_after_free: "coalesced (b # bs) \<Longrightarrow> \<not> used b \<Longrightarrow> bs \<noteq> [] \<Longrightarrow> used (hd bs)"
  by (cases bs) auto

lemma free_head_size:
  assumes x: "tiles a (x # xs) e" "coalesced (x # xs)" "\<not> used x" and y: "tiles a (y # ys) e" "\<not> used y"
    and eq: "\<And>b. used b \<Longrightarrow> b \<in> set (x # xs) \<Longrightarrow> b \<in> set (y # ys)"
  shows "bsize y \<le> bsize x"
proof (rule ccontr)
  assume "\<not> bsize y \<le> bsize x"
  then have lt: "bsize x < bsize y" by simp
  have t: "tiles (a + bsize x) xs e" and e: "a + bsize y \<le> e" using x(1) y(1) tiles_le by auto
  with lt have "xs \<noteq> []" by auto
  then obtain z zs where z: "xs = z # zs" by (cases xs) auto
  have "used z" using coalesced_after_free [OF x(2,3) \<open>xs \<noteq> []\<close>] by (simp add: z)
  then have m: "z \<in> set (y # ys)" by (intro eq) (simp_all add: z)
  have "boff z = a + bsize x" "0 < bsize z" "boff y = a" using t y(1) by (simp_all add: z)
  then have "z = y" using lt by (intro tiles_unique [OF y(1) m, of y "a + bsize x"]) auto
  with \<open>used z\<close> y(2) show False by simp
qed

lemma used_head:
  assumes "tiles a (x # xs) e" "tiles a (y # ys) e" "x \<in> set (y # ys)"
  shows "x = y"
  using assms(1,2) by (intro tiles_unique [OF assms(2,3), of y a]) auto

lemma blocks_determined:
  "tiles a xs e \<Longrightarrow> coalesced xs \<Longrightarrow> tiles a ys e \<Longrightarrow> coalesced ys \<Longrightarrow>
   (\<And>b. used b \<Longrightarrow> b \<in> set xs \<longleftrightarrow> b \<in> set ys) \<Longrightarrow> xs = ys"
proof (induction xs arbitrary: a ys)
  case Nil then show ?case by (cases ys) (auto dest: tiles_le)
next
  case (Cons x xs)
  obtain y zs where ys: "ys = y # zs" using Cons.prems(1,3) by (cases ys) (auto dest: tiles_le)
  note p = Cons.prems [unfolded ys]
  have xy: "x = y"
  proof (cases "used x \<or> used y")
    case True
    then show ?thesis
    proof
      assume "used x"
      then have "x \<in> set (y # zs)" using p(5) [of x] by simp
      then show ?thesis by (rule used_head [OF p(1,3)])
    next
      assume "used y"
      then have "y \<in> set (x # xs)" using p(5) [of y] by simp
      then show ?thesis by (rule used_head [OF p(3,1), symmetric])
    qed
  next
    case False
    then have "bsize y \<le> bsize x" "bsize x \<le> bsize y"
      using p by (blast intro: free_head_size)+
    then show ?thesis using False p(1,3) by (auto intro: mblock.equality)
  qed
  have "b \<in> set xs \<longleftrightarrow> b \<in> set zs" if "used b" for b
  proof (cases "b = y")
    case True
    then show ?thesis using tiles_head_notin [OF p(1)] tiles_head_notin [OF p(3)] xy by simp
  next
    case False
    then show ?thesis using p(5) [OF that] xy by simp
  qed
  then have "xs = zs"
    using p(1,3) coalesced_tail [OF p(2)] coalesced_tail [OF p(4)] by (intro Cons.IH) (auto simp: xy)
  then show ?case by (simp add: xy ys)
qed

section \<open>A block taken and given back\<close>

lemma alloc_used: "allocInLocked n len bs = Some (at, bs') \<Longrightarrow>
   set (filter used bs') = insert \<lparr>boff = at, bsize = len, used = True\<rparr> (set (filter used bs))"
proof -
  assume "allocInLocked n len bs = Some (at, bs')"
  from alloc_split [OF this] obtain pre b post where s: "bs = pre @ b # post" "\<not> used b" "at = boff b" and
    n: "bs' = (if bsize b = len then pre @ b\<lparr>used := True\<rparr> # post
            else pre @ b\<lparr>bsize := len, used := True\<rparr> #
              \<lparr>boff = add64 (boff b) len, bsize = bsize b - len, used = False\<rparr> # post)" by blast
  show ?thesis
  proof (cases "bsize b = len")
    case True
    then have "b\<lparr>used := True\<rparr> = \<lparr>boff = at, bsize = len, used = True\<rparr>" by (simp add: s(3))
    with s n True show ?thesis by auto
  next
    case False
    have "b\<lparr>bsize := len, used := True\<rparr> = \<lparr>boff = at, bsize = len, used = True\<rparr>" by (simp add: s(3))
    with s n False show ?thesis by auto
  qed
qed

lemma alloc_free_restores:
  assumes "allocInLocked n len bs = Some (at, bs')" "carve_ok sz bs" "0 < len" "sz < 2 ^ 64"
  shows "free_blocks at len bs' = Some bs"
proof -
  let ?b = "\<lparr>boff = at, bsize = len, used = True\<rparr>"
  note a = alloc_blocks_ok [OF assms]
  have ok': "carve_ok sz bs'" and m: "?b \<in> set bs'" using a by auto
  have fresh: "?b \<notin> set (filter used bs)"
  proof
    assume "?b \<in> set (filter used bs)"
    then have "at \<in> used_of bs" using assms(3) by (intro bytes_whereI [of ?b]) auto
    moreover have "at \<in> free_of bs" using a assms(3) by auto
    ultimately show False using tiles_disjoint [of 0 bs sz] assms(2) by (auto simp: carve_ok_def)
  qed
  obtain bs2 where f: "free_blocks at len bs' = Some bs2" "carve_ok sz bs2"
    and u: "filter used bs2 = remove1 ?b (filter used bs')"
    by (rule free_blocks_ok [OF ok' m _ assms(4)]) auto
  have "distinct (filter used bs')" using ok' distinct_used by (auto simp: carve_ok_def)
  then have "set (filter used bs2) = set (filter used bs') - {?b}" unfolding u by (rule set_remove1_eq)
  also have "\<dots> = set (filter used bs)" using fresh alloc_used [OF assms(1)] by auto
  finally have eq: "{b \<in> set bs2. used b} = {b \<in> set bs. used b}" by simp
  have "b \<in> set bs2 \<longleftrightarrow> b \<in> set bs" if "used b" for b using eq that by blast
  then have "bs2 = bs"
    using f(2) assms(2) by (intro blocks_determined) (auto simp: carve_ok_def)
  with f(1) show ?thesis by simp
qed

section \<open>The calls\<close>

text \<open>The state after a mapping that a carve-out of the table served.\<close>

lemma mmap_served:
  assumes "mm_ok s" "alloc_carves (alignUp len Page) (carves s) = Some (a, cs)" "0 < len" "len < 2 ^ 62" "fd < 0"
  defines "want \<equiv> alignUp len Page"
  shows "\<exists>s'. mm_mmap True K 0 len OwnedProt OwnedFlags fd 0 s = (a, s') \<and> carves s' = cs \<and>
    heldBytes s' = heldBytes s \<and> liveBytes s' = liveBytes s + want \<and> mm_ok s' \<and>
    mkst s' = mkst s \<and> mmem s' = mem_write a (replicate want 0) (mmem s) \<and>
    mm_counts s' = [add64 (nMmap s) 1, add64 (nMmapCarved s) 1, nMmapFell s, nMunmap s, nMunmapCarved s, nMunmapFell s]"
proof -
  note w = alignUp_bounds [OF assms(3,4), folded want_def]
  have tb: "table_ok (carves s)" using assms(1) by (simp add: mm_ok_def)
  note ac = alloc_carves_ok [OF assms(2) [folded want_def] tb]
  define s1 where "s1 = (banner True (s\<lparr>nMmap := add64 (nMmap s) 1\<rparr>))\<lparr>nMmapCarved := add64 (nMmapCarved s) 1\<rparr>"
  define s' where "s' = (noteLive want (s1\<lparr>carves := cs\<rparr>))\<lparr>mmem := mem_write a (replicate want 0) (mmem s)\<rparr>"
  have s1: "carves s1 = carves s" "liveBytes s1 = liveBytes s" "heldBytes s1 = heldBytes s" "mkst s1 = mkst s"
    "mmem s1 = mmem s"
    "mm_counts s1 = [add64 (nMmap s) 1, add64 (nMmapCarved s) 1, nMmapFell s, nMunmap s, nMunmapCarved s, nMunmapFell s]"
    by (auto simp: s1_def banner_def mm_say_def mm_counts_def)
  have call: "mm_mmap True K 0 len OwnedProt OwnedFlags fd 0 s = (a, s')"
    using assms(2,5) s1(1)
    by (simp add: mm_mmap_def isOwnedRequest_def mapOwned_def map_locked_def map_carved_def s'_def s1_def banner_def mm_say_def
        noteLive_def Let_def flip: want_def)
  have len: "length cs = length (carves s)" using ac w assms(3) by (metis length_map less_le_trans)
  have live: "liveBytes s + want = sum_list (map (used_bytes \<circ> blk) cs)"
    using ac w assms(1,3) by (simp add: mm_ok_def)
  also have "\<dots> \<le> sum_list (map csize cs)"
    using ac w assms(3) used_bytes_le by (intro sum_list_mono) (auto simp: table_ok_def)
  finally have "liveBytes s + want \<le> heldBytes s" using ac w assms(1,3) by (simp add: mm_ok_def)
  then have "liveBytes s + want < 2 ^ 64" using assms(1) by (simp add: mm_ok_def mmap_consts)
  then have nl: "add64 (liveBytes s) want = liveBytes s + want" by (rule add64_small)
  have "mm_ok s'"
    using ac w assms(1,3) len nl by (simp add: s'_def mm_ok_def noteLive_def Let_def s1)
  with call show ?thesis
    by (intro exI [of _ s']) (use s1 nl in \<open>simp add: s'_def noteLive_def Let_def mm_counts_def\<close>)
qed

text \<open>Releasing it gives back the table.\<close>

lemma munmap_restores:
  assumes "mm_ok s" "alloc_carves (alignUp len Page) (carves s) = Some (a, cs)" "0 < len" "len < 2 ^ 62"
    and s': "carves s' = cs" "mm_ok s'" "liveBytes s' = liveBytes s + alignUp len Page"
  shows "\<exists>s2. mm_munmap K a len s' = (0, s2) \<and> carves s2 = carves s \<and> liveBytes s2 = liveBytes s \<and>
    heldBytes s2 = heldBytes s' \<and> mkst s2 = mkst s' \<and> mmem s2 = mmem s' \<and>
    mm_counts s2 = [nMmap s', nMmapCarved s', nMmapFell s', add64 (nMunmap s') 1, add64 (nMunmapCarved s') 1, nMunmapFell s']"
proof -
  define want where "want = alignUp len Page"
  note w = alignUp_bounds [OF assms(3,4), folded want_def]
  have tb: "table_ok (carves s)" "table_ok cs" using assms(1) s'(1,2) by (auto simp: mm_ok_def)
  from alloc_carves_split [OF assms(2) [folded want_def]] obtain pre c post at bs where
    c: "carves s = pre @ c # post" "allocInLocked (length (blk c)) want (blk c) = Some (at, bs)"
      "a = add64 (va c) at" "cs = pre @ c\<lparr>blk := bs\<rparr> # post" by blast
  have oc: "one_carve_ok c" using tb(1) by (auto simp: c(1) table_ok_def)
  have w0: "0 < want" using w assms(3) by linarith
  note ca = carve_alloc [OF c(2) oc w0]
  have a: "a = va c + at" "inside a want c" using ca w c(3) by auto
  have ok: "carve_ok (csize c) (blk c)" "csize c < 2 ^ 64" using oc by (auto simp: one_carve_ok_def)
  have f: "free_blocks at want bs = Some (blk c)" by (rule alloc_free_restores [OF c(2) ok(1) w0 ok(2)])
  have i: "carveOfLocked a (carves s') = Some (length pre)"
    using a w0 tb(2) unfolding s'(1) by (intro carve_of_mem) (auto simp: c(4))
  have o: "sub64 a (va c) = at" using a(2) w0 oc by (simp add: a(1) sub64_small one_carve_ok_def)
  have l: "sub64 (liveBytes s + want) want = liveBytes s"
  proof -
    have "liveBytes s' \<le> heldBytes s'"
    proof -
      have "sum_list (map (used_bytes \<circ> blk) (carves s')) \<le> sum_list (map csize (carves s'))"
        using tb(2) used_bytes_le by (intro sum_list_mono) (auto simp: table_ok_def s'(1))
      then show ?thesis using s'(2) by (simp add: mm_ok_def)
    qed
    then have "liveBytes s + want < 2 ^ 64" using s'(2,3) by (simp add: mm_ok_def mmap_consts want_def)
    then show ?thesis by (simp add: sub64_small)
  qed
  show ?thesis
    using i f o l s'(1,3)
    by (simp add: mm_munmap_def unmap_locked_def freeInLocked_def Let_def c(1,4) nth_append list_update_append mm_counts_def
        flip: want_def)
qed

end
