(* ===== verification/Mem_Probe.thy ===== *)
theory Mem_Probe
  imports Heap Mmap_Pair Clock Thread_Probe Timer_Probe
begin

text \<open>
  The internal memory probe of \<open>src/orbis_mem.cpp\<close>: eight primitives run in turn, with the size of
  libkernel's internal pool read before and after. The bodies that call other parts of the library
  run on those parts' states (\<open>clock_gettime\<close>, the mapping interposer); what libkernel and the
  allocator do to the rest of the process is a parameter. \<open>memCensusBaseline\<close>, which starts all the
  probes, follows.
\<close>

section \<open>The primitives\<close>

record ('k, 'l) probe_world =
  w_sink :: u32
  w_clock :: clock_state
  w_mm :: "'k mm_state"
  w_lib :: 'l

text \<open>
  The platform: the pthread calls and \<open>sceKernelUsleep\<close> on libkernel's state, \<open>malloc\<close> and \<open>free\<close>,
  which may map and unmap, on all of it, and the query of the pool: the first word of the scratch
  and the returned value.
\<close>

record ('k, 'l) platform =
  pf_clock :: clock_env
  pf_direct :: bool
  pf_kernel :: "'k mm_kernel"
  mutex_lock :: "'l \<Rightarrow> 'l"
  mutex_unlock :: "'l \<Rightarrow> 'l"
  cond_timedwait :: "timespec \<Rightarrow> 'l \<Rightarrow> 'l"
  usleep :: "nat \<Rightarrow> 'l \<Rightarrow> 'l"
  malloc_call :: "nat \<Rightarrow> ('k, 'l) probe_world \<Rightarrow> nat \<times> ('k, 'l) probe_world"
  free_call :: "nat \<Rightarrow> ('k, 'l) probe_world \<Rightarrow> ('k, 'l) probe_world"
  available_size :: "(('k, 'l) probe_world \<Rightarrow> nat \<times> nat) option"

definition MAP_FAILED :: nat where "MAP_FAILED = 2 ^ 64 - 1"

definition bodyNothing :: "('k, 'l) probe_world \<Rightarrow> ('k, 'l) probe_world" where
  "bodyNothing w = w\<lparr>w_sink := w_sink w + 1\<rparr>"

definition bodyClockMonotonic :: "('k, 'l) platform \<Rightarrow> ('k, 'l) probe_world \<Rightarrow> ('k, 'l) probe_world" where
  "bodyClockMonotonic P w =
     (case clock_gettime (pf_clock P) CLOCK_MONOTONIC True (w_clock w) of (_, _, _, c) \<Rightarrow> w\<lparr>w_clock := c\<rparr>)"

definition bodyClockRealtime :: "('k, 'l) platform \<Rightarrow> ('k, 'l) probe_world \<Rightarrow> ('k, 'l) probe_world" where
  "bodyClockRealtime P w =
     (case clock_gettime (pf_clock P) CLOCK_REALTIME True (w_clock w) of (_, _, _, c) \<Rightarrow> w\<lparr>w_clock := c\<rparr>)"

definition bodyMutexLock :: "('k, 'l) platform \<Rightarrow> ('k, 'l) probe_world \<Rightarrow> ('k, 'l) probe_world" where
  "bodyMutexLock P w = w\<lparr>w_lib := mutex_unlock P (mutex_lock P (w_lib w))\<rparr>"

definition bodyCondTimedwaitExpired :: "('k, 'l) platform \<Rightarrow> ('k, 'l) probe_world \<Rightarrow> ('k, 'l) probe_world" where
  "bodyCondTimedwaitExpired P w =
     (let epoch = \<lparr>tv_sec = 0, tv_nsec = 0\<rparr>
      in w\<lparr>w_lib := mutex_unlock P (cond_timedwait P epoch (mutex_lock P (w_lib w)))\<rparr>)"

definition bodyUsleep :: "('k, 'l) platform \<Rightarrow> ('k, 'l) probe_world \<Rightarrow> ('k, 'l) probe_world" where
  "bodyUsleep P w = w\<lparr>w_lib := usleep P 1 (w_lib w)\<rparr>"

text \<open>One byte written through a pointer.\<close>

definition touch :: "nat \<Rightarrow> ('k, 'l) probe_world \<Rightarrow> ('k, 'l) probe_world" where
  "touch p w = w\<lparr>w_mm := (w_mm w)\<lparr>mmem := mem_write p [1] (mmem (w_mm w))\<rparr>\<rparr>"

definition bodyMallocLarge :: "('k, 'l) platform \<Rightarrow> ('k, 'l) probe_world \<Rightarrow> ('k, 'l) probe_world" where
  "bodyMallocLarge P w =
     (let (p, w') = malloc_call P (96 * 1024) w in if p \<noteq> 0 then free_call P p (touch p w') else w')"

definition bodyMmapPair :: "('k, 'l) platform \<Rightarrow> ('k, 'l) probe_world \<Rightarrow> ('k, 'l) probe_world" where
  "bodyMmapPair P w =
     (let (p, m) = mm_mmap (pf_direct P) (pf_kernel P) 0 (64 * 1024) OwnedProt OwnedFlags (-1) 0 (w_mm w);
          w' = w\<lparr>w_mm := m\<rparr>
      in if p \<noteq> MAP_FAILED \<and> p \<noteq> 0
         then let w'' = touch p w' in w''\<lparr>w_mm := snd (mm_munmap (pf_kernel P) p (64 * 1024) (w_mm w''))\<rparr>
         else w')"

section \<open>Measuring\<close>

datatype mem_probe_line =
    Unresolved
  | Free_before nat nat
  | Measured string int nat int nat
  | Mmap_traffic "nat list"
  | Done

definition pool_free :: "('k, 'l) platform \<Rightarrow> ('k, 'l) probe_world \<Rightarrow> nat" where
  "pool_free P w = internalFree (map_option (\<lambda>f. f w) (available_size P))"

text \<open>\<open>measureN\<close>: the line, with the bytes lost over the calls, the bytes of each, and what is left.\<close>

definition measureN :: "('k, 'l) platform \<Rightarrow> string \<Rightarrow> (('k, 'l) probe_world \<Rightarrow> ('k, 'l) probe_world) \<Rightarrow> nat \<Rightarrow>
    ('k, 'l) probe_world \<Rightarrow> mem_probe_line \<times> ('k, 'l) probe_world" where
  "measureN P what body n w =
     (let before = pool_free P w; w' = (body ^^ n) w; after = pool_free P w';
          lost = int64 before - int64 after
      in (Measured what lost n (lost sdiv int n) after, w'))"

definition kProbeIterations :: nat where "kProbeIterations = 2000"

definition measure_each :: "('k, 'l) platform \<Rightarrow> string \<Rightarrow> (('k, 'l) probe_world \<Rightarrow> ('k, 'l) probe_world) \<Rightarrow>
    ('k, 'l) probe_world \<Rightarrow> mem_probe_line \<times> ('k, 'l) probe_world" where
  "measure_each P what body = measureN P what body kProbeIterations"

text \<open>\<open>internalMemoryProbe\<close>; \<open>env\<close> is what \<open>orbis_env_get\<close> answers.\<close>

definition internalMemoryProbe :: "('k, 'l) platform \<Rightarrow> bool \<Rightarrow> (string \<Rightarrow> string option) \<Rightarrow>
    ('k, 'l) probe_world \<Rightarrow> mem_probe_line list \<times> ('k, 'l) probe_world" where
  "internalMemoryProbe P log_enabled env w =
     (let on = (case env ''ORBIS_INTERNAL_MEM_PROBE'' of None \<Rightarrow> False | Some e \<Rightarrow> e \<noteq> [] \<and> hd e \<noteq> CHR ''0'') in
      if \<not> log_enabled \<or> \<not> on then ([], w)
      else if available_size P = None then ([Unresolved], w)
      else
        let first = Free_before (pool_free P w) kProbeIterations;
            (l1, w) = measure_each P ''control (nothing)'' bodyNothing w;
            (l2, w) = measure_each P ''clock_gettime MONOTONIC'' (bodyClockMonotonic P) w;
            (l3, w) = measure_each P ''clock_gettime REALTIME'' (bodyClockRealtime P) w;
            (l4, w) = measure_each P ''pthread_mutex lock+unlock'' (bodyMutexLock P) w;
            (l5, w) = measure_each P ''sceKernelUsleep(1)'' (bodyUsleep P) w;
            (l6, w) = measure_each P ''cond_timedwait EXPIRED'' (bodyCondTimedwaitExpired P) w;
            (l7, w) = measure_each P ''malloc+free 96 KiB'' (bodyMallocLarge P) w;
            (l8, w) = measureN P ''mmap+munmap 64 KiB'' (bodyMmapPair P) 500 w
        in ([first, l1, l2, l3, l4, l5, l6, l7, l8, Mmap_traffic (mm_counts (w_mm w)), Done], w))"

definition orbis_internal_memory_probe :: "('k, 'l) platform \<Rightarrow> bool \<Rightarrow> (string \<Rightarrow> string option) \<Rightarrow>
    ('k, 'l) probe_world \<Rightarrow> mem_probe_line list \<times> ('k, 'l) probe_world" where
  "orbis_internal_memory_probe P log_enabled env w = internalMemoryProbe P log_enabled env w"

section \<open>The baseline\<close>

datatype boot_line = Census census_line | Stack_line stack_report | Timer_line timer_line | Memory_line mem_probe_line

text \<open>
  \<open>memCensusBaseline\<close>: the census, then the thread, timer and memory probes. \<open>None\<close> is the stack
  probe's use after free, which \<open>Thread_Props\<close> excludes.
\<close>

definition memCensusBaseline :: "('k, 'l) platform \<Rightarrow> bool \<Rightarrow> (string \<Rightarrow> string option) \<Rightarrow> pools \<Rightarrow> probe_answers \<Rightarrow>
    timer_answers \<Rightarrow> mem_state \<times> thread_state \<times> ('k, 'l) probe_world \<Rightarrow>
    (boot_line list \<times> mem_state \<times> thread_state \<times> ('k, 'l) probe_world) option" where
  "memCensusBaseline P log_enabled env q pa ta st =
     (let (m, t, w) = st; (census, m) = baseline_census q (w_mm w) m in
      do { (stack, t) \<leftarrow> threadStackProbe log_enabled pa t;
           let timers = timerProbe log_enabled ta;
               (memory, w) = internalMemoryProbe P log_enabled env w
           in Some (map Census census @ (case stack of None \<Rightarrow> [] | Some r \<Rightarrow> [Stack_line r]) @
                    map Timer_line timers @ map Memory_line memory, m, t, w) })"

section \<open>Properties\<close>

text \<open>A pool that did not move has lost nothing; one that lost the same at every call has lost that.\<close>

lemma measured_exact:
  assumes "0 < n" "b < 2 ^ 63" "a < 2 ^ 63" "int b = int a + int n * c"
  shows "int64 b - int64 a = int n * c \<and> (int64 b - int64 a) sdiv int n = c"
  using assms by (auto simp: int64_def signed_divide_int_def sgn_mult abs_mult abs_sgn)

text \<open>The four primitives of libkernel leave the interposer and the clock alone.\<close>

lemma bodies_local:
  "w_mm (bodyMutexLock P w) = w_mm w" "w_mm (bodyUsleep P w) = w_mm w" "w_mm (bodyCondTimedwaitExpired P w) = w_mm w"
  "w_mm (bodyNothing w) = w_mm w" "w_mm (bodyClockMonotonic P w) = w_mm w" "w_mm (bodyClockRealtime P w) = w_mm w"
  by (simp_all add: bodyMutexLock_def bodyUsleep_def bodyCondTimedwaitExpired_def bodyNothing_def
      bodyClockMonotonic_def bodyClockRealtime_def Let_def split: prod.splits)

text \<open>
  A pair of mapping and unmapping that a carve-out serves gives back the table, calls neither
  \<open>mmap\<close> nor \<open>munmap\<close> of the kernel and is counted as one of each.
\<close>

definition pair_served :: "('k, 'l) platform \<Rightarrow> carve list \<Rightarrow> bool" where
  "pair_served P cs \<longleftrightarrow> pf_direct P \<and>
     (\<exists>a cs'. alloc_carves (alignUp (64 * 1024) Page) cs = Some (a, cs') \<and> a \<noteq> 0 \<and> a \<noteq> MAP_FAILED)"

lemma bodyMmapPair_restores:
  assumes "mm_ok (w_mm w)" "pair_served P (carves (w_mm w))"
  shows "let m = w_mm w; m' = w_mm (bodyMmapPair P w) in
    carves m' = carves m \<and> heldBytes m' = heldBytes m \<and> liveBytes m' = liveBytes m \<and> mkst m' = mkst m \<and>
    mm_counts m' = [add64 (nMmap m) 1, add64 (nMmapCarved m) 1, nMmapFell m,
                    add64 (nMunmap m) 1, add64 (nMunmapCarved m) 1, nMunmapFell m]"
proof -
  define m where "m = w_mm w"
  obtain a cs where a: "pf_direct P" "alloc_carves (alignUp (64 * 1024) Page) (carves m) = Some (a, cs)" "a \<noteq> 0" "a \<noteq> MAP_FAILED"
    using assms(2) by (auto simp: pair_served_def m_def)
  have ok: "mm_ok m" using assms(1) by (simp add: m_def)
  from mmap_served [OF ok a(2), of "-1" "pf_kernel P"] obtain m1 where
    m1: "mm_mmap True (pf_kernel P) 0 (64 * 1024) OwnedProt OwnedFlags (-1) 0 m = (a, m1)" "carves m1 = cs"
      "heldBytes m1 = heldBytes m" "liveBytes m1 = liveBytes m + alignUp (64 * 1024) Page" "mm_ok m1" "mkst m1 = mkst m"
      "mm_counts m1 = [add64 (nMmap m) 1, add64 (nMmapCarved m) 1, nMmapFell m, nMunmap m, nMunmapCarved m, nMunmapFell m]"
    by auto
  define m2 where "m2 = m1\<lparr>mmem := mem_write a [1] (mmem m1)\<rparr>"
  have m2: "carves m2 = cs" "mm_ok m2" "liveBytes m2 = liveBytes m + alignUp (64 * 1024) Page"
    using m1 by (simp_all add: m2_def mm_ok_def)
  from munmap_restores [OF ok a(2) _ _ m2, of "pf_kernel P"] obtain m3 where
    m3: "mm_munmap (pf_kernel P) a (64 * 1024) m2 = (0, m3)" "carves m3 = carves m" "liveBytes m3 = liveBytes m"
      "heldBytes m3 = heldBytes m2" "mkst m3 = mkst m2"
      "mm_counts m3 = [nMmap m2, nMmapCarved m2, nMmapFell m2, add64 (nMunmap m2) 1, add64 (nMunmapCarved m2) 1, nMunmapFell m2]"
    by auto
  have "w_mm (bodyMmapPair P w) = m3"
    using a m1(1) m3(1) by (simp add: bodyMmapPair_def touch_def m2_def m_def)
  then show ?thesis
    using m1 m3 by (simp add: m2_def mm_counts_def flip: m_def)
qed

lemma add64_one: "w64 a = w64 b \<Longrightarrow> w64 (add64 a 1) = w64 (Suc b)"
  unfolding add64_def w64_def using mod_Suc_eq [of a "2 ^ 64"] mod_Suc_eq [of b "2 ^ 64"] by (simp only: mod_mod_trivial Suc_eq_plus1)

lemma mmap_pairs_restore:
  assumes "mm_ok (w_mm w)" "pair_served P (carves (w_mm w))"
  shows "let m = w_mm w; m' = w_mm ((bodyMmapPair P ^^ n) w) in
    carves m' = carves m \<and> heldBytes m' = heldBytes m \<and> liveBytes m' = liveBytes m \<and> mkst m' = mkst m \<and>
    nMmapFell m' = nMmapFell m \<and> nMunmapFell m' = nMunmapFell m \<and>
    w64 (nMmapCarved m') = w64 (nMmapCarved m + n) \<and> w64 (nMunmapCarved m') = w64 (nMunmapCarved m + n)"
proof (induction n)
  case (Suc n)
  define v where "v = (bodyMmapPair P ^^ n) w"
  note IH = Suc [folded v_def, unfolded Let_def]
  have "mm_ok (w_mm v)" "pair_served P (carves (w_mm v))" using assms IH by (simp_all add: mm_ok_def)
  have *: "w64 (add64 (nMmapCarved (w_mm v)) 1) = w64 (nMmapCarved (w_mm w) + Suc n)"
    "w64 (add64 (nMunmapCarved (w_mm v)) 1) = w64 (nMunmapCarved (w_mm w) + Suc n)"
    using IH by (simp_all add: add64_one [simplified])
  with bodyMmapPair_restores [OF \<open>mm_ok (w_mm v)\<close> \<open>pair_served P (carves (w_mm v))\<close>, unfolded Let_def mm_counts_def] IH
  show ?case by (simp add: v_def Let_def)
qed simp

lemma bodyMmapPair_lib: "w_lib (bodyMmapPair P w) = w_lib w" "w_lib ((bodyMmapPair P ^^ n) w) = w_lib w"
proof -
  show *: "w_lib (bodyMmapPair P w) = w_lib w" for w
    by (simp add: bodyMmapPair_def touch_def Let_def split: prod.splits)
  show "w_lib ((bodyMmapPair P ^^ n) w) = w_lib w" by (induction n) (simp_all add: *)
qed

text \<open>A platform with one carve-out of which nothing is in use.\<close>

definition demo_platform :: "(nat, unit) platform" where
  "demo_platform = \<lparr>pf_clock = \<lparr>freq = 1000, counter = of_nat, process_time = of_nat, timeofday = None\<rparr>,
     pf_direct = True, pf_kernel = demo_mm_kernel, mutex_lock = id, mutex_unlock = id,
     cond_timedwait = (\<lambda>_. id), usleep = (\<lambda>_. id), malloc_call = (\<lambda>n w. (0, w)), free_call = (\<lambda>p w. w),
     available_size = Some (\<lambda>w. (65536 - 32 * mkst (w_mm w), 0))\<rparr>"

definition demo_world :: "(nat, unit) probe_world" where
  "demo_world = \<lparr>w_sink = 0, w_clock = clock_init,
     w_mm = demo_mm\<lparr>carves := [\<lparr>va = 2 ^ 40, cphys = 0, csize = CarveBytes,
               blk = [\<lparr>boff = 0, bsize = CarveBytes, used = False\<rparr>]\<rparr>], heldBytes := CarveBytes\<rparr>, w_lib = ()\<rparr>"

lemma demo_world_ok: "mm_ok (w_mm demo_world)" "pair_served demo_platform (carves (w_mm demo_world))"
proof -
  show "mm_ok (w_mm demo_world)"
    by (simp add: demo_world_def mm_ok_def mm_init_def one_carve_ok_def carve_ok_def page_blocks_def used_bytes_def mmap_consts)
  show "pair_served demo_platform (carves (w_mm demo_world))"
    by (simp add: demo_world_def demo_platform_def pair_served_def MAP_FAILED_def alignUp_def wrap_simps mmap_consts
        add64_def w64_def)
qed

text \<open>
  C13. Where a carve-out can serve a mapping of 64 KiB, the probe's mapping line reads zero however
  often the pair is repeated, if the pool depends on the kernel and libkernel alone: the pairs are
  served and released by the interposer, which gives back its table, counts them as carved, and
  calls neither \<open>mmap\<close> nor \<open>munmap\<close> of the platform.
\<close>

theorem mmap_pairs_cost_nothing:
  assumes "mm_ok (w_mm w)" "pair_served P (carves (w_mm w))"
    and "available_size P = Some (\<lambda>w. pool (mkst (w_mm w)) (w_lib w))"
    and "measureN P what (bodyMmapPair P) n w = (line, w')"
  shows "line = Measured what 0 n 0 (pool_free P w) \<and>
    carves (w_mm w') = carves (w_mm w) \<and> liveBytes (w_mm w') = liveBytes (w_mm w) \<and>
    nMmapFell (w_mm w') = nMmapFell (w_mm w) \<and> nMunmapFell (w_mm w') = nMunmapFell (w_mm w) \<and>
    w64 (nMmapCarved (w_mm w')) = w64 (nMmapCarved (w_mm w) + n)"
proof -
  have w': "w' = (bodyMmapPair P ^^ n) w" using assms(4) by (auto simp: measureN_def Let_def)
  note r = mmap_pairs_restore [OF assms(1,2), of n, folded w', unfolded Let_def]
  have "pool_free P w' = pool_free P w"
    using r bodyMmapPair_lib(2) [of n P w] by (simp add: pool_free_def assms(3) w')
  then show ?thesis using r assms(4) by (auto simp: measureN_def Let_def signed_divide_int_def simp flip: w')
qed

theorem mmap_pairs_cost_nothing_witness:
  "\<exists>w'. measureN demo_platform ''mmap'' (bodyMmapPair demo_platform) 500 demo_world = (Measured ''mmap'' 0 500 0 65536, w') \<and>
     carves (w_mm w') = carves (w_mm demo_world)"
proof -
  obtain line w' where m: "measureN demo_platform ''mmap'' (bodyMmapPair demo_platform) 500 demo_world = (line, w')"
    by (metis surj_pair)
  have "available_size demo_platform = Some (\<lambda>w. (\<lambda>k _. (65536 - 32 * k, 0)) (mkst (w_mm w)) (w_lib w))"
    by (simp add: demo_platform_def)
  from mmap_pairs_cost_nothing [OF demo_world_ok this m] m show ?thesis
    by (simp add: pool_free_def demo_platform_def demo_world_def internalFree_def mm_init_def)
qed

end
