(* ===== verification/TwoWay_Words.thy ===== *)
theory TwoWay_Words
  imports Main "HOL-Library.Sublist"
begin

text \<open>
  The word combinatorics under the two-way search: lexicographic comparison of suffixes, periods,
  and the critical factorization at a maximal suffix. Where a word is cut in front of the shorter of
  its two maximal suffixes (for an order of the letters and for its converse), every repetition
  around the cut is a period of the whole word.
\<close>

section \<open>Lexicographic order\<close>

fun lle :: "('a \<Rightarrow> 'a \<Rightarrow> bool) \<Rightarrow> 'a list \<Rightarrow> 'a list \<Rightarrow> bool" where
  "lle lt [] ys \<longleftrightarrow> True"
| "lle lt (x # xs) [] \<longleftrightarrow> False"
| "lle lt (x # xs) (y # ys) \<longleftrightarrow> lt x y \<or> x = y \<and> lle lt xs ys"

abbreviation (input) converse_order :: "('a \<Rightarrow> 'a \<Rightarrow> bool) \<Rightarrow> 'a \<Rightarrow> 'a \<Rightarrow> bool" where
  "converse_order lt \<equiv> (\<lambda>a b. lt b a)"

text \<open>What the search relies on in the comparison of two letters.\<close>

locale letter_order =
  fixes lt :: "'a \<Rightarrow> 'a \<Rightarrow> bool"
  assumes irreflexive: "\<not> lt a a"
    and transitive: "lt a b \<Longrightarrow> lt b c \<Longrightarrow> lt a c"
    and linear: "a \<noteq> b \<Longrightarrow> lt a b \<or> lt b a"
begin

lemma asymmetric: "lt a b \<Longrightarrow> \<not> lt b a" using transitive irreflexive by blast

lemma lle_refl: "lle lt xs xs" by (induction xs) auto

lemma lle_append: "lle lt (w @ xs) (w @ ys) \<longleftrightarrow> lle lt xs ys"
  by (induction w) (auto simp: irreflexive)

lemma lle_trans: "lle lt xs ys \<Longrightarrow> lle lt ys zs \<Longrightarrow> lle lt xs zs"
proof (induction xs arbitrary: ys zs)
  case (Cons x xs)
  then show ?case by (cases ys; cases zs) (auto intro: transitive)
qed simp

lemma lle_antisym: "lle lt xs ys \<Longrightarrow> lle lt ys xs \<Longrightarrow> xs = ys"
proof (induction xs arbitrary: ys)
  case Nil then show ?case by (cases ys) auto
next
  case (Cons x xs) then show ?case by (cases ys) (auto dest: asymmetric)
qed

text \<open>A word is below another in both directions of the order when it is its prefix.\<close>

lemma lle_both: "lle lt xs ys \<Longrightarrow> lle (converse_order lt) xs ys \<Longrightarrow> prefix xs ys"
proof (induction xs arbitrary: ys)
  case (Cons x xs)
  then show ?case by (cases ys) (auto dest: asymmetric)
qed simp

lemma lle_prefix: "prefix xs ys \<Longrightarrow> lle lt xs ys"
  using lle_append [of xs "[]"] by (auto simp: prefix_def)

text \<open>A word that goes down at its first difference.\<close>

lemma lle_differ:
  "d < length xs \<Longrightarrow> d < length ys \<Longrightarrow> lt (xs ! d) (ys ! d) \<Longrightarrow> (\<And>c. c < d \<Longrightarrow> xs ! c = ys ! c) \<Longrightarrow> lle lt xs ys"
proof (induction d arbitrary: xs ys)
  case 0 then show ?case by (cases xs; cases ys) auto
next
  case (Suc d)
  from Suc.prems(1,2) obtain x xs' y ys' where s: "xs = x # xs'" "ys = y # ys'" by (cases xs; cases ys) auto
  have "x = y" using Suc.prems(4) [of 0] by (simp add: s)
  moreover have "lle lt xs' ys'"
  proof (rule Suc.IH)
    show "xs' ! c = ys' ! c" if "c < d" for c using Suc.prems(4) [of "Suc c"] that by (simp add: s)
  qed (use Suc.prems(1-3) in \<open>auto simp: s\<close>)
  ultimately show ?case by (simp add: s)
qed

end

lemma letter_order_converse: "letter_order lt \<Longrightarrow> letter_order (converse_order lt)"
  unfolding letter_order_def by blast

section \<open>Periods and repetitions\<close>

definition period :: "'a list \<Rightarrow> nat \<Rightarrow> bool" where
  "period x s \<longleftrightarrow> 0 < s \<and> (\<forall>j. s \<le> j \<and> j < length x \<longrightarrow> x ! (j - s) = x ! j)"

text \<open>A repetition around the cut \<open>c\<close>: the \<open>s\<close> letters behind it are those before it, where there are letters.\<close>

definition local_rep :: "'a list \<Rightarrow> nat \<Rightarrow> nat \<Rightarrow> bool" where
  "local_rep x c s \<longleftrightarrow> 0 < s \<and> (\<forall>j. c \<le> j \<and> s \<le> j \<and> j < c + s \<and> j < length x \<longrightarrow> x ! (j - s) = x ! j)"

definition max_suffix :: "('a \<Rightarrow> 'a \<Rightarrow> bool) \<Rightarrow> 'a list \<Rightarrow> 'a list \<Rightarrow> bool" where
  "max_suffix lt x v \<longleftrightarrow> suffix v x \<and> v \<noteq> [] \<and> (\<forall>y. suffix y x \<longrightarrow> lle lt y v)"

lemma period_local: "period x s \<Longrightarrow> local_rep x c s"
  by (simp add: period_def local_rep_def)

lemma periodD: "period x s \<Longrightarrow> s \<le> j \<Longrightarrow> j < length x \<Longrightarrow> x ! (j - s) = x ! j"
  by (simp add: period_def)

lemma local_repD: "local_rep x c s \<Longrightarrow> c \<le> j \<Longrightarrow> s \<le> j \<Longrightarrow> j < c + s \<Longrightarrow> j < length x \<Longrightarrow> x ! (j - s) = x ! j"
  by (simp add: local_rep_def)

lemma period_prefix:
  assumes "0 < s" "prefix (drop s x) x"
  shows "period x s"
proof -
  from assms(2) obtain t where t: "x = drop s x @ t" by (auto simp: prefix_def)
  have "x ! (j - s) = x ! j" if "s \<le> j" "j < length x" for j
  proof -
    have "j - s < length (drop s x)" using that by (simp add: diff_less_mono)
    then have "(drop s x @ t) ! (j - s) = drop s x ! (j - s)" by (rule nth_append_left)
    then have "x ! (j - s) = drop s x ! (j - s)" by (simp flip: t)
    then show ?thesis using that by simp
  qed
  with assms(1) show ?thesis by (simp add: period_def)
qed

lemma period_mult: "period v p \<Longrightarrow> a + k * p < length v \<Longrightarrow> v ! (a + k * p) = v ! a"
proof (induction k)
  case (Suc k)
  have "v ! (a + Suc k * p) = v ! (a + k * p)"
    using periodD [OF Suc.prems(1), of "a + Suc k * p"] Suc.prems(2) by (simp add: add.commute add.left_commute)
  then show ?case using Suc by simp
qed simp

lemma period_drop: "period x s \<Longrightarrow> period (drop c x) s"
  unfolding period_def by (auto dest!: spec [of _ "c + _"])

section \<open>Critical factorization\<close>

context letter_order
begin

text \<open>
  The cut in \<open>u @ v\<close> is at a maximal suffix, and the maximal suffix for the converse order is not
  shorter.
\<close>

lemma max_suffix_below: "max_suffix lt x v \<Longrightarrow> suffix y x \<Longrightarrow> lle lt y v"
  by (simp add: max_suffix_def)

lemma max_suffix_below_converse:
  "max_suffix (converse_order lt) x (t @ v) \<Longrightarrow> suffix (t @ y) x \<Longrightarrow> lle (converse_order lt) y v"
  using letter_order.lle_append [OF letter_order_converse [OF letter_order_axioms]]
  by (auto simp: max_suffix_def)

text \<open>No word that ends the left part starts or continues the right one.\<close>

lemma no_square:
  assumes max: "max_suffix lt (u @ v) v"
    and w: "suffix w u" "w \<noteq> []" and v: "prefix w v \<or> prefix v w"
  shows False
proof -
  note below = max_suffix_below [OF max]
  have sf: "suffix (w @ v) (u @ v)" using w(1) by (auto simp: suffix_def)
  from v show False
  proof
    assume "prefix w v"
    then obtain z where z: "v = w @ z" by (auto simp: prefix_def)
    have "lle lt (w @ v) (w @ z)" using below [OF sf] by (simp flip: z)
    then have "lle lt v z" by (simp add: lle_append)
    moreover have "lle lt z v" by (rule below) (simp add: z suffix_def)
    ultimately have "v = z" by (rule lle_antisym)
    with z w(2) show False by simp
  next
    assume "prefix v w"
    then obtain y where y: "w = v @ y" by (auto simp: prefix_def)
    have "lle lt (v @ (y @ v)) (v @ [])" using below [OF sf] by (simp add: y)
    then have "lle lt (y @ v) []" by (simp only: lle_append)
    then have "v = []" by (cases "y @ v") auto
    then show False using max by (simp add: max_suffix_def)
  qed
qed

text \<open>The same by letters: a repetition around the cut is longer than the left part.\<close>

lemma repetition_long:
  assumes max: "max_suffix lt (u @ v) v" and r: "local_rep (u @ v) (length u) s"
  shows "length u < s"
proof (rule ccontr)
  assume "\<not> length u < s"
  then have s: "s \<le> length u" "0 < s" using r by (simp_all add: local_rep_def)
  define w where "w = drop (length u - s) u"
  have lw: "length w = s" using s by (simp add: w_def)
  have eq: "w ! i = v ! i" if "i < s" "i < length v" for i
  proof -
    have "length u + i - s < length u" "length u - s + i = length u + i - s" using that s by auto
    then show ?thesis using local_repD [OF r, of "length u + i"] that s by (simp add: w_def nth_append)
  qed
  have "prefix w v \<or> prefix v w"
  proof (cases "s \<le> length v")
    case True
    then have "w = take s v" by (intro nth_equalityI) (auto simp: lw eq)
    then show ?thesis by (simp add: take_is_prefix)
  next
    case False
    then have "v = take (length v) w" by (intro nth_equalityI) (auto simp: lw eq)
    then show ?thesis by (metis take_is_prefix)
  qed
  moreover have "suffix w u" "w \<noteq> []" using s(2) lw by (auto simp: w_def suffix_drop)
  ultimately show False by (rule no_square [OF max, rotated 2])
qed

text \<open>The critical factorization: such a repetition is a period of the whole.\<close>

lemma repetition_period:
  assumes max: "max_suffix lt (u @ v) v" "max_suffix (converse_order lt) (u @ v) (t @ v)"
    and r: "local_rep (u @ v) (length u) s"
  shows "period (u @ v) s"
proof -
  let ?x = "u @ v"
  note below = max_suffix_below [OF max(1)] and below_converse = max_suffix_below_converse [OF max(2)]
  have t_suffix: "suffix t u" using max(2) by (auto simp: max_suffix_def)
  have s: "length u < s" "0 < s" using repetition_long [OF max(1) r] by auto
  have near: "?x ! (j - s) = ?x ! j" if "s \<le> j" "j < length u + s" "j < length ?x" for j
    by (rule local_repD [OF r _ that(1,2,3)]) (use that s in simp)
  have far: "?x ! (j - s) = ?x ! j" if j: "length u + s \<le> j" "j < length ?x" for j
  proof -
    have sv: "s < length v" using j by simp
    define w where "w = take s v"
    have "suffix u w"
    proof -
      have "drop (s - length u) w = u"
      proof (rule nth_equalityI)
        show "length (drop (s - length u) w) = length u" using s sv by (simp add: w_def)
        fix i assume "i < length (drop (s - length u) w)"
        then have i: "i < length u" using s sv by (simp add: w_def)
        have "drop (s - length u) w ! i = ?x ! (s + i)" using i s sv by (simp add: w_def nth_append)
        also have "\<dots> = ?x ! i" using near [of "s + i"] i s sv by simp
        finally show "drop (s - length u) w ! i = u ! i" using i by (simp add: nth_append)
      qed
      then show ?thesis by (metis suffix_drop)
    qed
    then have tw: "suffix t w" using t_suffix suffix_order.trans by blast
    have "suffix (t @ drop s v) v" using tw unfolding w_def suffix_def by (metis append.assoc append_take_drop_id)
    then have "suffix (t @ drop s v) ?x" by (simp add: suffix_appendI)
    then have "lle (converse_order lt) (drop s v) v" by (rule below_converse)
    moreover have "lle lt (drop s v) v" by (rule below) (simp add: suffix_drop suffix_appendI)
    ultimately have "period v s" using s(2) lle_both period_prefix by blast
    moreover have "s \<le> j - length u" "j - length u < length v" "\<not> j - s < length u" "j - s - length u = j - length u - s"
      using j by auto
    ultimately show ?thesis using periodD [of v s "j - length u"] j by (simp add: nth_append)
  qed
  show ?thesis using near far s(2) unfolding period_def by (meson not_le)
qed

text \<open>
  A period of the whole that fits into the right part is a multiple of the right part's own, and
  then the left part has that one too.
\<close>

lemma period_right:
  assumes max: "max_suffix lt (u @ v) v" "max_suffix (converse_order lt) (u @ v) (t @ v)"
    and px: "period (u @ v) s" "s \<le> length v"
    and pv: "period v p" "p \<le> length v" "\<And>q. 0 < q \<Longrightarrow> q < p \<Longrightarrow> \<not> period v q"
  shows "i < length u \<Longrightarrow> (u @ v) ! i = (u @ v) ! (p + i)"
proof -
  let ?x = "u @ v"
  note below = max_suffix_below [OF max(1)] and below_converse = max_suffix_below_converse [OF max(2)]
  have t_suffix: "suffix t u" using max(2) by (auto simp: max_suffix_def)
  have us: "length u < s" using repetition_long [OF max(1)] period_local [OF px(1)] by blast
  have pvs: "period v s" using period_drop [OF px(1), of "length u"] by simp
  have ps: "p \<le> s" using pv(3) [of s] pvs by (metis not_le period_def)
  have p0: "0 < p" using pv(1) by (simp add: period_def)
  define r where "r = s mod p"
  have sm: "s = r + s div p * p" by (simp add: r_def)
  have shift: "?x ! (i + s) = ?x ! i" if "i < length u" for i
    using periodD [OF px(1), of "i + s"] that px(2) by simp
  have mult: "v ! (a + s div p * p) = v ! a" if "a + s div p * p < length v" for a
    by (rule period_mult [OF pv(1) that])
  have r0: "r = 0"
  proof (rule ccontr)
    assume rp: "r \<noteq> 0"
    have rl: "r < p" using p0 by (simp add: r_def)
    have ends: "drop (length u - m) u = drop (r - m) (take r v)" if "m \<le> length u" "m \<le> r" for m
    proof (rule nth_equalityI)
      show "length (drop (length u - m) u) = length (drop (r - m) (take r v))"
        using that rl pv(2) by simp
      fix i assume "i < length (drop (length u - m) u)"
      then have i: "i < m" using that by simp
      have "length u - m + i < length u" using i that by linarith
      then have "drop (length u - m) u ! i = ?x ! (length u - m + i)" using that by (simp only: nth_append_left) simp
      also have "\<dots> = ?x ! (length u - m + i + s)" using shift [of "length u - m + i"] i that by simp
      also have "length u - m + i + s = length u + (r - m + i + s div p * p)" using sm that by simp
      also have "?x ! \<dots> = v ! (r - m + i + s div p * p)" by (simp add: nth_append)
      also have "\<dots> = v ! (r - m + i)" using sm px(2) i that by (intro mult) linarith
      also have "\<dots> = drop (r - m) (take r v) ! i" using i that rl pv(2) by simp
      finally show "drop (length u - m) u ! i = drop (r - m) (take r v) ! i" .
    qed
    show False
    proof (cases "r \<le> length u")
      case True
      have "suffix (take r v) u" using ends [OF True] by simp (metis suffix_drop)
      then show False using rp rl pv(2) p0 no_square [OF max(1), of "take r v"] take_is_prefix by fastforce
    next
      case False
      then have tr: "length t \<le> length u" "length t < r" using t_suffix suffix_length_le [of t u] by auto
      have "t = drop (length u - length t) u" using t_suffix by (auto simp: suffix_def)
      then have "suffix t (take r v)" using ends [of "length t"] tr by simp (metis suffix_drop)
      then have "suffix (t @ drop r v) v" unfolding suffix_def by (metis append.assoc append_take_drop_id)
      then have "lle (converse_order lt) (drop r v) v" by (intro below_converse) (simp add: suffix_appendI)
      moreover have "lle lt (drop r v) v" by (rule below) (simp add: suffix_drop suffix_appendI)
      ultimately have "period v r" using rp lle_both period_prefix by blast
      with pv(3) [of r] rp rl show False by simp
    qed
  qed
  show "?x ! i = ?x ! (p + i)" if i: "i < length u"
  proof (cases "p + i < length u")
    case True
    have "?x ! (p + i) = ?x ! (p + i + s)" using shift [OF True] by simp
    also have "\<dots> = ?x ! (i + s)"
      using periodD [OF pv(1), of "p + i + s - length u"] True us px(2) p0 by (simp add: nth_append)
    finally show ?thesis using shift [OF i] by simp
  next
    case False
    define k where "k = s div p - 1"
    have k: "s = p + k * p" using sm r0 ps p0 by (simp add: k_def algebra_simps)
    have "v ! (p + i - length u + k * p) = v ! (p + i - length u)"
      using False i px(2) us k by (intro period_mult [OF pv(1)]) linarith
    moreover have "p + i - length u + k * p = i + s - length u" using False k by simp
    ultimately show ?thesis using shift [OF i] False us by (simp add: nth_append)
  qed
qed

end

end
