(* ===== verification/TwoWay_Suffix.thy ===== *)
theory TwoWay_Suffix
  imports WSearch TwoWay_Words
begin

text \<open>
  The maximal-suffix loop of \<open>twoway_wcsstr\<close> (\<open>src/orbis_wchar32.c\<close>): it returns, and its result is
  the maximal suffix of the needle together with the smallest period of that suffix.
\<close>

section \<open>The invariant\<close>

text \<open>
  The first \<open>p\<close> letters from \<open>i\<close> are above everything that starts inside them: the comparison
  goes down before they end.
\<close>

definition strict_head :: "('a \<Rightarrow> 'a \<Rightarrow> bool) \<Rightarrow> 'a list \<Rightarrow> nat \<Rightarrow> nat \<Rightarrow> bool" where
  "strict_head lt x i p \<longleftrightarrow>
     (\<forall>b. 0 < b \<and> b < p \<longrightarrow> (\<exists>d < p - b. lt (x ! (i + b + d)) (x ! (i + d)) \<and> (\<forall>c < d. x ! (i + b + c) = x ! (i + c))))"

text \<open>
  The candidate starts at \<open>i\<close>, the suffix it is compared with at \<open>j\<close>, and \<open>k\<close> letters of that
  comparison have been equal; what has been read from \<open>i\<close> on has the period \<open>p\<close>.
\<close>

definition ms_inv :: "('a \<Rightarrow> 'a \<Rightarrow> bool) \<Rightarrow> 'a list \<Rightarrow> nat \<Rightarrow> nat \<Rightarrow> nat \<Rightarrow> nat \<Rightarrow> bool" where
  "ms_inv lt x i j k p \<longleftrightarrow>
     i < j \<and> k < p \<and> j + k \<le> length x \<and> p dvd j - i \<and>
     (\<forall>c. i + p \<le> c \<and> c < j + k \<longrightarrow> x ! c = x ! (c - p)) \<and>
     strict_head lt x i p \<and> (\<forall>a < i. lle lt (drop a x) (drop i x))"

text \<open>Positions whole periods apart hold the same letter.\<close>

lemma read_periodic:
  assumes "\<forall>c. i + p \<le> c \<and> c < e \<longrightarrow> x ! c = x ! (c - p)"
  shows "i + c + q * p < e \<Longrightarrow> x ! (i + c + q * p) = x ! (i + c)"
proof (induction q)
  case (Suc q)
  have "x ! (i + c + Suc q * p) = x ! (i + c + Suc q * p - p)" using assms Suc.prems by simp
  also have "i + c + Suc q * p - p = i + c + q * p" by simp
  finally show ?case using Suc by simp
qed simp

lemma ms_inv_start: "0 < length x \<Longrightarrow> ms_inv lt x 0 1 0 1"
  by (cases x) (auto simp: ms_inv_def strict_head_def)

section \<open>The three steps\<close>

lemma ms_inv_equal:
  assumes "ms_inv lt x i j k p" "j + k < length x" "x ! (i + k) = x ! (j + k)"
  shows "if k + 1 = p then ms_inv lt x i (j + p) 0 p else ms_inv lt x i j (k + 1) p"
proof -
  note inv = assms(1) [unfolded ms_inv_def]
  obtain q where q: "j - i = q * p" using inv by (metis dvd_def mult.commute)
  then have qp: "j = i + q * p" "0 < q" using inv by (auto intro: Nat.gr0I)
  have new: "x ! c = x ! (c - p)" if "i + p \<le> c" "c < j + (k + 1)" for c
  proof (cases "c < j + k")
    case True then show ?thesis using inv that by blast
  next
    case False
    then have c: "c = i + k + q * p" using that qp by simp
    obtain q' where q': "q = Suc q'" using qp(2) by (cases q) auto
    have "x ! (i + k + q' * p) = x ! (i + k)"
      using inv q' by (intro read_periodic [of i p "j + k"]) (auto simp: qp)
    moreover have "c - p = i + k + q' * p" by (simp add: c q')
    moreover have "x ! c = x ! (i + k)" using assms(3) by (simp add: c qp(1) ac_simps)
    ultimately show ?thesis by simp
  qed
  show ?thesis
  proof (cases "k + 1 = p")
    case True
    then have "p dvd j + p - i" using inv by (metis Nat.diff_add_assoc2 dvd_add_triv_right_iff less_imp_le)
    with True inv new assms(2) show ?thesis by (auto simp: ms_inv_def)
  next
    case False
    then show ?thesis using inv new assms(2) by (auto simp: ms_inv_def)
  qed
qed

context letter_order
begin

lemma ms_inv_smaller:
  assumes "ms_inv lt x i j k p" "j + k < length x" "lt (x ! (j + k)) (x ! (i + k))"
  shows "ms_inv lt x i (j + k + 1) 0 (j + k + 1 - i)"
proof -
  note inv = assms(1) [unfolded ms_inv_def]
  obtain q where q: "j - i = q * p" using inv by (metis dvd_def mult.commute)
  then have qp: "j = i + q * p" "0 < q" "0 < p" using inv by (auto intro: Nat.gr0I)
  have per: "x ! (i + c + n * p) = x ! (i + c)" if "i + c + n * p < j + k" for c n
    using inv that by (intro read_periodic [of i p "j + k"]) auto
  have "\<exists>d < j + k + 1 - i - b. lt (x ! (i + b + d)) (x ! (i + d)) \<and> (\<forall>c < d. x ! (i + b + c) = x ! (i + c))"
    if b: "0 < b" "b < j + k + 1 - i" for b
  proof -
    define n r where "n = b div p" and "r = b mod p"
    have br: "b = r + n * p" "r < p" using qp(3) by (simp_all add: n_def r_def)
    have shift: "x ! (i + b + c) = x ! (i + r + c)" if "i + b + c < j + k" for c
      using per [of "r + c" n] that by (simp add: br(1) ac_simps)
    show ?thesis
    proof (cases "r = 0")
      case True
      then have n: "0 < n" using b(1) br(1) by (auto intro: Nat.gr0I)
      have "n * p \<le> q * p"
      proof (rule ccontr)
        assume "\<not> n * p \<le> q * p"
        then have "Suc q \<le> n" by (metis mult_le_mono1 not_less_eq_eq)
        then have "Suc q * p \<le> n * p" by (rule mult_le_mono1)
        then show False using b(2) br(1) True inv qp(1) by simp
      qed
      then have nq: "n \<le> q" using qp(3) by simp
      define d where "d = j + k - (i + b)"
      have d: "i + b + d = j + k" using \<open>n * p \<le> q * p\<close> br(1) True qp(1) unfolding d_def by linarith
      have "i + d = i + k + (q - n) * p"
        using d br(1) True qp(1) nq by (simp add: diff_mult_distrib)
      moreover have "(q - n) * p < q * p" using n nq qp(2,3) by simp
      then have "i + k + (q - n) * p < j + k" by (simp add: qp(1))
      ultimately have "x ! (i + d) = x ! (i + k)" using per [of k "q - n"] by (simp add: ac_simps)
      moreover have "x ! (i + b + c) = x ! (i + c)" if "c < d" for c using shift [of c] d that True by simp
      ultimately show ?thesis using assms(3) d by (intro exI [of _ d]) auto
    next
      case False
      then obtain d0 where d0: "d0 < p - r" "lt (x ! (i + r + d0)) (x ! (i + d0))" "\<And>c. c < d0 \<Longrightarrow> x ! (i + r + c) = x ! (i + c)"
        using inv br(2) unfolding strict_head_def by blast
      show ?thesis
      proof (cases "i + b + d0 < j + k")
        case True
        then show ?thesis using d0 shift by (intro exI [of _ d0]) auto
      next
        case False
        define d where "d = j + k - (i + b)"
        have d: "i + b + d = j + k" "d \<le> d0" using False b(2) by (auto simp: d_def)
        have "r + d + n * p = k + q * p" using d(1) br(1) qp(1) by simp
        moreover have "r + d < p" "k < p" using d(2) d0(1) inv by auto
        ultimately have "r + d = k"
          by (metis mod_less mod_mult_self1)
        then have "lt (x ! (i + b + d)) (x ! (i + r + d))" using assms(3) d(1) by (simp add: add.assoc)
        moreover have "lt (x ! (i + r + d)) (x ! (i + d)) \<or> x ! (i + r + d) = x ! (i + d)"
          using d(2) d0(2,3) by (cases "d = d0") auto
        ultimately have "lt (x ! (i + b + d)) (x ! (i + d))"
          using transitive by auto
        moreover have "x ! (i + b + c) = x ! (i + c)" if "c < d" for c
          using shift [of c] d d0(3) [of c] that by simp
        ultimately show ?thesis using d by (intro exI [of _ d]) auto
      qed
    qed
  qed
  then have "strict_head lt x i (j + k + 1 - i)" unfolding strict_head_def by blast
  moreover have "i < j + k + 1" "i + (j + k + 1 - i) = j + k + 1" "0 < j + k + 1 - i" "j + k + 1 + 0 \<le> length x"
    using assms(2) qp by auto
  moreover have "\<forall>a < i. lle lt (drop a x) (drop i x)" using inv by blast
  ultimately show ?thesis unfolding ms_inv_def by auto
qed

lemma ms_inv_larger:
  assumes "ms_inv lt x i j k p" "j + k < length x" "lt (x ! (i + k)) (x ! (j + k))"
  shows "ms_inv lt x j (j + 1) 0 1"
proof -
  note inv = assms(1) [unfolded ms_inv_def]
  obtain q where q: "j - i = q * p" using inv by (metis dvd_def mult.commute)
  then have qp: "j = i + q * p" "0 < q" "0 < p" using inv by (auto intro: Nat.gr0I)
  have per: "x ! (i + c + n * p) = x ! (i + c)" if "i + c + n * p < j + k" for c n
    using inv that by (intro read_periodic [of i p "j + k"]) auto
  have eqj: "x ! (i + c) = x ! (j + c)" if "c < k" for c using per [of c q] that qp by (simp add: ac_simps)
  have multiple: "lle lt (drop a x) (drop j x)" if a: "i \<le> a" "a < j" "p dvd a - i" for a
  proof -
    obtain n where "a - i = n * p" using a(3) by (metis dvd_def mult.commute)
    then have n: "a = i + n * p" using a(1) by simp
    have eq: "x ! (a + c) = x ! (i + c)" if "c \<le> k" for c
      using per [of c n] that a(2) by (simp add: n ac_simps)
    show ?thesis
      using assms(2,3) a eq eqj by (intro lle_differ [of k]) auto
  qed
  have "lle lt (drop a x) (drop j x)" if "a < j" for a
  proof (cases "a < i")
    case True
    then show ?thesis using inv multiple [of i] lle_trans by auto
  next
    case False
    define r where "r = (a - i) mod p"
    show ?thesis
    proof (cases "r = 0")
      case True then show ?thesis using multiple [of a] False that by (auto simp: r_def mod_eq_0_iff_dvd)
    next
      case r: False
      have rp: "r < p" using qp(3) by (simp add: r_def)
      obtain n where n: "a = i + r + n * p" using False
        by (metis r_def le_add_diff_inverse mod_div_decomp mult.commute not_less add.assoc add.commute)
      obtain d where d: "d < p - r" "lt (x ! (i + r + d)) (x ! (i + d))" "\<And>c. c < d \<Longrightarrow> x ! (i + r + c) = x ! (i + c)"
        using inv r rp unfolding strict_head_def by blast
      have "Suc n * p \<le> q * p"
      proof (rule ccontr)
        assume "\<not> Suc n * p \<le> q * p"
        then have "q \<le> n" by (metis mult_le_mono1 not_less_eq_eq)
        then have "q * p \<le> n * p" by (rule mult_le_mono1)
        then show False using that n qp(1) by linarith
      qed
      then have ad: "a + d < j" using d(1) rp n qp(1) by simp
      have "x ! (a + c) = x ! (i + r + c)" if "c \<le> d" for c
        using per [of "r + c" n] that ad by (simp add: n ac_simps)
      then have "lle lt (drop a x) (drop i x)"
        using d ad assms(2) n by (intro lle_differ [of d]) auto
      moreover have "lle lt (drop i x) (drop j x)" using multiple [of i] inv by simp
      ultimately show ?thesis by (rule lle_trans)
    qed
  qed
  then show ?thesis using assms(2) by (auto simp: ms_inv_def strict_head_def)
qed

end

section \<open>What the loop returns\<close>

definition ms_result :: "('a \<Rightarrow> 'a \<Rightarrow> bool) \<Rightarrow> 'a list \<Rightarrow> nat \<Rightarrow> nat \<Rightarrow> bool" where
  "ms_result lt x i p \<longleftrightarrow> i < length x \<and> max_suffix lt x (drop i x) \<and> period (drop i x) p \<and> p \<le> length x - i \<and>
     (\<forall>q. 0 < q \<and> q < p \<longrightarrow> \<not> period (drop i x) q)"

context letter_order
begin

lemma ms_inv_end:
  assumes "ms_inv lt x i j k p" "\<not> j + k < length x"
  shows "ms_result lt x i p"
proof -
  note inv = assms(1) [unfolded ms_inv_def]
  have e: "j + k = length x" using inv assms(2) by simp
  obtain q where q: "j - i = q * p" using inv by (metis dvd_def mult.commute)
  then have qp: "j = i + q * p" "0 < q" "0 < p" using inv by (auto intro: Nat.gr0I)
  then have ip: "i + p \<le> j" by (cases q) auto
  have per: "x ! (i + c + n * p) = x ! (i + c)" if "i + c + n * p < length x" for c n
    using inv e that by (intro read_periodic [of i p "length x"]) auto
  have "lle lt (drop a x) (drop i x)" if "a \<le> length x" for a
  proof (cases "a < i")
    case True then show ?thesis using inv by blast
  next
    case False
    define r where "r = (a - i) mod p"
    have rp: "r < p" using qp(3) by (simp add: r_def)
    obtain n where n: "a = i + r + n * p" using False
      by (metis r_def le_add_diff_inverse mod_div_decomp mult.commute not_less add.assoc add.commute)
    have eq: "x ! (a + c) = x ! (i + r + c)" if "a + c < length x" for c
      using per [of "r + c" n] that by (simp add: n ac_simps)
    have pre: "lle lt (drop a x) (drop i x)" if "\<And>c. a + c < length x \<Longrightarrow> x ! (i + r + c) = x ! (i + c)"
    proof (rule lle_prefix)
      have "drop a x = take (length x - a) (drop i x)"
        using that eq False by (intro nth_equalityI) auto
      then show "prefix (drop a x) (drop i x)" by (metis take_is_prefix)
    qed
    show ?thesis
    proof (cases "r = 0")
      case True then show ?thesis by (intro pre) simp
    next
      case r: False
      obtain d where d: "d < p - r" "lt (x ! (i + r + d)) (x ! (i + d))" "\<And>c. c < d \<Longrightarrow> x ! (i + r + c) = x ! (i + c)"
        using inv r rp unfolding strict_head_def by blast
      show ?thesis
      proof (cases "a + d < length x")
        case True
        then show ?thesis using d eq False by (intro lle_differ [of d]) auto
      next
        case False
        then show ?thesis using d(3) by (intro pre) simp
      qed
    qed
  qed
  then have "max_suffix lt x (drop i x)"
    using inv e ip qp(3) unfolding max_suffix_def suffix_def
    by (metis (no_types, lifting) append_eq_conv_conj append_take_drop_id diff_is_0_eq' drop_eq_Nil2 le_add1 length_append
        less_le_trans not_less add.commute le_add2 trans_le_add1)
  moreover have "period (drop i x) p"
    using inv e qp(3) unfolding period_def by auto
  moreover have "\<not> period (drop i x) b" if b: "0 < b" "b < p" for b
  proof
    assume pb: "period (drop i x) b"
    obtain d where d: "d < p - b" "lt (x ! (i + b + d)) (x ! (i + d))"
      using inv b unfolding strict_head_def by blast
    have "drop i x ! (b + d - b) = drop i x ! (b + d)"
      by (rule periodD [OF pb]) (use d(1) ip e in auto)
    then have "x ! (i + d) = x ! (i + b + d)" using ip e d(1) by (simp add: ac_simps)
    with d(2) irreflexive show False by simp
  qed
  ultimately show ?thesis using ip e qp(3) by (simp add: ms_result_def)
qed

end

text \<open>
  The loop of the code is at \<open>jp = j - 1\<close> and \<open>k + 1\<close>. It ends: either the candidate moves to the
  right, or more of the needle has been read.
\<close>

lemma maximal_suffix_step:
  assumes "i < j" "j + k < l" "l \<le> length n"
  shows "maximal_suffix gt n l i (j - 1) (k + 1) p =
    (if n ! (i + k) = n ! (j + k) then
       (if k + 1 = p then maximal_suffix gt n l i (j + p - 1) 1 p else maximal_suffix gt n l i (j - 1) (k + 1 + 1) p)
     else if gt (n ! (i + k)) (n ! (j + k)) then maximal_suffix gt n l i (j + k) 1 (j + k + 1 - i)
     else maximal_suffix gt n l j j 1 1)"
proof -
  have e: "j - 1 + (k + 1) = j + k" "i + (k + 1) - 1 = i + k" "j - 1 + p = j + p - 1" "j - 1 + 1 = j" using assms(1) by auto
  have r: "rd n (i + k) = Some (n ! (i + k))" "rd n (j + k) = Some (n ! (j + k))" using assms by auto
  show ?thesis
    by (subst maximal_suffix.simps) (simp only: e r assms(2) if_True Option.bind.simps)
qed

lemma maximal_suffix_result:
  assumes "letter_order (converse_order gt)" "0 < l" "l \<le> length n"
  shows "ms_inv (converse_order gt) (take l n) i j k p \<Longrightarrow>
    \<exists>i' p'. maximal_suffix gt n l i (j - 1) (k + 1) p = Some (i', p') \<and> ms_result (converse_order gt) (take l n) i' p'"
proof (induction "(l - i) * (l + 1) + (l - (j + k))" arbitrary: i j k p rule: less_induct)
  case less
  let ?x = "take l n"
  note inv = less.prems [unfolded ms_inv_def]
  have lx: "length ?x = l" using assms(3) by simp
  have jk: "i < j" "j + k \<le> l" using inv lx by auto
  show ?case
  proof (cases "j + k < l")
    case False
    then have "maximal_suffix gt n l i (j - 1) (k + 1) p = Some (i, p)"
      by (subst maximal_suffix.simps) (use jk in auto)
    with letter_order.ms_inv_end [OF assms(1) less.prems] False lx show ?thesis by auto
  next
    case True
    have lt: "j + k < length ?x" using True lx by simp
    note step = maximal_suffix_step [OF jk(1) True assms(3), of gt p]
    have a: "n ! (i + k) = ?x ! (i + k)" "n ! (j + k) = ?x ! (j + k)" using True jk by simp_all
    consider (eq) "?x ! (i + k) = ?x ! (j + k)"
      | (down) "?x ! (i + k) \<noteq> ?x ! (j + k)" "gt (?x ! (i + k)) (?x ! (j + k))"
      | (up) "?x ! (i + k) \<noteq> ?x ! (j + k)" "\<not> gt (?x ! (i + k)) (?x ! (j + k))" by blast
    then show ?thesis
    proof cases
      case eq
      note st = ms_inv_equal [OF less.prems lt eq]
      show ?thesis
      proof (cases "k + 1 = p")
        case p: True
        have "maximal_suffix gt n l i (j - 1) (k + 1) p = maximal_suffix gt n l i (j + p - 1) (0 + 1) p"
          using step a eq p by simp
        moreover have "ms_inv (converse_order gt) ?x i (j + p) 0 p" using st p by simp
        moreover have "(l - i) * (l + 1) + (l - (j + p + 0)) < (l - i) * (l + 1) + (l - (j + k))"
          using True p by simp
        ultimately show ?thesis using less.hyps [of i "j + p" 0 p] by simp
      next
        case p: False
        have "maximal_suffix gt n l i (j - 1) (k + 1) p = maximal_suffix gt n l i (j - 1) (k + 1 + 1) p"
          using step a eq p by simp
        moreover have "ms_inv (converse_order gt) ?x i j (k + 1) p" using st p by simp
        moreover have "(l - i) * (l + 1) + (l - (j + (k + 1))) < (l - i) * (l + 1) + (l - (j + k))"
          using True by simp
        ultimately show ?thesis using less.hyps [of i j "k + 1" p] by simp
      qed
    next
      case down
      have "maximal_suffix gt n l i (j - 1) (k + 1) p = maximal_suffix gt n l i (j + k + 1 - 1) (0 + 1) (j + k + 1 - i)"
        using step a down by simp
      moreover have "(l - i) * (l + 1) + (l - (j + k + 1 + 0)) < (l - i) * (l + 1) + (l - (j + k))" using True by simp
      ultimately show ?thesis
        using less.hyps [OF _ letter_order.ms_inv_smaller [OF assms(1) less.prems lt down(2)]] by simp
    next
      case up
      then have gt: "gt (?x ! (j + k)) (?x ! (i + k))" using letter_order.linear [OF assms(1) up(1)] by blast
      have e: "maximal_suffix gt n l i (j - 1) (k + 1) p = maximal_suffix gt n l j (j + 1 - 1) (0 + 1) 1"
        using step a up by simp
      have m: "(l - j) * (l + 1) + (l - (j + 1 + 0)) < (l - i) * (l + 1) + (l - (j + k))"
      proof -
        have "Suc (l - j) \<le> l - i" using jk True by simp
        then have "Suc (l - j) * (l + 1) \<le> (l - i) * (l + 1)" by (rule mult_le_mono1)
        then have "l + 1 + (l - j) * (l + 1) \<le> (l - i) * (l + 1)" by (simp only: mult_Suc)
        then show ?thesis by linarith
      qed
      show ?thesis using less.hyps [OF m letter_order.ms_inv_larger [OF assms(1) less.prems lt gt]] unfolding e .
    qed
  qed
qed

lemma maximal_suffix_correct:
  assumes "letter_order (converse_order gt)" "0 < l" "l \<le> length n"
  shows "\<exists>i p. maximal_suffix gt n l 0 0 1 1 = Some (i, p) \<and> ms_result (converse_order gt) (take l n) i p"
  using maximal_suffix_result [OF assms ms_inv_start] assms(2,3) by simp

end
