(* ===== verification/TwoWay_Search.thy ===== *)
theory TwoWay_Search
  imports TwoWay_Suffix WString_Props
begin

text \<open>
  The search loop of \<open>twoway_wcsstr\<close> (\<open>src/orbis_wchar32.c\<close>): the factorization of the needle, the
  comparisons of its halves, and the invariant of the loop, by which no occurrence is passed over.
\<close>

section \<open>The comparison of letters\<close>

lemma w32_letters: "letter_order (\<lambda>a b :: w32. a <s b)"
proof
  fix a b c :: w32
  show "\<not> a <s a" by (simp add: word_sless_alt)
  show "a <s b \<Longrightarrow> b <s c \<Longrightarrow> a <s c" by (simp add: word_sless_alt)
  show "a \<noteq> b \<Longrightarrow> a <s b \<or> b <s a" by (auto simp: word_sless_alt) (metis linorder_neqE_linordered_idom signed_word_eqI)
qed

interpretation wide_up: letter_order "\<lambda>a b :: w32. a <s b" by (rule w32_letters)

interpretation wide_down: letter_order "\<lambda>a b :: w32. b <s a"
  by (rule letter_order_converse [OF w32_letters])

section \<open>The factorization\<close>

text \<open>
  What the loop needs of the cut \<open>c\<close>, the shift \<open>p\<close> and the length \<open>m\<close> it remembers after a shift.
\<close>

definition factor_ok :: "'a list \<Rightarrow> nat \<Rightarrow> nat \<Rightarrow> nat \<Rightarrow> bool" where
  "factor_ok x c p m \<longleftrightarrow> c < length x \<and> 0 < p \<and> p \<le> length x \<and>
     (\<forall>s. local_rep x c s \<longrightarrow> c < s \<and> period x s) \<and> (\<forall>s. 0 < s \<and> s < p \<longrightarrow> \<not> period x s) \<and>
     (m = 0 \<or> m = length x - p \<and> period x p)"

context letter_order
begin

lemma factorization:
  assumes r: "ms_result lt x c p" and r': "ms_result (converse_order lt) x c' p'" and le: "c' \<le> c"
  shows "if \<forall>i < c. x ! i = x ! (p + i) then factor_ok x c p (length x - p)
         else factor_ok x c (max (c - 1) (length x - c) + 1) 0"
proof -
  define u v t where "u = take c x" and "v = drop c x" and "t = drop c' u"
  have c: "c < length x" and v: "max_suffix lt x v" "period v p" "p \<le> length v" "\<And>q. 0 < q \<Longrightarrow> q < p \<Longrightarrow> \<not> period v q"
    using r by (auto simp: ms_result_def v_def)
  have x: "x = u @ v" and lu: "length u = c" using c by (simp_all add: u_def v_def)
  have "drop c' x = t @ v" using le c by (simp add: x t_def lu)
  then have t: "max_suffix (converse_order lt) x (t @ v)" using r' by (simp add: ms_result_def)
  note max = v(1) [unfolded x] t [unfolded x]
  have rep: "c < s \<and> period x s" if "local_rep x c s" for s
    using repetition_long [OF max(1), of s] repetition_period [OF max, of s] that by (simp add: lu flip: x)
  have p: "0 < p" using v(2) by (simp add: period_def)
  show ?thesis
  proof (cases "\<forall>i < c. x ! i = x ! (p + i)")
    case True
    have "x ! (j - p) = x ! j" if "p \<le> j" "j < length x" for j
    proof (cases "j - p < c")
      case c: True
      then show ?thesis using \<open>\<forall>i < c. x ! i = x ! (p + i)\<close> that by simp
    next
      case False
      have "v ! (j - c - p) = v ! (j - c)" using False that x lu by (intro periodD [OF v(2)]) auto
      then show ?thesis using False that by (simp add: v_def)
    qed
    then have "period x p" using p by (simp add: period_def)
    moreover have "\<not> period x s" if "0 < s" "s < p" for s
      using period_drop [of x s c] v(4) [OF that] by (auto simp: v_def)
    ultimately show ?thesis using True c p v(3) rep by (auto simp: factor_ok_def v_def)
  next
    case False
    then have c0: "0 < c" by auto
    have "\<not> period x s" if s: "0 < s" "s < max (c - 1) (length x - c) + 1" for s
    proof
      assume per: "period x s"
      have "c < s" using rep period_local [OF per] by blast
      then have "s \<le> length v" using s(2) x lu by simp
      then have "\<forall>i < c. x ! i = x ! (p + i)"
        using period_right [OF max, of s p] per v(2-4) by (simp add: lu flip: x)
      with False show False by simp
    qed
    then show ?thesis using False c c0 rep by (auto simp: factor_ok_def)
  qed
qed

end

lemma wmemcmp_zero:
  "k \<le> length a \<Longrightarrow> k \<le> length b \<Longrightarrow> \<exists>r. wmemcmp a b k = Some r \<and> (r = 0 \<longleftrightarrow> (\<forall>i < k. a ! i = b ! i))"
proof (induction a b k rule: wmemcmp.induct)
  case (2 x l y r n)
  show ?case
  proof (cases "x = y")
    case True
    then have "\<exists>r'. wmemcmp l r n = Some r' \<and> (r' = 0 \<longleftrightarrow> (\<forall>i < n. l ! i = r ! i))"
      using 2 by simp
    then show ?thesis using True by (simp add: All_less_Suc2)
  next
    case False
    then have "w32_order x y \<noteq> 0" using wide_up.linear [OF False] by (auto simp: w32_order_def)
    then show ?thesis using False by (auto simp: All_less_Suc2)
  qed
qed auto

lemma twoway_factor_ok:
  assumes "n = x @ 0 # q" "x \<noteq> []"
  shows "\<exists>c p m. twoway_factor n (length x) = Some (c, p, m) \<and> factor_ok x c p m"
proof -
  let ?l = "length x"
  have l: "0 < ?l" "?l \<le> length n" and tx: "take ?l n = x" using assms by simp_all
  obtain i1 p1 where r1: "maximal_suffix (\<lambda>a b. b <s a) n ?l 0 0 1 1 = Some (i1, p1)" "ms_result (\<lambda>a b. a <s b) x i1 p1"
    using maximal_suffix_correct [OF _ l, of "\<lambda>a b. b <s a"] w32_letters unfolding tx by auto
  obtain i2 p2 where r2: "maximal_suffix (\<lambda>a b. a <s b) n ?l 0 0 1 1 = Some (i2, p2)" "ms_result (\<lambda>a b. b <s a) x i2 p2"
    using maximal_suffix_correct [OF _ l, of "\<lambda>a b. a <s b"] letter_order_converse [OF w32_letters] unfolding tx by auto
  define c p where "c = (if i2 > i1 then i2 else i1)" and "p = (if i2 > i1 then p2 else p1)"
  have f: "if \<forall>i < c. x ! i = x ! (p + i) then factor_ok x c p (?l - p) else factor_ok x c (max (c - 1) (?l - c) + 1) 0"
  proof (cases "i2 > i1")
    case True
    then show ?thesis using wide_down.factorization [OF r2(2) r1(2)] unfolding c_def p_def if_P [OF True] by simp
  next
    case False
    then show ?thesis using wide_up.factorization [OF r1(2) r2(2)] unfolding c_def p_def if_not_P [OF False] by simp
  qed
  have cp_def: "(if i1 < i2 then (i2, p2) else (i1, p1)) = (c, p)" by (simp add: c_def p_def)
  have cp: "c < ?l" "p \<le> ?l - c" using r1(2) r2(2) by (auto simp: c_def p_def ms_result_def)
  obtain r where r: "wmemcmp n (drop p n) c = Some r" "r = 0 \<longleftrightarrow> (\<forall>i < c. n ! i = drop p n ! i)"
    using wmemcmp_zero [of c n "drop p n"] cp l by fastforce
  have "(\<forall>i < c. n ! i = drop p n ! i) \<longleftrightarrow> (\<forall>i < c. x ! i = x ! (p + i))"
    using cp l by (auto simp: assms(1) nth_append)
  with r have r0: "r = 0 \<longleftrightarrow> (\<forall>i < c. x ! i = x ! (p + i))" by simp
  have "twoway_factor n ?l = Some (if r \<noteq> 0 then (c, max (c - 1) (?l - c) + 1, 0) else (c, p, ?l - p))"
    by (simp only: twoway_factor_def r1(1) r2(1) Option.bind.simps prod.case Let_def cp_def r(1))
  then show ?thesis using f [folded r0] by (cases "r = 0") simp_all
qed

section \<open>The steps of the loop\<close>

lemma needle_len_eq:
  "0 \<notin> set x \<Longrightarrow> 0 \<notin> set y \<Longrightarrow> needle_len (x @ 0 # q) (y @ 0 # r) = Some (min (length x) (length y))"
proof (induction x arbitrary: y)
  case (Cons a x) then show ?case by (cases y) auto
qed simp

lemma wmemchr_nul:
  "0 \<notin> set y \<Longrightarrow> wmemchr (y @ 0 # r) 0 g = Some (if length y < g then Some (length y) else None)"
proof (induction y arbitrary: g)
  case Nil then show ?case by (cases g) auto
next
  case (Cons a y) then show ?case by (cases g) auto
qed

lemma grow_le: "l \<le> l OR (63 :: nat)"
proof -
  have "int l \<le> int l OR 63" by (rule or_greater_eq) simp
  also have "\<dots> = int (l OR 63)" by (simp add: of_nat_or_eq)
  finally show ?thesis by simp
qed

text \<open>The known end of the haystack only grows, and stops at its terminator.\<close>

lemma extend_end_eq:
  assumes "0 \<notin> set y" "h \<le> z" "z \<le> length y"
  shows "\<exists>e. extend_end (y @ 0 # r) l h z = Some e \<and>
    (case e of None \<Rightarrow> length y < h + l | Some z' \<Rightarrow> h + l \<le> z' \<and> z' \<le> length y)"
proof (cases "z - h < l")
  case True
  have "0 \<notin> set (drop z y)" using assms(1) by (meson in_set_dropD)
  from wmemchr_nul [OF this, of r "l OR 63"]
  have "wmemchr (drop z (y @ 0 # r)) 0 (l OR 63) =
      Some (if length y - z < l OR 63 then Some (length y - z) else None)" using assms(3) by simp
  then show ?thesis using True assms grow_le [of l] by (auto simp: extend_end_def)
next
  case False
  then show ?thesis using assms by (simp add: extend_end_def)
qed

lemma match_right_eq:
  "0 \<notin> set a \<Longrightarrow> length a \<le> length b \<Longrightarrow>
    \<exists>d \<le> length a. match_right (a @ 0 # q) b k = Some (k + d) \<and> (\<forall>i < d. a ! i = b ! i) \<and>
      (d < length a \<longrightarrow> a ! d \<noteq> b ! d)"
proof (induction a arbitrary: b k)
  case (Cons x a)
  then obtain y b' where b: "b = y # b'" by (cases b) auto
  show ?case
  proof (cases "x = y")
    case True
    from Cons.IH [of b' "k + 1"] Cons.prems obtain d where
      d: "d \<le> length a" "match_right (a @ 0 # q) b' (k + 1) = Some (k + 1 + d)" "\<forall>i < d. a ! i = b' ! i"
        "d < length a \<longrightarrow> a ! d \<noteq> b' ! d" by (auto simp: b)
    then show ?thesis using True Cons.prems by (intro exI [of _ "Suc d"]) (auto simp: b All_less_Suc2)
  qed (use Cons.prems in \<open>auto simp: b\<close>)
qed simp

lemma match_left_eq:
  "c \<le> length n \<Longrightarrow> c \<le> length h \<Longrightarrow>
    \<exists>k. match_left n h mem c = Some k \<and> (if k \<le> mem then \<forall>i. mem \<le> i \<and> i < c \<longrightarrow> n ! i = h ! i
      else k \<le> c \<and> n ! (k - 1) \<noteq> h ! (k - 1))"
proof (induction n h mem c rule: match_left.induct)
  case (2 n h mem k)
  show ?case
  proof (cases "mem < Suc k \<and> n ! k = h ! k")
    case True
    then obtain k' where k: "match_left n h mem k = Some k'"
      "if k' \<le> mem then \<forall>i. mem \<le> i \<and> i < k \<longrightarrow> n ! i = h ! i else k' \<le> k \<and> n ! (k' - 1) \<noteq> h ! (k' - 1)"
      using 2 by fastforce
    then show ?thesis using True 2 by (auto simp: less_Suc_eq split: if_splits)
  qed (use 2 in auto)
qed auto

end
