(* ===== verification/TwoWay_Loop.thy ===== *)
theory TwoWay_Loop
  imports TwoWay_Search
begin

text \<open>
  The loop of \<open>twoway_wcsstr\<close> and \<open>wcsstr\<close> around it (\<open>src/orbis_wchar32.c\<close>): the search ends, reads
  no character behind a terminator, and answers the first occurrence, as trying every offset in turn
  does.
\<close>

section \<open>Occurrences\<close>

definition occurs :: "'a list \<Rightarrow> 'a list \<Rightarrow> nat \<Rightarrow> bool" where
  "occurs x y i \<longleftrightarrow> prefix x (drop i y)"

definition first_occ :: "'a list \<Rightarrow> 'a list \<Rightarrow> nat option \<Rightarrow> bool" where
  "first_occ x y r = (case r of None \<Rightarrow> \<forall>i. \<not> occurs x y i | Some i \<Rightarrow> occurs x y i \<and> (\<forall>j < i. \<not> occurs x y j))"

lemma occurs_iff:
  "x \<noteq> [] \<Longrightarrow> occurs x y i \<longleftrightarrow> i + length x \<le> length y \<and> (\<forall>j < length x. y ! (i + j) = x ! j)"
proof
  assume "x \<noteq> []" "occurs x y i"
  then obtain t where t: "drop i y = x @ t" by (auto simp: occurs_def prefix_def)
  then have "length y - i = length x + length t" by (metis length_append length_drop)
  moreover have "0 < length x" using \<open>x \<noteq> []\<close> by simp
  ultimately have i: "i + length x \<le> length y" by linarith
  moreover have "y ! (i + j) = x ! j" if "j < length x" for j
  proof -
    have "y ! (i + j) = drop i y ! j" using i by simp
    also have "\<dots> = x ! j" using that by (simp add: t nth_append)
    finally show ?thesis .
  qed
  ultimately show "i + length x \<le> length y \<and> (\<forall>j < length x. y ! (i + j) = x ! j)" by blast
next
  assume o: "i + length x \<le> length y \<and> (\<forall>j < length x. y ! (i + j) = x ! j)"
  then have "x = take (length x) (drop i y)" by (intro nth_equalityI) auto
  then show "occurs x y i" unfolding occurs_def by (metis take_is_prefix)
qed

lemma occursD: "occurs x y i \<Longrightarrow> x \<noteq> [] \<Longrightarrow> j < length x \<Longrightarrow> y ! (i + j) = x ! j"
  by (simp add: occurs_iff)

section \<open>Shifts\<close>

text \<open>
  The right part matches up to \<open>k\<close>. An occurrence \<open>s\<close> characters further on repeats the needle
  around the cut, as long as \<open>s\<close> is not larger than the part that matched.
\<close>

lemma occurrence_repeats:
  assumes x: "x \<noteq> []" and o: "occurs x y (h + s)" "0 < s"
    and m: "\<And>j. c \<le> j \<Longrightarrow> j < k \<Longrightarrow> j < length x \<Longrightarrow> x ! j = y ! (h + j)" and s: "length x \<le> k \<or> c + s \<le> k"
  shows "local_rep x c s"
proof -
  have "x ! (j - s) = x ! j" if j: "c \<le> j" "s \<le> j" "j < c + s" "j < length x" for j
  proof -
    have "y ! (h + s + (j - s)) = x ! (j - s)" by (rule occursD [OF o(1) x]) (use j in simp)
    moreover have "x ! j = y ! (h + j)" using j s by (intro m) auto
    ultimately show ?thesis using j by simp
  qed
  with o(2) show ?thesis by (simp add: local_rep_def)
qed

lemma right_shift_safe:
  assumes x: "x \<noteq> []" and f: "factor_ok x c p m"
    and k: "c \<le> k" "k < length x" "x ! k \<noteq> y ! (h + k)"
    and m: "\<And>j. c \<le> j \<Longrightarrow> j < k \<Longrightarrow> x ! j = y ! (h + j)" and s: "s < k + 1 - c"
  shows "\<not> occurs x y (h + s)"
proof
  assume o: "occurs x y (h + s)"
  have s0: "0 < s" using o x k by (intro gr0I) (auto simp: occurs_iff)
  have "local_rep x c s" using s k m by (intro occurrence_repeats [OF x o s0, of c k]) auto
  then have "period x s" using f by (simp add: factor_ok_def)
  then have "x ! (k - s) = x ! k" using s k by (intro periodD) auto
  moreover have "y ! (h + s + (k - s)) = x ! (k - s)" by (rule occursD [OF o x]) (use k in simp)
  ultimately show False using s k by simp
qed

lemma left_shift_safe:
  assumes x: "x \<noteq> []" and f: "factor_ok x c p m" and no: "\<not> occurs x y h"
    and m: "\<And>j. c \<le> j \<Longrightarrow> j < length x \<Longrightarrow> x ! j = y ! (h + j)" and s: "s < p"
  shows "\<not> occurs x y (h + s)"
proof
  assume o: "occurs x y (h + s)"
  have s0: "0 < s" using o no by (intro gr0I) auto
  have "local_rep x c s" using m by (intro occurrence_repeats [OF x o s0, of c "length x"]) auto
  then have "period x s" using f by (simp add: factor_ok_def)
  with f s s0 show False by (simp add: factor_ok_def)
qed

text \<open>After a shift by the period, the needle still matches as far as it is remembered.\<close>

lemma remembered:
  assumes f: "factor_ok x c p m" and m: "\<And>j. c \<le> j \<Longrightarrow> j < length x \<Longrightarrow> x ! j = y ! (h + j)" and i: "i < m"
  shows "x ! i = y ! (h + p + i)"
proof -
  have p: "m = length x - p" "period x p" "p \<le> length x" using f i by (auto simp: factor_ok_def)
  have "c < p" using f period_local [OF p(2), of c] by (auto simp: factor_ok_def)
  then have "x ! (p + i) = y ! (h + (p + i))" using p i by (intro m) auto
  moreover have "x ! (p + i - p) = x ! (p + i)" using p i by (intro periodD) auto
  ultimately show ?thesis by (simp add: add.assoc)
qed

section \<open>The loop\<close>

lemma twoway_loop_correct:
  assumes x: "x \<noteq> []" "0 \<notin> set x" and y: "0 \<notin> set y" and f: "factor_ok x c p m0"
    and n_def: "n = x @ 0 # q" and hs_def: "hs = y @ 0 # r"
  shows "h \<le> z \<Longrightarrow> z \<le> length y \<Longrightarrow> mem < length x \<Longrightarrow> (\<And>i. i < mem \<Longrightarrow> x ! i = y ! (h + i)) \<Longrightarrow>
    (\<And>i. i < h \<Longrightarrow> \<not> occurs x y i) \<Longrightarrow>
    \<exists>e. twoway_loop hs n (length x) c p m0 h z mem = Some e \<and> first_occ x y e"
proof (induction "length y - h" arbitrary: h z mem rule: less_induct)
  case less
  let ?l = "length x" and ?k = "max c mem"
  have fc: "c < ?l" "0 < p" "p \<le> ?l" "m0 < ?l" using f x(1) by (auto simp: factor_ok_def)
  have later: "\<not> occurs x y i" if "i < h + d" "\<And>s. s < d \<Longrightarrow> \<not> occurs x y (h + s)" for i d
    using less.prems(5) [of i] that(2) [of "i - h"] that(1) by (cases "i < h") auto
  obtain e where e: "extend_end hs ?l h z = Some e"
    "case e of None \<Rightarrow> length y < h + ?l | Some z' \<Rightarrow> h + ?l \<le> z' \<and> z' \<le> length y"
    using extend_end_eq [OF y less.prems(1,2)] unfolding hs_def by blast
  show ?case
  proof (cases e)
    case None
    have "twoway_loop hs n ?l c p m0 h z mem = Some None"
      by (subst twoway_loop.simps) (simp add: e(1) None)
    moreover have "\<not> occurs x y i" for i
      using less.prems(5) [of i] e(2) None x(1) by (cases "i < h") (auto simp: occurs_iff)
    ultimately show ?thesis by (simp add: first_occ_def)
  next
    case (Some z')
    then have z': "h + ?l \<le> z'" "z' \<le> length y" "h < length y" using e(2) fc by auto
    have k: "?k < ?l" using fc less.prems(3) by simp
    have hsn: "hs ! (h + i) = y ! (h + i)" if "i < ?l" for i using that z' by (simp add: hs_def nth_append)
    have nx: "n ! i = x ! i" if "i < ?l" for i using that by (simp add: n_def nth_append)
    have dn: "drop ?k n = drop ?k x @ 0 # q" using k by (simp add: n_def)
    have nz: "0 \<notin> set (drop ?k x)" using x(2) by (meson in_set_dropD)
    have "length (drop ?k x) \<le> length (drop (h + ?k) hs)" using z' k by (simp add: hs_def)
    from match_right_eq [OF nz this, of q ?k] obtain d where
      d: "d \<le> ?l - ?k" "match_right (drop ?k n) (drop (h + ?k) hs) ?k = Some (?k + d)"
        "\<forall>i < d. drop ?k x ! i = drop (h + ?k) hs ! i" "d < ?l - ?k \<longrightarrow> drop ?k x ! d \<noteq> drop (h + ?k) hs ! d"
      by (auto simp: dn)
    define k1 where "k1 = ?k + d"
    have k1: "?k \<le> k1" "k1 \<le> ?l" using d(1) k unfolding k1_def by linarith+
    have lh: "h + ?k \<le> length hs"
    proof -
      have "length y \<le> length hs" by (simp add: hs_def)
      then show ?thesis using z' k by linarith
    qed
    have at: "drop ?k x ! i = x ! (?k + i)" "drop (h + ?k) hs ! i = y ! (h + (?k + i))" if "?k + i < ?l" for i
      using that hsn [of "?k + i"] lh k by (simp_all add: add.assoc)
    have right: "x ! j = y ! (h + j)" if "c \<le> j" "j < k1" for j
    proof (cases "j < mem")
      case True then show ?thesis by (rule less.prems(4))
    next
      case False
      then have "j - ?k < d" "?k + (j - ?k) = j" "j < ?l" using that k1 by (auto simp: k1_def)
      then show ?thesis using d(3) at [of "j - ?k"] by simp
    qed
    have stop: "x ! k1 \<noteq> y ! (h + k1)" if "k1 < ?l"
      using d(4) at [of d] that by (simp add: k1_def)
    have mr: "match_right (drop ?k n) (drop (h + ?k) hs) ?k = Some k1" using d(2) by (simp add: k1_def)
    have rdk: "rd n k1 = Some (if k1 < ?l then x ! k1 else 0)" using k1 by (simp add: n_def nth_append)
    show ?thesis
    proof (cases "k1 < ?l")
      case True
      then have "x ! k1 \<noteq> 0" using x(2) by (metis nth_mem)
      then have st: "twoway_loop hs n ?l c p m0 h z mem = twoway_loop hs n ?l c p m0 (h + (k1 + 1 - c)) z' 0"
        by (subst twoway_loop.simps) (simp add: e(1) Some mr rdk True)
      have "\<not> occurs x y (h + s)" if "s < k1 + 1 - c" for s
        using k1 by (intro right_shift_safe [OF x(1) f _ True stop [OF True] right that]) auto
      then show ?thesis unfolding st using k1 True z' fc later [of _ "k1 + 1 - c"]
        by (intro less.hyps) auto
    next
      case False
      then have k1: "k1 = ?l" using k1 by simp
      have cl: "c \<le> length n" "c \<le> length (drop h hs)" using fc z' by (simp_all add: n_def hs_def)
      obtain k2 where k2: "match_left n (drop h hs) mem c = Some k2"
        "if k2 \<le> mem then \<forall>i. mem \<le> i \<and> i < c \<longrightarrow> n ! i = drop h hs ! i
         else k2 \<le> c \<and> n ! (k2 - 1) \<noteq> drop h hs ! (k2 - 1)"
        using match_left_eq [OF cl] by blast
      have dh: "drop h hs ! i = y ! (h + i)" if "i < ?l" for i using nth_drop [OF add_leD1 [OF lh], of i] hsn [OF that] by simp
      show ?thesis
      proof (cases "k2 \<le> mem")
        case True
        have "x ! j = y ! (h + j)" if "j < ?l" for j
        proof -
          consider "c \<le> j" | "j < mem" | "mem \<le> j" "j < c" by linarith
          then show ?thesis
            by cases (use right k1 that less.prems(4) k2(2) True dh [OF that] nx [OF that] in auto)
        qed
        then have "occurs x y h" using x(1) z' by (simp add: occurs_iff)
        moreover have "twoway_loop hs n ?l c p m0 h z mem = Some (Some h)"
          by (subst twoway_loop.simps) (simp add: e(1) Some mr rdk False k2(1) True)
        ultimately show ?thesis using less.prems(5) by (simp add: first_occ_def)
      next
        case k2f: False
        then have "k2 - 1 < ?l" "x ! (k2 - 1) \<noteq> y ! (h + (k2 - 1))"
          using k2(2) fc(1) dh [of "k2 - 1"] nx [of "k2 - 1"] by auto
        then have no: "\<not> occurs x y h" using x(1) by (auto simp: occurs_iff)
        have st: "twoway_loop hs n ?l c p m0 h z mem = twoway_loop hs n ?l c p m0 (h + p) z' m0"
          by (subst twoway_loop.simps) (simp add: e(1) Some mr rdk False k2(1) k2f)
        have rt: "x ! j = y ! (h + j)" if "c \<le> j" "j < ?l" for j using right [of j] that k1 by simp
        have "\<not> occurs x y (h + s)" if "s < p" for s by (rule left_shift_safe [OF x(1) f no rt that])
        then show ?thesis unfolding st using z' fc later [of _ p] remembered [OF f rt]
          by (intro less.hyps) auto
      qed
    qed
  qed
qed

section \<open>The whole search\<close>

text \<open>The search that tries every offset in turn.\<close>

fun search_naive :: "'a list \<Rightarrow> 'a list \<Rightarrow> nat option" where
  "search_naive x [] = (if x = [] then Some 0 else None)"
| "search_naive x (a # y) = (if prefix x (a # y) then Some 0 else map_option Suc (search_naive x y))"

lemma search_naive_first: "x \<noteq> [] \<Longrightarrow> first_occ x y r \<Longrightarrow> search_naive x y = r"
proof (induction y arbitrary: r)
  case Nil
  then show ?case by (cases r) (auto simp: first_occ_def occurs_def)
next
  case (Cons a y)
  show ?case
  proof (cases "prefix x (a # y)")
    case True
    then have "occurs x (a # y) 0" by (simp add: occurs_def)
    then have "r = Some 0" using Cons.prems(2) by (cases r) (auto simp: first_occ_def intro: gr0I)
    then show ?thesis using True by simp
  next
    case False
    have s: "occurs x (a # y) (Suc i) \<longleftrightarrow> occurs x y i" for i by (simp add: occurs_def)
    have "\<not> occurs x (a # y) 0" using False by (simp add: occurs_def)
    then have r: "r \<noteq> Some 0" using Cons.prems(2) by (auto simp: first_occ_def)
    define r' where "r' = map_option (\<lambda>i. i - 1) r"
    have "r = map_option Suc r'" using r by (cases r) (auto simp: r'_def gr0_conv_Suc)
    moreover from this have "first_occ x y r'"
      using Cons.prems(2) by (cases r') (auto simp: first_occ_def simp flip: s)
    ultimately show ?thesis using Cons.IH [OF Cons.prems(1)] False by simp
  qed
qed

lemma search_naive_skip:
  "(\<And>i. i < d \<Longrightarrow> \<not> occurs x y i) \<Longrightarrow> d \<le> length y \<Longrightarrow>
    search_naive x y = map_option ((+) d) (search_naive x (drop d y))"
proof (induction d arbitrary: y)
  case 0 then show ?case by (simp add: option.map_ident cong: map_option_cong)
next
  case (Suc d)
  from Suc.prems(2) obtain a y' where y: "y = a # y'" by (cases y) auto
  have "\<not> prefix x y" using Suc.prems(1) [of 0] by (simp add: occurs_def)
  moreover have "search_naive x y' = map_option ((+) d) (search_naive x (drop d y'))"
    using Suc.prems(1) [of "Suc _"] Suc.prems(2) by (intro Suc.IH) (auto simp: y occurs_def)
  ultimately show ?case by (simp add: y option.map_comp o_def)
qed

lemma twoway_wcsstr_correct:
  assumes x: "x \<noteq> []" "0 \<notin> set x" and y: "0 \<notin> set y"
  shows "twoway_wcsstr (y @ 0 # r) (x @ 0 # q) = Some (search_naive x y)"
proof (cases "length x \<le> length y")
  case False
  then have "\<not> occurs x y i" for i using x(1) by (simp add: occurs_iff)
  then have "search_naive x y = None" using x(1) by (intro search_naive_first) (simp_all add: first_occ_def)
  moreover have "x ! length y \<noteq> 0" using False x(2) by (metis nth_mem not_le)
  ultimately show ?thesis using False
    by (simp add: twoway_wcsstr_def needle_len_eq [OF x(2) y] nth_append min_def)
next
  case True
  obtain c p m where f: "twoway_factor (x @ 0 # q) (length x) = Some (c, p, m)" "factor_ok x c p m"
    using twoway_factor_ok [OF refl x(1)] by blast
  obtain e where e: "twoway_loop (y @ 0 # r) (x @ 0 # q) (length x) c p m 0 0 0 = Some e" "first_occ x y e"
    using twoway_loop_correct [OF x y f(2) refl refl, of 0 0 0] x(1) by auto
  then show ?thesis using True search_naive_first [OF x(1) e(2)]
    by (simp add: twoway_wcsstr_def needle_len_eq [OF x(2) y] min_def f(1) nth_append)
qed

text \<open>No occurrence in front of the first place of its first character.\<close>

lemma first_letter:
  assumes "i < length (takeWhile (\<lambda>b. b \<noteq> a) y)"
  shows "\<not> occurs (a # x) y i"
proof
  assume "occurs (a # x) y i"
  then have "y ! (i + 0) = a" using occursD [of "a # x" y i 0] by simp
  moreover have "y ! i = takeWhile (\<lambda>b. b \<noteq> a) y ! i" using assms by (simp add: takeWhile_nth)
  moreover have "takeWhile (\<lambda>b. b \<noteq> a) y ! i \<noteq> a" using nth_mem [OF assms] by (auto dest: set_takeWhileD)
  ultimately show False by simp
qed

lemma rd_of_drop: "rd (drop a s) b = rd s (a + b)"
  by (cases "a \<le> length s") (auto simp: rd_def)

lemma wcsstr_letters:
  assumes x: "0 \<notin> set x" and y: "0 \<notin> set y"
  shows "wcsstr (y @ 0 # r) (x @ 0 # q) = Some (search_naive x y)"
proof (cases x)
  case Nil
  then show ?thesis by (cases y) (simp_all add: wcsstr_def)
next
  case x': (Cons a x')
  then have a: "a \<noteq> 0" "x \<noteq> []" using x by auto
  let ?h = "y @ 0 # r"
  let ?d = "length (takeWhile (\<lambda>b. b \<noteq> a) y)"
  have before: "\<not> occurs x y i" if "i < ?d" for i using first_letter [OF that, of x'] by (simp add: x')
  have dy: "?d \<le> length y" by (rule length_takeWhile_le)
  have ws: "wstr ?h = y" using y by (simp add: wstr_append)
  have tw: "takeWhile (\<lambda>b. b \<noteq> a) ?h = takeWhile (\<lambda>b. b \<noteq> a) y" if "a \<in> set y"
    using that by (intro takeWhile_append1) auto
  have hh: "wcschr ?h a = Some (if a \<in> set y then Some ?d else None)"
    using wcschr_loop_eq [OF a(1), of ?h] a(1) tw by (simp add: wcschr_def ws)
  show ?thesis
  proof (cases "a \<in> set y")
    case False
    have "\<not> occurs x y i" for i
    proof
      assume o: "occurs x y i"
      then have "i + length x \<le> length y" using a(2) by (simp add: occurs_iff)
      moreover have "0 < length x" using a(2) by simp
      ultimately have "i < length y" by linarith
      moreover have "y ! i = a" using occursD [OF o a(2), of 0] by (simp add: x')
      ultimately show False using False by auto
    qed
    then have "search_naive x y = None" using a(2) by (intro search_naive_first) (simp_all add: first_occ_def)
    then show ?thesis using hh False a(1) by (cases y) (simp_all add: wcsstr_def x')
  next
    case True
    have dw: "drop ?d y = dropWhile (\<lambda>b. b \<noteq> a) y" by (simp add: dropWhile_eq_drop)
    have "dropWhile (\<lambda>b. b \<noteq> a) y \<noteq> []" using True by (simp add: dropWhile_eq_Nil_conv)
    moreover from this have "hd (dropWhile (\<lambda>b. b \<noteq> a) y) = a" using hd_dropWhile by blast
    ultimately obtain t where t: "drop ?d y = a # t" unfolding dw by (cases "dropWhile (\<lambda>b. b \<noteq> a) y") auto
    then have nt: "0 \<notin> set (a # t)" using y by (metis in_set_dropD)
    have dh: "drop ?d ?h = a # t @ 0 # r" using dy t by simp
    have sk: "search_naive x y = map_option ((+) ?d) (search_naive x (a # t))"
      using search_naive_skip [OF before dy] t by simp
    have "?d < length ?h" using dy by simp
    have h1: "rd ?h (?d + 1) = Some (case t of [] \<Rightarrow> 0 | b # _ \<Rightarrow> b)"
    proof -
      have "rd ?h (?d + 1) = rd (drop ?d ?h) 1" by (simp only: rd_of_drop)
      then show ?thesis unfolding dh by (cases t) simp_all
    qed
    have start: "rd ?h 0 = Some (hd y)" "hd y \<noteq> 0" using True y by (cases y; auto)+
    have n: "rd (x @ 0 # q) 0 = Some a" "rd (x @ 0 # q) 1 = Some (case x' of [] \<Rightarrow> 0 | b # _ \<Rightarrow> b)"
      by (cases x'; simp add: x')+
    have hh': "wcschr ?h a = Some (Some ?d)" using hh True by simp
    have w: "wcsstr ?h (x @ 0 # q) =
        (if (case x' of [] \<Rightarrow> 0 | b # _ \<Rightarrow> b) = 0 then Some (Some ?d)
         else if (case t of [] \<Rightarrow> 0 | b # _ \<Rightarrow> b) = 0 then Some None
         else map_option (map_option ((+) ?d)) (twoway_wcsstr ((a # t) @ 0 # r) (x @ 0 # q)))"
      unfolding wcsstr_def n start using a(1) start(2) hh' h1 t dy by simp
    show ?thesis
    proof (cases "x' = [] \<or> t = []")
      case True
      then show ?thesis unfolding w sk using x by (cases x'; auto simp: x')
    next
      case False
      then have "(case x' of [] \<Rightarrow> 0 | b # _ \<Rightarrow> b) \<noteq> 0" "(case t of [] \<Rightarrow> 0 | b # _ \<Rightarrow> b) \<noteq> 0"
        using x nt by (cases x'; cases t; auto simp: x')+
      then show ?thesis unfolding w sk twoway_wcsstr_correct [OF a(2) x nt] by simp
    qed
  qed
qed

text \<open>
  C14. \<open>wcsstr\<close>, whose long needles go through the two-way search, returns for every haystack and
  every needle that are terminated, reads nothing outside them, and answers what the search that
  tries every offset in turn answers: the first occurrence, or that there is none.
\<close>

theorem wcsstr_finds_first:
  assumes "0 \<in> set h" "0 \<in> set n"
  shows "wcsstr h n = Some (search_naive (wstr n) (wstr h))"
proof -
  have "h = wstr h @ 0 # drop (Suc (length (wstr h))) h" "n = wstr n @ 0 # drop (Suc (length (wstr n))) n"
    using assms by (simp_all flip: wstr_split)
  then show ?thesis using wcsstr_letters [OF wstr_nonzero wstr_nonzero] by metis
qed

theorem wcsstr_finds_first_witness:
  "wcsstr [97, 98, 97, 98, 97, 97, 98, 0, 98] [97, 97, 98, 0] = Some (Some 4)"
  using wcsstr_finds_first [of "[97, 98, 97, 98, 97, 97, 98, 0, 98]" "[97, 97, 98, 0]"] by simp

end
