(* ===== verification/Jit_Kernel.thy ===== *)
theory Jit_Kernel
  imports Jit_Props
begin

text \<open>
  The executable-memory allocator of \<open>src/orbis_jit.c\<close> on a kernel that keeps track of what is
  mapped: fresh memory is taken only where nothing was, and nothing that was mapped is written to
  or given back on the way, whichever step of taking an arena fails. A block asked for near the
  module lies near it, also when it comes out of an arena taken for it.
\<close>

section \<open>The kernel's calls\<close>

text \<open>
  What the calls are documented to do, with \<open>mapped\<close> the addresses that are mapped in a state of
  the kernel: a mapping at no particular address goes where nothing is mapped, one with \<open>MAP_FIXED\<close>
  goes where it is told and replaces what is there; \<open>munmap\<close> takes its range away; the other calls
  change no mapping; a query at a granule that finds nothing means that nothing is mapped in it.
  The module lies away from both ends of the address space.
\<close>

definition kernel_ok :: "'k jit_kernel \<Rightarrow> ('k \<Rightarrow> nat set) \<Rightarrow> bool" where
  "kernel_ok K mapped \<longleftrightarrow>
     (\<forall>len k rc ph k'. AllocateDirectMemory K len k = (rc, ph, k') \<longrightarrow> mapped k' = mapped k) \<and>
     (\<forall>at len prot fl ph k rc got k'. MapNamedDirectMemory K at len prot fl ph k = (rc, got, k') \<longrightarrow>
        (if rc = 0
         then got + len < 2 ^ 64 \<and> mapped k' = mapped k \<union> {got..<got + len} \<and>
           (if fl = JIT_MAP_FIXED then got = at else {got..<got + len} \<inter> mapped k = {})
         else mapped k' = mapped k)) \<and>
     (\<forall>a len prot k rc k'. Mprotect K a len prot k = (rc, k') \<longrightarrow> mapped k' = mapped k) \<and>
     (\<forall>a len k. mapped (Munmap K a len k) = mapped k - {a..<a + len}) \<and>
     (\<forall>ph len k. mapped (ReleaseDirectMemory K ph len k) = mapped k) \<and>
     (\<forall>a k r k'. call_stub K a k = (r, k') \<longrightarrow> mapped k' = mapped k) \<and>
     (\<forall>k. query_ok (VirtualQuery K k)) \<and>
     (\<forall>k p. JIT_GRANULE dvd p \<and> VirtualQuery K k p = None \<longrightarrow> {p..<p + JIT_GRANULE} \<inter> mapped k = {}) \<and>
     JIT_REACH \<le> anchor K \<and> anchor K + JIT_REACH \<le> limit64"

lemma kernel_okD:
  assumes "kernel_ok K mapped"
  shows "AllocateDirectMemory K len k = (rc, ph, k') \<Longrightarrow> mapped k' = mapped k"
    and "MapNamedDirectMemory K at len prot fl ph k = (rc, got, k') \<Longrightarrow>
      (if rc = 0
       then got + len < 2 ^ 64 \<and> mapped k' = mapped k \<union> {got..<got + len} \<and>
         (if fl = JIT_MAP_FIXED then got = at else {got..<got + len} \<inter> mapped k = {})
       else mapped k' = mapped k)"
    and "Mprotect K a len prot k = (rc, k') \<Longrightarrow> mapped k' = mapped k"
    and "mapped (Munmap K a len k) = mapped k - {a..<a + len}"
    and "mapped (ReleaseDirectMemory K ph len k) = mapped k"
    and "call_stub K a k = (v, k') \<Longrightarrow> mapped k' = mapped k"
proof -
  note c = assms [unfolded kernel_ok_def]
  note r1 = c [THEN conjunct2] note r2 = r1 [THEN conjunct2] note r3 = r2 [THEN conjunct2] note r4 = r3 [THEN conjunct2]
    note r5 = r4 [THEN conjunct2]
  show "AllocateDirectMemory K len k = (rc, ph, k') \<Longrightarrow> mapped k' = mapped k" using c [THEN conjunct1] by blast
  show "MapNamedDirectMemory K at len prot fl ph k = (rc, got, k') \<Longrightarrow>
      (if rc = 0
       then got + len < 2 ^ 64 \<and> mapped k' = mapped k \<union> {got..<got + len} \<and>
         (if fl = JIT_MAP_FIXED then got = at else {got..<got + len} \<inter> mapped k = {})
       else mapped k' = mapped k)"
    by (rule r1 [THEN conjunct1, rule_format])
  show "Mprotect K a len prot k = (rc, k') \<Longrightarrow> mapped k' = mapped k" by (rule r2 [THEN conjunct1, rule_format])
  show "mapped (Munmap K a len k) = mapped k - {a..<a + len}" by (rule r3 [THEN conjunct1, rule_format])
  show "mapped (ReleaseDirectMemory K ph len k) = mapped k" by (rule r4 [THEN conjunct1, rule_format])
  show "call_stub K a k = (v, k') \<Longrightarrow> mapped k' = mapped k" by (rule r5 [THEN conjunct1, rule_format])
qed

lemma kernel_near: "kernel_ok K mapped \<Longrightarrow> near_search_ok K s"
  by (simp add: kernel_ok_def near_search_ok_def)

lemma free_run_unmapped:
  assumes "kernel_ok K mapped" "free_run (VirtualQuery K k) x len"
  shows "{x..<x + len} \<inter> mapped k = {}"
proof -
  have "y \<notin> mapped k" if y: "x \<le> y" "y < x + len" for y
  proof -
    define g where "g = y div JIT_GRANULE * JIT_GRANULE"
    have "JIT_GRANULE dvd x" using assms(2) by (simp add: free_run_def)
    then have x: "x = x div JIT_GRANULE * JIT_GRANULE" by simp
    have "x div JIT_GRANULE * JIT_GRANULE \<le> g" unfolding g_def by (intro mult_le_mono1 div_le_mono y)
    then have "x \<le> g" using x by simp
    moreover have g: "JIT_GRANULE dvd g" "g \<le> y" "y < g + JIT_GRANULE"
      using div_mult_mod_eq [of y JIT_GRANULE] mod_less_divisor [OF granule_pos, of y] unfolding g_def by (simp, linarith+)
    ultimately have "VirtualQuery K k g = None" using assms(2) y unfolding free_run_def by (meson le_less_trans)
    then have "{g..<g + JIT_GRANULE} \<inter> mapped k = {}" using assms(1) g(1) unfolding kernel_ok_def by blast
    then show ?thesis using g by auto
  qed
  then show ?thesis by auto
qed

section \<open>What is left alone\<close>

definition calm :: "('k \<Rightarrow> nat set) \<Rightarrow> 'k jit_state \<Rightarrow> 'k jit_state \<Rightarrow> bool" where
  "calm mapped s s' \<longleftrightarrow> mapped (kst s) \<subseteq> mapped (kst s') \<and> (\<forall>x \<in> mapped (kst s). mem s' x = mem s x)"

lemma calm_refl [simp]: "calm mapped s s"
  by (simp add: calm_def)

lemma calm_same: "mem s' = mem s \<Longrightarrow> mapped (kst s') = mapped (kst s) \<Longrightarrow> calm mapped s s'"
  by (simp add: calm_def)

lemma verify_effect:
  "jit_verify K at s = (ok, s') \<Longrightarrow> mem s' = mem_write at jit_stub (mem s) \<and>
     (\<exists>v. call_stub K at (kst s) = (v, kst s')) \<and> s_arena s' = s_arena s"
  by (auto simp: jit_verify_def Let_def dest!: say_keeps split: if_splits prod.splits)

lemma mem_write_other: "x \<notin> {a..<a + length bs} \<Longrightarrow> mem_write a bs m x = m x"
  by (auto simp: mem_write_def)

text \<open>Mapping an arena, at an address only where nothing is mapped.\<close>

lemma map_effect:
  assumes K: "kernel_ok K mapped" and m: "jit_map K at len s = (r, s')" and len: "6 \<le> len"
    and at: "case at of None \<Rightarrow> True | Some a \<Rightarrow> {a..<a + len} \<inter> mapped (kst s) = {}"
  shows "s_arena s' = s_arena s \<and> calm mapped s s' \<and>
    (case r of None \<Rightarrow> True
     | Some (b, n, ph) \<Rightarrow> n = len \<and> 0 < b \<and> b + len < 2 ^ 64 \<and> {b..<b + len} \<inter> mapped (kst s) = {} \<and>
         {b..<b + len} \<subseteq> mapped (kst s'))"
proof -
  note D = kernel_okD [OF K]
  define a0 fl where "a0 = (case at of Some a \<Rightarrow> a | None \<Rightarrow> 0)"
    and "fl = (case at of Some _ \<Rightarrow> JIT_MAP_FIXED | None \<Rightarrow> 0)"
  obtain rc ph k1 where A: "AllocateDirectMemory K len (kst s) = (rc, ph, k1)" by (metis prod_cases3)
  obtain rc2 got k2 where M: "MapNamedDirectMemory K a0 len JIT_PROT_RW fl ph k1 = (rc2, got, k2)" by (metis prod_cases3)
  obtain rc3 k3 where P: "Mprotect K got len JIT_PROT_RWX k2 = (rc3, k3)" by (metis surj_pair)
  obtain ok s4 where V: "jit_verify K got (s\<lparr>kst := k3\<rparr>) = (ok, s4)" by (metis surj_pair)
  let ?M = "mapped (kst s)"
  have k1: "mapped k1 = ?M" by (rule D(1) [OF A])
  have k2: "if rc2 = 0 then got + len < 2 ^ 64 \<and> mapped k2 = ?M \<union> {got..<got + len} \<and> {got..<got + len} \<inter> ?M = {}
    else mapped k2 = ?M"
    using D(2) [OF M] at k1 by (cases at) (auto simp: a0_def fl_def JIT_MAP_FIXED_def split: if_splits)
  have k3: "mapped k3 = mapped k2" by (rule D(3) [OF P])
  have s4: "mem s4 = mem_write got jit_stub (mem s)" "mapped (kst s4) = mapped k2" "s_arena s4 = s_arena s"
    using verify_effect [OF V] D(6) k3 by auto
  have stub: "mem s4 x = mem s x" if "rc2 = 0" "x \<in> ?M" for x
  proof -
    have "{got..<got + length jit_stub} \<subseteq> {got..<got + len}" using len by (auto simp: jit_stub_def)
    moreover have "x \<notin> {got..<got + len}" using k2 that by (simp only: simp_thms if_True) blast
    ultimately show ?thesis unfolding s4(1) by (intro mem_write_other) blast
  qed
  have eq: "(r, s') =
     (if rc \<noteq> 0 then (None, report (No_direct_memory rc (jit_err rc)) (s\<lparr>kst := k1\<rparr>))
      else if rc2 \<noteq> 0 \<or> got = 0 \<or> (at \<noteq> None \<and> at \<noteq> Some got) then
        (None, (report (Could_not_map rc2 (jit_err rc2) got) (s\<lparr>kst := k2\<rparr>))\<lparr>kst :=
          ReleaseDirectMemory K ph len (if rc2 = 0 \<and> got \<noteq> 0 then Munmap K got len k2 else k2)\<rparr>)
      else if rc3 \<noteq> 0 then
        (None, jit_record False ((report (No_execute rc3 (jit_err rc3)) (s\<lparr>kst := k3\<rparr>))
          \<lparr>kst := ReleaseDirectMemory K ph len (Munmap K got len k3)\<rparr>))
      else if \<not> ok then
        (None, jit_record False (s4\<lparr>kst := ReleaseDirectMemory K ph len (Munmap K got len (kst s4))\<rparr>))
      else (Some (got, len, ph), jit_record True s4))"
    unfolding m [symmetric] jit_map_def a0_def [symmetric] fl_def [symmetric]
    by (simp add: Let_def A M P V cong: if_cong)
  have gone: "mapped (ReleaseDirectMemory K ph len (Munmap K got len k)) = ?M" if "rc2 = 0" "mapped k = mapped k2" for k
    using k2 that by (auto simp: D(4,5))
  consider "rc \<noteq> 0" | "rc = 0" "rc2 \<noteq> 0 \<or> got = 0 \<or> (at \<noteq> None \<and> at \<noteq> Some got)"
    | "rc = 0" "\<not> (rc2 \<noteq> 0 \<or> got = 0 \<or> (at \<noteq> None \<and> at \<noteq> Some got))" by blast
  then show ?thesis
  proof cases
    case 1
    then show ?thesis using eq k1 by (simp add: calm_same)
  next
    case 2
    have "?M \<subseteq> mapped k2" using k2 by (cases "rc2 = 0") auto
    then show ?thesis using 2 eq gone [of k2]
      by (cases "rc2 = 0 \<and> got \<noteq> 0") (auto simp: calm_def D(5))
  next
    case 3
    then show ?thesis using eq gone [of k3] gone [of "kst s4"] k2 k3 s4 stub
      by (cases "rc3 = 0"; cases ok) (auto simp: calm_def)
  qed
qed

section \<open>Growing\<close>

lemma search_near_free:
  assumes "kernel_ok K mapped" "jit_search_near K len s = Some (Some a)" "0 < len" "JIT_GRANULE dvd len"
  shows "{a..<a + len} \<inter> mapped (kst s) = {}"
proof -
  have q: "query_ok (VirtualQuery K (kst s))" and an: "JIT_REACH \<le> anchor K" "anchor K + JIT_REACH \<le> limit64"
    using assms(1) by (simp_all add: kernel_ok_def)
  have l: "add64 (anchor K) JIT_MODULE_SPAN \<le> limit64" "add64 (anchor K) JIT_WINDOW \<le> limit64"
    "sub64 (anchor K) JIT_WINDOW \<le> limit64" "sub64 (anchor K) JIT_MODULE_SPAN \<le> limit64"
    using an by (simp_all add: add64_small sub64_small jit_consts limit64_def)
  have found: "free_run (VirtualQuery K (kst s)) x len"
    if "jit_find_free (VirtualQuery K (kst s)) lo hi len = Some (Some x)" "lo \<le> limit64" "hi \<le> limit64" for lo hi x
    using find_free_spec [OF q that(3,2) assms(3,4)] that(1) by auto
  have "free_run (VirtualQuery K (kst s)) a len"
    using assms(2) found [OF _ l(1,2)] found [OF _ l(3,4)]
    by (auto simp: jit_search_near_def bind_eq_Some_conv split: option.splits)
  then show ?thesis by (rule free_run_unmapped [OF assms(1)])
qed

definition arenas_mapped :: "('k \<Rightarrow> nat set) \<Rightarrow> 'k jit_state \<Rightarrow> bool" where
  "arenas_mapped mapped s \<longleftrightarrow> (\<forall>a \<in> set (s_arena s). arena_range a \<subseteq> mapped (kst s))"

lemma arenas_mapped_calm:
  "arenas_mapped mapped s \<Longrightarrow> calm mapped s s' \<Longrightarrow> s_arena s' = s_arena s \<Longrightarrow> arenas_mapped mapped s'"
  by (auto simp: arenas_mapped_def calm_def)

lemma s_arena_update_calm [simp]: "calm mapped s (s'\<lparr>s_arena := as\<rparr>) = calm mapped s s'"
  by (simp add: calm_def)

text \<open>The tables an arena is added to.\<close>

lemma grow_table:
  assumes "arenas_ok (s_arena s)" "arenas_mapped mapped s" "calm mapped s s'" "0 < b" "0 < len" "b + len < 2 ^ 64"
    "{b..<b + len} \<inter> mapped (kst s) = {}" "{b..<b + len} \<subseteq> mapped (kst s')"
    "s_arena s' = s_arena s @ [\<lparr>base = b, asize = len, phys = ph, dedicated = d, spans = (if d then [] else [(b, len)])\<rparr>]"
  shows "arenas_ok (s_arena s') \<and> arenas_mapped mapped s'"
proof
  have "\<forall>a \<in> set (s_arena s). arena_range a \<inter> {b..<b + len} = {}"
    using assms(2,7) unfolding arenas_mapped_def by blast
  then show "arenas_ok (s_arena s')" unfolding assms(9) by (rule grown_arenas_ok [OF assms(1,4,5,6)])
  show "arenas_mapped mapped s'"
    using assms(2,3,8) unfolding arenas_mapped_def calm_def assms(9) by auto
qed

lemma grow_effect:
  assumes K: "kernel_ok K mapped" and ok: "arenas_ok (s_arena s)" "arenas_mapped mapped s"
    and g: "jit_grow K len near s = Some (r, s')" and len: "len < 2 ^ 63"
  shows "arenas_ok (s_arena s') \<and> arenas_mapped mapped s' \<and> calm mapped s s' \<and>
    (\<exists>new. s_arena s' = s_arena s @ new)"
proof -
  let ?z = "jit_arena_size K len"
  note z = jit_arena_size_ge(2,3) [OF len, of K]
  have z6: "6 \<le> ?z" using dvd_imp_le [OF z(2,1)] by (simp add: jit_consts)
  have commit: ?thesis if c: "jit_grow_commit K at ?z s = (r, s')"
    and at: "case at of None \<Rightarrow> True | Some a \<Rightarrow> {a..<a + ?z} \<inter> mapped (kst s) = {}" for at
  proof (cases r)
    case None
    then have "jit_map K at ?z s = (None, s')"
      using c by (auto simp: jit_grow_commit_def Let_def split: prod.splits option.splits)
    from map_effect [OF K this z6 at] show ?thesis using ok by (auto intro: arenas_mapped_calm)
  next
    case (Some i)
    from jit_grow_commit_shape [OF c [unfolded Some]] obtain b ph s1 where
      s1: "jit_map K at ?z s = (Some (b, ?z, ph), s1)" "mem s' = mem s1" "kst s' = kst s1"
      "s_arena s' = s_arena s @ [\<lparr>base = b, asize = ?z, phys = ph, dedicated = False, spans = [(b, ?z)]\<rparr>]" by blast
    from map_effect [OF K s1(1) z6 at] have e: "calm mapped s s1" "0 < b" "b + ?z < 2 ^ 64"
      "{b..<b + ?z} \<inter> mapped (kst s) = {}" "{b..<b + ?z} \<subseteq> mapped (kst s1)" by auto
    then have "calm mapped s s'" by (simp add: calm_def s1)
    with grow_table [OF ok this e(2) z(1) e(3,4), of ph False] e(5) s1(3,4) show ?thesis by simp
  qed
  from g consider "(r, s') = (None, report No_arena_slot s)" | "(r, s') = (None, report (No_free_reach (anchor K)) s)"
    | "jit_grow_commit K None ?z s = (r, s')"
    | a where "jit_search_near K ?z s = Some (Some a)" "jit_grow_commit K (Some a) ?z s = (r, s')"
    by (auto simp: jit_grow_def Let_def bind_eq_Some_conv split: if_splits option.splits)
  then show ?thesis
  proof cases
    case 3 show ?thesis by (rule commit [OF 3]) simp
  next
    case 4 show ?thesis by (rule commit [OF 4(2)]) (use search_near_free [OF K 4(1) z] in simp)
  qed (use ok in \<open>auto simp: arenas_mapped_def calm_same\<close>)
qed

section \<open>Blocks near the module\<close>

text \<open>
  C12. On a kernel that behaves as documented (\<open>kernel_ok\<close>), from any well-formed table whose arenas
  are mapped: a block of up to \<open>2 ^ 62\<close> bytes allocated with \<open>ORBIS_JIT_NEAR_TEXT\<close> - from an arena of
  the table or a new one - is within a signed 32-bit displacement of every byte of the module
  around the anchor, in both directions.
\<close>

theorem jit_alloc_near_reach:
  assumes "kernel_ok K mapped" "arenas_ok (s_arena s)" "arenas_mapped mapped s" "sz < 2 ^ 62"
    and "jit_alloc K sz True s = Some (Some p, s1)"
    and "anchor K - JIT_MODULE_SPAN \<le> m" "m < anchor K + JIT_MODULE_SPAN"
    and "p - JIT_ALIGN \<le> x" "x < p - JIT_ALIGN + jit_alloc_len sz"
  shows "\<bar>int x - int m\<bar> < 2 ^ 31"
proof -
  note near = kernel_near [OF assms(1), of s]
  have "arenas_ok (s_arena s2)" if "jit_grow K (jit_alloc_len sz) True s = Some (Some i, s2)" for i s2
    using grow_effect [OF assms(1-3) that] alloc_len_bounds [OF assms(4)] by blast
  from alloc_outcome [OF assms(5,2,4)] this near
  obtain i blk where p: "p = blk + JIT_ALIGN"
    and ok: "arenas_ok (s_arena s1)" and h: "handed_out (s_arena s1) (mem s1) i blk (jit_alloc_len sz)"
    and n: "jit_near_module K (base (s_arena s1 ! i)) (asize (s_arena s1 ! i))" by blast
  let ?a = "s_arena s1 ! i"
  have a: "base ?a + asize ?a < 2 ^ 64"
    using ok h by (auto simp: arenas_ok_def arena_ok_def handed_out_def)
  have an: "JIT_REACH \<le> anchor K" "anchor K + JIT_REACH \<le> limit64" "JIT_MODULE_SPAN < JIT_REACH" "limit64 < 2 ^ 64"
    using near by (auto simp: near_search_ok_def jit_consts limit64_def)
  then have "max (anchor K + JIT_MODULE_SPAN) (base ?a + asize ?a) - min (anchor K - JIT_MODULE_SPAN) (base ?a) < JIT_REACH"
    using n near_module_iff [of K "base ?a" "asize ?a"] a by auto
  moreover have "x \<in> {blk..<blk + jit_alloc_len sz}" using assms(8,9) by (simp add: p)
  then have "x \<in> arena_range ?a" using h by (auto simp: handed_out_def)
  ultimately show ?thesis using assms(6,7) by (simp add: JIT_REACH_def) linarith
qed

text \<open>A kernel that keeps the set of mapped addresses.\<close>

definition set_kernel :: "nat set jit_kernel" where
  "set_kernel = \<lparr>
     AllocateDirectMemory = (\<lambda>len k. (0, 0, k)),
     MapNamedDirectMemory = (\<lambda>at len prot fl ph k.
       if fl = JIT_MAP_FIXED \<and> at + len < 2 ^ 64 then (0, at, k \<union> {at..<at + len})
       else if fl \<noteq> JIT_MAP_FIXED \<and> len \<le> 2 ^ 40 \<and> {2 ^ 41..<2 ^ 41 + len} \<inter> k = {} then (0, 2 ^ 41, k \<union> {2 ^ 41..<2 ^ 41 + len})
       else (12, 0, k)),
     Mprotect = (\<lambda>a len prot k. (0, k)),
     Munmap = (\<lambda>a len k. k - {a..<a + len}),
     ReleaseDirectMemory = (\<lambda>ph len k. k),
     VirtualQuery = (\<lambda>k p. if {p..<p + JIT_GRANULE} \<inter> k = {} then None else Some (min (p + 1) limit64)),
     call_stub = (\<lambda>a k. (0xc0ffee, k)),
     env_get = (\<lambda>n. None),
     anchor = 0x400000000\<rparr>"

lemma set_kernel_ok: "kernel_ok set_kernel (\<lambda>k. k)"
proof -
  have "query_ok (\<lambda>p. if {p..<p + JIT_GRANULE} \<inter> k = {} then None else Some (min (p + 1) limit64))" for k :: "nat set"
    unfolding query_ok_def
  proof (intro allI impI)
    fix p e
    assume q: "(if {p..<p + JIT_GRANULE} \<inter> k = {} then None else Some (min (p + 1) limit64)) = Some e"
    then have e: "{p..<p + JIT_GRANULE} \<inter> k \<noteq> {}" "e = min (p + 1) limit64" by (auto split: if_splits)
    have same: "g = p" if "p \<le> g" "g < e" for g using that e(2) by simp
    have "(if {g..<g + JIT_GRANULE} \<inter> k = {} then None else Some (min (g + 1) limit64)) \<noteq> None"
      if "p \<le> g" "g < e" for g using same [OF that] e(1) by simp
    then show "e \<le> limit64 \<and> (\<forall>g. JIT_GRANULE dvd g \<and> p \<le> g \<and> g < e \<longrightarrow>
        (if {g..<g + JIT_GRANULE} \<inter> k = {} then None else Some (min (g + 1) limit64)) \<noteq> None)"
      using e(2) by auto
  qed
  then show ?thesis
    by (simp add: kernel_ok_def set_kernel_def JIT_REACH_def limit64_def JIT_GRANULE_def split: if_splits)
qed

text \<open>
  With the module mapped around its anchor, an arena taken 1 GiB above it and a block of that arena:
  the last byte of the block against the first of the module.
\<close>

definition near_start :: "nat set jit_state" where
  "near_start = jit_init (\<lambda>_. 0) {0x3ff000000..<0x401000000}"

lemma near_grown:
  "\<exists>s. jit_grow_commit set_kernel (Some 0x440000000) 0x100000 near_start = (Some 0, s) \<and>
     s_arena s = [\<lparr>base = 0x440000000, asize = 0x100000, phys = 0, dedicated = False, spans = [(0x440000000, 0x100000)]\<rparr>] \<and>
     kst s = {0x3ff000000..<0x401000000} \<union> {0x440000000..<0x440100000}"
  by (simp add: jit_grow_commit_def jit_map_def set_kernel_def near_start_def jit_init_def Let_def
    jit_verify_def jit_say_def jit_should_log_def jit_record_def report_def split: prod.splits)

theorem jit_alloc_near_reach_witness:
  "\<exists>s s1. jit_grow_commit set_kernel (Some 0x440000000) 0x100000 near_start = (Some 0, s) \<and>
     jit_alloc set_kernel 100 True s = Some (Some 0x440000040, s1) \<and> \<bar>int 0x4400000BF - int 0x3FF000000\<bar> < 2 ^ 31"
proof -
  obtain s where s: "jit_grow_commit set_kernel (Some 0x440000000) 0x100000 near_start = (Some 0, s)"
     "s_arena s = [\<lparr>base = 0x440000000, asize = 0x100000, phys = 0, dedicated = False, spans = [(0x440000000, 0x100000)]\<rparr>]"
     "kst s = {0x3ff000000..<0x401000000} \<union> {0x440000000..<0x440100000}"
    using near_grown by blast
  have ok: "arenas_ok (s_arena s)" "arenas_mapped (\<lambda>k. k) s"
    by (simp_all add: s arenas_mapped_def arenas_ok_def arena_ok_def spans_ok_def JIT_MAX_SPANS_def)
  have "jit_near_module set_kernel 0x440000000 0x100000"
    by (simp add: jit_near_module_def jit_reachable_def set_kernel_def jit_consts add64_def sub64_def w64_def)
  then have "\<exists>s1. jit_alloc set_kernel 100 True s = Some (Some 0x440000040, s1)"
    by (simp add: jit_alloc_def Let_def demo_len jit_alloc_find_def s JIT_ALIGN_def)
  then obtain s1 where a: "jit_alloc set_kernel 100 True s = Some (Some 0x440000040, s1)" ..
  have "\<bar>int 0x4400000BF - int 0x3FF000000\<bar> < 2 ^ 31"
    by (rule jit_alloc_near_reach [OF set_kernel_ok ok _ a]) (simp_all add: set_kernel_def jit_consts demo_len)
  with a s(1) show ?thesis by blast
qed

end
