(* ===== verification/Jit_Blocks.thy ===== *)
theory Jit_Blocks
  imports Jit_Kernel
begin

text \<open>
  The blocks callers hold of the executable-memory allocator of \<open>src/orbis_jit.c\<close>, those of shared
  arenas and whole dedicated arenas, and what \<open>orbis_jit_alloc\<close>, \<open>orbis_jit_alloc_at\<close> and
  \<open>orbis_jit_free\<close> do to a set of held blocks (\<open>pool_ok\<close>).
\<close>

text \<open>A block of a shared arena with the header in front, or a dedicated arena.\<close>

datatype jit_block = Shared nat nat | Whole nat nat

fun block_bytes :: "jit_block \<Rightarrow> nat set" where
  "block_bytes (Shared b l) = {b..<b + l}"
| "block_bytes (Whole b l) = {b..<b + l}"

fun block_ptr :: "jit_block \<Rightarrow> nat" where
  "block_ptr (Shared b l) = b + JIT_ALIGN"
| "block_ptr (Whole b l) = b"

text \<open>What the caller may write to.\<close>

fun user_bytes :: "jit_block \<Rightarrow> nat set" where
  "user_bytes (Shared b l) = {b + JIT_ALIGN..<b + l}"
| "user_bytes (Whole b l) = {b..<b + l}"

fun in_arena :: "jit_block \<Rightarrow> jit_arena \<Rightarrow> bool" where
  "in_arena (Shared b l) a \<longleftrightarrow> \<not> dedicated a \<and> {b..<b + l} \<subseteq> arena_range a \<and> {b..<b + l} \<inter> free_bytes (spans a) = {}"
| "in_arena (Whole b l) a \<longleftrightarrow> dedicated a \<and> base a = b \<and> asize a = l"

fun header_of :: "memory \<Rightarrow> jit_block \<Rightarrow> bool" where
  "header_of m (Shared b l) \<longleftrightarrow> 2 * JIT_ALIGN \<le> l \<and> JIT_ALIGN dvd l \<and> le_value (mem_read b 8 m) = l"
| "header_of m (Whole b l) \<longleftrightarrow> 0 < l"

definition held :: "jit_arena list \<Rightarrow> memory \<Rightarrow> jit_block \<Rightarrow> bool" where
  "held as m b \<longleftrightarrow> header_of m b \<and> (\<exists>a \<in> set as. in_arena b a)"

definition pool_ok :: "('k \<Rightarrow> nat set) \<Rightarrow> 'k jit_state \<Rightarrow> jit_block set \<Rightarrow> bool" where
  "pool_ok mapped s B \<longleftrightarrow> arenas_ok (s_arena s) \<and> arenas_mapped mapped s \<and>
     (\<forall>b \<in> B. held (s_arena s) (mem s) b) \<and> (\<forall>b \<in> B. \<forall>c \<in> B. b \<noteq> c \<longrightarrow> block_bytes b \<inter> block_bytes c = {})"

lemma in_arena_range: "in_arena b a \<Longrightarrow> block_bytes b \<subseteq> arena_range a"
  by (cases b) auto

lemma header_same: "(\<And>x. x \<in> block_bytes b \<Longrightarrow> m' x = m x) \<Longrightarrow> header_of m b \<Longrightarrow> header_of m' b"
proof (cases b)
  case (Shared c l)
  assume s: "\<And>x. x \<in> block_bytes b \<Longrightarrow> m' x = m x" and h: "header_of m b"
  have "8 \<le> l" using h by (auto simp: Shared JIT_ALIGN_def)
  then have "mem_read c 8 m' = mem_read c 8 m" using s unfolding mem_read_def by (intro map_cong refl) (auto simp: Shared)
  then show ?thesis using h by (simp add: Shared)
qed simp

lemma arenas_apart:
  assumes "arenas_ok as" "a \<in> set as" "c \<in> set as" "a \<noteq> c"
  shows "arena_range a \<inter> arena_range c = {}"
proof -
  obtain i j where "i < length as" "as ! i = a" "j < length as" "as ! j = c"
    using assms(2,3) by (metis in_set_conv_nth)
  then show ?thesis using arenas_ok_disjoint [OF assms(1), of i j] assms(4) by blast
qed

lemma held_bytes: "pool_ok mapped s B \<Longrightarrow> b \<in> B \<Longrightarrow> block_bytes b \<subseteq> mapped (kst s)"
  using in_arena_range unfolding pool_ok_def held_def arenas_mapped_def by blast

lemma pool_arena: "pool_ok mapped s B \<Longrightarrow> b \<in> B \<Longrightarrow> \<exists>a \<in> set (s_arena s). in_arena b a"
  by (simp add: pool_ok_def held_def)

lemma pool_apart: "pool_ok mapped s B \<Longrightarrow> b \<in> B \<Longrightarrow> c \<in> B \<Longrightarrow> b \<noteq> c \<Longrightarrow> block_bytes b \<inter> block_bytes c = {}"
  by (simp add: pool_ok_def)

lemma update_keeps: "a \<in> set as \<Longrightarrow> a \<noteq> as ! i \<Longrightarrow> i < length as \<Longrightarrow> a \<in> set (as[i := a'])"
  by (metis in_set_conv_nth length_list_update nth_list_update_neq)

lemma arenas_mapped_update:
  assumes "arenas_mapped mapped s" "i < length (s_arena s)" "base a = base (s_arena s ! i)" "asize a = asize (s_arena s ! i)"
    and "s_arena s' = (s_arena s)[i := a]" "kst s' = kst s"
  shows "arenas_mapped mapped s'"
proof -
  have "arena_range c \<subseteq> mapped (kst s)" if "c \<in> set (s_arena s')" for c
  proof -
    have "c = a \<or> c \<in> set (s_arena s)" using that set_update_subset_insert [of "s_arena s" i a] by (auto simp: assms(5))
    moreover have "arena_range a = arena_range (s_arena s ! i)" "s_arena s ! i \<in> set (s_arena s)" using assms(2-4) by simp_all
    ultimately show ?thesis using assms(1) by (auto simp only: arenas_mapped_def)
  qed
  then show ?thesis by (simp add: arenas_mapped_def assms(6))
qed

section \<open>Steps of the table\<close>

text \<open>Memory changes outside the blocks, and the table gains arenas.\<close>

lemma pool_grow:
  assumes "pool_ok mapped s B" "arenas_ok (s_arena s')" "arenas_mapped mapped s'" "calm mapped s s'"
    "s_arena s' = s_arena s @ new"
  shows "pool_ok mapped s' B"
proof -
  have "held (s_arena s') (mem s') b" if b: "b \<in> B" for b
  proof -
    have h: "held (s_arena s) (mem s) b" using assms(1) b by (simp add: pool_ok_def)
    have "header_of (mem s') b"
      by (rule header_same [of b _ "mem s"])
        (use assms(4) held_bytes [OF assms(1) b] h in \<open>auto simp: calm_def held_def\<close>)
    then show ?thesis using h assms(5) by (auto simp: held_def)
  qed
  then show ?thesis using assms(1-3) by (simp add: pool_ok_def)
qed

text \<open>A block is taken from the free list of a shared arena, and its header is written.\<close>

lemma pool_take:
  assumes p: "pool_ok mapped s B" and i: "i < length (s_arena s)" "\<not> dedicated (s_arena s ! i)"
    and t: "jit_take len (spans (s_arena s ! i)) = Some (at, ss)"
    and len: "2 * JIT_ALIGN \<le> len" "JIT_ALIGN dvd len" "len < 2 ^ 64"
  defines "s' \<equiv> s\<lparr>s_arena := (s_arena s)[i := (s_arena s ! i)\<lparr>spans := ss\<rparr>], mem := mem_write at (le_bytes 8 len) (mem s)\<rparr>"
  shows "pool_ok mapped s' (insert (Shared at len) B) \<and> (\<forall>b \<in> B. block_bytes b \<inter> {at..<at + len} = {}) \<and>
    (\<forall>b \<in> B. \<forall>x \<in> block_bytes b. mem s' x = mem s x)"
proof -
  let ?a = "s_arena s ! i"
  have l0: "0 < len" using len(1) by (simp add: JIT_ALIGN_def)
  have ok: "arenas_ok (s_arena s)" using p by (simp add: pool_ok_def)
  have a: "?a \<in> set (s_arena s)" using i by simp
  have sp: "spans_ok (base ?a) (base ?a + asize ?a) (spans ?a)" using ok a i by (auto simp: arenas_ok_def arena_ok_def)
  note tk = jit_take_Some [OF t sp l0]
  have sub: "{at..<at + len} \<subseteq> arena_range ?a" using tk free_bytes_range [OF sp] by blast
  have apart: "block_bytes b \<inter> {at..<at + len} = {}" if b: "b \<in> B" for b
  proof -
    obtain c where c: "c \<in> set (s_arena s)" "in_arena b c" using p b by (auto simp: pool_ok_def held_def)
    show ?thesis
    proof (cases "c = ?a")
      case True
      then have "block_bytes b \<inter> free_bytes (spans ?a) = {}" using c(2) i(2) by (cases b) auto
      then show ?thesis using tk by blast
    next
      case False
      then show ?thesis using arenas_apart [OF ok c(1) a] in_arena_range [OF c(2)] sub by blast
    qed
  qed
  have m: "mem s' x = mem s x" if "b \<in> B" "x \<in> block_bytes b" for b x
  proof -
    have "length (le_bytes 8 len) \<le> len" using len(1) by (simp add: JIT_ALIGN_def)
    then show ?thesis using apart [OF that(1)] that(2) unfolding s'_def
      by (simp, intro mem_write_other) force
  qed
  have old: "held (s_arena s') (mem s') b" if b: "b \<in> B" for b
  proof -
    obtain c where c: "c \<in> set (s_arena s)" "in_arena b c" "header_of (mem s) b" using p b by (auto simp: pool_ok_def held_def)
    have "\<exists>c' \<in> set (s_arena s'). in_arena b c'"
    proof (cases "c = ?a")
      case True
      then have "in_arena b (?a\<lparr>spans := ss\<rparr>)" using c(2) tk i(2) by (cases b) auto
      then show ?thesis using i(1) by (auto simp: s'_def set_update_memI)
    next
      case False
      then show ?thesis using c(2) update_keeps [OF c(1) False i(1)] by (auto simp: s'_def)
    qed
    then show ?thesis using header_same [OF m [OF b] c(3)] by (auto simp: held_def)
  qed
  have new: "held (s_arena s') (mem s') (Shared at len)"
  proof -
    have "le_value (mem_read at 8 (mem s')) = len" using len(3) by (simp add: s'_def mem_read_write_same le_value_bytes)
    moreover have "in_arena (Shared at len) (?a\<lparr>spans := ss\<rparr>)" using i(2) sub tk by auto
    moreover have "?a\<lparr>spans := ss\<rparr> \<in> set (s_arena s')" using i(1) by (simp add: s'_def set_update_memI)
    ultimately show ?thesis using len unfolding held_def header_of.simps by blast
  qed
  have "arenas_ok (s_arena s')" using take_keeps_arena(1) [OF ok i t l0 len(3)] by (simp add: s'_def)
  moreover have "arenas_mapped mapped s'"
    by (rule arenas_mapped_update [of mapped s i "?a\<lparr>spans := ss\<rparr>"]) (use p i in \<open>auto simp: pool_ok_def s'_def\<close>)
  ultimately show ?thesis using old new apart p m by (auto simp: pool_ok_def Int_commute)
qed

section \<open>The calls\<close>

lemma pool_alloc:
  assumes K: "kernel_ok K mapped" and p: "pool_ok mapped s B" and sz: "sz < 2 ^ 62"
    and a: "jit_alloc K sz near s = Some (r, s1)"
  shows "(\<forall>b \<in> B. \<forall>x \<in> block_bytes b. mem s1 x = mem s x) \<and>
    (case r of None \<Rightarrow> pool_ok mapped s1 B
     | Some q \<Rightarrow> \<exists>at. q = block_ptr (Shared at (jit_alloc_len sz)) \<and>
         pool_ok mapped s1 (insert (Shared at (jit_alloc_len sz)) B) \<and>
         (\<forall>b \<in> B. block_bytes b \<inter> {at..<at + jit_alloc_len sz} = {}))"
proof -
  define len where "len = jit_alloc_len sz"
  have len: "2 * JIT_ALIGN \<le> len" "JIT_ALIGN dvd len" "len < 2 ^ 64" "len < 2 ^ 63"
    using jit_alloc_len_small [of sz] alloc_len_bounds [OF sz] sz by (simp_all add: len_def JIT_ALIGN_def)
  have ok: "arenas_ok (s_arena s)" "arenas_mapped mapped s" using p by (simp_all add: pool_ok_def)
  obtain r2 s2 where f: "jit_alloc_find K near len s = Some (r2, s2)"
    and r: "(case r2 of None \<Rightarrow> (None, s2)
      | Some at \<Rightarrow> (Some (at + JIT_ALIGN), s2\<lparr>mem := mem_write at (le_bytes 8 len) (mem s2)\<rparr>)) = (r, s1)"
    using a by (auto simp: jit_alloc_def Let_def bind_eq_Some_conv simp flip: len_def)
  from alloc_find_steps [OF f] obtain s3 where
    s3: "s3 = s \<or> (\<exists>ri. jit_grow K len near s = Some (ri, s3))"
    and fr: "case r2 of None \<Rightarrow> s2 = s3
     | Some at \<Rightarrow> \<exists>i ss. i < length (s_arena s3) \<and> \<not> dedicated (s_arena s3 ! i) \<and>
         jit_take len (spans (s_arena s3 ! i)) = Some (at, ss) \<and>
         s2 = s3\<lparr>s_arena := (s_arena s3)[i := (s_arena s3 ! i)\<lparr>spans := ss\<rparr>]\<rparr>"
    by (cases r2) fastforce+
  have g: "pool_ok mapped s3 B \<and> calm mapped s s3"
  proof -
    have "pool_ok mapped s3 B \<and> calm mapped s s3" if "jit_grow K len near s = Some (ri, s3)" for ri
      using grow_effect [OF K ok that len(4)] pool_grow [OF p] by metis
    then show ?thesis using s3 p by auto
  qed
  then have quiet: "mem s3 x = mem s x" if "b \<in> B" "x \<in> block_bytes b" for b x
    using held_bytes [OF p that(1)] that(2) by (auto simp: calm_def)
  show ?thesis
  proof (cases r2)
    case None
    then show ?thesis using r fr g quiet by simp
  next
    case (Some at)
    then obtain i ss where i: "i < length (s_arena s3)" "\<not> dedicated (s_arena s3 ! i)"
        "jit_take len (spans (s_arena s3 ! i)) = Some (at, ss)"
      and s1: "r = Some (at + JIT_ALIGN)" "s1 = s3\<lparr>s_arena := (s_arena s3)[i := (s_arena s3 ! i)\<lparr>spans := ss\<rparr>],
        mem := mem_write at (le_bytes 8 len) (mem s3)\<rparr>"
      using r fr by auto
    from pool_take [OF conjunct1 [OF g] i len(1-3)] quiet show ?thesis
      unfolding s1 len_def [symmetric] by auto
  qed
qed

lemma pool_alloc_at:
  assumes K: "kernel_ok K mapped" and p: "pool_ok mapped s B" and room: "addr + sz + JIT_GRANULE \<le> limit64"
    and a: "jit_alloc_at K addr sz s = Some (r, s1)"
  shows "(\<forall>b \<in> B. \<forall>x \<in> block_bytes b. mem s1 x = mem s x) \<and>
    (case r of None \<Rightarrow> pool_ok mapped s1 B
     | Some q \<Rightarrow> q = addr \<and> sz \<le> jit_round (if sz = 0 then 1 else sz) JIT_GRANULE \<and>
         pool_ok mapped s1 (insert (Whole addr (jit_round (if sz = 0 then 1 else sz) JIT_GRANULE)) B) \<and>
         (\<forall>b \<in> B. block_bytes b \<inter> {addr..<addr + jit_round (if sz = 0 then 1 else sz) JIT_GRANULE} = {}))"
proof -
  define n where "n = (if sz = 0 then 1 else sz)"
  define len where "len = jit_round n JIT_GRANULE"
  have ok: "arenas_ok (s_arena s)" "arenas_mapped mapped s" using p by (simp_all add: pool_ok_def)
  have "len = (n + (JIT_GRANULE - 1)) div JIT_GRANULE * JIT_GRANULE"
    unfolding len_def jit_round_def using room by (intro round_up64_small) (auto simp: n_def limit64_def jit_consts)
  then have len: "n \<le> len" "len < n + JIT_GRANULE" "JIT_GRANULE dvd len"
    using round_up_ge [of JIT_GRANULE n] div_times_less_eq_dividend [of "n + (JIT_GRANULE - 1)" JIT_GRANULE]
    by (auto simp: JIT_GRANULE_def)
  have n: "0 < n" "sz \<le> n" "n \<le> sz + 1" by (auto simp: n_def)
  have len6: "6 \<le> len" "0 < len" using dvd_imp_le [OF len(3)] n len(1) by (simp_all add: jit_consts)
  have lt: "addr + len \<le> limit64" using room len(2) n by simp
  then have hi: "addr + len \<le> limit64" "add64 addr len = addr + len"
    by (simp_all add: add64_small limit64_def jit_consts)
  have same: ?thesis if "r = None" "calm mapped s s1" "s_arena s1 = s_arena s"
    using that pool_grow [OF p _ arenas_mapped_calm [OF ok(2) that(2,3)] that(2), of "[]"] ok held_bytes [OF p]
    by (auto simp: calm_def)
  from a consider "r = None" "s_arena s1 = s_arena s" "mem s1 = mem s" "kst s1 = kst s"
    | x where "jit_find_free (VirtualQuery K (kst s)) addr (addr + len) len = Some (Some x)"
        "addr mod JIT_GRANULE = 0" "jit_map K (Some addr) len s = (None, s1)" "r = None"
    | x b m ph s2 where "jit_find_free (VirtualQuery K (kst s)) addr (addr + len) len = Some (Some x)"
        "addr mod JIT_GRANULE = 0" "jit_map K (Some addr) len s = (Some (b, m, ph), s2)" "r = Some b"
        "s1 = s2\<lparr>s_arena := s_arena s2 @ [\<lparr>base = b, asize = m, phys = ph, dedicated = True, spans = []\<rparr>]\<rparr>"
    by (auto simp: jit_alloc_at_def Let_def n_def [symmetric] len_def [symmetric] hi(2) bind_eq_Some_conv
        split: if_splits option.splits prod.splits)
  then show ?thesis
  proof cases
    case 1
    then show ?thesis by (intro same) (simp_all add: calm_same)
  next
    case (2 x)
    have "query_ok (VirtualQuery K (kst s))" using K by (simp add: kernel_ok_def)
    then have "addr = x" "free_run (VirtualQuery K (kst s)) x len"
      using find_free_spec [of _ "addr + len" addr len] 2(1) hi(1) len(3) len6(2) by force+
    then have "case Some addr of None \<Rightarrow> True | Some a \<Rightarrow> {a..<a + len} \<inter> mapped (kst s) = {}"
      using free_run_unmapped [OF K] by simp
    from map_effect [OF K 2(3) len6(1) this] 2(4) show ?thesis by (intro same) auto
  next
    case (3 x b m ph s2)
    have "query_ok (VirtualQuery K (kst s))" using K by (simp add: kernel_ok_def)
    then have "addr = x" "free_run (VirtualQuery K (kst s)) x len"
      using find_free_spec [of _ "addr + len" addr len] 3(1) hi(1) len(3) len6(2) by force+
    then have fr: "{addr..<addr + len} \<inter> mapped (kst s) = {}" using free_run_unmapped [OF K] by simp
    have b: "b = addr" using jit_map_Some [OF 3(3)] by auto
    from map_effect [OF K 3(3) len6(1)] fr b have e: "calm mapped s s2" "s_arena s2 = s_arena s" "m = len" "0 < addr"
      "addr + len < 2 ^ 64" "{addr..<addr + len} \<subseteq> mapped (kst s2)" by auto
    have t: "arenas_ok (s_arena s1) \<and> arenas_mapped mapped s1"
      by (rule grow_table [OF ok _ e(4) len6(2) e(5) fr, of s1 ph True]) (use e b 3(5) in auto)
    have "pool_ok mapped s1 B"
      by (rule pool_grow [OF p conjunct1 [OF t] conjunct2 [OF t], of "[\<lparr>base = b, asize = m, phys = ph, dedicated = True, spans = []\<rparr>]"])
        (use e 3(5) in auto)
    moreover have "held (s_arena s1) (mem s1) (Whole addr len)" using 3(5) b e(3) len6 by (simp add: held_def)
    moreover have ap: "block_bytes c \<inter> {addr..<addr + len} = {}" if "c \<in> B" for c using held_bytes [OF p that] fr by blast
    ultimately have "pool_ok mapped s1 (insert (Whole addr len) B)" by (auto simp: pool_ok_def Int_commute)
    moreover have "mem s1 x = mem s x" if "c \<in> B" "x \<in> block_bytes c" for c x
      using held_bytes [OF p that(1)] that(2) e(1) 3(5) by (auto simp: calm_def)
    moreover have "sz \<le> len" using n len(1) by simp
    ultimately show ?thesis using 3(4) b ap unfolding len_def n_def by (simp only: option.case) blast
  qed
qed

lemma pool_subset: "pool_ok mapped s B \<Longrightarrow> C \<subseteq> B \<Longrightarrow> pool_ok mapped s C"
  unfolding pool_ok_def by blast

text \<open>Giving back a block of a shared arena.\<close>

lemma pool_give:
  assumes p: "pool_ok mapped s B" and b: "Shared at len \<in> B"
  shows "pool_ok mapped (jit_free K (at + JIT_ALIGN) s) (B - {Shared at len}) \<and>
    mem (jit_free K (at + JIT_ALIGN) s) = mem s"
proof -
  have ok: "arenas_ok (s_arena s)" and h: "held (s_arena s) (mem s) (Shared at len)" using p b by (auto simp: pool_ok_def)
  from h obtain i where i: "i < length (s_arena s)" "in_arena (Shared at len) (s_arena s ! i)"
    by (auto simp: held_def in_set_conv_nth)
  have len: "2 * JIT_ALIGN \<le> len" "JIT_ALIGN dvd len" "0 < len" and hd: "le_value (mem_read at 8 (mem s)) = len"
    using h by (auto simp: held_def JIT_ALIGN_def)
  let ?a = "s_arena s ! i"
  have ho: "handed_out (s_arena s) (mem s) i at len" using i hd by (auto simp: handed_out_def)
  note fr = jit_free_shared [OF ok ho len(1,2), of K]
  show ?thesis
  proof (cases "length (spans ?a) \<ge> JIT_MAX_SPANS")
    case True
    then show ?thesis using fr pool_subset [OF p, of "B - {Shared at len}"]
      by (auto simp: pool_ok_def arenas_mapped_def)
  next
    case False
    define a' where "a' = ?a\<lparr>spans := jit_give at len (spans ?a)\<rparr>"
    define s' where "s' = s\<lparr>s_arena := (s_arena s)[i := a']\<rparr>"
    have s': "jit_free K (at + JIT_ALIGN) s = s'" using fr False by (simp add: s'_def a'_def)
    have a: "arena_ok ?a" "\<not> dedicated ?a" using ok i by (auto simp: arenas_ok_def)
    have sub: "{at..<at + len} \<subseteq> arena_range ?a" using i(2) by simp
    then have "base ?a \<le> at" "at + len \<le> base ?a + asize ?a" using len(3) by (simp_all add: ivl_subset)
    with a i(2) False len(3) have g: "spans_ok (base ?a) (base ?a + asize ?a) (spans a')"
      "free_bytes (spans a') = free_bytes (spans ?a) \<union> {at..<at + len}" "length (spans a') \<le> Suc (length (spans ?a))"
      using jit_give_Some [of "base ?a" "base ?a + asize ?a" "spans ?a" len at] by (auto simp: arena_ok_def a'_def)
    have r: "base a' = base ?a" "asize a' = asize ?a" "dedicated a' = dedicated ?a" by (simp_all add: a'_def)
    have "arena_ok a'" using a g False by (simp add: arena_ok_def r)
    then have ok': "arenas_ok (s_arena s')" using arenas_ok_update [OF ok i(1) r(1,2)] by (simp add: s'_def)
    have mp: "arenas_mapped mapped s'"
      by (rule arenas_mapped_update [OF _ i(1) r(1,2)]) (use p in \<open>auto simp: pool_ok_def s'_def\<close>)
    have "held (s_arena s') (mem s') c" if c: "c \<in> B - {Shared at len}" for c
    proof -
      obtain d where d: "d \<in> set (s_arena s)" "in_arena c d" "header_of (mem s) c"
        using p c by (auto simp: pool_ok_def held_def)
      have ap: "block_bytes c \<inter> {at..<at + len} = {}" using pool_apart [OF p _ b, of c] c by simp
      have "\<exists>d' \<in> set (s_arena s'). in_arena c d'"
      proof (cases "d = ?a")
        case True
        then have "in_arena c a'" using d(2) ap g(2) a(2) r by (cases c) auto
        then show ?thesis using i(1) by (auto simp: s'_def set_update_memI)
      next
        case False
        then show ?thesis using d update_keeps [OF d(1) False i(1)] by (auto simp: s'_def)
      qed
      then show ?thesis using d(3) by (simp add: held_def s'_def)
    qed
    then show ?thesis using p ok' mp unfolding s' by (auto simp: pool_ok_def s'_def)
  qed
qed

text \<open>Giving back a dedicated arena.\<close>

lemma set_remove_nth: "i < length xs \<Longrightarrow> x \<in> set xs \<Longrightarrow> x \<noteq> xs ! i \<Longrightarrow> x \<in> set (take i xs @ drop (i + 1) xs)"
  by (metis id_take_nth_drop in_set_conv_decomp set_ConsD Un_iff set_append Suc_eq_plus1)

lemma remove_nth_other:
  assumes "x \<in> set (take i xs @ drop (i + 1) xs)" "i < length xs"
  shows "\<exists>j < length xs. j \<noteq> i \<and> x = xs ! j"
proof -
  from assms(1) consider j where "j < i" "take i xs ! j = x" | j where "j < length xs - (i + 1)" "drop (i + 1) xs ! j = x"
    using assms(2) by (auto simp: in_set_conv_nth)
  then show ?thesis
  proof cases
    case (1 j) then show ?thesis using assms(2) by (intro exI [of _ j]) auto
  next
    case (2 j) then show ?thesis using assms(2) by (intro exI [of _ "i + 1 + j"]) auto
  qed
qed

lemma pool_give_whole:
  assumes K: "kernel_ok K mapped" and p: "pool_ok mapped s B" and b: "Whole at len \<in> B"
  shows "pool_ok mapped (jit_free K at s) (B - {Whole at len}) \<and> mem (jit_free K at s) = mem s"
proof -
  have ok: "arenas_ok (s_arena s)" and h: "held (s_arena s) (mem s) (Whole at len)" using p b by (auto simp: pool_ok_def)
  from h obtain i where i: "i < length (s_arena s)" "in_arena (Whole at len) (s_arena s ! i)" and l0: "0 < len"
    by (auto simp: held_def in_set_conv_nth)
  let ?a = "s_arena s ! i" and ?as = "take i (s_arena s) @ drop (i + 1) (s_arena s)"
  have a: "dedicated ?a" "base ?a = at" "asize ?a = len" "?a \<in> set (s_arena s)" using i by auto
  have "0 < at" using ok a by (auto simp: arenas_ok_def arena_ok_def)
  moreover have "jit_owner at (s_arena s) = Some i" using jit_owner_eq [OF ok i(1), of at] a l0 by simp
  ultimately have s': "jit_free K at s = s\<lparr>kst := ReleaseDirectMemory K (phys ?a) len (Munmap K at len (kst s)), s_arena := ?as\<rparr>"
    using a by (simp add: jit_free_def Let_def)
  have parts: "s_arena s = take i (s_arena s) @ ?a # drop (Suc i) (s_arena s)" by (rule id_take_nth_drop [OF i(1)])
  have srt: "sorted_wrt (\<lambda>a b. arena_range a \<inter> arena_range b = {}) (take i (s_arena s) @ ?a # drop (Suc i) (s_arena s))"
    using ok parts by (simp add: arenas_ok_def)
  have sub: "set ?as \<subseteq> set (s_arena s)" unfolding set_append by (intro Un_least set_take_subset set_drop_subset)
  have ok': "arenas_ok ?as" using srt ok sub by (auto simp: arenas_ok_def sorted_wrt_append)
  have gone: "arena_range c \<inter> {at..<at + len} = {}" if c: "c \<in> set ?as" for c
  proof -
    obtain j where "j < length (s_arena s)" "j \<noteq> i" "c = s_arena s ! j" using remove_nth_other [OF c i(1)] by blast
    then have "arena_range c \<inter> arena_range ?a = {}" using arenas_ok_disjoint [OF ok, of j i] i(1) by simp
    then show ?thesis by (simp only: a)
  qed
  have mp: "arena_range c \<subseteq> mapped (kst (jit_free K at s))" if c: "c \<in> set ?as" for c
  proof -
    have "arena_range c \<subseteq> mapped (kst s)" using p sub c unfolding pool_ok_def arenas_mapped_def by blast
    then have "arena_range c \<subseteq> mapped (kst s) - {at..<at + len}" using gone [OF c] by blast
    moreover have "mapped (kst (jit_free K at s)) = mapped (kst s) - {at..<at + len}"
      unfolding s' by (simp add: kernel_okD(4,5) [OF K])
    ultimately show ?thesis by (simp only:)
  qed
  have "held ?as (mem s) c" if c: "c \<in> B - {Whole at len}" for c
  proof -
    obtain d where d: "d \<in> set (s_arena s)" "in_arena c d" "header_of (mem s) c"
      using p c by (auto simp: pool_ok_def held_def)
    have "d \<noteq> ?a" using d(2) c a by (cases c) auto
    then have "d \<in> set ?as" by (rule set_remove_nth [OF i(1) d(1)])
    with d show ?thesis by (auto simp: held_def)
  qed
  then show ?thesis using p ok' mp unfolding s' by (auto simp: pool_ok_def arenas_mapped_def)
qed

lemma pool_free:
  assumes "kernel_ok K mapped" "pool_ok mapped s B" "b \<in> B"
  shows "pool_ok mapped (jit_free K (block_ptr b) s) (B - {b}) \<and> mem (jit_free K (block_ptr b) s) = mem s"
proof (cases b)
  case (Shared at len)
  then show ?thesis using pool_give [OF assms(2), of at len K] assms(3) by simp
next
  case (Whole at len)
  then show ?thesis using pool_give_whole [OF assms(1,2), of at len] assms(3) by simp
qed

section \<open>The callers and the rest of the process\<close>

text \<open>A caller writes into its block, behind the header.\<close>

lemma pool_write:
  assumes p: "pool_ok mapped s B" and b: "b \<in> B" and w: "{x..<x + length bs} \<subseteq> user_bytes b"
  shows "pool_ok mapped (s\<lparr>mem := mem_write x bs (mem s)\<rparr>) B \<and>
    (\<forall>c \<in> B - {b}. \<forall>y \<in> block_bytes c. mem_write x bs (mem s) y = mem s y)"
proof -
  have ub: "user_bytes b \<subseteq> block_bytes b" by (cases b) (auto simp: JIT_ALIGN_def)
  have other: "mem_write x bs (mem s) y = mem s y" if "c \<in> B - {b}" "y \<in> block_bytes c" for c y
  proof -
    have "block_bytes c \<inter> block_bytes b = {}" using p b that(1) by (auto simp: pool_ok_def)
    then show ?thesis using that(2) w ub by (intro mem_write_other) blast
  qed
  have hd: "header_of (mem_write x bs (mem s)) b" if h: "header_of (mem s) b"
  proof (cases b)
    case (Shared c l)
    have "mem_write x bs (mem s) y = mem s y" if "c \<le> y" "y < c + 8" for y
      using w that Shared by (intro mem_write_other) (auto simp: JIT_ALIGN_def)
    then have "mem_read c 8 (mem_write x bs (mem s)) = mem_read c 8 (mem s)"
      unfolding mem_read_def by (intro map_cong refl) auto
    then show ?thesis using h Shared by simp
  qed (use h in simp)
  have "held (s_arena s) (mem_write x bs (mem s)) c" if c: "c \<in> B" for c
    using p c hd header_same [of c "mem_write x bs (mem s)" "mem s"] other [of c]
    by (cases "c = b") (auto simp: pool_ok_def held_def)
  then show ?thesis using p other by (auto simp: pool_ok_def arenas_mapped_def)
qed

text \<open>Other parts of the process map and unmap, but not the arenas.\<close>

lemma pool_kernel:
  "pool_ok mapped s B \<Longrightarrow> \<forall>a \<in> set (s_arena s). arena_range a \<subseteq> mapped k \<Longrightarrow> pool_ok mapped (s\<lparr>kst := k\<rparr>) B"
  by (simp add: pool_ok_def arenas_mapped_def)

lemma protect_effect:
  assumes K: "kernel_ok K mapped" and r: "jit_protect K addr len s = (ok, s')"
  shows "s_arena s' = s_arena s \<and> mapped (kst s') = mapped (kst s) \<and>
    (\<forall>x. x \<notin> {addr..<addr + length jit_stub} \<longrightarrow> mem s' x = mem s x)"
proof -
  define b e where "b = round_down64 addr JIT_GRANULE" and "e = round_up64 (add64 addr len) JIT_GRANULE"
  obtain rc k where M: "Mprotect K b (sub64 e b) JIT_PROT_RWX (kst s) = (rc, k)" by (metis surj_pair)
  obtain say s2 where S: "jit_say K (s_first_stub s) (s\<lparr>kst := k\<rparr>) = (say, s2)" by (metis surj_pair)
  obtain v s3 where V: "jit_verify K addr s2 = (v, s3)" by (metis surj_pair)
  have k: "mapped k = mapped (kst s)" by (rule kernel_okD(3) [OF K M])
  have s3: "s_arena s3 = s_arena s" "mem s3 = mem_write addr jit_stub (mem s)" "mapped (kst s3) = mapped (kst s)"
    using verify_effect [OF V] say_keeps [OF S] kernel_okD(6) [OF K] k by auto
  have rec: "s_arena s5 = s_arena s4 \<and> mem s5 = mem s4 \<and> kst s5 = kst s4"
    if "jit_protect_record b e w s4 = (u, s5)" for w u s4 s5
    using that by (auto simp: jit_protect_record_def Let_def split: if_splits)
  have "s' = s \<or> s_arena s' = s_arena s \<and> kst s' = k \<and> mem s' = mem s \<or>
    s_arena s' = s_arena s3 \<and> kst s' = kst s3 \<and> mem s' = mem s3"
    using r rec M S V by (auto simp: jit_protect_def b_def [symmetric] e_def [symmetric] Let_def
      split: option.splits if_splits)
  then show ?thesis using k s3 mem_write_other by auto
qed

lemma pool_protect:
  assumes "kernel_ok K mapped" "pool_ok mapped s B" "jit_protect K addr len s = (ok, s')"
    and apart: "\<forall>a \<in> set (s_arena s). arena_range a \<inter> {addr..<addr + length jit_stub} = {}"
  shows "pool_ok mapped s' B \<and> (\<forall>b \<in> B. \<forall>x \<in> block_bytes b. mem s' x = mem s x)"
proof -
  note e = protect_effect [OF assms(1,3)]
  have same: "mem s' x = mem s x" if b: "b \<in> B" "x \<in> block_bytes b" for b x
  proof -
    obtain a where "a \<in> set (s_arena s)" "in_arena b a" using pool_arena [OF assms(2) b(1)] by blast
    then have "x \<notin> {addr..<addr + length jit_stub}" using in_arena_range [of b a] b(2) apart by blast
    then show ?thesis using e by blast
  qed
  have "held (s_arena s') (mem s') b" if "b \<in> B" for b
    using assms(2) e that header_same [OF same [OF that]] by (auto simp: pool_ok_def held_def)
  then show ?thesis using assms(2) e same by (simp add: pool_ok_def arenas_mapped_def)
qed

end
