(* ===== verification/Jit_Threads.thy ===== *)
theory Jit_Threads
  imports Jit_Blocks
begin

text \<open>
  Any number of threads at the executable-memory allocator of \<open>src/orbis_jit.c\<close>: the spin lock
  around every call, the callers writing into their blocks and handing them to one another, and the
  rest of the process mapping memory meanwhile.
\<close>

section \<open>The threads\<close>

datatype jit_request = R_alloc nat bool | R_alloc_at nat nat | R_free jit_block | R_protect nat nat

text \<open>
  Where a thread is: outside, in front of the exchange of \<open>orbis_jit_lock\<close>, asleep in
  \<open>sceKernelUsleep\<close>, behind the exchange with the call's work before it, or with the work done.
\<close>

datatype jit_pc = J_running | J_try jit_request | J_sleep jit_request | J_inside jit_request | J_leaving

record 'k jit_sys =
  sh :: "'k jit_state"
  s_lock :: bool
  jpc :: "nat \<Rightarrow> jit_pc"
  own :: "nat \<Rightarrow> jit_block set"

definition jit_start :: "'k jit_state \<Rightarrow> 'k jit_sys" where
  "jit_start s = \<lparr>sh = s, s_lock = False, jpc = (\<lambda>_. J_running), own = (\<lambda>_. {})\<rparr>"

definition jgo :: "nat \<Rightarrow> jit_pc \<Rightarrow> 'k jit_sys \<Rightarrow> 'k jit_sys" where
  "jgo t p c = c\<lparr>jpc := (jpc c)(t := p)\<rparr>"

text \<open>
  What callers ask for: sizes away from the top of \<open>size_t\<close>, addresses below the top of the address
  space, and only blocks they hold are given back.
\<close>

fun request_ok :: "jit_block set \<Rightarrow> jit_request \<Rightarrow> bool" where
  "request_ok B (R_alloc sz near) \<longleftrightarrow> sz < 2 ^ 62"
| "request_ok B (R_alloc_at addr sz) \<longleftrightarrow> addr + sz + JIT_GRANULE \<le> limit64"
| "request_ok B (R_free b) \<longleftrightarrow> b \<in> B"
| "request_ok B (R_protect addr len) \<longleftrightarrow> True"

text \<open>The table of held blocks after an allocation.\<close>

definition jit_gain :: "nat \<Rightarrow> (nat \<Rightarrow> jit_block) \<Rightarrow> nat option \<Rightarrow> (nat \<Rightarrow> jit_block set) \<Rightarrow> nat \<Rightarrow> jit_block set" where
  "jit_gain t mk p w = (case p of None \<Rightarrow> w | Some q \<Rightarrow> w(t := insert (mk q) (w t)))"

text \<open>
  One step of thread \<open>t\<close>. The work between \<open>orbis_jit_lock\<close> and \<open>orbis_jit_unlock\<close> is one step; the
  callers' writes and the rest of the process go on while a thread is inside. An array that is
  promoted in place does not lie in an arena.
\<close>

inductive jit_step :: "'k jit_kernel \<Rightarrow> ('k \<Rightarrow> nat set) \<Rightarrow> nat \<Rightarrow> 'k jit_sys \<Rightarrow> 'k jit_sys \<Rightarrow> bool"
  for K mapped t where
  call: "jpc c t = J_running \<Longrightarrow> request_ok (own c t) r \<Longrightarrow> jit_step K mapped t c (jgo t (J_try r) c)"
| got_lock: "jpc c t = J_try r \<Longrightarrow> \<not> s_lock c \<Longrightarrow> jit_step K mapped t c ((jgo t (J_inside r) c)\<lparr>s_lock := True\<rparr>)"
| no_lock: "jpc c t = J_try r \<Longrightarrow> s_lock c \<Longrightarrow> jit_step K mapped t c (jgo t (J_sleep r) c)"
| awake: "jpc c t = J_sleep r \<Longrightarrow> jit_step K mapped t c (jgo t (J_try r) c)"
| do_alloc: "jpc c t = J_inside (R_alloc sz near) \<Longrightarrow> jit_alloc K sz near (sh c) = Some (p, s') \<Longrightarrow>
    jit_step K mapped t c ((jgo t J_leaving c)\<lparr>sh := s',
      own := jit_gain t (\<lambda>q. Shared (q - JIT_ALIGN) (jit_alloc_len sz)) p (own c)\<rparr>)"
| do_alloc_at: "jpc c t = J_inside (R_alloc_at addr sz) \<Longrightarrow> jit_alloc_at K addr sz (sh c) = Some (p, s') \<Longrightarrow>
    jit_step K mapped t c ((jgo t J_leaving c)\<lparr>sh := s',
      own := jit_gain t (\<lambda>q. Whole q (jit_round (if sz = 0 then 1 else sz) JIT_GRANULE)) p (own c)\<rparr>)"
| do_free: "jpc c t = J_inside (R_free b) \<Longrightarrow>
    jit_step K mapped t c ((jgo t J_leaving c)\<lparr>sh := jit_free K (block_ptr b) (sh c),
      own := (own c)(t := own c t - {b})\<rparr>)"
| do_protect: "jpc c t = J_inside (R_protect addr len) \<Longrightarrow>
    \<forall>a \<in> set (s_arena (sh c)). arena_range a \<inter> {addr..<addr + length jit_stub} = {} \<Longrightarrow>
    jit_step K mapped t c ((jgo t J_leaving c)\<lparr>sh := snd (jit_protect K addr len (sh c))\<rparr>)"
| unlock: "jpc c t = J_leaving \<Longrightarrow> jit_step K mapped t c ((jgo t J_running c)\<lparr>s_lock := False\<rparr>)"
| store: "jpc c t = J_running \<Longrightarrow> b \<in> own c t \<Longrightarrow> {x..<x + length bs} \<subseteq> user_bytes b \<Longrightarrow>
    jit_step K mapped t c (c\<lparr>sh := (sh c)\<lparr>mem := mem_write x bs (mem (sh c))\<rparr>\<rparr>)"
| hand_over: "jpc c t = J_running \<Longrightarrow> b \<in> own c t \<Longrightarrow> u \<noteq> t \<Longrightarrow>
    jit_step K mapped t c (c\<lparr>own := (own c)(t := own c t - {b}, u := insert b (own c u))\<rparr>)"
| elsewhere: "\<forall>a \<in> set (s_arena (sh c)). arena_range a \<subseteq> mapped k \<Longrightarrow>
    jit_step K mapped t c (c\<lparr>sh := (sh c)\<lparr>kst := k\<rparr>\<rparr>)"

inductive jit_run :: "'k jit_kernel \<Rightarrow> ('k \<Rightarrow> nat set) \<Rightarrow> 'k jit_sys \<Rightarrow> 'k jit_sys \<Rightarrow> bool"
  for K mapped c0 where
  none_yet: "jit_run K mapped c0 c0"
| one_more: "jit_run K mapped c0 c \<Longrightarrow> jit_step K mapped t c c' \<Longrightarrow> jit_run K mapped c0 c'"

section \<open>The invariant\<close>

fun in_section :: "jit_pc \<Rightarrow> bool" where
  "in_section (J_inside r) = True"
| "in_section J_leaving = True"
| "in_section p = False"

fun pending :: "jit_pc \<Rightarrow> jit_request option" where
  "pending (J_try r) = Some r"
| "pending (J_sleep r) = Some r"
| "pending (J_inside r) = Some r"
| "pending p = None"

definition all_held :: "(nat \<Rightarrow> jit_block set) \<Rightarrow> jit_block set" where
  "all_held w = (\<Union>t. w t)"

definition jit_inv :: "('k \<Rightarrow> nat set) \<Rightarrow> 'k jit_sys \<Rightarrow> bool" where
  "jit_inv mapped c \<longleftrightarrow> pool_ok mapped (sh c) (all_held (own c)) \<and>
     (\<forall>t u. t \<noteq> u \<longrightarrow> own c t \<inter> own c u = {}) \<and>
     (\<forall>t. in_section (jpc c t) \<longrightarrow> s_lock c) \<and>
     (\<forall>t u. in_section (jpc c t) \<and> in_section (jpc c u) \<longrightarrow> t = u) \<and>
     (\<forall>t r. pending (jpc c t) = Some r \<longrightarrow> request_ok (own c t) r)"

lemma jit_inv_pool: "jit_inv mapped c \<Longrightarrow> pool_ok mapped (sh c) (all_held (own c))"
  by (simp add: jit_inv_def)

lemma jgo_simps [simp]:
  "sh (jgo t p c) = sh c" "s_lock (jgo t p c) = s_lock c" "own (jgo t p c) = own c" "jpc (jgo t p c) = (jpc c)(t := p)"
  by (simp_all add: jgo_def)

text \<open>Moves of a thread that leave the table alone.\<close>

lemma inv_move:
  assumes "jit_inv mapped c" "\<And>r. pending p = Some r \<Longrightarrow> request_ok (own c t) r"
    and "in_section p \<Longrightarrow> in_section (jpc c t)"
  shows "jit_inv mapped (jgo t p c)"
  using assms unfolding jit_inv_def by (auto split: if_splits)

lemma inv_lock:
  assumes "jit_inv mapped c" "jpc c t = J_try r" "\<not> s_lock c"
  shows "jit_inv mapped ((jgo t (J_inside r) c)\<lparr>s_lock := True\<rparr>)"
  using assms unfolding jit_inv_def by (auto split: if_splits)

lemma inv_unlock:
  assumes "jit_inv mapped c" "jpc c t = J_leaving"
  shows "jit_inv mapped ((jgo t J_running c)\<lparr>s_lock := False\<rparr>)"
proof -
  have "\<not> in_section (jpc c u)" if "u \<noteq> t" for u
    using assms that unfolding jit_inv_def by (metis in_section.simps(2))
  then show ?thesis using assms(1) unfolding jit_inv_def by (auto split: if_splits)
qed

text \<open>The work of a call, and changes outside the lock.\<close>

lemma inv_work:
  assumes "jit_inv mapped c" "in_section (jpc c t)" "pool_ok mapped s' (all_held w)"
    and "\<And>u v. u \<noteq> v \<Longrightarrow> w u \<inter> w v = {}" "\<And>u. u \<noteq> t \<Longrightarrow> w u = own c u"
  shows "jit_inv mapped ((jgo t J_leaving c)\<lparr>sh := s', own := w\<rparr>)"
  using assms unfolding jit_inv_def by (auto split: if_splits)

lemma inv_outside:
  assumes "jit_inv mapped c" "pool_ok mapped s' (all_held w)"
    and "\<And>u v. u \<noteq> v \<Longrightarrow> w u \<inter> w v = {}" "\<And>u. jpc c u \<noteq> J_running \<Longrightarrow> own c u \<subseteq> w u"
  shows "jit_inv mapped (c\<lparr>sh := s', own := w\<rparr>)"
proof -
  have "request_ok (w u) r" if p: "pending (jpc c u) = Some r" for u r
  proof -
    have "request_ok (own c u) r" using assms(1) p by (simp add: jit_inv_def)
    moreover have "own c u \<subseteq> w u" using p by (intro assms(4)) auto
    ultimately show ?thesis by (cases r) auto
  qed
  then show ?thesis using assms(1-3) by (simp add: jit_inv_def)
qed

section \<open>The table of held blocks\<close>

lemma all_held_insert: "all_held (w(t := insert b (w t))) = insert b (all_held w)"
  by (auto simp: all_held_def)

lemma all_held_remove:
  "b \<in> w t \<Longrightarrow> (\<And>u. u \<noteq> t \<Longrightarrow> w t \<inter> w u = {}) \<Longrightarrow> all_held (w(t := w t - {b})) = all_held w - {b}"
  by (fastforce simp: all_held_def split: if_splits)

lemma own_in_all: "b \<in> own c t \<Longrightarrow> b \<in> all_held (own c)"
  by (auto simp: all_held_def)

text \<open>A new block is none that was held.\<close>

lemma inv_gain:
  assumes i: "jit_inv mapped c" "in_section (jpc c t)" and ne: "block_bytes b \<noteq> {}"
    and p: "pool_ok mapped s' (insert b (all_held (own c)))"
    and d: "\<forall>c' \<in> all_held (own c). block_bytes c' \<inter> block_bytes b = {}"
  shows "jit_inv mapped ((jgo t J_leaving c)\<lparr>sh := s', own := (own c)(t := insert b (own c t))\<rparr>)"
proof (rule inv_work [OF i])
  show "pool_ok mapped s' (all_held ((own c)(t := insert b (own c t))))" using p by (simp add: all_held_insert)
  have "b \<notin> all_held (own c)" using d ne by blast
  then have nb: "b \<notin> own c u" for u using own_in_all [of b c u] by blast
  have "own c u \<inter> own c v = {}" if "u \<noteq> v" for u v using i(1) that by (simp add: jit_inv_def)
  then show "((own c)(t := insert b (own c t))) u \<inter> ((own c)(t := insert b (own c t))) v = {}" if "u \<noteq> v" for u v
    using nb that by auto
qed simp

section \<open>Steps\<close>

definition keeps_others :: "nat \<Rightarrow> 'k jit_sys \<Rightarrow> 'k jit_sys \<Rightarrow> bool" where
  "keeps_others t c c' \<longleftrightarrow> (\<forall>u. \<forall>b \<in> own c u. \<forall>x \<in> block_bytes b.
     u \<noteq> t \<or> jpc c t \<noteq> J_running \<longrightarrow> mem (sh c') x = mem (sh c) x)"

lemma keeps_all: "\<forall>b \<in> all_held (own c). \<forall>x \<in> block_bytes b. mem s' x = mem (sh c) x \<Longrightarrow> sh c' = s' \<Longrightarrow> keeps_others t c c'"
  using own_in_all by (fastforce simp: keeps_others_def)

lemma keeps_mem: "mem (sh c') = mem (sh c) \<Longrightarrow> keeps_others t c c'"
  by (simp add: keeps_others_def)

lemma step_alloc:
  assumes K: "kernel_ok K mapped" and i: "jit_inv mapped c" and pc: "jpc c t = J_inside (R_alloc sz near)"
    and a: "jit_alloc K sz near (sh c) = Some (p, s')"
    and c': "c' = (jgo t J_leaving c)\<lparr>sh := s', own := jit_gain t (\<lambda>q. Shared (q - JIT_ALIGN) (jit_alloc_len sz)) p (own c)\<rparr>"
  shows "jit_inv mapped c' \<and> keeps_others t c c'"
proof -
  have sz: "sz < 2 ^ 62" using i pc unfolding jit_inv_def by (metis pending.simps(3) request_ok.simps(1))
  note e = pool_alloc [OF K jit_inv_pool [OF i] sz a]
  have k: "keeps_others t c c'" by (rule keeps_all [OF conjunct1 [OF e]]) (simp add: c')
  show ?thesis
  proof (cases p)
    case None
    have "jit_inv mapped ((jgo t J_leaving c)\<lparr>sh := s', own := own c\<rparr>)"
      by (rule inv_work [OF i]) (use e None pc i in \<open>auto simp: jit_inv_def\<close>)
    then show ?thesis using k None by (simp add: c' jit_gain_def)
  next
    case (Some q)
    then obtain at where "q = at + JIT_ALIGN"
      "pool_ok mapped s' (insert (Shared at (jit_alloc_len sz)) (all_held (own c)))"
      "\<forall>b \<in> all_held (own c). block_bytes b \<inter> {at..<at + jit_alloc_len sz} = {}" using e by auto
    then show ?thesis using inv_gain [OF i, of t "Shared at (jit_alloc_len sz)" s'] alloc_len_bounds [OF sz] pc k Some
      by (simp add: c' jit_gain_def)
  qed
qed

lemma step_alloc_at:
  assumes K: "kernel_ok K mapped" and i: "jit_inv mapped c" and pc: "jpc c t = J_inside (R_alloc_at addr sz)"
    and a: "jit_alloc_at K addr sz (sh c) = Some (p, s')"
    and c': "c' = (jgo t J_leaving c)\<lparr>sh := s',
      own := jit_gain t (\<lambda>q. Whole q (jit_round (if sz = 0 then 1 else sz) JIT_GRANULE)) p (own c)\<rparr>"
  shows "jit_inv mapped c' \<and> keeps_others t c c'"
proof -
  define n where "n = jit_round (if sz = 0 then 1 else sz) JIT_GRANULE"
  have ok: "addr + sz + JIT_GRANULE \<le> limit64" using i pc unfolding jit_inv_def by (metis pending.simps(3) request_ok.simps(2))
  note e = pool_alloc_at [OF K jit_inv_pool [OF i] ok a, folded n_def]
  have k: "keeps_others t c c'" by (rule keeps_all [OF conjunct1 [OF e]]) (simp add: c')
  show ?thesis
  proof (cases p)
    case None
    have "jit_inv mapped ((jgo t J_leaving c)\<lparr>sh := s', own := own c\<rparr>)"
      by (rule inv_work [OF i]) (use e None pc i in \<open>auto simp: jit_inv_def\<close>)
    then show ?thesis using k None by (simp add: c' jit_gain_def)
  next
    case (Some q)
    then have q: "q = addr" "pool_ok mapped s' (insert (Whole addr n) (all_held (own c)))"
      "\<forall>b \<in> all_held (own c). block_bytes b \<inter> {addr..<addr + n} = {}" using e by auto
    from q(2) have "0 < n" by (simp add: pool_ok_def held_def)
    then show ?thesis using inv_gain [OF i, of t "Whole addr n" s'] q pc k Some
      by (simp add: c' jit_gain_def n_def)
  qed
qed

lemma step_free:
  assumes K: "kernel_ok K mapped" and i: "jit_inv mapped c" and pc: "jpc c t = J_inside (R_free b)"
    and c': "c' = (jgo t J_leaving c)\<lparr>sh := jit_free K (block_ptr b) (sh c), own := (own c)(t := own c t - {b})\<rparr>"
  shows "jit_inv mapped c' \<and> keeps_others t c c'"
proof -
  have b: "b \<in> own c t" using i pc unfolding jit_inv_def by (metis pending.simps(3) request_ok.simps(3))
  have d: "own c u \<inter> own c v = {}" if "u \<noteq> v" for u v using i that by (simp add: jit_inv_def)
  note f = pool_free [OF K jit_inv_pool [OF i] own_in_all [OF b]]
  have "all_held ((own c)(t := own c t - {b})) = all_held (own c) - {b}"
    by (rule all_held_remove [of b "own c" t, OF b]) (use d in auto)
  then have "jit_inv mapped c'" unfolding c'
    by (intro inv_work [OF i]) (use f pc d in auto)
  moreover have "keeps_others t c c'" by (rule keeps_mem) (use f in \<open>simp add: c'\<close>)
  ultimately show ?thesis ..
qed

lemma step_protect:
  assumes K: "kernel_ok K mapped" and i: "jit_inv mapped c" and pc: "jpc c t = J_inside (R_protect addr len)"
    and apart: "\<forall>a \<in> set (s_arena (sh c)). arena_range a \<inter> {addr..<addr + length jit_stub} = {}"
    and c': "c' = (jgo t J_leaving c)\<lparr>sh := snd (jit_protect K addr len (sh c))\<rparr>"
  shows "jit_inv mapped c' \<and> keeps_others t c c'"
proof -
  note p = pool_protect [OF K jit_inv_pool [OF i] prod.collapse [symmetric] apart, of len]
  have "jit_inv mapped ((jgo t J_leaving c)\<lparr>sh := snd (jit_protect K addr len (sh c)), own := own c\<rparr>)"
    by (rule inv_work [OF i]) (use p pc i in \<open>auto simp: jit_inv_def\<close>)
  moreover have "keeps_others t c c'" by (rule keeps_all [OF conjunct2 [OF p]]) (simp add: c')
  ultimately show ?thesis by (simp add: c' jgo_def)
qed

lemma step_store:
  assumes i: "jit_inv mapped c" and pc: "jpc c t = J_running" and b: "b \<in> own c t"
    and w: "{x..<x + length bs} \<subseteq> user_bytes b"
    and c': "c' = c\<lparr>sh := (sh c)\<lparr>mem := mem_write x bs (mem (sh c))\<rparr>\<rparr>"
  shows "jit_inv mapped c' \<and> keeps_others t c c'"
proof -
  note p = pool_write [OF jit_inv_pool [OF i] own_in_all [OF b] w]
  have d: "own c u \<inter> own c v = {}" if "u \<noteq> v" for u v using i that by (simp add: jit_inv_def)
  have "jit_inv mapped (c\<lparr>sh := (sh c)\<lparr>mem := mem_write x bs (mem (sh c))\<rparr>, own := own c\<rparr>)"
    by (rule inv_outside [OF i]) (use p d in auto)
  moreover have "b' \<in> all_held (own c) - {b}" if "b' \<in> own c u" "u \<noteq> t" for b' u
    using that d [of u t] b own_in_all [of b' c u] by auto
  then have "keeps_others t c c'" using p pc by (auto simp: keeps_others_def c')
  ultimately show ?thesis by (simp add: c')
qed

lemma step_hand_over:
  assumes i: "jit_inv mapped c" and pc: "jpc c t = J_running" and b: "b \<in> own c t" and u: "u \<noteq> t"
    and c': "c' = c\<lparr>own := (own c)(t := own c t - {b}, u := insert b (own c u))\<rparr>"
  shows "jit_inv mapped c' \<and> keeps_others t c c'"
proof -
  let ?w = "(own c)(t := own c t - {b}, u := insert b (own c u))"
  have d: "own c v \<inter> own c w = {}" if "v \<noteq> w" for v w using i that by (simp add: jit_inv_def)
  have "all_held ?w = all_held (own c)"
  proof
    show "all_held ?w \<subseteq> all_held (own c)" using b by (auto simp: all_held_def split: if_splits)
    show "all_held (own c) \<subseteq> all_held ?w"
    proof
      fix y assume "y \<in> all_held (own c)"
      then obtain v where "y \<in> own c v" by (auto simp: all_held_def)
      then have "y \<in> ?w u \<or> y \<in> ?w v" using u by (cases "v = t"; cases "y = b") auto
      then show "y \<in> all_held ?w" by (auto simp only: all_held_def)
    qed
  qed
  then have p: "pool_ok mapped (sh c) (all_held ?w)" using jit_inv_pool [OF i] by simp
  have "?w v \<inter> ?w w = {}" if "v \<noteq> w" for v w
  proof -
    have "b \<notin> own c x" if "x \<noteq> t" for x using d [of t x] b that by auto
    then show ?thesis using that d [OF that] u by auto
  qed
  then have "jit_inv mapped (c\<lparr>sh := sh c, own := ?w\<rparr>)"
    by (rule inv_outside [OF i p]) (use pc in auto)
  then show ?thesis by (simp add: c' keeps_mem)
qed

lemma jit_step_inv:
  assumes K: "kernel_ok K mapped" and i: "jit_inv mapped c" and st: "jit_step K mapped t c c'"
  shows "jit_inv mapped c' \<and> keeps_others t c c'"
  using st
proof cases
  case (call r)
  then show ?thesis using inv_move [OF i, of "J_try r" t] by (simp add: keeps_mem)
next
  case (got_lock r)
  then show ?thesis using inv_lock [OF i] by (simp add: keeps_mem)
next
  case (no_lock r)
  then have "request_ok (own c t) r" using i by (simp add: jit_inv_def)
  then show ?thesis using inv_move [OF i, of "J_sleep r" t] no_lock by (simp add: keeps_mem)
next
  case (awake r)
  then have "request_ok (own c t) r" using i by (simp add: jit_inv_def)
  then show ?thesis using inv_move [OF i, of "J_try r" t] awake by (simp add: keeps_mem)
next
  case (do_alloc sz near p s') then show ?thesis by (intro step_alloc [OF K i])
next
  case (do_alloc_at addr sz p s') then show ?thesis by (intro step_alloc_at [OF K i])
next
  case (do_free b) then show ?thesis by (intro step_free [OF K i])
next
  case (do_protect addr len) then show ?thesis by (intro step_protect [OF K i])
next
  case unlock then show ?thesis using inv_unlock [OF i] by (simp add: keeps_mem)
next
  case (store b x bs) then show ?thesis by (intro step_store [OF i])
next
  case (hand_over b u) then show ?thesis by (intro step_hand_over [OF i])
next
  case (elsewhere k)
  have "jit_inv mapped (c\<lparr>sh := (sh c)\<lparr>kst := k\<rparr>, own := own c\<rparr>)"
    by (rule inv_outside [OF i]) (use pool_kernel [OF jit_inv_pool [OF i]] elsewhere i in \<open>auto simp: jit_inv_def\<close>)
  then show ?thesis using elsewhere by (simp add: keeps_mem)
qed

lemma jit_run_inv:
  assumes "kernel_ok K mapped" "arenas_ok (s_arena s)" "arenas_mapped mapped s" "jit_run K mapped (jit_start s) c"
  shows "jit_inv mapped c"
  using assms(4)
proof (induction rule: jit_run.induct)
  case none_yet
  then show ?case using assms(2,3) by (simp add: jit_inv_def jit_start_def all_held_def pool_ok_def)
next
  case (one_more c t c')
  then show ?case using jit_step_inv [OF assms(1)] by blast
qed

section \<open>What the callers can rely on\<close>

text \<open>
  C8. However the threads are interleaved, at most one is between \<open>orbis_jit_lock\<close> and
  \<open>orbis_jit_unlock\<close>, and no two blocks that are held - by one thread or by two, after any number of
  allocations, dedicated mappings, frees and hand-overs - share a byte; every held block lies in an
  arena of its kind, off the free list, with its length still in the header.
\<close>

theorem jit_threads_isolated:
  assumes "kernel_ok K mapped" "arenas_ok (s_arena s)" "arenas_mapped mapped s" "jit_run K mapped (jit_start s) c"
  shows "(in_section (jpc c t) \<and> in_section (jpc c u) \<longrightarrow> t = u) \<and>
    (b \<in> own c t \<and> d \<in> own c u \<and> (t, b) \<noteq> (u, d) \<longrightarrow> block_bytes b \<inter> block_bytes d = {}) \<and>
    (b \<in> own c t \<longrightarrow> held (s_arena (sh c)) (mem (sh c)) b)"
proof -
  note i = jit_run_inv [OF assms]
  have "block_bytes b \<inter> block_bytes d = {}" if "b \<in> own c t" "d \<in> own c u" "(t, b) \<noteq> (u, d)"
  proof -
    have "b \<noteq> d" using i that unfolding jit_inv_def by blast
    then show ?thesis by (rule pool_apart [OF jit_inv_pool [OF i] own_in_all [OF that(1)] own_in_all [OF that(2)]])
  qed
  moreover have "held (s_arena (sh c)) (mem (sh c)) b" if "b \<in> own c t"
    using jit_inv_pool [OF i] own_in_all [OF that] by (simp add: pool_ok_def)
  ultimately show ?thesis using i by (auto simp: jit_inv_def)
qed

text \<open>
  C9. What a thread has written into a block it holds stays there: from any state the threads can
  reach, no step of another thread - its stores, its calls, the arenas it makes the allocator take
  or give back, its promotions - and no step of the thread's own calls changes a byte of the block.
\<close>

theorem jit_held_bytes_kept:
  assumes "kernel_ok K mapped" "arenas_ok (s_arena s)" "arenas_mapped mapped s" "jit_run K mapped (jit_start s) c"
    and "jit_step K mapped t c c'" "b \<in> own c u" "x \<in> block_bytes b" "u \<noteq> t \<or> jpc c t \<noteq> J_running"
  shows "mem (sh c') x = mem (sh c) x"
  using jit_step_inv [OF assms(1) jit_run_inv [OF assms(1-4)] assms(5)] assms(6-8)
  unfolding keeps_others_def by blast

section \<open>Two threads\<close>

text \<open>One arena, and two threads that each hold a block of it.\<close>

lemma thread_allocates:
  assumes r: "jit_run K mapped c0 c" and pc: "jpc c t = J_running" "\<not> s_lock c" and sz: "sz < 2 ^ 62"
    and a: "jit_alloc K sz near (sh c) = Some (Some q, s')"
  shows "\<exists>c'. jit_run K mapped c0 c' \<and> sh c' = s' \<and> jpc c' = jpc c \<and> \<not> s_lock c' \<and>
    own c' = (own c)(t := insert (Shared (q - JIT_ALIGN) (jit_alloc_len sz)) (own c t))"
proof -
  let ?r = "R_alloc sz near"
  let ?c1 = "jgo t (J_try ?r) c"
  let ?c2 = "(jgo t (J_inside ?r) ?c1)\<lparr>s_lock := True\<rparr>"
  let ?c3 = "(jgo t J_leaving ?c2)\<lparr>sh := s',
    own := jit_gain t (\<lambda>q. Shared (q - JIT_ALIGN) (jit_alloc_len sz)) (Some q) (own ?c2)\<rparr>"
  have "jit_step K mapped t c ?c1" by (rule jit_step.call) (use pc sz in simp_all)
  moreover have "jit_step K mapped t ?c1 ?c2" by (rule jit_step.got_lock) (use pc in simp_all)
  moreover have "jit_step K mapped t ?c2 ?c3" by (rule jit_step.do_alloc) (use a in simp_all)
  moreover have "jit_step K mapped t ?c3 ((jgo t J_running ?c3)\<lparr>s_lock := False\<rparr>)" by (rule jit_step.unlock) simp
  ultimately have "jit_run K mapped c0 ((jgo t J_running ?c3)\<lparr>s_lock := False\<rparr>)"
    using r by (meson jit_run.one_more)
  then show ?thesis using pc(1)
    by (intro exI [of _ "(jgo t J_running ?c3)\<lparr>s_lock := False\<rparr>"]) (auto simp: jit_gain_def)
qed

definition one_arena :: "nat \<Rightarrow> nat \<Rightarrow> jit_arena" where
  "one_arena a l = \<lparr>base = 4096, asize = 4096, phys = 0, dedicated = False, spans = [(a, l)]\<rparr>"

definition two_start :: "nat set jit_state" where
  "two_start = (jit_init (\<lambda>_. 0) {4096..<8192})\<lparr>s_arena := [one_arena 4096 4096]\<rparr>"

lemma two_start_ok: "arenas_ok (s_arena two_start)" "arenas_mapped (\<lambda>k. k) two_start"
  by (simp_all add: two_start_def one_arena_def jit_init_def arenas_ok_def arena_ok_def spans_ok_def JIT_MAX_SPANS_def
    arenas_mapped_def)

lemma alloc_one_arena:
  "s_arena s = [one_arena a l] \<Longrightarrow> 192 < l \<Longrightarrow>
   \<exists>s'. jit_alloc set_kernel 100 False s = Some (Some (a + JIT_ALIGN), s') \<and> s_arena s' = [one_arena (a + 192) (l - 192)]"
  by (simp add: jit_alloc_def Let_def demo_len jit_alloc_find_def one_arena_def)

lemma two_threads:
  "\<exists>c. jit_run set_kernel (\<lambda>k. k) (jit_start two_start) c \<and> own c 0 = {Shared 4096 192} \<and> own c 1 = {Shared 4288 192} \<and>
     jpc c 1 = J_running"
proof -
  let ?c0 = "jit_start two_start"
  have r0: "jit_run set_kernel (\<lambda>k. k) ?c0 ?c0" by (rule jit_run.none_yet)
  obtain s1 where s1: "jit_alloc set_kernel 100 False (sh ?c0) = Some (Some (4096 + JIT_ALIGN), s1)" "s_arena s1 = [one_arena 4288 3904]"
    using alloc_one_arena [of "sh ?c0" 4096 4096] by (auto simp: two_start_def jit_start_def)
  obtain c1 where c1: "jit_run set_kernel (\<lambda>k. k) ?c0 c1" "sh c1 = s1" "jpc c1 = jpc ?c0" "\<not> s_lock c1"
      "own c1 = (own ?c0)(0 := insert (Shared (4096 + JIT_ALIGN - JIT_ALIGN) (jit_alloc_len 100)) (own ?c0 0))"
    using thread_allocates [OF r0 _ _ _ s1(1), of 0] by (auto simp: jit_start_def)
  obtain s2 where s2: "jit_alloc set_kernel 100 False (sh c1) = Some (Some (4288 + JIT_ALIGN), s2)"
    using alloc_one_arena [of s1 4288 3904] s1(2) c1(2) by auto
  obtain c2 where "jit_run set_kernel (\<lambda>k. k) ?c0 c2" "jpc c2 = jpc c1"
      "own c2 = (own c1)(1 := insert (Shared (4288 + JIT_ALIGN - JIT_ALIGN) (jit_alloc_len 100)) (own c1 1))"
    using thread_allocates [OF c1(1) _ c1(4) _ s2, of 1] c1(3) by (auto simp: jit_start_def)
  then show ?thesis using c1 by (intro exI [of _ c2]) (simp add: demo_len jit_start_def)
qed

theorem jit_threads_isolated_witness:
  "\<exists>c. jit_run set_kernel (\<lambda>k. k) (jit_start two_start) c \<and> own c 0 = {Shared 4096 192} \<and> own c 1 = {Shared 4288 192} \<and>
     block_bytes (Shared 4096 192) \<inter> block_bytes (Shared 4288 192) = {} \<and>
     held (s_arena (sh c)) (mem (sh c)) (Shared 4096 192)"
proof -
  obtain c where c: "jit_run set_kernel (\<lambda>k. k) (jit_start two_start) c" "own c 0 = {Shared 4096 192}" "own c 1 = {Shared 4288 192}"
    using two_threads by blast
  show ?thesis
    using jit_threads_isolated [OF set_kernel_ok two_start_ok c(1), of 0 1 "Shared 4096 192" "Shared 4288 192"] c by auto
qed

theorem jit_held_bytes_kept_witness:
  "\<exists>c c'. jit_step set_kernel (\<lambda>k. k) 1 c c' \<and> own c 0 = {Shared 4096 192} \<and>
     mem (sh c') 4400 = 7 \<and> mem (sh c') 4200 = mem (sh c) 4200"
proof -
  obtain c where c: "jit_run set_kernel (\<lambda>k. k) (jit_start two_start) c" "own c 0 = {Shared 4096 192}"
      "own c 1 = {Shared 4288 192}" "jpc c 1 = J_running"
    using two_threads by blast
  define c' where "c' = c\<lparr>sh := (sh c)\<lparr>mem := mem_write 4400 [7] (mem (sh c))\<rparr>\<rparr>"
  have st: "jit_step set_kernel (\<lambda>k. k) 1 c c'" unfolding c'_def
    by (rule jit_step.store [of _ _ "Shared 4288 192"]) (use c in \<open>auto simp: JIT_ALIGN_def\<close>)
  have "mem (sh c') 4200 = mem (sh c) 4200"
    by (rule jit_held_bytes_kept [OF set_kernel_ok two_start_ok c(1) st, of "Shared 4096 192" 0]) (use c in auto)
  moreover have "mem (sh c') 4400 = 7" by (simp add: c'_def mem_write_def)
  ultimately show ?thesis using st c(2) by blast
qed

end
