(* ===== verification/Mmap_Kernel.thy ===== *)
theory Mmap_Kernel
  imports Mmap_Props
begin

text \<open>
  The addresses the process has mapped, as the interposer of \<open>src/orbis_mmap.cpp\<close> sees them: what
  libkernel documents about its direct-memory calls, and the carve-outs staying mapped through
  every piece of work the interposer does under its lock; and what a mapping is worth to its caller.
\<close>

section \<open>The laws of the kernel\<close>

text \<open>
  \<open>mapped\<close> reads the mapped addresses off the kernel's state. Taking and returning physical memory
  maps nothing, a mapping the kernel places is new, of some length and below the top of the address
  space, unmapping removes the range, and the
  platform's own \<open>mmap\<close> and \<open>madvise\<close> leave what is mapped mapped.
\<close>

definition mm_kernel_ok :: "'k mm_kernel \<Rightarrow> ('k \<Rightarrow> nat set) \<Rightarrow> bool" where
  "mm_kernel_ok K mapped \<longleftrightarrow>
     (\<forall>len al k e ph k'. AllocateDirect K len al k = (e, ph, k') \<longrightarrow> mapped k' = mapped k) \<and>
     (\<forall>len ph al k e a k'. MapDirect K len ph al k = (e, a, k') \<longrightarrow>
        (if e = 0
         then 0 < len \<and> a + len < 2 ^ 64 \<and> {a..<a + len} \<inter> mapped k = {} \<and> mapped k' = mapped k \<union> {a..<a + len}
         else mapped k' = mapped k)) \<and>
     (\<forall>a len k. mapped (MunmapDirect K a len k) = mapped k - {a..<a + len}) \<and>
     (\<forall>ph len k. mapped (ReleaseDirect K ph len k) = mapped k) \<and>
     (\<forall>a len pr fl f off k r k'. os_mmap K a len pr fl f off k = (r, k') \<longrightarrow> mapped k \<subseteq> mapped k') \<and>
     (\<forall>a len adv k r k'. os_madvise K a len adv k = (r, k') \<longrightarrow> mapped k \<subseteq> mapped k')"

lemma mm_kernel_okD:
  assumes "mm_kernel_ok K mapped"
  shows "AllocateDirect K len al k = (e, ph, k') \<Longrightarrow> mapped k' = mapped k"
    and "MapDirect K len ph al k = (0, a, k') \<Longrightarrow>
      0 < len \<and> a + len < 2 ^ 64 \<and> {a..<a + len} \<inter> mapped k = {} \<and> mapped k' = mapped k \<union> {a..<a + len}"
    and "MapDirect K len ph al k = (e, a, k') \<Longrightarrow> e \<noteq> 0 \<Longrightarrow> mapped k' = mapped k"
    and "mapped (MunmapDirect K a len k) = mapped k - {a..<a + len}"
    and "mapped (ReleaseDirect K ph len k) = mapped k"
    and "os_mmap K a len pr fl f off k = (r, k') \<Longrightarrow> mapped k \<subseteq> mapped k'"
    and "os_madvise K a len adv k = (rr, k') \<Longrightarrow> mapped k \<subseteq> mapped k'"
proof -
  note c = assms [unfolded mm_kernel_ok_def]
  note r1 = c [THEN conjunct2] note r2 = r1 [THEN conjunct2] note r3 = r2 [THEN conjunct2] note r4 = r3 [THEN conjunct2]
  have m: "MapDirect K len ph al k = (e, a, k') \<Longrightarrow>
      (if e = 0
       then 0 < len \<and> a + len < 2 ^ 64 \<and> {a..<a + len} \<inter> mapped k = {} \<and> mapped k' = mapped k \<union> {a..<a + len}
       else mapped k' = mapped k)" for e by (rule r1 [THEN conjunct1, rule_format])
  show "AllocateDirect K len al k = (e, ph, k') \<Longrightarrow> mapped k' = mapped k" by (rule c [THEN conjunct1, rule_format])
  show "MapDirect K len ph al k = (0, a, k') \<Longrightarrow>
      0 < len \<and> a + len < 2 ^ 64 \<and> {a..<a + len} \<inter> mapped k = {} \<and> mapped k' = mapped k \<union> {a..<a + len}"
    using m [of 0] by simp
  show "MapDirect K len ph al k = (e, a, k') \<Longrightarrow> e \<noteq> 0 \<Longrightarrow> mapped k' = mapped k" using m [of e] by simp
  show "mapped (MunmapDirect K a len k) = mapped k - {a..<a + len}" by (rule r2 [THEN conjunct1, rule_format])
  show "mapped (ReleaseDirect K ph len k) = mapped k" by (rule r3 [THEN conjunct1, rule_format])
  show "os_mmap K a len pr fl f off k = (r, k') \<Longrightarrow> mapped k \<subseteq> mapped k'" by (rule r4 [THEN conjunct1, rule_format])
  show "os_madvise K a len adv k = (rr, k') \<Longrightarrow> mapped k \<subseteq> mapped k'" by (rule r4 [THEN conjunct2, rule_format])
qed

section \<open>The carve-outs stay mapped\<close>

definition carves_mapped :: "('k \<Rightarrow> nat set) \<Rightarrow> 'k mm_state \<Rightarrow> bool" where
  "carves_mapped mapped s \<longleftrightarrow> (\<forall>(a, n) \<in> set (extents (carves s)). 0 < n \<and> {a..<a + n} \<subseteq> mapped (mkst s))"

lemma carves_mapped_mono:
  "carves_mapped mapped s \<Longrightarrow> extents (carves s') = extents (carves s) \<Longrightarrow> mapped (mkst s) \<subseteq> mapped (mkst s') \<Longrightarrow>
   carves_mapped mapped s'"
  unfolding carves_mapped_def by fastforce

lemma apart_ranges: "0 < n \<Longrightarrow> 0 < m \<Longrightarrow> {a..<a + n} \<inter> {b..<b + m} = {} \<Longrightarrow> apart a n b m"
  unfolding apart_def
proof (rule ccontr)
  assume n: "0 < n" "0 < m" "{a..<a + n} \<inter> {b..<b + m} = {}" and "\<not> (a + n \<le> b \<or> b + m \<le> a)"
  then have "max a b \<in> {a..<a + n} \<inter> {b..<b + m}" by auto
  with n(3) show False by blast
qed

text \<open>A mapping the kernel places is clear of every carve-out.\<close>

lemma mapped_fresh:
  assumes K: "mm_kernel_ok K mapped" and m: "carves_mapped mapped s"
  shows "map_fresh_now K s"
  unfolding map_fresh_now_def
proof (intro allI impI)
  fix len e ph k1 a k2
  assume "AllocateDirect K len DirectAlign (mkst s) = (e, ph, k1) \<and> MapDirect K len ph DirectAlign k1 = (0, a, k2)"
  then have k: "mapped k1 = mapped (mkst s)" "0 < len" "a + len < 2 ^ 64" "{a..<a + len} \<inter> mapped k1 = {}"
    using mm_kernel_okD(1,2) [OF K] by blast+
  have "apart a len (va c) (csize c)" if c: "c \<in> set (carves s)" for c
  proof (rule apart_ranges)
    show "0 < len" by (rule k(2))
    have "0 < csize c \<and> {va c..<va c + csize c} \<subseteq> mapped (mkst s)"
      using m in_extents [OF c] by (auto simp: carves_mapped_def)
    then show "0 < csize c" "{a..<a + len} \<inter> {va c..<va c + csize c} = {}" using k(1,4) by blast+
  qed
  then show "a + len < 2 ^ 64 \<and> (\<forall>c \<in> set (carves s). apart a len (va c) (csize c))" using k(3) by blast
qed

lemma addCarve_mapped:
  assumes K: "mm_kernel_ok K mapped" and m: "carves_mapped mapped s" and a: "addCarveLocked K need s = (ok, s')"
  shows "carves_mapped mapped s'"
proof -
  define len where "len = alignUp (if need > CarveBytes then need else CarveBytes) DirectAlign"
  obtain eA ph k1 where A: "AllocateDirect K len DirectAlign (mkst s) = (eA, ph, k1)" by (metis prod_cases3)
  obtain eM at k2 where M: "MapDirect K len ph DirectAlign k1 = (eM, at, k2)" by (metis prod_cases3)
  note k = mm_kernel_okD [OF K]
  note eqn = a [unfolded addCarveLocked_def Let_def mm_say_def, folded len_def]
  have k1: "mapped k1 = mapped (mkst s)" by (rule k(1) [OF A])
  show ?thesis
  proof (cases "eM = 0")
    case False
    with eqn A M k1 k(3) [OF M False] k(5) show ?thesis
      by (intro carves_mapped_mono [OF m]) (auto split: if_splits)
  next
    case True
    with k(2) [of len ph DirectAlign k1 at k2] M k1
    have k2: "0 < len" "{at..<at + len} \<inter> mapped (mkst s) = {}" "mapped k2 = mapped (mkst s) \<union> {at..<at + len}" by auto
    then have undone: "mapped (ReleaseDirect K ph len (MunmapDirect K at len k2)) = mapped (mkst s)" by (auto simp: k(4,5))
    show ?thesis
    proof (cases ok)
      case False
      with eqn A M \<open>eM = 0\<close> k1 undone show ?thesis
        by (intro carves_mapped_mono [OF m]) (auto split: if_splits)
    next
      case grown: True
      then have "mkst s' = k2" "extents (carves s') = extents (carves s) @ [(at, len)]"
        using eqn A M \<open>eM = 0\<close> by (auto split: if_splits)
      then show ?thesis using m k2 by (auto simp: carves_mapped_def)
    qed
  qed
qed

lemma map_carved_mapped:
  assumes K: "mm_kernel_ok K mapped" and m: "carves_mapped mapped s" and a: "map_carved K want s = (r, s')"
  shows "carves_mapped mapped s'"
proof (cases "alloc_carves want (carves s)")
  case (Some acs)
  then obtain x cs where x: "alloc_carves want (carves s) = Some (x, cs)" by (cases acs) auto
  then have "extents cs = extents (carves s)" by (auto dest!: alloc_carves_split)
  with a x show ?thesis by (intro carves_mapped_mono [OF m]) (auto simp: map_carved_def)
next
  case None
  obtain ok s1 where s1: "addCarveLocked K want s = (ok, s1)" by (metis surj_pair)
  note m1 = addCarve_mapped [OF K m s1]
  have grown: "carves s1 \<noteq> []" if ok
    using s1 that by (auto simp: addCarveLocked_def Let_def mm_say_def split: if_splits prod.splits)
  show ?thesis
  proof (cases "ok \<and> allocInLocked (length (blk (last (carves s1)))) want (blk (last (carves s1))) \<noteq> None")
    case True
    then obtain at bs where "s' = s1\<lparr>carves := butlast (carves s1) @ [(last (carves s1))\<lparr>blk := bs\<rparr>]\<rparr>"
      using a None s1 by (auto simp: map_carved_def Let_def)
    moreover have "extents (carves s1) = extents (butlast (carves s1)) @ [(va (last (carves s1)), csize (last (carves s1)))]"
      using grown True by (metis append_butlast_last_id extents_simps)
    ultimately show ?thesis by (intro carves_mapped_mono [OF m1]) auto
  next
    case False
    then have "s' = s1" using a None s1 by (auto simp: map_carved_def Let_def split: if_splits option.splits)
    then show ?thesis using m1 by simp
  qed
qed

section \<open>The work under the lock\<close>

lemma noteLive_simps [simp]:
  "carves (noteLive n s) = carves s" "mmem (noteLive n s) = mmem s" "mkst (noteLive n s) = mkst s"
  "heldBytes (noteLive n s) = heldBytes s" "liveBytes (noteLive n s) = add64 (liveBytes s) n"
  by (simp_all add: noteLive_def Let_def)

lemma map_locked_ok:
  assumes K: "mm_kernel_ok K mapped" and ok: "mm_ok s" and m: "carves_mapped mapped s"
    and w: "0 < want" "want < 2 ^ 63" "Page dvd want" and l: "map_locked K want s = (r, s')"
  shows "mm_ok s' \<and> carves_mapped mapped s' \<and> mmem s' = mmem s \<and>
    (case r of
       None \<Rightarrow> live_maps (carves s') = live_maps (carves s)
     | Some a \<Rightarrow> Page dvd a \<and> live_maps (carves s') = insert (a, want) (live_maps (carves s)) \<and>
         (\<forall>m \<in> live_maps (carves s). apart (fst m) (snd m) a want))"
proof -
  obtain r1 s1 where c: "map_carved K want s = (r1, s1)" by (metis surj_pair)
  note e = map_carved_ok [OF c ok mapped_fresh [OF K m] w] and m1 = map_carved_mapped [OF K m c]
  show ?thesis
  proof (cases r1)
    case None
    with l c have "r = None" "carves s' = carves s1" "mmem s' = mmem s1" "mkst s' = mkst s1" "heldBytes s' = heldBytes s1"
      "liveBytes s' = liveBytes s1" by (auto simp: map_locked_def Let_def mm_say_def)
    with e m1 None show ?thesis by (simp add: mm_ok_def carves_mapped_def)
  next
    case (Some a)
    then have r: "r = Some a" "s' = noteLive want s1" using l c by (simp_all add: map_locked_def)
    have "mm_ok (s1\<lparr>liveBytes := liveBytes s1 + want\<rparr>)" using e unfolding Some option.case by blast
    from live_bytes_bound [OF this] have l1: "add64 (liveBytes s1) want = liveBytes s1 + want" by (simp add: add64_small)
    have "mm_ok s'" using \<open>mm_ok (s1\<lparr>liveBytes := liveBytes s1 + want\<rparr>)\<close> by (simp add: r l1 mm_ok_def)
    moreover have "carves_mapped mapped s'" using m1 by (simp add: r carves_mapped_def)
    ultimately show ?thesis using e Some by (simp add: r)
  qed
qed

lemma unmap_locked_ok:
  assumes ok: "mm_ok s" and m: "carves_mapped mapped s" and live: "(p, alignUp n Page) \<in> live_maps (carves s)"
    and l: "unmap_locked p n s = (r, s')"
  shows "r = Some True \<and> mm_ok s' \<and> carves_mapped mapped s' \<and> mmem s' = mmem s \<and>
    live_maps (carves s') = live_maps (carves s) - {(p, alignUp n Page)}"
  using unmap_live [OF ok live refl] l carves_mapped_mono [OF m, of s'] by auto

section \<open>A mapping\<close>

text \<open>
  C23. On a kernel that behaves as documented, from any well-formed table whose carve-outs are
  mapped: an anonymous mapping that does not fall back to the platform is a page-aligned range of
  the rounded length inside a carve-out, of the table or a new one, disjoint from every mapping that
  is still live, all its bytes are zero and no other byte of memory has changed; it joins the live
  mappings, the table stays well formed (tiling, coalescing, the cap on direct memory and the
  counters) and its carve-outs mapped.
\<close>

theorem mmap_fresh_zeroed:
  assumes "mm_kernel_ok K mapped" "mm_ok s" "carves_mapped mapped s" "0 < len" "len < 2 ^ 62" "fd < 0"
    "mm_mmap True K 0 len OwnedProt OwnedFlags fd 0 s = (a, s')" "fallbackCalls s' = fallbackCalls s"
  shows "\<exists>want. len \<le> want \<and> want < len + Page \<and> Page dvd a \<and> mm_ok s' \<and> carves_mapped mapped s' \<and>
    (\<forall>m \<in> live_maps (carves s). apart (fst m) (snd m) a want) \<and>
    live_maps (carves s') = insert (a, want) (live_maps (carves s)) \<and>
    mem_read a want (mmem s') = replicate want 0 \<and>
    (\<forall>x. x < a \<or> a + want \<le> x \<longrightarrow> mmem s' x = mmem s x)"
proof -
  define want where "want = alignUp len Page"
  note w = alignUp_bounds [OF assms(4,5), folded want_def]
  define s1 where "s1 = (banner True (s\<lparr>nMmap := add64 (nMmap s) 1\<rparr>))\<lparr>nMmapCarved := add64 (nMmapCarved s) 1\<rparr>"
  have s1: "carves s1 = carves s" "fallbackCalls s1 = fallbackCalls s" "mmem s1 = mmem s" "mm_ok s1" "carves_mapped mapped s1"
    using assms(2,3) by (auto simp: s1_def banner_def mm_say_def mm_ok_def carves_mapped_def)
  have m: "mapOwned K len s1 = (a, s')"
    using assms(6,7) by (simp add: mm_mmap_def isOwnedRequest_def s1_def banner_def mm_say_def Let_def split: if_splits)
  obtain r s2 where r: "map_carved K want s1 = (r, s2)" by (metis surj_pair)
  have "want < 2 ^ 63" using w assms(5) by (simp add: Page_def)
  note mc = map_carved_ok [OF r s1(4) mapped_fresh [OF assms(1) s1(5)] _ this] and m2 = map_carved_mapped [OF assms(1) s1(5) r]
  show ?thesis
  proof (cases r)
    case None
    with m r obtain ra k where "fallbackCalls s' = add64 (fallbackCalls s2) 1"
      by (auto simp: mapOwned_def map_locked_def Let_def mm_say_def simp flip: want_def split: prod.splits if_splits)
    with mc w assms(4,8) s1(2) add64_neq [of "fallbackCalls s"] show ?thesis by simp
  next
    case (Some a')
    with mc w assms(4) s1(1) have ok: "mm_ok (s2\<lparr>liveBytes := liveBytes s2 + want\<rparr>)" "Page dvd a'"
      "live_maps (carves s2) = insert (a', want) (live_maps (carves s))" "mmem s2 = mmem s"
      "\<forall>m \<in> live_maps (carves s). apart (fst m) (snd m) a' want" using s1(3) by auto
    have "liveBytes s2 + want < 2 ^ 64" using live_bytes_bound [OF ok(1)] by simp
    then have nl: "add64 (liveBytes s2) want = liveBytes s2 + want" by (rule add64_small)
    have s': "a = a'" "s' = (noteLive want s2)\<lparr>mmem := mem_write a (replicate want 0) (mmem s2)\<rparr>"
      using m r Some by (auto simp: mapOwned_def map_locked_def Let_def noteLive_def simp flip: want_def)
    have "mm_ok s'" using ok(1) nl by (simp add: s' mm_ok_def noteLive_def Let_def)
    moreover have mem: "mmem s' = mem_write a (replicate want 0) (mmem s)" "carves s' = carves s2"
      using ok(4) by (simp_all add: s' noteLive_def Let_def)
    moreover have "mem_read a want (mmem s') = replicate want 0" by (simp add: mem mem_read_write_same)
    moreover have "\<forall>x. x < a \<or> a + want \<le> x \<longrightarrow> mmem s' x = mmem s x" by (auto simp: mem mem_write_def)
    moreover have "carves_mapped mapped s'" using m2 by (simp add: s' carves_mapped_def noteLive_def Let_def)
    ultimately show ?thesis using ok w s'(1) by (intro exI [of _ want]) simp
  qed
qed

text \<open>A kernel whose state is the set of mapped addresses.\<close>

definition mm_set_kernel :: "nat set mm_kernel" where
  "mm_set_kernel = \<lparr>
     AllocateDirect = (\<lambda>len al k. (0, 0, k)),
     MapDirect = (\<lambda>len ph al k. if 0 < len \<and> len < 2 ^ 40 \<and> {2 ^ 40..<2 ^ 40 + len} \<inter> k = {}
       then (0, 2 ^ 40, k \<union> {2 ^ 40..<2 ^ 40 + len}) else (12, 0, k)),
     MunmapDirect = (\<lambda>a len k. k - {a..<a + len}), ReleaseDirect = (\<lambda>ph len k. k),
     os_mmap = (\<lambda>a len pr fl f off k. (2 ^ 45, k)), os_munmap = (\<lambda>a len k. (0, k)),
     os_madvise = (\<lambda>a len adv k. (0, k))\<rparr>"

lemma mm_set_kernel_ok: "mm_kernel_ok mm_set_kernel (\<lambda>k. k)"
  by (simp add: mm_kernel_ok_def mm_set_kernel_def split: if_splits)

abbreviation mm_blank :: "nat set mm_state" where
  "mm_blank \<equiv> mm_init (\<lambda>_. 7) {}"

text \<open>Two pages, the first in a carve-out taken for it, the second behind it in the same one.\<close>

lemma first_page:
  "\<exists>s1. mm_mmap True mm_set_kernel 0 0x4000 OwnedProt OwnedFlags (-1) 0 mm_blank = (2 ^ 40, s1) \<and>
     fallbackCalls s1 = fallbackCalls mm_blank \<and>
     carves s1 = [\<lparr>va = 2 ^ 40, cphys = 0, csize = CarveBytes,
       blk = [\<lparr>boff = 0, bsize = 0x4000, used = True\<rparr>, \<lparr>boff = 0x4000, bsize = CarveBytes - 0x4000, used = False\<rparr>]\<rparr>]"
  by (simp add: mm_mmap_def isOwnedRequest_def banner_def mm_say_def mapOwned_def map_locked_def map_carved_def mm_init_def
      addCarveLocked_def mm_set_kernel_def alignUp_def wrap_simps mmap_consts noteLive_def Let_def)

lemma second_page:
  assumes "carves s1 = [\<lparr>va = 2 ^ 40, cphys = 0, csize = CarveBytes,
       blk = [\<lparr>boff = 0, bsize = 0x4000, used = True\<rparr>, \<lparr>boff = 0x4000, bsize = CarveBytes - 0x4000, used = False\<rparr>]\<rparr>]"
  shows "\<exists>s2. mm_mmap True mm_set_kernel 0 0x4000 OwnedProt OwnedFlags (-1) 0 s1 = (2 ^ 40 + 0x4000, s2) \<and>
     fallbackCalls s2 = fallbackCalls s1"
  using assms
  by (simp add: mm_mmap_def isOwnedRequest_def banner_def mm_say_def mapOwned_def map_locked_def map_carved_def
      alignUp_def wrap_simps mmap_consts noteLive_def Let_def)

theorem mmap_fresh_zeroed_witness:
  "\<exists>s1 s2 want. mm_mmap True mm_set_kernel 0 0x4000 OwnedProt OwnedFlags (-1) 0 mm_blank = (2 ^ 40, s1) \<and>
     mm_mmap True mm_set_kernel 0 0x4000 OwnedProt OwnedFlags (-1) 0 s1 = (2 ^ 40 + 0x4000, s2) \<and>
     0x4000 \<le> want \<and> (2 ^ 40, 0x4000) \<in> live_maps (carves s1) \<and> apart (2 ^ 40) 0x4000 (2 ^ 40 + 0x4000) want \<and>
     mem_read (2 ^ 40 + 0x4000) want (mmem s2) = replicate want 0"
proof -
  obtain s1 where s1: "mm_mmap True mm_set_kernel 0 0x4000 OwnedProt OwnedFlags (-1) 0 mm_blank = (2 ^ 40, s1)"
    "fallbackCalls s1 = fallbackCalls mm_blank" and c: "carves s1 = [\<lparr>va = 2 ^ 40, cphys = 0, csize = CarveBytes,
       blk = [\<lparr>boff = 0, bsize = 0x4000, used = True\<rparr>, \<lparr>boff = 0x4000, bsize = CarveBytes - 0x4000, used = False\<rparr>]\<rparr>]"
    using first_page by blast
  obtain s2 where s2: "mm_mmap True mm_set_kernel 0 0x4000 OwnedProt OwnedFlags (-1) 0 s1 = (2 ^ 40 + 0x4000, s2)"
    "fallbackCalls s2 = fallbackCalls s1" using second_page [OF c] by blast
  have z: "mm_ok mm_blank" "carves_mapped (\<lambda>k. k) mm_blank" by (simp_all add: mm_ok_def mm_init_def carves_mapped_def)
  have ok: "mm_ok s1" "carves_mapped (\<lambda>k. k) s1"
    using mmap_fresh_zeroed [OF mm_set_kernel_ok z _ _ _ s1] by auto
  have live: "(2 ^ 40, 0x4000) \<in> live_maps (carves s1)" unfolding c
    by (auto simp: carve_maps_def intro!: exI [of _ "\<lparr>boff = 0, bsize = 0x4000, used = True\<rparr>"])
  from mmap_fresh_zeroed [OF mm_set_kernel_ok ok _ _ _ s2] live s1(1) s2(1) show ?thesis by force
qed

end
