(* ===== verification/Mmap_Threads.thy ===== *)
theory Mmap_Threads
  imports Mmap_Kernel
begin

text \<open>
  Any number of threads at the interposer of \<open>src/orbis_mmap.cpp\<close>: each call counts itself, passes
  the spin lock, does its work on the table, releases the lock, and clears a new block outside it,
  while other threads map, unmap, advise, write into their blocks and hand them on.
\<close>

section \<open>The spin lock\<close>

definition lock_ok :: "lock_state \<Rightarrow> bool" where
  "lock_ok l \<longleftrightarrow> (\<forall>t u. pc l t = Holding \<and> pc l u = Holding \<longrightarrow> t = u) \<and> (lockFlag l \<longleftrightarrow> (\<exists>t. pc l t = Holding))"

lemma lock_step_other: "lock_step t l l' \<Longrightarrow> u \<noteq> t \<Longrightarrow> pc l' u = pc l u"
  by (induction rule: lock_step.induct) simp_all

lemma lock_step_own:
  "lock_step t l l' \<Longrightarrow>
   (pc l t = Outside \<longrightarrow> pc l' t = Spinning 0) \<and> (pc l t = Holding \<longrightarrow> pc l' t = Outside) \<and>
   (pc l t \<noteq> Outside \<and> pc l t \<noteq> Holding \<longrightarrow> pc l' t \<noteq> Outside)"
  by (induction rule: lock_step.induct) simp_all

lemma lock_step_ok: "lock_step t l l' \<Longrightarrow> lock_ok l \<Longrightarrow> lock_ok l'"
proof (induction rule: lock_step.induct)
  case release
  then have "pc l u \<noteq> Holding" if "u \<noteq> t" for u using that unfolding lock_ok_def by blast
  then show ?case by (auto simp: lock_ok_def)
qed (auto simp: lock_ok_def split: if_splits; metis lock_pc.distinct)+

section \<open>The threads\<close>

datatype mm_request = Q_map nat | Q_unmap nat nat | Q_advise nat nat int

text \<open>
  What is left of a call behind the lock: nothing, the clearing of a block (its address, the
  length asked for and the bytes cleared so far), or the platform's own call.
\<close>

datatype mm_next = N_return | N_clear nat nat nat | N_map nat | N_unmap nat nat | N_advise nat nat int

datatype mm_task = T_idle | T_wait mm_request | T_worked mm_next | T_after mm_next

record 'k mm_sys =
  mmsh :: "'k mm_state"
  mmlk :: lock_state
  mmtask :: "nat \<Rightarrow> mm_task"
  mmown :: "nat \<Rightarrow> (nat \<times> nat) set"

definition mm_start :: "'k mm_state \<Rightarrow> 'k mm_sys" where
  "mm_start s = \<lparr>mmsh = s, mmlk = lock_init, mmtask = (\<lambda>_. T_idle), mmown = (\<lambda>_. {})\<rparr>"

definition mmgo :: "nat \<Rightarrow> mm_task \<Rightarrow> 'k mm_sys \<Rightarrow> 'k mm_sys" where
  "mmgo t p c = c\<lparr>mmtask := (mmtask c)(t := p)\<rparr>"

text \<open>What a call does in front of the lock.\<close>

fun mm_enter :: "mm_request \<Rightarrow> 'k mm_state \<Rightarrow> 'k mm_state" where
  "mm_enter (Q_map len) s =
     (let s1 = banner True (s\<lparr>nMmap := add64 (nMmap s) 1\<rparr>) in s1\<lparr>nMmapCarved := add64 (nMmapCarved s1) 1\<rparr>)"
| "mm_enter (Q_unmap p n) s = s\<lparr>nMunmap := add64 (nMunmap s) 1\<rparr>"
| "mm_enter (Q_advise p n adv) s = s"

text \<open>
  Callers ask for some bytes, away from the top of \<open>size_t\<close>, and give back only mappings they
  hold. The mappings the platform serves itself are part of the rest of the process.
\<close>

fun mm_request_ok :: "(nat \<times> nat) set \<Rightarrow> mm_request \<Rightarrow> bool" where
  "mm_request_ok B (Q_map len) \<longleftrightarrow> 0 < len \<and> len < 2 ^ 62"
| "mm_request_ok B (Q_unmap p n) \<longleftrightarrow> (p, alignUp n Page) \<in> B"
| "mm_request_ok B (Q_advise p n adv) \<longleftrightarrow> True"

text \<open>
  One step of thread \<open>t\<close>. The steps at the lock are those of \<open>lock_step\<close>; the work on the table is one
  step of the thread that holds it, and what follows the lock goes on among the steps of the others.
  A caller writes into its blocks and hands them on between its calls, and the rest of the process
  may change the kernel's state but does not unmap a carve-out.
\<close>

inductive mm_step :: "'k mm_kernel \<Rightarrow> ('k \<Rightarrow> nat set) \<Rightarrow> nat \<Rightarrow> 'k mm_sys \<Rightarrow> 'k mm_sys \<Rightarrow> bool"
  for K mapped t c where
  call: "mmtask c t = T_idle \<Longrightarrow> mm_request_ok (mmown c t) r \<Longrightarrow> lock_step t (mmlk c) l \<Longrightarrow>
    mm_step K mapped t c ((mmgo t (T_wait r) c)\<lparr>mmsh := mm_enter r (mmsh c), mmlk := l\<rparr>)"
| contend: "mmtask c t = T_wait r \<Longrightarrow> pc (mmlk c) t \<noteq> Holding \<Longrightarrow> lock_step t (mmlk c) l \<Longrightarrow>
    mm_step K mapped t c (c\<lparr>mmlk := l\<rparr>)"
| map_work: "mmtask c t = T_wait (Q_map len) \<Longrightarrow> pc (mmlk c) t = Holding \<Longrightarrow>
    map_locked K (alignUp len Page) (mmsh c) = (Some out, s') \<Longrightarrow>
    mm_step K mapped t c ((mmgo t (T_worked (N_clear out len 0)) c)\<lparr>mmsh := s',
      mmown := (mmown c)(t := insert (out, alignUp len Page) (mmown c t))\<rparr>)"
| map_none: "mmtask c t = T_wait (Q_map len) \<Longrightarrow> pc (mmlk c) t = Holding \<Longrightarrow>
    map_locked K (alignUp len Page) (mmsh c) = (None, s') \<Longrightarrow>
    mm_step K mapped t c ((mmgo t (T_worked (N_map len)) c)\<lparr>mmsh := s'\<rparr>)"
| unmap_work: "mmtask c t = T_wait (Q_unmap p n) \<Longrightarrow> pc (mmlk c) t = Holding \<Longrightarrow>
    unmap_locked p n (mmsh c) = (r, s') \<Longrightarrow>
    mm_step K mapped t c ((mmgo t (T_worked (if r = None then N_unmap p n else N_return)) c)\<lparr>mmsh := s',
      mmown := (mmown c)(t := mmown c t - {(p, alignUp n Page)})\<rparr>)"
| advise_work: "mmtask c t = T_wait (Q_advise p n adv) \<Longrightarrow> pc (mmlk c) t = Holding \<Longrightarrow>
    mm_step K mapped t c
      (mmgo t (T_worked (if carveOfLocked p (carves (mmsh c)) = None then N_advise p n adv else N_return)) c)"
| leave: "mmtask c t = T_worked nx \<Longrightarrow> lock_step t (mmlk c) l \<Longrightarrow>
    mm_step K mapped t c ((mmgo t (T_after nx) c)\<lparr>mmlk := l\<rparr>)"
| clear_byte: "mmtask c t = T_after (N_clear out len i) \<Longrightarrow> i < alignUp len Page \<Longrightarrow>
    mm_step K mapped t c ((mmgo t (T_after (N_clear out len (Suc i))) c)\<lparr>mmsh :=
      (mmsh c)\<lparr>mmem := (mmem (mmsh c))(out + i := 0)\<rparr>\<rparr>)"
| cleared: "mmtask c t = T_after (N_clear out len (alignUp len Page)) \<Longrightarrow> mm_step K mapped t c (mmgo t T_idle c)"
| finish: "mmtask c t = T_after N_return \<Longrightarrow> mm_step K mapped t c (mmgo t T_idle c)"
| platform_map: "mmtask c t = T_after (N_map len) \<Longrightarrow>
    os_mmap K 0 len OwnedProt OwnedFlags (-1) 0 (mkst (mmsh c)) = (r, k) \<Longrightarrow>
    mm_step K mapped t c ((mmgo t T_idle c)\<lparr>mmsh := (mmsh c)\<lparr>mkst := k\<rparr>\<rparr>)"
| platform_unmap: "mmtask c t = T_after (N_unmap p n) \<Longrightarrow> os_munmap K p n (mkst (mmsh c)) = (r, k) \<Longrightarrow>
    mm_step K mapped t c ((mmgo t T_idle c)\<lparr>mmsh :=
      (mmsh c)\<lparr>nMunmapFell := add64 (nMunmapFell (mmsh c)) 1, mkst := k\<rparr>\<rparr>)"
| platform_advise: "mmtask c t = T_after (N_advise p n adv) \<Longrightarrow> os_madvise K p n adv (mkst (mmsh c)) = (r, k) \<Longrightarrow>
    mm_step K mapped t c ((mmgo t T_idle c)\<lparr>mmsh := (mmsh c)\<lparr>mkst := k\<rparr>\<rparr>)"
| store: "mmtask c t = T_idle \<Longrightarrow> (p, n) \<in> mmown c t \<Longrightarrow> p \<le> x \<Longrightarrow> x + length bs \<le> p + n \<Longrightarrow>
    mm_step K mapped t c (c\<lparr>mmsh := (mmsh c)\<lparr>mmem := mem_write x bs (mmem (mmsh c))\<rparr>\<rparr>)"
| hand_over: "mmtask c t = T_idle \<Longrightarrow> b \<in> mmown c t \<Longrightarrow> u \<noteq> t \<Longrightarrow>
    mm_step K mapped t c (c\<lparr>mmown := (mmown c)(t := mmown c t - {b}, u := insert b (mmown c u))\<rparr>)"
| elsewhere: "carves_mapped mapped ((mmsh c)\<lparr>mkst := k\<rparr>) \<Longrightarrow>
    mm_step K mapped t c (c\<lparr>mmsh := (mmsh c)\<lparr>mkst := k\<rparr>\<rparr>)"

inductive mm_run :: "'k mm_kernel \<Rightarrow> ('k \<Rightarrow> nat set) \<Rightarrow> 'k mm_sys \<Rightarrow> 'k mm_sys \<Rightarrow> bool"
  for K mapped c0 where
  none_yet: "mm_run K mapped c0 c0"
| one_more: "mm_run K mapped c0 c \<Longrightarrow> mm_step K mapped t c c' \<Longrightarrow> mm_run K mapped c0 c'"

section \<open>The invariant\<close>

text \<open>A block being cleared is held by its thread, and clear as far as the count says.\<close>

fun next_ok :: "memory \<Rightarrow> (nat \<times> nat) set \<Rightarrow> mm_next \<Rightarrow> bool" where
  "next_ok m B (N_clear out len i) \<longleftrightarrow> (out, alignUp len Page) \<in> B \<and> i \<le> alignUp len Page \<and>
     (\<forall>j < i. m (out + j) = 0) \<and> 0 < len \<and> len < 2 ^ 62"
| "next_ok m B (N_unmap p n) \<longleftrightarrow> False"
| "next_ok m B nx \<longleftrightarrow> True"

fun thread_ok :: "memory \<Rightarrow> (nat \<times> nat) set \<Rightarrow> lock_pc \<Rightarrow> mm_task \<Rightarrow> bool" where
  "thread_ok m B p T_idle \<longleftrightarrow> p = Outside"
| "thread_ok m B p (T_wait r) \<longleftrightarrow> p \<noteq> Outside \<and> mm_request_ok B r"
| "thread_ok m B p (T_worked nx) \<longleftrightarrow> p = Holding \<and> next_ok m B nx"
| "thread_ok m B p (T_after nx) \<longleftrightarrow> p = Outside \<and> next_ok m B nx"

definition mm_table :: "('k \<Rightarrow> nat set) \<Rightarrow> 'k mm_state \<Rightarrow> (nat \<times> nat) set \<Rightarrow> bool" where
  "mm_table mapped s W \<longleftrightarrow> mm_ok s \<and> carves_mapped mapped s \<and> live_maps (carves s) = W"

definition mm_inv :: "('k \<Rightarrow> nat set) \<Rightarrow> 'k mm_sys \<Rightarrow> bool" where
  "mm_inv mapped c \<longleftrightarrow> mm_table mapped (mmsh c) (\<Union>t. mmown c t) \<and>
     (\<forall>t u. t \<noteq> u \<longrightarrow> mmown c t \<inter> mmown c u = {}) \<and> lock_ok (mmlk c) \<and>
     (\<forall>t. thread_ok (mmem (mmsh c)) (mmown c t) (pc (mmlk c) t) (mmtask c t))"

text \<open>Memory that agrees on every byte of a set of blocks.\<close>

definition same_on :: "(nat \<times> nat) set \<Rightarrow> memory \<Rightarrow> memory \<Rightarrow> bool" where
  "same_on B m m' \<longleftrightarrow> (\<forall>p n x. (p, n) \<in> B \<and> p \<le> x \<and> x < p + n \<longrightarrow> m' x = m x)"

lemma same_on_refl [simp]: "same_on B m m"
  by (simp add: same_on_def)

text \<open>What a step of \<open>t\<close> leaves of the other threads.\<close>

definition others_kept :: "nat \<Rightarrow> 'k mm_sys \<Rightarrow> 'k mm_sys \<Rightarrow> bool" where
  "others_kept t c c' \<longleftrightarrow> (\<forall>u. u \<noteq> t \<longrightarrow> mmtask c' u = mmtask c u \<and> pc (mmlk c') u = pc (mmlk c) u \<and>
     mmown c u \<subseteq> mmown c' u \<and> same_on (mmown c u) (mmem (mmsh c)) (mmem (mmsh c')))"

lemma same_onD: "same_on B m m' \<Longrightarrow> (p, n) \<in> B \<Longrightarrow> i < n \<Longrightarrow> m' (p + i) = m (p + i)"
  unfolding same_on_def using le_add1 nat_add_left_cancel_less by blast

lemma next_ok_mono: "next_ok m B nx \<Longrightarrow> B \<subseteq> B' \<Longrightarrow> same_on B m m' \<Longrightarrow> next_ok m' B' nx"
proof (cases nx)
  case (N_clear out len i)
  assume n: "next_ok m B nx" "B \<subseteq> B'" "same_on B m m'"
  then have "m' (out + j) = 0" if "j < i" for j using same_onD [OF n(3), of out "alignUp len Page" j] that N_clear by simp
  with n N_clear show ?thesis by auto
qed simp_all

lemma request_ok_mono: "mm_request_ok B r \<Longrightarrow> B \<subseteq> B' \<Longrightarrow> mm_request_ok B' r"
  by (cases r) auto

lemma thread_ok_mono: "thread_ok m B p T \<Longrightarrow> B \<subseteq> B' \<Longrightarrow> same_on B m m' \<Longrightarrow> thread_ok m' B' p T"
  by (cases T) (auto intro: next_ok_mono request_ok_mono)

lemma mmgo_simps [simp]:
  "mmsh (mmgo t p c) = mmsh c" "mmlk (mmgo t p c) = mmlk c" "mmown (mmgo t p c) = mmown c"
  "mmtask (mmgo t p c) = (mmtask c)(t := p)"
  by (simp_all add: mmgo_def)

lemma mm_invD:
  assumes "mm_inv mapped c"
  shows "mm_ok (mmsh c)" "carves_mapped mapped (mmsh c)" "live_maps (carves (mmsh c)) = (\<Union>t. mmown c t)"
    "t \<noteq> u \<Longrightarrow> mmown c t \<inter> mmown c u = {}" "lock_ok (mmlk c)"
    "thread_ok (mmem (mmsh c)) (mmown c t) (pc (mmlk c) t) (mmtask c t)"
  using assms by (simp_all add: mm_inv_def mm_table_def)

lemma inv_step:
  assumes "mm_inv mapped c" "others_kept t c c'" "mm_table mapped (mmsh c') (\<Union>t. mmown c' t)"
    and "\<And>u v. u \<noteq> v \<Longrightarrow> mmown c' u \<inter> mmown c' v = {}" "lock_ok (mmlk c')"
    and "thread_ok (mmem (mmsh c')) (mmown c' t) (pc (mmlk c') t) (mmtask c' t)"
  shows "mm_inv mapped c'"
proof -
  have "thread_ok (mmem (mmsh c')) (mmown c' u) (pc (mmlk c') u) (mmtask c' u)" for u
  proof (cases "u = t")
    case False
    then have k: "mmtask c' u = mmtask c u" "pc (mmlk c') u = pc (mmlk c) u" "mmown c u \<subseteq> mmown c' u"
      "same_on (mmown c u) (mmem (mmsh c)) (mmem (mmsh c'))"
      using assms(2) unfolding others_kept_def by blast+
    show ?thesis using thread_ok_mono [OF mm_invD(6) [OF assms(1)] k(3,4)] k(1,2) by simp
  qed (use assms(6) in simp)
  with assms show ?thesis by (simp add: mm_inv_def)
qed

section \<open>Steps\<close>

fun writes :: "mm_task \<Rightarrow> bool" where
  "writes T_idle = True"
| "writes (T_after (N_clear out len i)) = True"
| "writes T = False"

definition step_good :: "('k \<Rightarrow> nat set) \<Rightarrow> nat \<Rightarrow> 'k mm_sys \<Rightarrow> 'k mm_sys \<Rightarrow> bool" where
  "step_good mapped t c c' \<longleftrightarrow> mm_inv mapped c' \<and> others_kept t c c' \<and>
     (\<not> writes (mmtask c t) \<longrightarrow> mmem (mmsh c') = mmem (mmsh c))"

text \<open>Steps that leave the table, the memory and the held blocks alone.\<close>

lemma good_move:
  assumes i: "mm_inv mapped c" and same: "mmown c' = mmown c" "mmem (mmsh c') = mmem (mmsh c)"
    and t: "mm_table mapped (mmsh c') (live_maps (carves (mmsh c)))"
    and o: "\<And>u. u \<noteq> t \<Longrightarrow> mmtask c' u = mmtask c u" "\<And>u. u \<noteq> t \<Longrightarrow> pc (mmlk c') u = pc (mmlk c) u"
    and l: "lock_ok (mmlk c')" and own: "thread_ok (mmem (mmsh c)) (mmown c t) (pc (mmlk c') t) (mmtask c' t)"
  shows "step_good mapped t c c'"
proof -
  have "others_kept t c c'" using o same by (simp add: others_kept_def)
  moreover have "mm_inv mapped c'"
    by (rule inv_step [OF i \<open>others_kept t c c'\<close>]) (use t same l own mm_invD(3,4) [OF i] in auto)
  ultimately show ?thesis using same by (simp add: step_good_def)
qed

lemma table_same:
  "mm_inv mapped c \<Longrightarrow> mm_table mapped (mmsh c) (live_maps (carves (mmsh c)))"
  by (simp add: mm_inv_def mm_table_def)

lemma enter_same: "mm_table mapped (mm_enter r s) W = mm_table mapped s W" "mmem (mm_enter r s) = mmem s"
  by (cases r; auto simp: mm_table_def mm_ok_def carves_mapped_def banner_def mm_say_def Let_def)+

lemma good_locking:
  assumes i: "mm_inv mapped c" and l: "lock_step t (mmlk c) l"
    and T: "thread_ok (mmem (mmsh c)) (mmown c t) (pc l t) T"
  shows "step_good mapped t c ((mmgo t T c)\<lparr>mmlk := l\<rparr>)"
    and "step_good mapped t c ((mmgo t T c)\<lparr>mmsh := mm_enter r (mmsh c), mmlk := l\<rparr>)"
  by (rule good_move [OF i]; use T lock_step_other [OF l] lock_step_ok [OF l mm_invD(5) [OF i]] table_same [OF i]
      in \<open>simp add: enter_same\<close>)+

text \<open>Behind the lock, and on the table.\<close>

lemma good_task:
  assumes i: "mm_inv mapped c" and T: "thread_ok (mmem (mmsh c)) (mmown c t) (pc (mmlk c) t) T"
    and s: "mm_table mapped s' (live_maps (carves (mmsh c)))" "mmem s' = mmem (mmsh c)"
  shows "step_good mapped t c ((mmgo t T c)\<lparr>mmsh := s'\<rparr>)"
  by (rule good_move [OF i]) (use T s mm_invD(5) [OF i] in simp_all)

lemma good_map:
  assumes K: "mm_kernel_ok K mapped" and i: "mm_inv mapped c" and pc: "mmtask c t = T_wait (Q_map len)" "pc (mmlk c) t = Holding"
    and w: "map_locked K (alignUp len Page) (mmsh c) = (Some out, s')"
  defines "c' \<equiv> (mmgo t (T_worked (N_clear out len 0)) c)\<lparr>mmsh := s',
      mmown := (mmown c)(t := insert (out, alignUp len Page) (mmown c t))\<rparr>"
  shows "step_good mapped t c c'"
proof -
  have len: "0 < len" "len < 2 ^ 62" using mm_invD(6) [OF i, of t] pc by auto
  have a: "0 < alignUp len Page" "alignUp len Page < 2 ^ 63" "Page dvd alignUp len Page"
    using alignUp_bounds [OF len] len by (auto simp: Page_def)
  note e = map_locked_ok [OF K mm_invD(1,2) [OF i] a w]
  have m: "mmem s' = mmem (mmsh c)" using e by simp
  have new: "(out, alignUp len Page) \<notin> mmown c u" for u
    using e a(1) mm_invD(3) [OF i] by (force simp: apart_def)
  have "others_kept t c c'" using m by (auto simp: others_kept_def c'_def)
  moreover have "mm_inv mapped c'"
  proof (rule inv_step [OF i \<open>others_kept t c c'\<close>])
    show "mm_table mapped (mmsh c') (\<Union>u. mmown c' u)" using e mm_invD(3) [OF i] by (auto simp: mm_table_def c'_def)
    show "mmown c' u \<inter> mmown c' v = {}" if "u \<noteq> v" for u v
      using mm_invD(4) [OF i that] new that by (auto simp: c'_def)
    show "lock_ok (mmlk c')" using mm_invD(5) [OF i] by (simp add: c'_def)
    show "thread_ok (mmem (mmsh c')) (mmown c' t) (pc (mmlk c') t) (mmtask c' t)" using pc len by (simp add: c'_def)
  qed
  ultimately show ?thesis using m by (simp add: step_good_def c'_def)
qed

lemma good_unmap:
  assumes i: "mm_inv mapped c" and pc: "mmtask c t = T_wait (Q_unmap p n)" "pc (mmlk c) t = Holding"
    and w: "unmap_locked p n (mmsh c) = (r, s')"
  defines "c' \<equiv> (mmgo t (T_worked (if r = None then N_unmap p n else N_return)) c)\<lparr>mmsh := s',
      mmown := (mmown c)(t := mmown c t - {(p, alignUp n Page)})\<rparr>"
  shows "step_good mapped t c c'"
proof -
  have b: "(p, alignUp n Page) \<in> mmown c t" using mm_invD(6) [OF i, of t] pc by simp
  then have live: "(p, alignUp n Page) \<in> live_maps (carves (mmsh c))" using mm_invD(3) [OF i] by auto
  note e = unmap_locked_ok [OF mm_invD(1,2) [OF i] live w]
  have m: "mmem s' = mmem (mmsh c)" using e by simp
  have notin: "(p, alignUp n Page) \<notin> mmown c u" if "u \<noteq> t" for u using mm_invD(4) [OF i that] b by blast
  have "others_kept t c c'" using m by (auto simp: others_kept_def c'_def)
  moreover have "mm_inv mapped c'"
  proof (rule inv_step [OF i \<open>others_kept t c c'\<close>])
    have "(\<Union>u. mmown c' u) = (\<Union>u. mmown c u) - {(p, alignUp n Page)}"
      using notin by (fastforce simp: c'_def split: if_splits)
    then show "mm_table mapped (mmsh c') (\<Union>u. mmown c' u)" using e mm_invD(3) [OF i] by (simp add: mm_table_def c'_def)
    show "mmown c' u \<inter> mmown c' v = {}" if "u \<noteq> v" for u v
      using mm_invD(4) [OF i that] by (auto simp: c'_def)
    show "lock_ok (mmlk c')" using mm_invD(5) [OF i] by (simp add: c'_def)
    show "thread_ok (mmem (mmsh c')) (mmown c' t) (pc (mmlk c') t) (mmtask c' t)" using pc e by (simp add: c'_def)
  qed
  ultimately show ?thesis using m by (simp add: step_good_def c'_def)
qed

text \<open>A thread that changes bytes of a block it holds.\<close>

lemma live_apart:
  assumes "table_ok cs" "m \<in> live_maps cs" "m' \<in> live_maps cs" "m \<noteq> m'"
  shows "apart (fst m) (snd m) (fst m') (snd m')"
proof -
  obtain c where c: "c \<in> set cs" "m \<in> carve_maps c" "inside (fst m) (snd m) c" by (rule live_maps_inside [OF assms(1,2)])
  obtain d where d: "d \<in> set cs" "m' \<in> carve_maps d" "inside (fst m') (snd m') d" by (rule live_maps_inside [OF assms(1,3)])
  show ?thesis
  proof (cases "c = d")
    case True
    have t: "tiles 0 (blk c) (csize c)" using assms(1) c(1) by (simp add: table_ok_def one_carve_ok_def carve_ok_def)
    from c(2) d(2) True obtain x y where xy: "x \<in> set (blk c)" "y \<in> set (blk c)" "m = (va c + boff x, bsize x)"
      "m' = (va c + boff y, bsize y)" by (auto simp: carve_maps_def)
    with tiles_apart [OF t xy(1,2)] assms(4) show ?thesis by (auto simp: apart_def)
  next
    case False
    obtain i j where ij: "i < length cs" "j < length cs" "cs ! i = c" "cs ! j = d" using c(1) d(1) by (metis in_set_conv_nth)
    have "i < j \<or> j < i" using ij False by (metis nat_neq_iff)
    then have "carves_apart c d \<or> carves_apart d c"
      using assms(1) ij unfolding table_ok_def using sorted_wrt_nth_less [of carves_apart cs] by blast
    then show ?thesis using c(3) d(3) by (auto simp: apart_def)
  qed
qed

lemma good_write:
  assumes i: "mm_inv mapped c" and b: "(p, n) \<in> mmown c t" and m: "\<And>x. x < p \<or> p + n \<le> x \<Longrightarrow> m x = mmem (mmsh c) x"
    and w: "writes (mmtask c t)" and T: "thread_ok m (mmown c t) (pc (mmlk c) t) T"
  shows "step_good mapped t c ((mmgo t T c)\<lparr>mmsh := (mmsh c)\<lparr>mmem := m\<rparr>\<rparr>)"
proof -
  let ?c = "(mmgo t T c)\<lparr>mmsh := (mmsh c)\<lparr>mmem := m\<rparr>\<rparr>"
  have tb: "table_ok (carves (mmsh c))" using mm_invD(1) [OF i] by (simp add: mm_ok_def)
  have "m x = mmem (mmsh c) x" if u: "u \<noteq> t" and q: "(q, k) \<in> mmown c u" and x: "q \<le> x" "x < q + k" for u q k x
  proof -
    have "(q, k) \<noteq> (p, n)" using mm_invD(4) [OF i u] q b by auto
    then have "apart q k p n"
      using live_apart [OF tb, of "(q, k)" "(p, n)"] b q mm_invD(3) [OF i] by auto
    then show ?thesis using m [of x] x by (auto simp: apart_def)
  qed
  then have "others_kept t c ?c" unfolding others_kept_def same_on_def by simp blast
  moreover have "mm_inv mapped ?c"
    by (rule inv_step [OF i \<open>others_kept t c ?c\<close>])
      (use T mm_invD(1-5) [OF i] in \<open>simp_all add: mm_table_def mm_ok_def carves_mapped_def\<close>)
  ultimately show ?thesis using w by (simp add: step_good_def)
qed

lemma good_hand_over:
  assumes i: "mm_inv mapped c" and b: "b \<in> mmown c t" and pc: "mmtask c t = T_idle" and u: "u \<noteq> t"
  defines "c' \<equiv> c\<lparr>mmown := (mmown c)(t := mmown c t - {b}, u := insert b (mmown c u))\<rparr>"
  shows "step_good mapped t c c'"
proof -
  have "others_kept t c c'" by (auto simp: others_kept_def c'_def)
  moreover have "mm_inv mapped c'"
  proof (rule inv_step [OF i \<open>others_kept t c c'\<close>])
    have notin: "b \<notin> mmown c v" if "v \<noteq> t" for v using mm_invD(4) [OF i that] b by blast
    have "(\<Union>v. mmown c' v) = (\<Union>v. mmown c v)" using b u by (fastforce simp: c'_def split: if_splits)
    then show "mm_table mapped (mmsh c') (\<Union>v. mmown c' v)" using mm_invD(1-3) [OF i] by (simp add: mm_table_def c'_def)
    show "mmown c' v \<inter> mmown c' w = {}" if "v \<noteq> w" for v w
      using mm_invD(4) [OF i that] notin that by (auto simp: c'_def)
    show "lock_ok (mmlk c')" using mm_invD(5) [OF i] by (simp add: c'_def)
    show "thread_ok (mmem (mmsh c')) (mmown c' t) (pc (mmlk c') t) (mmtask c' t)"
      using mm_invD(6) [OF i, of t] pc by (simp add: c'_def)
  qed
  ultimately show ?thesis by (simp add: step_good_def c'_def)
qed

text \<open>A change of the kernel's state that keeps the carve-outs mapped.\<close>

lemma table_kernel:
  assumes "mm_inv mapped c" "mapped (mkst (mmsh c)) \<subseteq> mapped k"
  shows "mm_table mapped ((mmsh c)\<lparr>mkst := k\<rparr>) (live_maps (carves (mmsh c)))"
  using assms(2) mm_invD(1) [OF assms(1)] carves_mapped_mono [OF mm_invD(2) [OF assms(1)], of "(mmsh c)\<lparr>mkst := k\<rparr>"]
  by (simp add: mm_table_def mm_ok_def)

theorem mm_step_good:
  assumes K: "mm_kernel_ok K mapped" and i: "mm_inv mapped c" and s: "mm_step K mapped t c c'"
  shows "step_good mapped t c c'"
  using s
proof cases
  case (call r l)
  have "pc l t \<noteq> Outside" using mm_invD(6) [OF i, of t] call lock_step_own [OF call(4)] by simp
  then show ?thesis using good_locking(2) [OF i call(4)] call by simp
next
  case (contend r l)
  have "mmgo t (T_wait r) c = c" using contend(2) by (simp add: mmgo_def fun_upd_idem)
  moreover have "pc l t \<noteq> Outside" using mm_invD(6) [OF i, of t] contend lock_step_own [OF contend(4)] by simp
  ultimately show ?thesis
    using good_locking(1) [OF i contend(4), of "T_wait r"] contend mm_invD(6) [OF i, of t] by simp
next
  case (map_work len out s')
  then show ?thesis using good_map [OF K i] by simp
next
  case (map_none len s')
  have len: "0 < len" "len < 2 ^ 62" using mm_invD(6) [OF i, of t] map_none by auto
  have a: "0 < alignUp len Page" "alignUp len Page < 2 ^ 63" "Page dvd alignUp len Page"
    using alignUp_bounds [OF len] len by (auto simp: Page_def)
  have "step_good mapped t c ((mmgo t (T_worked (N_map len)) c)\<lparr>mmsh := s'\<rparr>)"
    by (rule good_task [OF i])
      (use map_locked_ok [OF K mm_invD(1,2) [OF i] a map_none(4)] map_none in \<open>auto simp: mm_table_def\<close>)
  then show ?thesis using map_none by simp
next
  case (unmap_work p n r s')
  then show ?thesis using good_unmap [OF i] by simp
next
  case (advise_work p n adv)
  then show ?thesis
    using good_move [OF i, of c' t] table_same [OF i] mm_invD(5) [OF i] by simp
next
  case (leave nx l)
  have "thread_ok (mmem (mmsh c)) (mmown c t) (pc l t) (T_after nx)"
    using mm_invD(6) [OF i, of t] leave lock_step_own [OF leave(3)] by simp
  from good_locking(1) [OF i leave(3) this] leave show ?thesis by simp
next
  case (clear_byte out len j)
  have n: "next_ok (mmem (mmsh c)) (mmown c t) (N_clear out len j)" "pc (mmlk c) t = Outside"
    using mm_invD(6) [OF i, of t] clear_byte by simp_all
  have "next_ok ((mmem (mmsh c))(out + j := 0)) (mmown c t) (N_clear out len (Suc j))"
    using n(1) clear_byte(3) by (auto simp: less_Suc_eq)
  then have T: "thread_ok ((mmem (mmsh c))(out + j := 0)) (mmown c t) (pc (mmlk c) t) (T_after (N_clear out len (Suc j)))"
    using n(2) by simp
  have "(out, alignUp len Page) \<in> mmown c t" using n(1) by simp
  from good_write [OF i this _ _ T] show ?thesis unfolding clear_byte(1) using clear_byte(2,3) by fastforce
next
  case (cleared out len)
  then show ?thesis
    using good_move [OF i, of c' t] table_same [OF i] mm_invD(5) [OF i] mm_invD(6) [OF i, of t] by simp
next
  case finish
  then show ?thesis
    using good_move [OF i, of c' t] table_same [OF i] mm_invD(5) [OF i] mm_invD(6) [OF i, of t] by simp
next
  case (platform_map len r k)
  show ?thesis unfolding platform_map(1)
    by (rule good_task [OF i])
      (use mm_invD(6) [OF i, of t] platform_map table_kernel [OF i mm_kernel_okD(6) [OF K platform_map(3)]] in simp_all)
next
  case (platform_unmap p n r k)
  then show ?thesis using mm_invD(6) [OF i, of t] by simp
next
  case (platform_advise p n adv r k)
  show ?thesis unfolding platform_advise(1)
    by (rule good_task [OF i])
      (use mm_invD(6) [OF i, of t] platform_advise table_kernel [OF i mm_kernel_okD(7) [OF K platform_advise(3)]] in simp_all)
next
  case (store p n x bs)
  have "mmgo t T_idle c = c" using store(2) by (simp add: mmgo_def fun_upd_idem)
  moreover have "mem_write x bs (mmem (mmsh c)) y = mmem (mmsh c) y" if "y < p \<or> p + n \<le> y" for y
    using that store(4,5) by (auto simp: mem_write_def)
  ultimately show ?thesis
    using good_write [OF i store(3), of "mem_write x bs (mmem (mmsh c))" T_idle] store(1,2) mm_invD(6) [OF i, of t] by simp
next
  case (hand_over b u)
  then show ?thesis using good_hand_over [OF i] by simp
next
  case (elsewhere k)
  then show ?thesis
    using good_move [OF i, of c' t] mm_invD(1,5) [OF i] mm_invD(6) [OF i, of t] by (simp add: mm_table_def mm_ok_def)
qed

definition mm_fresh_start :: "('k \<Rightarrow> nat set) \<Rightarrow> 'k mm_state \<Rightarrow> bool" where
  "mm_fresh_start mapped s \<longleftrightarrow> mm_ok s \<and> carves_mapped mapped s \<and> live_maps (carves s) = {}"

lemma mm_run_inv:
  assumes "mm_kernel_ok K mapped" "mm_fresh_start mapped s" "mm_run K mapped (mm_start s) c"
  shows "mm_inv mapped c"
  using assms(3)
proof induction
  case none_yet
  then show ?case using assms(2)
    by (simp add: mm_inv_def mm_table_def mm_fresh_start_def mm_start_def lock_init_def lock_ok_def)
next
  case (one_more c t c')
  then show ?case using mm_step_good [OF assms(1)] by (auto simp: step_good_def)
qed

section \<open>What every interleaving keeps\<close>

text \<open>
  C27. However the calls of any number of threads interleave, at most one of them is inside the
  lock, the mappings the threads hold are exactly the live blocks of the carve-out table, no two
  of them overlap, and the table stays well formed (tiling, coalescing, the cap and the counters).
\<close>

theorem mmap_threads_isolated:
  assumes "mm_kernel_ok K mapped" "mm_fresh_start mapped s" "mm_run K mapped (mm_start s) c"
  shows "(pc (mmlk c) t = Holding \<and> pc (mmlk c) u = Holding \<longrightarrow> t = u) \<and> mm_ok (mmsh c) \<and>
    live_maps (carves (mmsh c)) = (\<Union>v. mmown c v) \<and>
    (m \<in> mmown c t \<and> m' \<in> mmown c u \<and> (t \<noteq> u \<or> m \<noteq> m') \<longrightarrow> apart (fst m) (snd m) (fst m') (snd m'))"
proof -
  note i = mm_run_inv [OF assms]
  have tb: "table_ok (carves (mmsh c))" using mm_invD(1) [OF i] by (simp add: mm_ok_def)
  have "apart (fst m) (snd m) (fst m') (snd m')" if h: "m \<in> mmown c t" "m' \<in> mmown c u" "t \<noteq> u \<or> m \<noteq> m'"
    using live_apart [OF tb, of m m'] mm_invD(3) [OF i] mm_invD(4) [OF i, of t u] h by blast
  then show ?thesis using mm_invD(1,3,5) [OF i] by (auto simp: lock_ok_def)
qed

lemma clear_ends:
  assumes "mm_step K mapped t c c'" "mmtask c t = T_after (N_clear out len i)" "mmtask c' t = T_idle"
  shows "i = alignUp len Page \<and> mmsh c' = mmsh c \<and> mmown c' = mmown c"
  using assms(1)
proof cases
  case (cleared out' len')
  then show ?thesis using assms(2) by simp
next
  case (elsewhere k)
  then have "mmtask c' t = mmtask c t" by simp
  then show ?thesis using assms(2,3) by simp
next
  case (clear_byte out' len' j)
  then have "mmtask c' t = T_after (N_clear out' len' (Suc j))" by simp
  then show ?thesis using assms(3) by simp
next
  case (contend r l)
  then show ?thesis using assms(2) by simp
qed (use assms(2,3) in \<open>simp_all only: mm_task.distinct mm_task.inject mm_next.distinct mmgo_simps fun_upd_same mm_sys.simps\<close>)

text \<open>
  C28. In every interleaving the block a call returns is held by its thread, at least as long as
  asked for and zero throughout, although it is cleared outside the lock; and no step of another
  thread, and no step of the holder but its own stores and clearing, changes a byte of a held block.
\<close>

theorem mmap_block_zero_and_kept:
  assumes "mm_kernel_ok K mapped" "mm_fresh_start mapped s" "mm_run K mapped (mm_start s) c" "mm_step K mapped t c c'"
  shows "(mmtask c t = T_after (N_clear out len i) \<and> mmtask c' t = T_idle \<longrightarrow>
      (out, alignUp len Page) \<in> mmown c' t \<and> len \<le> alignUp len Page \<and>
      mem_read out (alignUp len Page) (mmem (mmsh c')) = replicate (alignUp len Page) 0) \<and>
    ((p, n) \<in> mmown c u \<and> p \<le> x \<and> x < p + n \<and> (u \<noteq> t \<or> \<not> writes (mmtask c t)) \<longrightarrow>
      mmem (mmsh c') x = mmem (mmsh c) x)"
proof -
  note i = mm_run_inv [OF assms(1-3)]
  have "(out, alignUp len Page) \<in> mmown c' t \<and> len \<le> alignUp len Page \<and>
      mem_read out (alignUp len Page) (mmem (mmsh c')) = replicate (alignUp len Page) 0"
    if r: "mmtask c t = T_after (N_clear out len i)" "mmtask c' t = T_idle"
    using clear_ends [OF assms(4) r] mm_invD(6) [OF i, of t] r(1) alignUp_bounds [of len]
    by (auto simp: mem_read_def intro!: nth_equalityI)
  moreover have "mmem (mmsh c') x = mmem (mmsh c) x"
    if "(p, n) \<in> mmown c u" "p \<le> x" "x < p + n" "u \<noteq> t \<or> \<not> writes (mmtask c t)"
    using mm_step_good [OF assms(1) i assms(4)] that unfolding step_good_def others_kept_def same_on_def by metis
  ultimately show ?thesis by blast
qed

section \<open>One thread undisturbed\<close>

lemma run_clear:
  "mm_run K mapped c0 c \<Longrightarrow> mmtask c t = T_after (N_clear out len i) \<Longrightarrow> i \<le> alignUp len Page \<Longrightarrow>
   mm_run K mapped c0 ((mmgo t (T_after (N_clear out len (alignUp len Page))) c)\<lparr>mmsh :=
     (mmsh c)\<lparr>mmem := mem_write (out + i) (replicate (alignUp len Page - i) 0) (mmem (mmsh c))\<rparr>\<rparr>)"
proof (induction "alignUp len Page - i" arbitrary: i c)
  case 0
  then have w: "alignUp len Page = i" by simp
  have "mem_write (out + i) (replicate (i - i) 0) (mmem (mmsh c)) = mmem (mmsh c)" by (simp add: mem_write_def fun_eq_iff)
  moreover have "mmgo t (T_after (N_clear out len i)) c = c" using 0(3) by (simp add: mmgo_def fun_upd_idem)
  ultimately show ?case unfolding w using 0(2) by simp
next
  case (Suc k)
  define c1 where "c1 = (mmgo t (T_after (N_clear out len (Suc i))) c)\<lparr>mmsh :=
      (mmsh c)\<lparr>mmem := (mmem (mmsh c))(out + i := 0)\<rparr>\<rparr>"
  have lt: "i < alignUp len Page" using Suc by simp
  have r: "mm_run K mapped c0 c1" unfolding c1_def
    by (rule mm_run.one_more [OF Suc(3) mm_step.clear_byte [OF Suc(4) lt]])
  have m: "mem_write (Suc (out + i)) (replicate (alignUp len Page - Suc i) 0) ((mmem (mmsh c))(out + i := 0)) =
      mem_write (out + i) (replicate (alignUp len Page - i) 0) (mmem (mmsh c))"
    using lt by (auto simp: mem_write_def fun_eq_iff)
  have "k = alignUp len Page - Suc i" using Suc(2) lt by simp
  from Suc(1) [OF this r] lt show ?case by (simp add: c1_def m mmgo_def)
qed

text \<open>
  A call that no other thread interrupts: the memory and the table end as the sequential
  \<open>__mmap\<close> leaves them.
\<close>

lemma alone_until_cleared:
  assumes r: "mm_run K mapped c0 c" and pc: "mmtask c t = T_idle" "mmlk c = lock_init" and len: "0 < len" "len < 2 ^ 62"
    and m: "map_locked K (alignUp len Page) (mm_enter (Q_map len) (mmsh c)) = (Some out, s1)"
  shows "\<exists>c'. mm_run K mapped c0 c' \<and> mmtask c' = (mmtask c)(t := T_after (N_clear out len (alignUp len Page))) \<and>
    mmlk c' = lock_init \<and> mmown c' = (mmown c)(t := insert (out, alignUp len Page) (mmown c t)) \<and>
    mm_mmap True K 0 len OwnedProt OwnedFlags (-1) 0 (mmsh c) = (out, mmsh c') \<and> carves (mmsh c') = carves s1"
proof -
  define l1 where "l1 = lock_init\<lparr>pc := (pc lock_init)(t := Spinning 0)\<rparr>"
  define l2 where "l2 = l1\<lparr>lockFlag := True, pc := (pc l1)(t := Holding)\<rparr>"
  define c1 where "c1 = (mmgo t (T_wait (Q_map len)) c)\<lparr>mmsh := mm_enter (Q_map len) (mmsh c), mmlk := l1\<rparr>"
  define c2 where "c2 = c1\<lparr>mmlk := l2\<rparr>"
  define c3 where "c3 = (mmgo t (T_worked (N_clear out len 0)) c2)\<lparr>mmsh := s1,
      mmown := (mmown c2)(t := insert (out, alignUp len Page) (mmown c2 t))\<rparr>"
  define c4 where "c4 = (mmgo t (T_after (N_clear out len 0)) c3)\<lparr>mmlk := l2\<lparr>lockFlag := False, pc := (pc l2)(t := Outside)\<rparr>\<rparr>"
  have "lock_step t lock_init l1" unfolding l1_def by (rule lock_step.enter) (simp add: lock_init_def)
  then have "mm_step K mapped t c c1" unfolding c1_def by (intro mm_step.call) (use pc len in simp_all)
  moreover have "lock_step t l1 l2" unfolding l2_def by (rule lock_step.acquire [of _ _ 0]) (simp_all add: l1_def lock_init_def)
  then have "mm_step K mapped t c1 c2" unfolding c2_def
    by (intro mm_step.contend [of _ _ "Q_map len"]) (simp_all add: c1_def l1_def)
  moreover have "mm_step K mapped t c2 c3" unfolding c3_def
    by (rule mm_step.map_work) (use m in \<open>simp_all add: c2_def c1_def l2_def\<close>)
  moreover have rel: "lock_step t l2 (l2\<lparr>lockFlag := False, pc := (pc l2)(t := Outside)\<rparr>)"
    by (rule lock_step.release) (simp add: l2_def)
  then have "mm_step K mapped t c3 c4" unfolding c4_def
    by (intro mm_step.leave) (simp_all add: c3_def c2_def rel)
  ultimately have r4: "mm_run K mapped c0 c4" using r by (meson mm_run.one_more)
  have l: "mmlk c4 = lock_init" by (simp add: c4_def l2_def l1_def lock_init_def fun_eq_iff)
  have s: "mmsh c4 = s1" "mmown c4 = (mmown c)(t := insert (out, alignUp len Page) (mmown c t))"
    "mmtask c4 = (mmtask c)(t := T_after (N_clear out len 0))"
    by (simp_all add: c4_def c3_def c2_def c1_def)
  from run_clear [OF r4, of t out len 0] s l m show ?thesis
    by (intro exI [of _ "(mmgo t (T_after (N_clear out len (alignUp len Page))) c4)\<lparr>mmsh :=
      (mmsh c4)\<lparr>mmem := mem_write out (replicate (alignUp len Page) 0) (mmem (mmsh c4))\<rparr>\<rparr>"])
      (simp add: mm_mmap_def isOwnedRequest_def mapOwned_def Let_def)
qed

lemma alone:
  assumes r: "mm_run K mapped c0 c" and pc: "mmtask c t = T_idle" "mmlk c = lock_init" and len: "0 < len" "len < 2 ^ 62"
    and m: "map_locked K (alignUp len Page) (mm_enter (Q_map len) (mmsh c)) = (Some out, s1)"
  shows "\<exists>c'. mm_run K mapped c0 c' \<and> mmtask c' = mmtask c \<and> mmlk c' = lock_init \<and>
    mmown c' = (mmown c)(t := insert (out, alignUp len Page) (mmown c t)) \<and>
    mm_mmap True K 0 len OwnedProt OwnedFlags (-1) 0 (mmsh c) = (out, mmsh c') \<and> carves (mmsh c') = carves s1"
proof -
  obtain c1 where c1: "mm_run K mapped c0 c1" "mmtask c1 = (mmtask c)(t := T_after (N_clear out len (alignUp len Page)))"
    "mmlk c1 = lock_init" "mmown c1 = (mmown c)(t := insert (out, alignUp len Page) (mmown c t))"
    "mm_mmap True K 0 len OwnedProt OwnedFlags (-1) 0 (mmsh c) = (out, mmsh c1)" "carves (mmsh c1) = carves s1"
    using alone_until_cleared [OF assms] by blast
  have "mm_step K mapped t c1 (mmgo t T_idle c1)" by (rule mm_step.cleared) (simp add: c1(2))
  from mm_run.one_more [OF c1(1) this] show ?thesis
    by (intro exI [of _ "mmgo t T_idle c1"]) (use c1 pc(1) in \<open>simp add: fun_upd_idem\<close>)
qed

section \<open>Two threads\<close>

text \<open>Two threads that each map one page, from a state with nothing mapped.\<close>

lemma mm_blank_start: "mm_fresh_start (\<lambda>k. k) mm_blank"
  by (simp add: mm_fresh_start_def mm_ok_def mm_init_def carves_mapped_def)

definition first_taken :: carve where
  "first_taken = \<lparr>va = 2 ^ 40, cphys = 0, csize = CarveBytes,
     blk = [\<lparr>boff = 0, bsize = 0x4000, used = True\<rparr>, \<lparr>boff = 0x4000, bsize = CarveBytes - 0x4000, used = False\<rparr>]\<rparr>"

lemma first_map:
  "\<exists>s1. map_locked mm_set_kernel (alignUp 0x4000 Page) (mm_enter (Q_map 0x4000) mm_blank) = (Some (2 ^ 40), s1) \<and>
     carves s1 = [first_taken]"
  by (simp add: map_locked_def map_carved_def banner_def mm_say_def mm_init_def addCarveLocked_def mm_set_kernel_def
      alignUp_def wrap_simps mmap_consts Let_def first_taken_def)

lemma next_map:
  "carves s = [first_taken] \<Longrightarrow>
   \<exists>s1. map_locked mm_set_kernel (alignUp 0x4000 Page) (mm_enter (Q_map 0x4000) s) = (Some (2 ^ 40 + 0x4000), s1)"
  by (simp add: map_locked_def map_carved_def banner_def mm_say_def first_taken_def alignUp_def wrap_simps mmap_consts Let_def)

lemma page_up: "alignUp 0x4000 Page = 0x4000"
  by (simp add: alignUp_def wrap_simps mmap_consts)

lemma two_mm_threads:
  "\<exists>c. mm_run mm_set_kernel (\<lambda>k. k) (mm_start mm_blank) c \<and> mmown c 0 = {(2 ^ 40, 0x4000)} \<and>
     mmown c 1 = {(2 ^ 40 + 0x4000, 0x4000)} \<and> mmtask c 1 = T_after (N_clear (2 ^ 40 + 0x4000) 0x4000 0x4000)"
proof -
  let ?c0 = "mm_start mm_blank"
  have r0: "mm_run mm_set_kernel (\<lambda>k. k) ?c0 ?c0" by (rule mm_run.none_yet)
  have st: "mmtask ?c0 = (\<lambda>_. T_idle)" "mmlk ?c0 = lock_init" "mmsh ?c0 = mm_blank" "mmown ?c0 = (\<lambda>_. {})"
    by (simp_all add: mm_start_def)
  obtain s1 where s1: "map_locked mm_set_kernel (alignUp 0x4000 Page) (mm_enter (Q_map 0x4000) (mmsh ?c0)) = (Some (2 ^ 40), s1)"
    "carves s1 = [first_taken]" using first_map st(3) by auto
  obtain c1 where c1: "mm_run mm_set_kernel (\<lambda>k. k) ?c0 c1" "mmtask c1 = mmtask ?c0" "mmlk c1 = lock_init"
    "mmown c1 = (mmown ?c0)(0 := insert (2 ^ 40, alignUp 0x4000 Page) (mmown ?c0 0))" "carves (mmsh c1) = carves s1"
    using alone [OF r0 _ st(2) _ _ s1(1), of 0] st(1) by auto
  have "carves (mmsh c1) = [first_taken]" using c1(5) s1(2) by simp
  then obtain s2 where s2: "map_locked mm_set_kernel (alignUp 0x4000 Page) (mm_enter (Q_map 0x4000) (mmsh c1)) =
      (Some (2 ^ 40 + 0x4000), s2)" using next_map by blast
  show ?thesis
    using alone_until_cleared [OF c1(1) _ c1(3) _ _ s2, of 1] c1(2,4) st by (auto simp: page_up)
qed

theorem mmap_threads_isolated_witness:
  "\<exists>c. mm_run mm_set_kernel (\<lambda>k. k) (mm_start mm_blank) c \<and> mmown c 0 = {(2 ^ 40, 0x4000)} \<and>
     mmown c 1 = {(2 ^ 40 + 0x4000, 0x4000)} \<and> apart (2 ^ 40) 0x4000 (2 ^ 40 + 0x4000) 0x4000"
proof -
  obtain c where c: "mm_run mm_set_kernel (\<lambda>k. k) (mm_start mm_blank) c" "mmown c 0 = {(2 ^ 40, 0x4000)}"
    "mmown c 1 = {(2 ^ 40 + 0x4000, 0x4000)}" using two_mm_threads by blast
  from mmap_threads_isolated [OF mm_set_kernel_ok mm_blank_start c(1), of 0 1 "(2 ^ 40, 0x4000)" "(2 ^ 40 + 0x4000, 0x4000)"] c
  show ?thesis by auto
qed

theorem mmap_block_zero_and_kept_witness:
  "\<exists>c c'. mm_step mm_set_kernel (\<lambda>k. k) 1 c c' \<and> mmown c' 1 = {(2 ^ 40 + 0x4000, 0x4000)} \<and>
     mem_read (2 ^ 40 + 0x4000) 0x4000 (mmem (mmsh c')) = replicate 0x4000 0 \<and>
     (2 ^ 40, 0x4000) \<in> mmown c 0 \<and> mmem (mmsh c') (2 ^ 40) = mmem (mmsh c) (2 ^ 40)"
proof -
  obtain c where c: "mm_run mm_set_kernel (\<lambda>k. k) (mm_start mm_blank) c" "mmown c 0 = {(2 ^ 40, 0x4000)}"
    "mmown c 1 = {(2 ^ 40 + 0x4000, 0x4000)}" "mmtask c 1 = T_after (N_clear (2 ^ 40 + 0x4000) 0x4000 0x4000)"
    using two_mm_threads by blast
  have s: "mm_step mm_set_kernel (\<lambda>k. k) 1 c (mmgo 1 T_idle c)" by (rule mm_step.cleared) (use c(4) page_up in simp)
  from mmap_block_zero_and_kept [OF mm_set_kernel_ok mm_blank_start c(1) s, of "2 ^ 40 + 0x4000" "0x4000" "0x4000"
      "2 ^ 40" "0x4000" 0 "2 ^ 40"] c s
  show ?thesis by (intro exI [of _ c] exI [of _ "mmgo 1 T_idle c"]) (simp add: page_up)
qed

end
