(* ===== verification/Spec2Isabelle.thy ===== *)
theory Spec2Isabelle
  imports Prelude Utf8_Props WConv_Props WPrintf_Props Jit_Props Mmap_Props Umtx_Props Stat_Props Env_Props Sigev_Props Thread_Props Clock Guard_Props WString_Props
    Endian Backtrace Thread_Atexit Heap App Shims Condvar Crash_Props Crt Umtx_Init Thread_Probe Timer_Probe Strto_Props Clock_Probe Mmap_Pair Mem_Probe TwoWay_Loop Jit_Threads Mmap_Threads
begin

text \<open>
  Verification of the C and C++ code of orbis-compat: the wide-character layer, the memory and
  runtime layer, and the corrections to the SDK's headers that a program on this console links or
  includes.

  \<^bold>\<open>The program.\<close> The library replaces functions of the console's libc and libkernel inside one
  executable. Its parts meet in few places. A program starts in the start files (\<open>crt/\<close>), which walk
  the initialisers; function-local statics there and later go through the guard
  (\<open>src/orbis_cxa_guard.c\<close>). Text goes through \<open>src/orbis_wchar32.c\<close>, whose string conversions,
  number parsers and \<open>vswprintf\<close> all rest on its single-character UTF-8 codec. Memory of musl's
  allocator comes from \<open>src/orbis_mmap.cpp\<close>, code memory from \<open>src/orbis_jit.c\<close>; each takes direct
  memory from the kernel and cuts it up itself. Files are reached through \<open>src/orbis_paths.cpp\<close> and
  \<open>src/orbis_stat.cpp\<close>, which share the anchor of relative paths and the decoding of kernel errors.
  Threads come from \<open>src/orbis_thread.cpp\<close>; they sleep in the futex of \<open>include/sys/umtx.h\<close>, in
  \<open>src/orbis_cv_fix.cpp\<close> and in the timer slots of \<open>src/orbis_sigev.cpp\<close>, all of which convert
  times that \<open>src/orbis_clock.cpp\<close> and the kernel tell them. What goes wrong is said through
  \<open>src/orbis_log.c\<close>, \<open>src/orbis_abort_report.c\<close>, the crash handlers of \<open>src/orbis_boot.cpp\<close> and
  the application's channels in \<open>optional/\<close>; the probes in \<open>src/orbis_mem.cpp\<close>,
  \<open>src/orbis_timer.cpp\<close>, \<open>src/orbis_thread.cpp\<close> and \<open>src/orbis_clock.cpp\<close> measure the rest.

  \<^bold>\<open>Conventions.\<close> A definition has the name of the function it models, and the comment or text above
  it names the function where the names differ. State a file keeps in globals is a record passed in
  and out; what the kernel, libc or the toolchain does is an argument, usually a record of functions
  or of answers. Accesses go through \<open>rd\<close> and \<open>wr\<close> (\<open>Prelude\<close>), which are \<open>None\<close> outside the object,
  so that a model that yields a value has stayed inside its objects. Machine words are \<open>w word\<close> where
  bits or wrap-around matter, else numbers with \<open>add64\<close>, \<open>sub64\<close> and \<open>w64\<close>, which wrap as
  \<open>uint64_t\<close> does; times are integers that every sum brings back into \<open>int64_t\<close> by \<open>s64\<close> (\<open>Time\<close>). Log lines are values that hold the numbers printed; the words around them are left
  out. Threads are step relations: \<open>guard_step\<close>, \<open>umtx_step\<close>, \<open>timer_step\<close>, \<open>jit_step\<close>, \<open>lock_step\<close>
  and \<open>mm_step\<close>, each with one step for what the code does between two points where another thread can get in.

  \<^bold>\<open>The library.\<close> \<open>Prelude\<close> holds names for C types, errnos, objects (locale \<open>c_object\<close>, provided by
  lists), 64-bit arithmetic, byte memories, and the collections \<open>width_simps\<close> and \<open>wrap_simps\<close>;
  \<open>Time\<close> the \<open>timespec\<close> and the clock numbers. \<open>Range_Pool\<close> is the contract of an allocator over a
  set of free bytes (locale \<open>range_pool\<close>): over any history of takes and gives the live blocks are
  disjoint from one another and from the free bytes. The free lists of \<open>orbis_jit.c\<close>
  (interpretation \<open>jit_pool\<close>, \<open>Jit_Facts\<close>) and the block lists of \<open>orbis_mmap.cpp\<close>
  (\<open>carve_pool\<close>, \<open>Mmap_Facts\<close>) both provide it. The owner table of the guard enters its proofs
  through the locale \<open>owner_registry\<close> (\<open>Guard_Facts\<close>).

  \<^bold>\<open>Text.\<close>
  \<^item> \<open>Utf8\<close>: state table, \<open>mbrtowc\<close>, \<open>mbtowc\<close>, \<open>wcrtomb\<close>, the \<open>char16_t\<close> and \<open>char32_t\<close>
    conversions. \<open>Utf8_Spec\<close> is UTF-8 as Unicode defines it; \<open>Utf8_Decode\<close>, \<open>Utf8_Encode\<close>,
    \<open>Utf8_Mbtowc\<close> carry the code to it, \<open>Utf8_Props\<close> states what follows: classification of every
    byte sequence, soundness, restarts, round trips.
  \<^item> \<open>WConv\<close>: the string conversions. \<open>WConv_Facts\<close> has one round of each loop, \<open>WConv_Props\<close> the
    results: exactly the characters consumed are stored, whole characters only, and the round trip.
    Their loops end because an offset grows towards the end of the object or a count falls.
  \<^item> \<open>WString\<close>, \<open>WSearch\<close>, \<open>WWidth_Tables\<close>, \<open>WString_Props\<close>: memory, comparison and search
    functions, tokens, classes and widths, with the two bit tables of \<open>src/orbis_wchar32_width.h\<close>.
    The loops of the two-way search are partial functions, whose \<open>None\<close> is also a loop that does not end.
    \<open>TwoWay_Words\<close> (the theory of words: maximal suffixes, periods, the critical factorization),
    \<open>TwoWay_Suffix\<close> (the maximal-suffix loop computes them), \<open>TwoWay_Search\<close> (the cut and the comparisons)
    and \<open>TwoWay_Loop\<close> show that the search always returns, inside its strings, with the first occurrence.
    The locale \<open>letter_order\<close> states what they need of the comparison of two characters; it is
    interpreted on the code's signed comparison and on its converse (\<open>TwoWay_Search\<close>).
  \<^item> \<open>WPrintf\<close>, \<open>WPrintf_Props\<close>: directive parser, every conversion, truncation, \<open>wcsftime\<close>; the
    narrow \<open>snprintf\<close>, \<open>strftime\<close> and \<open>malloc\<close> are arguments. Each directive is shorter than what is
    left of the format, which ends the loop. \<open>Strto\<close>, \<open>Strto_Props\<close>: the integer parsers over C's
    \<open>strtol\<close> and \<open>strtoul\<close>, which are modelled, read back the decimal text of any integer, cut to its first
    127 characters only where the text is longer and the allocation fails.

  \<^bold>\<open>Memory.\<close>
  \<^item> \<open>Jit\<close> (operations), \<open>Jit_Facts\<close> (free list), \<open>Jit_Search\<close> (address search), \<open>Jit_Arenas\<close> (arena
    table), \<open>Jit_Props\<close>: blocks lie in one arena, apart, off the free list; freeing undoes
    allocating unless all slots of the list are in use; the search is a partial function that is shown
    to return and to find what is there. \<open>Jit_Kernel\<close> states what the kernel's calls are documented to
    do (\<open>kernel_ok\<close>, over the set of mapped addresses, \<open>MAP_FIXED\<close> replacing what is there) and shows that
    taking an arena, on every failing path too, leaves what was mapped alone, and that a block asked for
    near the module lies near it; \<open>Jit_Blocks\<close> follows a set of
    held blocks through every call; \<open>Jit_Threads\<close> puts any number of threads at the spin lock: held
    blocks stay apart and keep their contents in every interleaving. The work of a call is one step
    there, for the kernel too: a mapping made by the rest of the process between the search for an
    address and \<open>MAP_FIXED\<close> at it is not followed. \<open>orbis_jit_release_all\<close>, which gives back blocks that
    are held, is no step of the threads.
  \<^item> \<open>Mmap\<close> (operations and the spin lock), \<open>Mmap_Facts\<close> (blocks tile a carve-out), \<open>Mmap_Carves\<close> (the
    table's invariant \<open>mm_ok\<close>), \<open>Mmap_Props\<close>: \<open>munmap\<close> is exact, the table of 1536 blocks is enough for mappings of at least 240 KiB. \<open>Mmap_Pair\<close>: the blocks in use
    determine the block list, so a mapping and its release give back the very table. \<open>Mmap_Kernel\<close>
    states what the kernel's calls are documented to do (\<open>mm_kernel_ok\<close>) and shows that carve-outs stay
    mapped, and that a fresh mapping is zeroed and apart from all live ones; \<open>Mmap_Threads\<close> puts any number of threads at the three calls: mutual exclusion follows from
    the steps of \<open>lock_step\<close>, which the calls are composed with, the held mappings are exactly the table's
    live blocks, and a block is zero when its call returns although it is cleared byte by byte outside the
    lock while the other threads go on. A caller there gives back only what it holds; wrong releases are
    the matter of \<open>Mmap_Props\<close>.
  \<^item> \<open>Heap\<close>: the census, its watermarks and the \<open>operator new\<close>s of \<open>src/orbis_mem.cpp\<close>. \<open>Mem_Probe\<close>:
    its memory probe, run over the models of the clock and the interposer, and the baseline that
    starts every probe.

  \<^bold>\<open>Files and environment.\<close> \<open>Paths\<close>, \<open>Paths_Props\<close> (the anchor over whole runs of the interposed
  calls), \<open>Stat\<close>, \<open>Stat_Props\<close> (the kernel's layout, errors decoded), \<open>Env\<close>, \<open>Env_Props\<close> (the
  environment files against their specification: the last assignment counts, for the first 64 names).

  \<^bold>\<open>Threads and time.\<close>
  \<^item> \<open>Guard\<close>, \<open>Guard_Facts\<close>, \<open>Guard_Props\<close>: the guard under any number of threads; one initialiser at a
    time, no lost wake-up, recursion is told apart from waiting.
  \<^item> \<open>Umtx\<close>, \<open>Umtx_Init\<close>, \<open>Umtx_Props\<close>: the futex, its start-up probe of the condition variables'
    clock, the deadline conversion, exact while no 64-bit sum of seconds overflows; no sleeper is left
    behind by a wake-up after the store.
  \<^item> \<open>Thread\<close>, \<open>Thread_Props\<close>, \<open>Thread_Probe\<close>: creation, trampoline, stack floor, counters; over any
    sequence of creations and starts each thread runs what was asked. \<open>Thread_Atexit\<close>: destructors of
    a thread's objects; \<open>Condvar\<close>: \<open>std::condition_variable\<close> with its deadline.
  \<^item> \<open>Sigev\<close>, \<open>Sigev_Props\<close>: the timer slots, the threads started for them, and the calls of the
    application's threads and of the callbacks themselves, interleaved at the locks, waits, time-outs and
    joins; a callback is that of a live timer, not before its deadline, as long as no callback deletes its
    own timer. Two reachable states show what the code does not prevent: a callback after a disarm that
    has returned, and a slot given away while its callback runs. \<open>Timer_Probe\<close>: \<open>src/orbis_timer.cpp\<close>.
  \<^item> \<open>Clock\<close>: \<open>clock_gettime\<close> over the readings of the process counter. \<open>Clock_Probe\<close>: the probe, with
    its doubles as 53-bit roundings; its comparisons are exact below \<open>2 ^ 40\<close> microseconds (the
    windows are of some 20000), and a window is found to agree when the counter is what is served. The
    busy window is a partial function that returns when the counter advances.

  \<^bold>\<open>Reports and start.\<close> \<open>Report\<close> (\<open>vsnprintf\<close> into a buffer, the logging hooks, the abort report),
  \<open>App\<close> (\<open>optional/ps4_app.cpp\<close>, \<open>optional/orbis_netlog.cpp\<close>), \<open>Backtrace\<close>, \<open>Crash\<close>, \<open>Crash_Props\<close>
  (the handlers' installation and report, which reads only what the kernel says is readable), \<open>Crt\<close>
  (parameter blocks byte by byte, entry arguments, initialiser walk), \<open>Shims\<close> (\<open>include/sys/sysctl.h\<close>
  with \<open>sysconf\<close>, \<open>include/signal.h\<close>, \<open>include/sys/cpuset.h\<close>, \<open>include/sys/ioccom.h\<close>), \<open>Endian\<close>
  (\<open>include/sys/endian.h\<close>).

  \<^bold>\<open>Fuel.\<close> No definition takes fuel. The loops whose end rests on an invariant (two-way search,
  address search, the spin of the clock probe) are \<open>partial_function\<close>s; all others terminate by a
  measure. The bound on repetitions of pthread's destructor rounds is an argument of \<open>thread_end\<close>, as
  the platform's constant is not in the sources.

  \<^bold>\<open>Not modelled.\<close> The words of log lines, and text that only restates a number printed beside it.
  Sections, symbol visibility and the two assembler files of \<open>crt/\<close>, which are the linker's. Code outside the repository: libkernel, Sony's \<open>_umtx_op\<close>, the unwinder, the C++ runtime, musl's
  allocator. Headers that only name types, prototypes or constants, \<open>optional/orbis_bigheap.c\<close> (two
  exported numbers, which the start files' copies share), the host tests, scripts and documents.
\<close>

end
